(* ===== verification/Prelude.thy ===== *)
theory Prelude
  imports Main "HOL-Library.Word"
begin

text \<open>
  Shared notions of the development: the fixed-width types, the outcome of a C computation that
  can fault, truncating division, flag words, byte buffers with checked \<open>memcpy\<close>, and the byte
  orders of header fields.

  Conventions. An \<open>unsigned\<close> C type is a word of its width, so its arithmetic wraps as in C. A
  signed C type is an \<open>int\<close>: overflow of a signed type is undefined behaviour in C, and no code
  path modelled here relies on it. A pointer is \<open>'a option\<close>, \<open>None\<close> being \<open>NULL\<close>. The host is
  little endian with a 64-bit \<open>long\<close> (the x86-64 Linux machines the program is written for).
\<close>

unbundle bit_operations_syntax

type_synonym u8 = "8 word"
type_synonym u16 = "16 word"
type_synonym u32 = "32 word"
type_synonym u64 = "64 word"
type_synonym addr = nat

named_theorems c_simps "unfolding rules of the C-level helper operations"

section \<open>Computations that can fault\<close>

text \<open>What stops a C computation: a dereference of \<open>NULL\<close>, an access outside an array, a failed
  \<open>assert\<close>, an integer division by zero, a loop that does not end, or an
  operation that C or the POSIX threads standard leaves undefined.\<close>

datatype fault = Null_Deref | Out_Of_Bounds | Assert_Failed | Div_By_Zero | Diverges | Undefined

type_synonym 'a outcome = "fault + 'a"

definition bindE :: "'a outcome \<Rightarrow> ('a \<Rightarrow> 'b outcome) \<Rightarrow> 'b outcome" where
  "bindE m f = (case m of Inl e \<Rightarrow> Inl e | Inr x \<Rightarrow> f x)"

lemma bindE_simps [simp]:
  "bindE (Inl e) f = Inl e"
  "bindE (Inr x) f = f x"
  by (simp_all add: bindE_def)

lemma bindE_eq_Inr: "bindE m f = Inr y \<longleftrightarrow> (\<exists>x. m = Inr x \<and> f x = Inr y)"
  by (cases m) auto

lemma bindE_InrE [elim!]:
  assumes "bindE m f = Inr y"
  obtains x where "m = Inr x" "f x = Inr y"
  using assms by (auto simp: bindE_eq_Inr)

lemma bindE_assoc: "bindE (bindE m f) g = bindE m (\<lambda>x. bindE (f x) g)"
  by (cases m) auto

definition check_assert :: "bool \<Rightarrow> unit outcome" where
  "check_assert b = (if b then Inr () else Inl Assert_Failed)"

lemma check_assert_simps [simp]:
  "check_assert True = Inr ()"
  "check_assert False = Inl Assert_Failed"
  "check_assert b = Inr u \<longleftrightarrow> b"
  by (auto simp: check_assert_def)

definition deref :: "(addr \<Rightarrow> 'n option) \<Rightarrow> addr option \<Rightarrow> 'n outcome" where
  "deref h p = (case p of None \<Rightarrow> Inl Null_Deref
     | Some a \<Rightarrow> (case h a of None \<Rightarrow> Inl Null_Deref | Some n \<Rightarrow> Inr n))"

lemma deref_simps [simp]:
  "deref h None = Inl Null_Deref"
  "h a = Some n \<Longrightarrow> deref h (Some a) = Inr n"
  by (simp_all add: deref_def)

lemma deref_eq_Inr [simp]: "deref h (Some a) = Inr n \<longleftrightarrow> h a = Some n"
  by (simp add: deref_def split: option.split)

definition array_get :: "'a list \<Rightarrow> nat \<Rightarrow> 'a outcome" where
  "array_get xs i = (if i < length xs then Inr (xs ! i) else Inl Out_Of_Bounds)"

definition array_set :: "'a list \<Rightarrow> nat \<Rightarrow> 'a \<Rightarrow> 'a list outcome" where
  "array_set xs i v = (if i < length xs then Inr (xs[i := v]) else Inl Out_Of_Bounds)"

lemma array_get_Inr [simp]: "array_get xs i = Inr v \<longleftrightarrow> i < length xs \<and> v = xs ! i"
  by (auto simp: array_get_def)

lemma array_set_Inr [simp]: "array_set xs i v = Inr ys \<longleftrightarrow> i < length xs \<and> ys = xs[i := v]"
  by (auto simp: array_set_def)

lemma array_in_bounds [simp]:
  "i < length xs \<Longrightarrow> array_get xs i = Inr (xs ! i)"
  "i < length xs \<Longrightarrow> array_set xs i v = Inr (xs[i := v])"
  by (simp_all add: array_get_def array_set_def)

lemma array_out_of_bounds [simp]:
  "\<not> i < length xs \<Longrightarrow> array_get xs i = Inl Out_Of_Bounds"
  "\<not> i < length xs \<Longrightarrow> array_set xs i v = Inl Out_Of_Bounds"
  by (simp_all add: array_get_def array_set_def)

text \<open>A loop defined as a partial function: not ending is the fault \<open>Diverges\<close>.\<close>

definition ended :: "'a outcome option \<Rightarrow> 'a outcome" where
  "ended r = (case r of None \<Rightarrow> Inl Diverges | Some x \<Rightarrow> x)"

lemma ended_Some [simp]: "ended (Some x) = x"
  by (simp add: ended_def)

text \<open>The result of an operation that may sleep: what other threads do is given as a list, one element
  for each wake-up, and when it is used up the caller is still asleep.\<close>

datatype 'a wait = Blocked | Done 'a

section \<open>Integer division of C\<close>

text \<open>Signed division truncates towards zero.\<close>

definition c_div :: "int \<Rightarrow> int \<Rightarrow> int" where
  "c_div a b = sgn a * sgn b * (\<bar>a\<bar> div \<bar>b\<bar>)"

definition c_mod :: "int \<Rightarrow> int \<Rightarrow> int" where
  "c_mod a b = a - c_div a b * b"

lemma c_div_nonneg: "0 \<le> a \<Longrightarrow> 0 < b \<Longrightarrow> c_div a b = a div b"
  by (cases "a = 0") (auto simp: c_div_def sgn_if)

lemma c_div_neg: "a < 0 \<Longrightarrow> 0 < b \<Longrightarrow> c_div a b = - ((- a) div b)"
  by (simp add: c_div_def sgn_if)

lemma c_mod_nonneg: "0 \<le> a \<Longrightarrow> 0 < b \<Longrightarrow> c_mod a b = a mod b"
  by (simp add: c_mod_def c_div_nonneg minus_div_mult_eq_mod)

section \<open>Word bounds\<close>

lemma not_max_plus1:
  assumes "(w :: 'a::len word) < - 1"
  shows "unat (w + 1) = Suc (unat w)" and "0 < w + 1"
proof -
  have "w + 1 \<noteq> 0" using assms by (metis add_eq_0_iff2 less_irrefl)
  then show "unat (w + 1) = Suc (unat w)" "0 < w + 1"
    by (simp_all add: add.commute[of w] unatSuc word_gt_0)
qed

lemma not_max_iff: "(w :: u64) < - 1 \<longleftrightarrow> unat w < 2 ^ 64 - 1"
  by (simp add: word_less_nat_alt unsigned_minus_1_eq_mask mask_eq_exp_minus_1)

section \<open>Flag words\<close>

text \<open>\<open>has x m\<close> is the C test \<open>x & m\<close> used as a condition.\<close>

definition has :: "'a::len word \<Rightarrow> 'a word \<Rightarrow> bool" where
  "has x m \<longleftrightarrow> x AND m \<noteq> 0"

definition flag :: "nat \<Rightarrow> 'a::len word" where
  "flag n = push_bit n 1"

text \<open>The recurring idiom \<open>bits &= ~mask; bits |= value\<close>.\<close>

definition put_field :: "'a::len word \<Rightarrow> 'a word \<Rightarrow> 'a word \<Rightarrow> 'a word" where
  "put_field x m v = (x AND NOT m) OR v"

lemma put_field_get: "v AND m = v \<Longrightarrow> put_field x m v AND m = v"
  unfolding put_field_def by (metis (no_types) bit.conj_cancel_left bit.conj_disj_distrib2 and.assoc
      and.commute bit.conj_zero_right or.left_neutral and.left_commute)

lemma put_field_other:
  "m AND k = 0 \<Longrightarrow> v AND k = 0 \<Longrightarrow> put_field x m v AND k = x AND k"
  unfolding put_field_def
  by (rule bit_word_eqI) (auto simp: bit_simps bit_eq_iff)

lemma has_or: "has (x OR y) m \<longleftrightarrow> has x m \<or> has y m"
  by (auto simp: has_def bit_eq_iff bit_simps)

lemma has_or_self: "m \<noteq> 0 \<Longrightarrow> has (x OR m) m"
  by (auto simp: has_def bit_eq_iff bit_simps)

lemma has_clear_self [simp]: "\<not> has (x AND NOT m) m"
  by (auto simp: has_def bit_eq_iff bit_simps)

lemma has_clear_other: "m AND k = 0 \<Longrightarrow> has (x AND NOT m) k \<longleftrightarrow> has x k"
  by (auto simp: has_def bit_eq_iff bit_simps)

section \<open>Byte buffers\<close>

text \<open>\<open>slice\<close> and \<open>splice\<close> read and overwrite a part of a buffer; \<open>mem_read\<close> and \<open>memcpy_at\<close>
  are the same with the bounds check that C leaves out, a violation being the fault.\<close>

definition slice :: "'a list \<Rightarrow> nat \<Rightarrow> nat \<Rightarrow> 'a list" where
  "slice buf off n = take n (drop off buf)"

definition splice :: "'a list \<Rightarrow> nat \<Rightarrow> 'a list \<Rightarrow> 'a list" where
  "splice buf off src = take off buf @ src @ drop (off + length src) buf"

definition mem_read :: "'a list \<Rightarrow> nat \<Rightarrow> nat \<Rightarrow> 'a list outcome" where
  "mem_read buf off n = (if off + n \<le> length buf then Inr (slice buf off n) else Inl Out_Of_Bounds)"

definition memcpy_at :: "'a list \<Rightarrow> nat \<Rightarrow> 'a list \<Rightarrow> 'a list outcome" where
  "memcpy_at buf off src =
     (if off + length src \<le> length buf then Inr (splice buf off src) else Inl Out_Of_Bounds)"

lemma splice_splice: "off + length x + length y \<le> length D \<Longrightarrow> splice (splice D off x) (off + length x) y = splice D off (x @ y)"
  by (simp add: splice_def ac_simps)

lemma splice_Nil [simp]: "splice D off [] = D"
  by (simp add: splice_def)

lemma length_splice [simp]: "off + length src \<le> length buf \<Longrightarrow> length (splice buf off src) = length buf"
  by (simp add: splice_def)

lemma length_slice [simp]: "off + n \<le> length buf \<Longrightarrow> length (slice buf off n) = n"
  by (simp add: slice_def)

lemma slice_splice_same [simp]:
  "off + length src \<le> length buf \<Longrightarrow> n = length src \<Longrightarrow> slice (splice buf off src) off n = src"
  by (simp add: slice_def splice_def)

lemma slice_splice_before:
  "off' + n \<le> off \<Longrightarrow> off + length src \<le> length buf \<Longrightarrow>
   slice (splice buf off src) off' n = slice buf off' n"
  by (rule nth_equalityI) (auto simp: slice_def splice_def nth_append)

lemma slice_splice_after:
  "off + length src \<le> off' \<Longrightarrow> off + length src \<le> length buf \<Longrightarrow>
   slice (splice buf off src) off' n = slice buf off' n"
  by (rule nth_equalityI) (auto simp: slice_def splice_def nth_append add.assoc)

lemma memcpy_at_Inr [simp]:
  "memcpy_at buf off src = Inr b \<longleftrightarrow> off + length src \<le> length buf \<and> b = splice buf off src"
  by (auto simp: memcpy_at_def)

lemma mem_read_Inr [simp]:
  "mem_read buf off n = Inr b \<longleftrightarrow> off + n \<le> length buf \<and> b = slice buf off n"
  by (auto simp: mem_read_def)

lemma mem_ok [simp]:
  "off + length src \<le> length buf \<Longrightarrow> memcpy_at buf off src = Inr (splice buf off src)"
  "off + n \<le> length buf \<Longrightarrow> mem_read buf off n = Inr (slice buf off n)"
  by simp_all

section \<open>Byte orders\<close>

primrec le_nat :: "u8 list \<Rightarrow> nat" where
  "le_nat [] = 0"
| "le_nat (b # bs) = unat b + 256 * le_nat bs"

primrec to_le :: "nat \<Rightarrow> nat \<Rightarrow> u8 list" where
  "to_le 0 n = []"
| "to_le (Suc k) n = of_nat n # to_le k (n div 256)"

definition le_word :: "u8 list \<Rightarrow> 'a::len word" where
  "le_word bs = of_nat (le_nat bs)"

definition be_word :: "u8 list \<Rightarrow> 'a::len word" where
  "be_word bs = le_word (rev bs)"

definition word_le :: "nat \<Rightarrow> 'a::len word \<Rightarrow> u8 list" where
  "word_le k w = to_le k (unat w)"

definition word_be :: "nat \<Rightarrow> 'a::len word \<Rightarrow> u8 list" where
  "word_be k w = rev (word_le k w)"

lemma length_to_le [simp]: "length (to_le k n) = k"
  by (induction k arbitrary: n) auto

lemma length_word_le [simp]: "length (word_le k w) = k" "length (word_be k w) = k"
  by (simp_all add: word_le_def word_be_def)

lemma le_nat_to_le: "le_nat (to_le k n) = n mod 256 ^ k"
proof (induction k arbitrary: n)
  case 0
  then show ?case by simp
next
  case (Suc k)
  have "unat (of_nat n :: u8) = n mod 256"
    by (simp add: unat_of_nat)
  with Suc show ?case
    by (simp add: mod_mult2_eq)
qed

lemma le_word_word_le [simp]:
  assumes "LENGTH('a) = 8 * k"
  shows "le_word (word_le k (w :: 'a::len word)) = w"
proof -
  have "unat w < 2 ^ (8 * k)"
    using unsigned_less[of w] assms by simp
  then have "unat w < 256 ^ k"
    by (simp add: power_mult)
  then show ?thesis
    by (simp add: le_word_def word_le_def le_nat_to_le)
qed

lemma be_word_word_be [simp]:
  assumes "LENGTH('a) = 8 * k"
  shows "be_word (word_be k (w :: 'a::len word)) = w"
  using assms by (simp add: be_word_def word_be_def)

end
