(* ===== verification/Timer.thy ===== *)
theory Timer
  imports Prelude
begin

text \<open>
  The timer helpers of \<open>src/timer.c\<close> in their default build, where \<open>TIMERTYPE\<close> is
  \<open>struct timespec\<close>. The seconds and nanoseconds are C \<open>long\<close>s. \<open>BILLION\<close> is the literal
  \<open>1E9l\<close>, a \<open>long double\<close> whose 64-bit mantissa represents every value below exactly, so the
  arithmetic is that of the integers and the final conversion to \<open>long\<close> truncates towards zero.
\<close>

record timespec =
  tv_sec :: int
  tv_nsec :: int

definition BILLION :: int where "BILLION = 1000000000"

definition ZEROTIME :: timespec where
  "ZEROTIME = \<lparr>tv_sec = 0, tv_nsec = 0\<rparr>"

definition nanodiff :: "timespec \<Rightarrow> timespec \<Rightarrow> int" where
  "nanodiff start end = (tv_sec end - tv_sec start) * BILLION + (tv_nsec end - tv_nsec start)"

definition nanoadd :: "timespec \<Rightarrow> u64 \<Rightarrow> timespec" where
  "nanoadd datime nanos_to_add =
     (let sum = word_of_int (tv_nsec datime) + nanos_to_add
      in if uint sum \<ge> BILLION
         then datime\<lparr>tv_sec := tv_sec datime + 1,
                     tv_nsec := uint nanos_to_add - (BILLION - tv_nsec datime)\<rparr>
         else datime\<lparr>tv_nsec := sint sum\<rparr>)"

definition get_sec_diff :: "timespec \<Rightarrow> timespec \<Rightarrow> int" where
  "get_sec_diff timenow event =
     c_div ((tv_sec event - tv_sec timenow) * BILLION + (tv_nsec event - tv_nsec timenow)) BILLION"

definition zeroandadd :: "u64 \<Rightarrow> timespec" where
  "zeroandadd nanos_to_add = nanoadd ZEROTIME nanos_to_add"

section \<open>Well-formed times\<close>

definition valid_time :: "timespec \<Rightarrow> bool" where
  "valid_time t \<longleftrightarrow> 0 \<le> tv_nsec t \<and> tv_nsec t < BILLION"

lemma nanoadd_sum_uint:
  assumes "valid_time t" and "uint n < 2 ^ 62"
  shows "uint (word_of_int (tv_nsec t) + n :: u64) = tv_nsec t + uint n"
proof -
  have "uint (word_of_int (tv_nsec t) :: u64) = tv_nsec t"
    using assms(1) by (simp add: valid_time_def BILLION_def uint_word_of_int)
  then show ?thesis
    using assms by (simp add: uint_word_ariths valid_time_def BILLION_def)
qed

lemma nanoadd_cases:
  assumes "valid_time t" and "uint n < 2 ^ 62"
  shows "nanoadd t n =
    (if tv_nsec t + uint n \<ge> BILLION
     then t\<lparr>tv_sec := tv_sec t + 1, tv_nsec := tv_nsec t + uint n - BILLION\<rparr>
     else t\<lparr>tv_nsec := tv_nsec t + uint n\<rparr>)"
proof (cases "tv_nsec t + uint n \<ge> BILLION")
  case True
  then show ?thesis
    using nanoadd_sum_uint[OF assms] by (simp add: nanoadd_def Let_def algebra_simps)
next
  case False
  let ?s = "word_of_int (tv_nsec t) + n :: u64"
  have u: "uint ?s = tv_nsec t + uint n" by (rule nanoadd_sum_uint[OF assms])
  with False have "uint ?s < 2 ^ 63" by (simp add: BILLION_def)
  then have "sint ?s = uint ?s"
    by (simp add: sint_uint signed_take_bit_eq_if_positive bit_iff_odd take_bit_eq_mod)
  with False u show ?thesis by (simp add: nanoadd_def Let_def)
qed

text \<open>Adding a delay moves the clock by exactly that delay, and a delay of at most a second
  keeps the nanosecond field normalised.\<close>

theorem nanoadd_exact:
  assumes "valid_time t" and "uint n \<le> BILLION"
  shows "nanodiff t (nanoadd t n) = uint n \<and> valid_time (nanoadd t n)"
proof -
  have "uint n < 2 ^ 62" using assms(2) by (simp add: BILLION_def)
  with assms show ?thesis
    by (auto simp: nanoadd_cases nanodiff_def valid_time_def BILLION_def algebra_simps)
qed

theorem nanoadd_exact_witness:
  "nanodiff \<lparr>tv_sec = 7, tv_nsec = 999999999\<rparr> (nanoadd \<lparr>tv_sec = 7, tv_nsec = 999999999\<rparr> 5) = uint (5::u64)"
  using nanoadd_exact[of "\<lparr>tv_sec = 7, tv_nsec = 999999999\<rparr>" 5]
  by (simp add: valid_time_def BILLION_def)

lemma get_sec_diff_bounds:
  assumes "valid_time now" and "valid_time ev"
  shows "tv_sec ev - tv_sec now - 1 \<le> get_sec_diff now ev \<and> get_sec_diff now ev \<le> tv_sec ev - tv_sec now + 1"
proof -
  define k where "k = tv_sec ev - tv_sec now"
  define r where "r = tv_nsec ev - tv_nsec now"
  have r: "- 1000000000 < r" "r < 1000000000"
    using assms by (auto simp: r_def valid_time_def BILLION_def)
  have d: "get_sec_diff now ev = c_div (k * 1000000000 + r) 1000000000"
    by (simp add: get_sec_diff_def k_def r_def BILLION_def)
  have pos: "(k * 1000000000 + r) div 1000000000 = k + r div 1000000000"
    by simp
  have "- (k * 1000000000 + r) = (- k) * 1000000000 + (- r)"
    by simp
  then have neg: "(- (k * 1000000000 + r)) div 1000000000 = (- k) + (- r) div 1000000000"
    by simp
  have bound: "- 1 \<le> x div 1000000000 \<and> x div 1000000000 \<le> 1"
    if "- 1000000000 < x" "x < 1000000000" for x :: int
    using that zdiv_mono1[of "- 1000000000" x 1000000000] zdiv_mono1[of x 1000000000 1000000000]
    by simp
  have "- 1 \<le> r div 1000000000" "r div 1000000000 \<le> 1"
    "- 1 \<le> (- r) div 1000000000" "(- r) div 1000000000 \<le> 1"
    using r bound[of r] bound[of "- r"] by simp_all
  then show ?thesis
    unfolding d k_def[symmetric]
    by (cases "k * 1000000000 + r < 0") (simp_all only: c_div_nonneg c_div_neg pos neg not_less, simp_all)
qed

end
