(* ===== verification/Options.thy ===== *)
theory Options
  imports Timer
begin

text \<open>
  The option record of a recording or sending (\<open>struct opt_s\<close> of \<open>src/streamer.h\<close>), its flag
  words, the defaults, the status accessors, the identification of an option record, the transfer
  statistics and the buffer-size calculations of \<open>src/streamer.c\<close>.

  Fields that point to objects modelled elsewhere are left out here and passed to the operations
  that use them: the two resource branches, the streamer entity, \<open>resqut\<close> and the locks. The
  strings are \<open>char\<close> lists without the terminating zero.
\<close>

named_theorems flag_defs "the definitions of the flag constants"

section \<open>Flags (streamer.h, datatypes_common.h)\<close>

definition LOCKER_WRITER :: u64 where [flag_defs]: "LOCKER_WRITER = 0x000000000000000f"
definition BUFFER_RINGBUF :: u64 where [flag_defs]: "BUFFER_RINGBUF = flag 0"
definition WRITER_DUMMY :: u64 where [flag_defs]: "WRITER_DUMMY = flag 1"
definition BUFFER_SIMPLE :: u64 where [flag_defs]: "BUFFER_SIMPLE = flag 2"
definition LOCKER_REC :: u64 where [flag_defs]: "LOCKER_REC = 0x0000000000000ff0"
definition REC_AIO :: u64 where [flag_defs]: "REC_AIO = flag 4"
definition REC_DUMMY :: u64 where [flag_defs]: "REC_DUMMY = flag 5"
definition REC_DEF :: u64 where [flag_defs]: "REC_DEF = flag 6"
definition REC_SPLICER :: u64 where [flag_defs]: "REC_SPLICER = flag 7"
definition REC_WRITEV :: u64 where [flag_defs]: "REC_WRITEV = flag 8"
definition REC_SENDFILE :: u64 where [flag_defs]: "REC_SENDFILE = flag 9"
definition LOCKER_CAPTURE :: u64 where [flag_defs]: "LOCKER_CAPTURE = 0x0000000000fff000"
definition CAPTURE_W_FANOUT :: u64 where [flag_defs]: "CAPTURE_W_FANOUT = flag 12"
definition CAPTURE_W_UDPSTREAM :: u64 where [flag_defs]: "CAPTURE_W_UDPSTREAM = flag 13"
definition CAPTURE_W_DISK2FILE :: u64 where [flag_defs]: "CAPTURE_W_DISK2FILE = flag 14"
definition CAPTURE_W_DUMMY :: u64 where [flag_defs]: "CAPTURE_W_DUMMY = flag 15"
definition CAPTURE_W_TCPSTREAM :: u64 where [flag_defs]: "CAPTURE_W_TCPSTREAM = flag 16"
definition CAPTURE_W_TCPSPLICE :: u64 where [flag_defs]: "CAPTURE_W_TCPSPLICE = flag 17"
definition CAPTURE_W_LOCALSOCKET :: u64 where [flag_defs]: "CAPTURE_W_LOCALSOCKET = flag 18"
definition CAPTURE_W_MULTISTREAM :: u64 where [flag_defs]: "CAPTURE_W_MULTISTREAM = flag 19"
definition VERBOSE :: u64 where [flag_defs]: "VERBOSE = flag 25"
definition MOUNTPOINT_VERBOSE :: u64 where [flag_defs]: "MOUNTPOINT_VERBOSE = flag 26"
definition SIMPLE_BUFFER :: u64 where [flag_defs]: "SIMPLE_BUFFER = flag 27"
definition USE_RX_RING :: u64 where [flag_defs]: "USE_RX_RING = flag 28"
definition GET_A_FILENAME_AS_ARG :: u64 where [flag_defs]: "GET_A_FILENAME_AS_ARG = flag 29"
definition CAN_STRIP_BYTES :: u64 where [flag_defs]: "CAN_STRIP_BYTES = flag 30"
definition WAIT_START_ON_METADATA :: u64 where [flag_defs]: "WAIT_START_ON_METADATA = flag 31"
definition LOCKER_DATATYPE :: u64 where [flag_defs]: "LOCKER_DATATYPE = 0x000000ff00000000"
definition DATATYPE_UNKNOWN :: u64 where [flag_defs]: "DATATYPE_UNKNOWN = flag 32"
definition DATATYPE_VDIF :: u64 where [flag_defs]: "DATATYPE_VDIF = flag 33"
definition DATATYPE_MARK5B :: u64 where [flag_defs]: "DATATYPE_MARK5B = flag 34"
definition DATATYPE_UDPMON :: u64 where [flag_defs]: "DATATYPE_UDPMON = flag 35"
definition DATATYPE_MARK5BNET :: u64 where [flag_defs]: "DATATYPE_MARK5BNET = flag 36"
definition FORCE_SOCKET_REACQUIRE :: u64 where [flag_defs]: "FORCE_SOCKET_REACQUIRE = flag 40"
definition USE_TCP_SOCKET :: u64 where [flag_defs]: "USE_TCP_SOCKET = flag 41"
definition CONNECT_BEFORE_SENDING :: u64 where [flag_defs]: "CONNECT_BEFORE_SENDING = flag 42"
definition WRITE_TO_SINGLE_FILE :: u64 where [flag_defs]: "WRITE_TO_SINGLE_FILE = flag 43"
definition SO_REUSEIT :: u64 where [flag_defs]: "SO_REUSEIT = flag 44"
definition ASYNC_WRITE :: u64 where [flag_defs]: "ASYNC_WRITE = flag 46"
definition READMODE :: u64 where [flag_defs]: "READMODE = flag 47"
definition USE_HUGEPAGE :: u64 where [flag_defs]: "USE_HUGEPAGE = flag 48"
definition USE_LARGEST_TRANSAC :: u64 where [flag_defs]: "USE_LARGEST_TRANSAC = flag 49"
definition MEG :: u64 where [flag_defs]: "MEG = flag 20"
definition GIG :: u64 where [flag_defs]: "GIG = flag 30"

definition STATUS_NOT_STARTED :: u32 where [flag_defs]: "STATUS_NOT_STARTED = flag 0"
definition STATUS_RUNNING :: u32 where [flag_defs]: "STATUS_RUNNING = flag 1"
definition STATUS_STOPPED :: u32 where [flag_defs]: "STATUS_STOPPED = flag 2"
definition STATUS_FINISHED :: u32 where [flag_defs]: "STATUS_FINISHED = flag 3"
definition STATUS_ERROR :: u32 where [flag_defs]: "STATUS_ERROR = flag 4"
definition STATUS_CANCELLED :: u32 where [flag_defs]: "STATUS_CANCELLED = flag 5"

definition RECSTATUS_OK :: u32 where [flag_defs]: "RECSTATUS_OK = flag 0"
definition RECSTATUS_FULL :: u32 where [flag_defs]: "RECSTATUS_FULL = flag 1"
definition RECSTATUS_ERROR :: u32 where [flag_defs]: "RECSTATUS_ERROR = flag 2"

definition BLOCK_ALIGN :: u64 where "BLOCK_ALIGN = 4096"
definition HD_MIN_WRITE_SIZE :: u64 where "HD_MIN_WRITE_SIZE = 16777216"
definition DEF_BUF_ELEM_SIZE :: u64 where "DEF_BUF_ELEM_SIZE = 8192"

section \<open>The option record\<close>

record opt_s =
  opt_filename :: "string option"
  opt_cumul :: u64
  opt_cumul_found :: u64
  opt_last_packet :: u64
  opt_address_to_bind_to :: "string option"
  opt_cfgfile :: "string option"
  opt_diskids :: int
  opt_fi :: "addr option"
  opt_optbits :: u64
  opt_hd_failures :: int
  opt_time :: u64
  opt_port :: int
  opt_minmem :: u64
  opt_maxmem :: u64
  opt_n_threads :: int
  opt_n_drives :: int
  opt_bufculum :: int
  opt_rate :: int
  opt_first_packet :: "u8 list option"
  opt_offset :: int
  opt_offset_onwrite :: int
  opt_disk2fileoutput :: "string option"
  opt_do_w_stuff_every :: u64
  opt_wait_nanoseconds :: int
  opt_wait_last_sent :: timespec
  opt_starting_time :: timespec
  opt_filesize :: u64
  opt_packet_size :: u64
  opt_buf_num_elems :: u32
  opt_buf_division :: int
  opt_hostname :: "string option"
  opt_bytes_exchanged :: u64
  opt_total_packets :: u64
  opt_singlefile_fd :: int
  opt_next_fd_id_to_write :: u64
  opt_stream_multiply :: int
  opt_status :: u32

definition WRITEND_USES_DIRECTIO :: "opt_s \<Rightarrow> bool" where
  "WRITEND_USES_DIRECTIO opt = has (opt_optbits opt) (REC_AIO OR REC_DEF)"

definition WRITEND_DOESNT_SUPPORTS_LIMIT :: "opt_s \<Rightarrow> bool" where
  "WRITEND_DOESNT_SUPPORTS_LIMIT opt = has (opt_optbits opt) REC_WRITEV"

definition CALC_BUFSIZE_FROM_OPT :: "opt_s \<Rightarrow> u64" where
  "CALC_BUFSIZE_FROM_OPT opt =
     ucast (opt_buf_num_elems opt) * (opt_packet_size opt - word_of_int (opt_offset opt))"

definition CALC_BUFSIZE_FROM_OPT_NOOFFSET :: "opt_s \<Rightarrow> u64" where
  "CALC_BUFSIZE_FROM_OPT_NOOFFSET opt = ucast (opt_buf_num_elems opt) * opt_packet_size opt"

text \<open>The option record after \<open>memset(opt, 0, sizeof(struct opt_s))\<close>.\<close>

definition zero_opt :: opt_s where
  "zero_opt = \<lparr>opt_filename = None, opt_cumul = 0, opt_cumul_found = 0, opt_last_packet = 0,
     opt_address_to_bind_to = None, opt_cfgfile = None, opt_diskids = 0, opt_fi = None,
     opt_optbits = 0, opt_hd_failures = 0, opt_time = 0, opt_port = 0, opt_minmem = 0,
     opt_maxmem = 0, opt_n_threads = 0, opt_n_drives = 0, opt_bufculum = 0, opt_rate = 0,
     opt_first_packet = None, opt_offset = 0, opt_offset_onwrite = 0, opt_disk2fileoutput = None,
     opt_do_w_stuff_every = 0, opt_wait_nanoseconds = 0, opt_wait_last_sent = ZEROTIME,
     opt_starting_time = ZEROTIME, opt_filesize = 0, opt_packet_size = 0, opt_buf_num_elems = 0,
     opt_buf_division = 0, opt_hostname = None, opt_bytes_exchanged = 0, opt_total_packets = 0,
     opt_singlefile_fd = 0, opt_next_fd_id_to_write = 0, opt_stream_multiply = 0,
     opt_status = 0\<rparr>"

text \<open>\<open>clear_and_default\<close> in the daemon build. The process id and the configuration handle it also
  sets are not part of the record.\<close>

definition clear_and_default :: opt_s where
  "clear_and_default = zero_opt\<lparr>
     opt_status := STATUS_NOT_STARTED,
     opt_optbits := CAPTURE_W_UDPSTREAM OR DATATYPE_UNKNOWN OR BUFFER_SIMPLE OR REC_DEF OR SIMPLE_BUFFER,
     opt_do_w_stuff_every := HD_MIN_WRITE_SIZE,
     opt_port := 2222,
     opt_n_drives := 1,
     opt_packet_size := DEF_BUF_ELEM_SIZE,
     opt_rate := 10000,
     opt_minmem := 4,
     opt_maxmem := 12,
     opt_stream_multiply := 1\<rparr>"

definition clear_pointers :: "opt_s \<Rightarrow> opt_s" where
  "clear_pointers opt = opt\<lparr>opt_filename := None, opt_address_to_bind_to := None,
     opt_hostname := None, opt_cfgfile := None, opt_disk2fileoutput := None\<rparr>"

definition get_status_from_opt :: "opt_s \<Rightarrow> u32" where
  "get_status_from_opt opt = opt_status opt"

definition set_status_for_opt :: "opt_s \<Rightarrow> u32 \<Rightarrow> opt_s" where
  "set_status_for_opt opt status = opt\<lparr>opt_status := status\<rparr>"

section \<open>Identification queries\<close>

text \<open>The \<open>(val1, val2, iden_type)\<close> triple of the identify callbacks (resourcetree.h): an option
  record is named by its address, a recording by its name.\<close>

datatype iden =
    CHECK_BY_NAME string
  | CHECK_BY_OPTPOINTER addr
  | CHECK_BY_IDSTRING string
  | CHECK_BY_NOTFOUND
  | CHECK_BY_SEQ u64 addr
  | CHECK_BY_OLDSEQ u64 addr
  | CHECK_BY_SOCKETNUM int

text \<open>\<open>optp\<close> is the address of the option record \<open>opt\<close>. \<open>strcmp\<close> on a \<open>NULL\<close> name faults.\<close>

definition iden_from_opt :: "addr \<Rightarrow> opt_s \<Rightarrow> iden \<Rightarrow> bool outcome" where
  "iden_from_opt optp opt q = (case q of
       CHECK_BY_NAME val1 \<Rightarrow>
         (case opt_filename opt of None \<Rightarrow> Inl Null_Deref | Some n \<Rightarrow> Inr (n = val1))
     | CHECK_BY_OPTPOINTER val1 \<Rightarrow> Inr (optp = val1)
     | _ \<Rightarrow> Inr False)"

section \<open>Statistics\<close>

record stats =
  s_total_packets :: u64
  s_total_bytes :: u64
  s_total_written :: u64
  s_incomplete :: u64
  s_dropped :: u64
  s_progress :: int

definition init_stats :: stats where
  "init_stats = \<lparr>s_total_packets = 0, s_total_bytes = 0, s_total_written = 0, s_incomplete = 0,
     s_dropped = 0, s_progress = 0\<rparr>"

text \<open>\<open>neg_stats\<close> without \<open>UGLY_HACKS_ON_STATS\<close>, which no build file sets.\<close>

definition neg_stats :: "stats \<Rightarrow> stats \<Rightarrow> stats" where
  "neg_stats st1 st2 = st1\<lparr>
     s_total_bytes := s_total_bytes st1 - s_total_bytes st2,
     s_incomplete := s_incomplete st1 - s_incomplete st2,
     s_total_written := s_total_written st1 - s_total_written st2,
     s_total_packets := s_total_packets st1 - s_total_packets st2,
     s_dropped := s_dropped st1 - s_dropped st2\<rparr>"

definition add_stats :: "stats \<Rightarrow> stats \<Rightarrow> stats" where
  "add_stats st1 st2 = st1\<lparr>
     s_total_bytes := s_total_bytes st1 + s_total_bytes st2,
     s_incomplete := s_incomplete st1 + s_incomplete st2,
     s_total_written := s_total_written st1 + s_total_written st2,
     s_dropped := s_dropped st1 + s_dropped st2\<rparr>"

text \<open>What the scheduler's midterm printing computes for one event: the difference to the stored
  totals is printed and then added to the stored totals.\<close>

definition midstats_update :: "stats \<Rightarrow> stats \<Rightarrow> stats \<times> stats" where
  "midstats_update now old = (let d = neg_stats now old in (d, add_stats old d))"

end
