(* ===== verification/BufferSizes.thy ===== *)
theory BufferSizes
  imports Options
begin

text \<open>
  The buffer-size calculations of \<open>src/streamer.c\<close>: \<open>rxring_packetadjustment\<close>,
  \<open>calculate_buffer_sizes\<close>, \<open>calculate_buffer_sizes_simple\<close> and
  \<open>calculate_buffer_sizes_singlefilesize\<close> (the one \<open>CALC_BUF_SIZE\<close> selects). A loop that need not
  end is a \<open>partial_function (option)\<close>, \<open>None\<close> being non-termination.
\<close>

section \<open>Padding the packet size for the RX ring\<close>

definition mult16 :: "u64 \<Rightarrow> bool" where
  "mult16 p \<longleftrightarrow> unat p mod 16 = 0"

lemma unat_mod16: "(p :: u64) mod 16 = 0 \<longleftrightarrow> unat p mod 16 = 0"
  by (simp add: word_arith_nat_mod unat_of_nat flip: unat_eq_0)

lemma unat_ucast_mod: "unat (ucast (x :: 'a::len word) :: 'b::len word) = unat x mod 2 ^ LENGTH('b)"
  by (simp add: unsigned_ucast_eq take_bit_eq_mod)

lemma unat_plus1_mod16: "unat ((p :: u64) + 1) mod 16 = (unat p + 1) mod 16"
  by (simp add: unat_word_ariths mod_mod_cancel)

text \<open>The loop counts the padding bytes in \<open>extra\<close> and returns them beside the new packet size.\<close>

function rxring_pad :: "u64 \<Rightarrow> int \<Rightarrow> u64 \<times> int" where
  "rxring_pad packet_size extra =
     (if packet_size mod 16 \<noteq> 0 then rxring_pad (packet_size + 1) (extra + 1)
      else (packet_size, extra))"
  by pat_completeness auto
termination
proof (relation "measure (\<lambda>(p, _). (16 - unat p mod 16) mod 16)")
  fix p :: u64 and e :: int
  assume "p mod 16 \<noteq> 0"
  then have "unat p mod 16 \<noteq> 0" by (simp add: unat_mod16)
  moreover have "unat p mod 16 < 16" by simp
  ultimately have "(16 - (unat p + 1) mod 16) mod 16 < (16 - unat p mod 16) mod 16"
    by (auto simp: mod_Suc)
  then show "((p + 1, e + 1), p, e) \<in> measure (\<lambda>(p, _). (16 - unat p mod 16) mod 16)"
    by (simp add: unat_plus1_mod16)
qed simp

declare rxring_pad.simps [simp del]

definition rxring_packetadjustment :: "opt_s \<Rightarrow> opt_s \<times> int" where
  "rxring_packetadjustment opt =
     (case rxring_pad (opt_packet_size opt) 0 of (p, extra) \<Rightarrow> (opt\<lparr>opt_packet_size := p\<rparr>, extra))"

lemma rxring_pad_result:
  "rxring_pad p e = (q, x) \<Longrightarrow>
   mult16 q \<and> e \<le> x \<and> q = p + word_of_int (x - e) \<and>
   (\<forall>i. e \<le> i \<and> i < x \<longrightarrow> \<not> mult16 (p + word_of_int (i - e)))"
proof (induction p e rule: rxring_pad.induct)
  case (1 p e)
  show ?case
  proof (cases "p mod 16 = 0")
    case True
    with 1(2) have "q = p" "x = e" by (simp_all add: rxring_pad.simps[of p e])
    moreover from True have "mult16 p" by (simp add: mult16_def unat_mod16)
    ultimately show ?thesis by (intro conjI) auto
  next
    case False
    with 1(2) have "rxring_pad (p + 1) (e + 1) = (q, x)"
      by (simp add: rxring_pad.simps[of p e])
    from 1(1)[OF False this] have IH: "mult16 q" "e + 1 \<le> x"
      "q = p + 1 + word_of_int (x - (e + 1))"
      "\<And>i. e + 1 \<le> i \<Longrightarrow> i < x \<Longrightarrow> \<not> mult16 (p + 1 + word_of_int (i - (e + 1)))"
      by auto
    have shift: "p + 1 + word_of_int (i - (e + 1)) = p + word_of_int (i - e)" for i
      by (simp add: wi_hom_syms)
    have "\<not> mult16 (p + word_of_int (i - e))" if "e \<le> i" "i < x" for i
    proof (cases "i = e")
      case True
      from False have "\<not> mult16 p" by (simp add: mult16_def unat_mod16)
      with True show ?thesis by simp
    next
      case neq: False
      with that IH(4)[of i] have "\<not> mult16 (p + 1 + word_of_int (i - (e + 1)))" by simp
      then show ?thesis by (simp only: shift not_False_eq_True)
    qed
    moreover have "q = p + word_of_int (x - e)" using IH(3) shift[of x] by metis
    moreover have "e \<le> x" using IH(2) by simp
    ultimately show ?thesis using IH(1) by blast
  qed
qed

text \<open>With the RX ring the packet size is rounded up to the next multiple of 16, by the smallest
  number of padding bytes, which is the returned value.\<close>

theorem rxring_packetadjustment_least:
  assumes "rxring_packetadjustment opt = (opt', extra)"
  shows "mult16 (opt_packet_size opt') \<and> 0 \<le> extra \<and>
    opt' = opt\<lparr>opt_packet_size := opt_packet_size opt + word_of_int extra\<rparr> \<and>
    (\<forall>i. 0 \<le> i \<and> i < extra \<longrightarrow> \<not> mult16 (opt_packet_size opt + word_of_int i))"
proof -
  obtain q x where r: "rxring_pad (opt_packet_size opt) 0 = (q, x)" by fastforce
  with assms have "opt' = opt\<lparr>opt_packet_size := q\<rparr>" "extra = x"
    by (simp_all add: rxring_packetadjustment_def)
  with rxring_pad_result[OF r] show ?thesis by auto
qed

theorem rxring_packetadjustment_least_witness:
  "rxring_packetadjustment (zero_opt\<lparr>opt_packet_size := 8206\<rparr>) = (zero_opt\<lparr>opt_packet_size := 8208\<rparr>, 2) \<and>
   (zero_opt\<lparr>opt_packet_size := 8208\<rparr>) =
     (zero_opt\<lparr>opt_packet_size := 8206\<rparr>)\<lparr>opt_packet_size := 8206 + word_of_int 2\<rparr>"
proof -
  have r: "rxring_packetadjustment (zero_opt\<lparr>opt_packet_size := 8206\<rparr>) = (zero_opt\<lparr>opt_packet_size := 8208\<rparr>, 2)"
    by (simp add: rxring_packetadjustment_def rxring_pad.simps)
  from rxring_packetadjustment_least[OF r] r show ?thesis by simp
qed

section \<open>Fixed file size (the calculation of the default build)\<close>

definition calculate_buffer_sizes_singlefilesize :: "opt_s \<Rightarrow> opt_s outcome" where
  "calculate_buffer_sizes_singlefilesize opt =
     (let opt1 = (if has (opt_optbits opt) USE_RX_RING then fst (rxring_packetadjustment opt) else opt)
      in if opt_packet_size opt1 = 0 \<or> opt_filesize opt1 = 0 then Inl Div_By_Zero
         else Inr (opt1\<lparr>
           opt_buf_num_elems := ucast (opt_filesize opt1 div opt_packet_size opt1),
           opt_n_threads := sint (ucast ((opt_maxmem opt1 * GIG) div opt_filesize opt1) :: u32)\<rparr>))"

section \<open>Power-of-two file sizes\<close>

partial_function (option) grow_division :: "u64 \<Rightarrow> u64 \<Rightarrow> int \<Rightarrow> int option" where
  "grow_division packet_size filesize d =
     (if packet_size * BLOCK_ALIGN * word_of_int d \<le> filesize * MEG
      then grow_division packet_size filesize (d * 2) else Some d)"

declare grow_division.simps [code]

partial_function (option) grow_threads :: "u64 \<Rightarrow> u32 \<Rightarrow> u64 \<Rightarrow> int \<Rightarrow> int option" where
  "grow_threads packet_size elems maxmem n =
     (if word_of_int n * packet_size * ucast elems < maxmem * GIG
      then grow_threads packet_size elems maxmem (n + 1) else Some n)"

declare grow_threads.simps [code]

definition calculate_buffer_sizes_simple :: "opt_s \<Rightarrow> opt_s option" where
  "calculate_buffer_sizes_simple opt =
     (let opt1 = (if has (opt_optbits opt) USE_RX_RING then fst (rxring_packetadjustment opt) else opt)
      in case grow_division (opt_packet_size opt1) (opt_filesize opt1) 8 of
           None \<Rightarrow> None
         | Some d \<Rightarrow>
            (let opt2 = opt1\<lparr>opt_buf_division := d,
                   opt_buf_num_elems := 4096 * word_of_int d,
                   opt_do_w_stuff_every := BLOCK_ALIGN * opt_packet_size opt1\<rparr>
             in case grow_threads (opt_packet_size opt2) (opt_buf_num_elems opt2) (opt_maxmem opt2) 1 of
                  None \<Rightarrow> None
                | Some n \<Rightarrow> Some (opt2\<lparr>opt_n_threads := n - 1\<rparr>)))"

section \<open>The general search for an aligned write size\<close>

partial_function (option) fill_minmem :: "u64 \<Rightarrow> int \<Rightarrow> u64 \<Rightarrow> int \<Rightarrow> int option" where
  "fill_minmem w threads minmem d =
     (if w * word_of_int d * word_of_int threads < minmem * GIG
      then fill_minmem w threads minmem (d + 1) else Some d)"

declare fill_minmem.simps [code]

text \<open>The inner loop: grow the write size by packets until it is block aligned, \<open>None\<close> inside the
  option when the memory limit is reached first.\<close>

partial_function (option) grow_aligned :: "u64 \<Rightarrow> int \<Rightarrow> int \<Rightarrow> u64 \<Rightarrow> u64 \<Rightarrow> u64 option option" where
  "grow_aligned packet_size d threads maxmem w =
     (if w * word_of_int d * word_of_int threads < maxmem * GIG
      then if w mod BLOCK_ALIGN = 0 then Some (Some w)
           else grow_aligned packet_size d threads maxmem (w + packet_size)
      else Some None)"

declare grow_aligned.simps [code]

partial_function (option) search_aligned :: "u64 \<Rightarrow> int \<Rightarrow> u64 \<Rightarrow> u64 \<Rightarrow> int \<Rightarrow> (u64 \<times> int) option option" where
  "search_aligned packet_size threads maxmem w d =
     (if d > 0
      then case grow_aligned packet_size d threads maxmem w of
             None \<Rightarrow> None
           | Some (Some w') \<Rightarrow> Some (Some (w', d))
           | Some None \<Rightarrow> search_aligned packet_size threads maxmem w (d - 1)
      else Some None)"

declare search_aligned.simps [code]

text \<open>\<open>Some (Inr opt)\<close> is the return value 0, \<open>Some (Inl opt)\<close> the return value -1 (no alignment).\<close>

definition calculate_buffer_sizes :: "opt_s \<Rightarrow> (opt_s + opt_s) option" where
  "calculate_buffer_sizes opt =
     (let opt1 = (if has (opt_optbits opt) USE_RX_RING then fst (rxring_packetadjustment opt) else opt);
          p = opt_packet_size opt1;
          w = (opt_do_w_stuff_every opt1 div p) * p
      in case fill_minmem w (opt_n_threads opt1) (opt_minmem opt1) 8 of
           None \<Rightarrow> None
         | Some d \<Rightarrow>
            (case search_aligned p (opt_n_threads opt1) (opt_maxmem opt1) w d of
               None \<Rightarrow> None
             | Some None \<Rightarrow> Some (Inl (opt1\<lparr>opt_do_w_stuff_every := w, opt_buf_division := 0\<rparr>))
             | Some (Some (w', d')) \<Rightarrow>
                Some (Inr (opt1\<lparr>opt_do_w_stuff_every := w', opt_buf_division := d',
                  opt_buf_num_elems := ucast ((w' * word_of_int d') div p)\<rparr>))))"

lemma grow_aligned_sound:
  assumes "grow_aligned p d n maxmem w = Some (Some w')"
  shows "w' mod BLOCK_ALIGN = 0 \<and> w' * word_of_int d * word_of_int n < maxmem * GIG \<and>
    (\<exists>k. w' = w + of_nat k * p)"
proof -
  have "\<forall>v. r = Some v \<longrightarrow> v mod BLOCK_ALIGN = 0 \<and> v * word_of_int d * word_of_int n < maxmem * GIG \<and>
    (\<exists>k. v = w + of_nat k * p)" if "grow_aligned p d n maxmem w = Some r" for r
  proof (rule grow_aligned.raw_induct[where P = "\<lambda>p d n maxmem w r. \<forall>v. r = Some v \<longrightarrow>
      v mod BLOCK_ALIGN = 0 \<and> v * word_of_int d * word_of_int n < maxmem * GIG \<and>
      (\<exists>k. v = w + of_nat k * p)", OF _ that])
    fix f p d n maxmem w r
    assume IH: "\<And>p d n maxmem w r. f p d n maxmem w = Some r \<Longrightarrow>
        \<forall>v. r = Some v \<longrightarrow> v mod BLOCK_ALIGN = 0 \<and>
          v * word_of_int d * word_of_int n < maxmem * GIG \<and> (\<exists>k. v = w + of_nat k * p)"
      and eq: "(if w * word_of_int d * word_of_int n < maxmem * GIG
        then if w mod BLOCK_ALIGN = 0 then Some (Some w) else f p d n maxmem (w + p)
        else Some None) = Some r"
    have *: "\<exists>k. w + p + of_nat j * p = w + of_nat k * p" for j
      by (rule exI[of _ "Suc j"]) (simp add: algebra_simps)
    have **: "\<exists>k. w = w + of_nat k * p"
      by (rule exI[of _ 0]) simp
    show "\<forall>v. r = Some v \<longrightarrow> v mod BLOCK_ALIGN = 0 \<and>
          v * word_of_int d * word_of_int n < maxmem * GIG \<and> (\<exists>k. v = w + of_nat k * p)"
      using eq IH[of p d n maxmem "w + p" r] * ** by (fastforce split: if_splits)
  qed
  with assms show ?thesis by blast
qed

lemma search_aligned_sound:
  assumes "search_aligned p n maxmem w d = Some (Some (w', d'))"
  shows "0 < d' \<and> grow_aligned p d' n maxmem w = Some (Some w')"
proof -
  have "\<forall>v e. r = Some (v, e) \<longrightarrow> 0 < e \<and> grow_aligned p e n maxmem w = Some (Some v)"
    if "search_aligned p n maxmem w d = Some r" for r
  proof (rule search_aligned.raw_induct[where P = "\<lambda>p n maxmem w d r. \<forall>v e. r = Some (v, e) \<longrightarrow>
      0 < e \<and> grow_aligned p e n maxmem w = Some (Some v)", OF _ that])
    fix f p n maxmem w d r
    assume IH: "\<And>p n maxmem w d r. f p n maxmem w d = Some r \<Longrightarrow>
        \<forall>v e. r = Some (v, e) \<longrightarrow> 0 < e \<and> grow_aligned p e n maxmem w = Some (Some v)"
      and eq: "(if d > 0
        then case grow_aligned p d n maxmem w of None \<Rightarrow> None
             | Some (Some w') \<Rightarrow> Some (Some (w', d)) | Some None \<Rightarrow> f p n maxmem w (d - 1)
        else Some None) = Some r"
    show "\<forall>v e. r = Some (v, e) \<longrightarrow> 0 < e \<and> grow_aligned p e n maxmem w = Some (Some v)"
      using eq IH[of p n maxmem w "d - 1" r] by (auto split: if_splits option.splits)
  qed
  with assms show ?thesis by blast
qed



text \<open>The buffers of the default build fill the file size up to less than one packet, and the
  buffer threads together stay within the memory limit.\<close>

theorem singlefilesize_fits:
  assumes "calculate_buffer_sizes_singlefilesize opt = Inr opt'"
    and "\<not> has (opt_optbits opt) USE_RX_RING"
    and "unat (opt_filesize opt) div unat (opt_packet_size opt) < 2 ^ 32"
    and "unat (opt_maxmem opt) < 2 ^ 34"
    and "unat (opt_maxmem opt) * 2 ^ 30 div unat (opt_filesize opt) < 2 ^ 31"
  shows "unat (CALC_BUFSIZE_FROM_OPT_NOOFFSET opt') \<le> unat (opt_filesize opt) \<and>
    unat (opt_filesize opt) < unat (CALC_BUFSIZE_FROM_OPT_NOOFFSET opt') + unat (opt_packet_size opt) \<and>
    0 \<le> opt_n_threads opt' \<and>
    opt_n_threads opt' * uint (opt_filesize opt) \<le> uint (opt_maxmem opt) * 2 ^ 30"
proof -
  define F where "F = unat (opt_filesize opt)"
  define P where "P = unat (opt_packet_size opt)"
  define M where "M = unat (opt_maxmem opt)"
  from assms(1,2) have nz: "opt_packet_size opt \<noteq> 0" "opt_filesize opt \<noteq> 0"
    and o': "opt' = opt\<lparr>opt_buf_num_elems := ucast (opt_filesize opt div opt_packet_size opt),
           opt_n_threads := sint (ucast ((opt_maxmem opt * GIG) div opt_filesize opt) :: u32)\<rparr>"
    by (auto simp: calculate_buffer_sizes_singlefilesize_def split: if_splits)
  then have P0: "P > 0" by (simp add: P_def unat_gt_0)
  have e: "unat (opt_buf_num_elems opt') = F div P"
    using assms(3) by (simp add: o' F_def P_def unat_ucast_mod unat_div)
  have FP: "F div P * P \<le> F" by simp
  have F64: "F < 2 ^ 64" using unsigned_less[of "opt_filesize opt"] by (simp add: F_def)
  from FP F64 have FP64: "F div P * P mod 2 ^ 64 = F div P * P"
    by (intro mod_less) linarith
  have b: "unat (CALC_BUFSIZE_FROM_OPT_NOOFFSET opt') = F div P * P"
    using FP64 e assms(3) by (simp add: CALC_BUFSIZE_FROM_OPT_NOOFFSET_def
      unat_word_ariths unat_ucast_mod o' flip: P_def)
  have less: "F < F div P * P + P"
    using P0 by (metis add.commute dividend_less_div_times)
  have g: "unat (opt_maxmem opt * GIG) = M * 2 ^ 30"
    using assms(4) by (simp add: GIG_def flag_def unat_word_ariths M_def)
  have q: "unat (opt_maxmem opt * GIG div opt_filesize opt) = M * 2 ^ 30 div F"
    by (simp add: unat_div g F_def)
  define t where "t = opt_maxmem opt * GIG div opt_filesize opt"
  have ut: "uint t = int (M * 2 ^ 30 div F)"
    using q by (metis t_def uint_nat)
  have tl: "uint t < 2 ^ 31"
    using assms(5) unfolding ut M_def F_def by (metis of_nat_less_iff of_nat_numeral of_nat_power)
  have n: "opt_n_threads opt' = int (M * 2 ^ 30 div F)"
  proof -
    have "sint (ucast t :: u32) = signed_take_bit 31 (uint t)"
      by (simp add: sint_uint unsigned_ucast_eq signed_take_bit_take_bit)
    also have "\<dots> = uint t"
      using tl unsigned_greater_eq[of t, where 'a = int]
      by (intro signed_take_bit_int_eq_self) linarith+
    finally show ?thesis by (simp add: o' t_def[symmetric] ut)
  qed
  have "(M * 2 ^ 30 div F) * F \<le> M * 2 ^ 30" by simp
  then have "int (M * 2 ^ 30 div F) * int F \<le> int M * 2 ^ 30"
    by (metis of_nat_le_iff of_nat_mult of_nat_numeral of_nat_power)
  then show ?thesis
    using FP less b n by (simp add: F_def P_def M_def)
qed

theorem singlefilesize_fits_witness:
  "\<exists>opt'. calculate_buffer_sizes_singlefilesize (clear_and_default\<lparr>opt_filesize := 536870912\<rparr>) = Inr opt' \<and>
     opt_buf_num_elems opt' = 65536 \<and> opt_n_threads opt' = 24 \<and>
     unat (CALC_BUFSIZE_FROM_OPT_NOOFFSET opt') \<le> 536870912"
proof -
  let ?o = "clear_and_default\<lparr>opt_filesize := 536870912\<rparr>"
  have o: "\<not> has (opt_optbits ?o) USE_RX_RING" "opt_packet_size ?o = 8192"
    "opt_maxmem ?o = 12" "opt_filesize ?o = 536870912"
    by (simp_all add: clear_and_default_def zero_opt_def has_def flag_defs flag_def
        DEF_BUF_ELEM_SIZE_def)
  have r: "calculate_buffer_sizes_singlefilesize ?o =
      Inr (?o\<lparr>opt_buf_num_elems := 65536, opt_n_threads := 24\<rparr>)"
    using o by (simp add: calculate_buffer_sizes_singlefilesize_def GIG_def flag_def)
  from singlefilesize_fits[OF r] o r show ?thesis by simp
qed

end
