(* ===== verification/Datatypes.thy ===== *)
theory Datatypes
  imports Options
begin

text \<open>
  The packet formats of \<open>src/datatypes_common.c/.h\<close> and \<open>src/datatypes.c\<close>: the fields of VDIF,
  Mark5B, Mark5B-over-UDP and UDPMON headers, sequence numbers, time stamps, and the filling of
  holes in a recorded buffer with generated headers.

  A header or a buffer is the list of its bytes from the pointer on; a read or write outside is the
  fault \<open>Out_Of_Bounds\<close>. \<open>mktime\<close> and \<open>timezone\<close> of the C library are parameters.
\<close>

section \<open>Types and constants\<close>

record tm =
  tm_hour :: int
  tm_min :: int
  tm_sec :: int
  tm_year :: int
  tm_mon :: int
  tm_mday :: int

text \<open>A pointer into a buffer: the address of the entity that owns the buffer and a byte offset.\<close>

type_synonym bufptr = "(addr \<times> int) option"

record resq_info =
  resq_inc_before :: "addr option"
  resq_inc :: "addr option"
  resq_buf :: bufptr
  resq_usebuf :: bufptr
  resq_bufstart :: bufptr
  resq_bufstart_before :: bufptr
  resq_before :: "addr option"
  resq_current_seq :: int
  resq_seqstart_current :: int
  resq_i :: int
  resq_packets_per_second :: int
  resq_packetsecdif :: int
  resq_tm_s :: tm
  resq_starting_second :: int

definition SECONDS_IN_DAY :: int where "SECONDS_IN_DAY = 86400"
definition MIDNIGHTRESHOLD :: int where "MIDNIGHTRESHOLD = 10000"
definition INT32_MAX :: int where "INT32_MAX = 2147483647"
definition INT32_MIN :: int where "INT32_MIN = - 2147483648"
definition INT64_MAX :: int where "INT64_MAX = 9223372036854775807"
definition NONEVEN_PACKET :: int where "NONEVEN_PACKET = INT32_MAX"
definition MARK5BSYNCWORD :: u32 where "MARK5BSYNCWORD = 0xABADDEED"

definition HSIZE_VDIF :: nat where "HSIZE_VDIF = 16"
definition HSIZE_MARK5B :: nat where "HSIZE_MARK5B = 16"
definition HSIZE_UDPMON :: nat where "HSIZE_UDPMON = 8"
definition HSIZE_MARK5BNET :: nat where "HSIZE_MARK5BNET = 24"

lemmas hsize_defs = HSIZE_VDIF_def HSIZE_MARK5B_def HSIZE_UDPMON_def HSIZE_MARK5BNET_def

text \<open>A word load in host byte order, and the same after \<open>be32toh\<close>/\<open>be64toh\<close>.\<close>

definition load_le :: "u8 list \<Rightarrow> nat \<Rightarrow> nat \<Rightarrow> 'a::len word outcome" where
  "load_le buf off n = bindE (mem_read buf off n) (\<lambda>b. Inr (le_word b))"

definition load_be :: "u8 list \<Rightarrow> nat \<Rightarrow> nat \<Rightarrow> 'a::len word outcome" where
  "load_be buf off n = bindE (mem_read buf off n) (\<lambda>b. Inr (be_word b))"

definition sec_of_day :: "tm \<Rightarrow> int" where
  "sec_of_day t = tm_hour t * 60 * 60 + tm_min t * 60 + tm_sec t"

section \<open>Mark5B time stamps\<close>

text \<open>\<open>sprintf(temp, "%X", n)\<close> as the list of hexadecimal digit values, and \<open>atoi\<close> on that string:
  the decimal value of the digits before the first letter.\<close>

fun hex_digits :: "nat \<Rightarrow> nat list" where
  "hex_digits n = (if n < 16 then [n] else hex_digits (n div 16) @ [n mod 16])"

declare hex_digits.simps [simp del]

definition atoi_digits :: "nat list \<Rightarrow> nat" where
  "atoi_digits ds = foldl (\<lambda>acc d. 10 * acc + d) 0 (takeWhile (\<lambda>d. d < 10) ds)"

definition DAY_FROM_MARK5B :: "u8 list \<Rightarrow> u32 outcome" where
  "DAY_FROM_MARK5B x = bindE (load_le x 8 4) (\<lambda>w. Inr (drop_bit 20 (w AND 0xfff00000)))"

definition SECOND_FROM_MARK5B :: "u8 list \<Rightarrow> u32 outcome" where
  "SECOND_FROM_MARK5B x = bindE (load_le x 8 4) (\<lambda>w. Inr (w AND 0x000fffff))"

text \<open>\<open>get_sec_and_day_from_mark5b\<close> stores the pair \<open>(sec, day)\<close> and returns 0.\<close>

definition get_sec_and_day_from_mark5b :: "u8 list \<Rightarrow> (int \<times> int) outcome" where
  "get_sec_and_day_from_mark5b buffer =
     bindE (DAY_FROM_MARK5B buffer) (\<lambda>d.
     bindE (SECOND_FROM_MARK5B buffer) (\<lambda>s.
       Inr (int (atoi_digits (hex_digits (unat s))), int (atoi_digits (hex_digits (unat d))))))"

definition get_sec_and_day_from_mark5b_net :: "u8 list \<Rightarrow> (int \<times> int) outcome" where
  "get_sec_and_day_from_mark5b_net buffer = get_sec_and_day_from_mark5b (drop 8 buffer)"

definition syncword_check :: "u8 list \<Rightarrow> bool outcome" where
  "syncword_check buffer = bindE (load_le buffer 0 4) (\<lambda>w. Inr (w = MARK5BSYNCWORD))"

definition secdiff_from_mark5b :: "u8 list \<Rightarrow> tm \<Rightarrow> int outcome" where
  "secdiff_from_mark5b buffer reftime =
     bindE (get_sec_and_day_from_mark5b buffer) (\<lambda>(m5seconds, m5days).
       let secofday = sec_of_day reftime in Inr (
         if secofday > SECONDS_IN_DAY - MIDNIGHTRESHOLD \<and> m5seconds < MIDNIGHTRESHOLD
         then - ((SECONDS_IN_DAY - secofday) + m5seconds)
         else if secofday < MIDNIGHTRESHOLD \<and> m5seconds > SECONDS_IN_DAY - MIDNIGHTRESHOLD
         then (SECONDS_IN_DAY - m5seconds) + secofday
         else secofday - m5seconds))"

text \<open>The result is the pair of the return value and the value stored through \<open>errref\<close>, \<open>None\<close> when
  nothing is stored.\<close>

definition secdiff_from_mark5b_net :: "u8 list \<Rightarrow> tm \<Rightarrow> (int \<times> int option) outcome" where
  "secdiff_from_mark5b_net buffer reftime =
     bindE (syncword_check (drop 8 buffer)) (\<lambda>ok.
       if \<not> ok then Inr (NONEVEN_PACKET, Some NONEVEN_PACKET)
       else bindE (secdiff_from_mark5b (drop 8 buffer) reftime) (\<lambda>d. Inr (d, None)))"

definition epochtime_from_mark5b :: "(tm \<Rightarrow> int) \<Rightarrow> int \<Rightarrow> u8 list \<Rightarrow> tm \<Rightarrow> int outcome" where
  "epochtime_from_mark5b mktime timezone buffer reftime =
     bindE (get_sec_and_day_from_mark5b buffer) (\<lambda>(m5seconds, m5days).
       let m5tm = \<lparr>tm_hour = c_div m5seconds (60 * 60),
                   tm_min = c_div (c_mod m5seconds (60 * 60)) 60,
                   tm_sec = c_mod (c_mod m5seconds (60 * 60)) 60,
                   tm_year = tm_year reftime, tm_mon = tm_mon reftime,
                   tm_mday = tm_mday reftime\<rparr>;
           m5tm' = (if tm_hour reftime = 23 \<and> m5seconds < MIDNIGHTRESHOLD
                    then m5tm\<lparr>tm_mday := tm_mday m5tm + 1\<rparr>
                    else if tm_hour reftime < 0 \<and> m5seconds > SECONDS_IN_DAY - MIDNIGHTRESHOLD
                    then m5tm\<lparr>tm_mday := tm_mday m5tm - 1\<rparr>
                    else m5tm)
       in Inr (mktime m5tm' - timezone))"

definition epochtime_from_mark5b_net :: "(tm \<Rightarrow> int) \<Rightarrow> int \<Rightarrow> u8 list \<Rightarrow> tm \<Rightarrow> int outcome" where
  "epochtime_from_mark5b_net mktime timezone buffer reftime =
     bindE (syncword_check (drop 8 buffer)) (\<lambda>ok.
       if \<not> ok then Inr NONEVEN_PACKET
       else epochtime_from_mark5b mktime timezone (drop 8 buffer) reftime)"

section \<open>Sequence numbers\<close>

definition get_datatype_from_string :: "string \<Rightarrow> u64" where
  "get_datatype_from_string m =
     (if m = ''unknown'' then DATATYPE_UNKNOWN
      else if m = ''vdif'' then DATATYPE_VDIF
      else if m = ''mark5bnet'' then DATATYPE_MARK5BNET
      else if m = ''mark5b'' then DATATYPE_MARK5B
      else if m = ''udpmon'' then DATATYPE_UDPMON
      else 0)"

definition get_a_count :: "u8 list \<Rightarrow> int \<Rightarrow> nat \<Rightarrow> bool \<Rightarrow> u64 outcome" where
  "get_a_count buffer wordsize offset change_endianess =
     (if wordsize = 4
      then (if change_endianess
            then bindE (load_be buffer (4 * offset) 4) (\<lambda>w. Inr (ucast (w :: u32)))
            else bindE (load_le buffer (4 * offset) 4) (\<lambda>w. Inr (ucast (w :: u32))))
      else if wordsize = 8
      then (if change_endianess then load_be buffer (8 * offset) 8 else load_le buffer (8 * offset) 8)
      else Inr (- 1))"

definition getseq_mark5b_net :: "u8 list \<Rightarrow> int outcome" where
  "getseq_mark5b_net header = bindE (load_le header 4 4) (\<lambda>w. Inr (sint (w :: u32)))"

definition getseq_udpmon :: "u8 list \<Rightarrow> u64 outcome" where
  "getseq_udpmon header = get_a_count header (int HSIZE_UDPMON) 0 True"

definition SET_FRAMENUM_FOR_UDPMON :: "u8 list \<Rightarrow> u64 \<Rightarrow> u8 list outcome" where
  "SET_FRAMENUM_FOR_UDPMON target framenum = memcpy_at target 0 (word_be 8 framenum)"

definition SET_FRAMENUM_FOR_MARK5BNET :: "u8 list \<Rightarrow> int \<Rightarrow> u8 list outcome" where
  "SET_FRAMENUM_FOR_MARK5BNET target framenum =
     memcpy_at target 4 (word_le 4 (word_of_int framenum :: u32))"

definition SECOND_FROM_VDIF :: "u8 list \<Rightarrow> int outcome" where
  "SECOND_FROM_VDIF x = bindE (load_le x 0 4) (\<lambda>w. Inr (uint ((w :: u32) AND 0x3fffffff)))"

definition FRAMENUM_FROM_VDIF :: "u8 list \<Rightarrow> int outcome" where
  "FRAMENUM_FROM_VDIF x = bindE (load_be x 4 4) (\<lambda>w. Inr (uint ((w :: u32) AND 0x00ffffff)))"

text \<open>A \<open>long\<close> stored into an \<open>int\<close>.\<close>

definition to_int32 :: "int \<Rightarrow> int" where
  "to_int32 x = sint (word_of_int x :: u32)"

definition getseq_vdif :: "u8 list \<Rightarrow> resq_info \<Rightarrow> (int \<times> resq_info) outcome" where
  "getseq_vdif header resq =
     bindE (SECOND_FROM_VDIF header) (\<lambda>second.
     bindE (FRAMENUM_FROM_VDIF header) (\<lambda>framenum.
       if resq_starting_second resq = - 1
       then Inr (framenum, resq\<lparr>resq_starting_second := to_int32 second\<rparr>)
       else if resq_packets_per_second resq = - 1 \<and> second = resq_current_seq resq
       then Inr (framenum, resq)
       else
         let resq' = (if resq_packets_per_second resq = - 1
               then resq\<lparr>resq_packets_per_second := to_int32 (resq_current_seq resq),
                         resq_packetsecdif := to_int32 (second - resq_starting_second resq)\<rparr>
               else resq)
         in if resq_packets_per_second resq' = 0
            then (if resq_packetsecdif resq' = 0 then Inl Div_By_Zero
                  else Inr (c_div (second - resq_starting_second resq') (resq_packetsecdif resq'), resq'))
            else Inr ((second - resq_starting_second resq') * resq_packets_per_second resq' + framenum, resq')))"

text \<open>\<open>increment_header\<close>: the changed header and the return value.\<close>

definition increment_header :: "u8 list \<Rightarrow> u64 \<Rightarrow> (u8 list \<times> int) outcome" where
  "increment_header modelheader datatype =
     (let t = datatype AND LOCKER_DATATYPE in
      if t = DATATYPE_VDIF then Inr (modelheader, 0)
      else if t = DATATYPE_MARK5B then Inr (modelheader, 0)
      else if t = DATATYPE_UDPMON
      then bindE (getseq_udpmon modelheader) (\<lambda>s.
           bindE (SET_FRAMENUM_FOR_UDPMON modelheader (s + 1)) (\<lambda>h. Inr (h, 0)))
      else if t = DATATYPE_MARK5BNET
      then bindE (getseq_mark5b_net modelheader) (\<lambda>s.
           bindE (SET_FRAMENUM_FOR_MARK5BNET modelheader (s + 1)) (\<lambda>h. Inr (h, 0)))
      else Inr (modelheader, - 1))"

text \<open>The number of header bytes that the metadata copies of each type move, \<open>None\<close> in the
  \<open>default\<close> branch. \<open>copy_metadata\<close>, \<open>fillpattern\<close> and \<open>init_header\<close> have the same switch.\<close>

definition header_size :: "u64 \<Rightarrow> nat option" where
  "header_size type =
     (let t = type AND LOCKER_DATATYPE in
      if t = DATATYPE_VDIF then Some HSIZE_VDIF
      else if t = DATATYPE_MARK5B then Some HSIZE_MARK5B
      else if t = DATATYPE_UDPMON then Some HSIZE_UDPMON
      else if t = DATATYPE_MARK5BNET then Some HSIZE_MARK5BNET
      else None)"

definition copy_metadata :: "u8 list \<Rightarrow> u8 list \<Rightarrow> u64 \<Rightarrow> (u8 list \<times> int) outcome" where
  "copy_metadata target source type = (case header_size type of
       None \<Rightarrow> Inr (target, - 1)
     | Some n \<Rightarrow> bindE (mem_read source 0 n) (\<lambda>b.
                  bindE (memcpy_at target 0 b) (\<lambda>t. Inr (t, 0))))"

section \<open>Filling holes (datatypes.c)\<close>

text \<open>\<open>malloc_bytes n\<close> is the result of \<open>malloc(n)\<close>: \<open>NULL\<close>, or a block of unknown contents.
  \<open>init_header\<close> returns the pointer it stores and its return value.\<close>

definition init_header :: "(nat \<Rightarrow> u8 list option) \<Rightarrow> opt_s \<Rightarrow> u8 list option \<times> int" where
  "init_header malloc_bytes opt = (case header_size (opt_optbits opt) of
       None \<Rightarrow> (None, - 1)
     | Some n \<Rightarrow> (malloc_bytes n, 0))"

text \<open>\<open>opt->resqut\<close> is passed as \<open>resq\<close> and returned as the call leaves it. The VDIF case is the C
  comma expression: both sequence numbers are taken, the second one is the value.\<close>

definition header_match :: "u8 list \<Rightarrow> u8 list \<Rightarrow> opt_s \<Rightarrow> resq_info option \<Rightarrow> (int \<times> resq_info option) outcome" where
  "header_match target match opt resq =
     (let t = opt_optbits opt AND LOCKER_DATATYPE in
      if t = DATATYPE_VDIF
      then (case resq of None \<Rightarrow> Inl Null_Deref
            | Some r \<Rightarrow> bindE (getseq_vdif target r) (\<lambda>(_, r1).
                bindE (getseq_vdif match r1) (\<lambda>(s, r2). Inr (s, Some r2))))
      else if t = DATATYPE_MARK5B then Inr (0, resq)
      else if t = DATATYPE_UDPMON
      then bindE (getseq_udpmon target) (\<lambda>a. bindE (getseq_udpmon match) (\<lambda>b. Inr (sint (a - b), resq)))
      else if t = DATATYPE_MARK5BNET
      then bindE (getseq_mark5b_net target) (\<lambda>a. bindE (getseq_mark5b_net match) (\<lambda>b. Inr (a - b, resq)))
      else Inr (- 1, resq))"

definition create_initial_header ::
  "(nat \<Rightarrow> u8 list option) \<Rightarrow> int \<Rightarrow> opt_s \<Rightarrow> resq_info option \<Rightarrow> u8 list option outcome" where
  "create_initial_header malloc_bytes fileid opt resq =
     (case opt_first_packet opt of
        None \<Rightarrow> Inr None
      | Some first \<Rightarrow>
         (case init_header malloc_bytes opt of
            (None, _) \<Rightarrow> Inr None
          | (Some header, _) \<Rightarrow>
             (let t = opt_optbits opt AND LOCKER_DATATYPE;
                  elems = uint (opt_buf_num_elems opt) in
              if t = DATATYPE_VDIF
              then (case resq of
                  None \<Rightarrow> Inr None
                | Some r \<Rightarrow>
                    if resq_starting_second r = - 1 \<or> resq_packets_per_second r = - 1 then Inr None
                    else bindE (mem_read first 0 HSIZE_VDIF) (\<lambda>b.
                         bindE (memcpy_at header 0 b) (\<lambda>h. Inr (Some h))))
              else if t = DATATYPE_MARK5B
              then (case resq of
                  None \<Rightarrow> Inr None
                | Some r \<Rightarrow> bindE (mem_read first 0 HSIZE_MARK5B) (\<lambda>b.
                            bindE (memcpy_at header 0 b) (\<lambda>h. Inr (Some h))))
              else if t = DATATYPE_UDPMON
              then bindE (getseq_udpmon first) (\<lambda>s.
                   bindE (SET_FRAMENUM_FOR_UDPMON header (s + word_of_int (elems * fileid))) (\<lambda>h.
                     Inr (Some h)))
              else if t = DATATYPE_MARK5BNET
              then bindE (mem_read first 0 HSIZE_MARK5BNET) (\<lambda>b.
                   bindE (memcpy_at header 0 b) (\<lambda>h0.
                   bindE (getseq_mark5b_net first) (\<lambda>s.
                   bindE (SET_FRAMENUM_FOR_MARK5BNET h0 (s + elems * fileid)) (\<lambda>h. Inr (Some h)))))
              else Inr None)))"

text \<open>\<open>fillpattern\<close> on the packet at offset \<open>off\<close> of \<open>buffer\<close>: the changed buffer and the return value.\<close>

definition fillpattern :: "u8 list \<Rightarrow> nat \<Rightarrow> u8 list \<Rightarrow> opt_s \<Rightarrow> (u8 list \<times> int) outcome" where
  "fillpattern buffer off modelheader opt = (case header_size (opt_optbits opt) of
       None \<Rightarrow> Inr (buffer, - 1)
     | Some n \<Rightarrow> bindE (mem_read modelheader 0 n) (\<lambda>b.
                  bindE (memcpy_at buffer off b) (\<lambda>t. Inr (t, 0))))"

text \<open>The loop of \<open>check_and_fill\<close> with \<open>todo\<close> packets left from offset \<open>off\<close>. The result is the buffer,
  \<open>opt->resqut\<close>, the number of holes, and the return value.\<close>

primrec fill_loop :: "nat \<Rightarrow> opt_s \<Rightarrow> nat \<Rightarrow> u8 list \<Rightarrow> u8 list \<Rightarrow> resq_info option \<Rightarrow> int \<Rightarrow>
    (u8 list \<times> resq_info option \<times> int \<times> int) outcome" where
  "fill_loop 0 opt off buffer modelheader resq errors = Inr (buffer, resq, errors, 0)"
| "fill_loop (Suc todo) opt off buffer modelheader resq errors =
     bindE (header_match (drop off buffer) modelheader opt resq) (\<lambda>(m, resq').
     bindE (if m \<noteq> 0 then fillpattern buffer off modelheader opt else Inr (buffer, 0)) (\<lambda>(buffer', err).
       if err \<noteq> 0 then Inr (buffer', resq', errors, err)
       else bindE (increment_header modelheader (opt_optbits opt)) (\<lambda>(modelheader', _).
         fill_loop todo opt (off + unat (opt_packet_size opt)) buffer' modelheader' resq'
           (if m \<noteq> 0 then errors + 1 else errors))))"

text \<open>\<open>n_packets\<close> is what \<open>afi_get_n_packets(opt->fi)\<close> returns.\<close>

definition real_number_of_elements :: "opt_s \<Rightarrow> u64 \<Rightarrow> int \<Rightarrow> int" where
  "real_number_of_elements opt n_packets fileid =
     (case opt_fi opt of
        None \<Rightarrow> uint (opt_buf_num_elems opt)
      | Some _ \<Rightarrow>
         (let packets_left = sint (n_packets - word_of_int (uint (opt_buf_num_elems opt) * fileid))
          in if uint (opt_buf_num_elems opt) < packets_left then uint (opt_buf_num_elems opt) else packets_left))"

definition check_and_fill :: "(nat \<Rightarrow> u8 list option) \<Rightarrow> u64 \<Rightarrow> u8 list \<Rightarrow> opt_s \<Rightarrow> resq_info option \<Rightarrow>
    int \<Rightarrow> (u8 list \<times> resq_info option \<times> int \<times> int) outcome" where
  "check_and_fill malloc_bytes n_packets buffer opt resq fileid =
     bindE (create_initial_header malloc_bytes fileid opt resq) (\<lambda>mh. case mh of
         None \<Rightarrow> Inr (buffer, resq, 0, - 1)
       | Some modelheader \<Rightarrow>
           fill_loop (nat (real_number_of_elements opt n_packets fileid)) opt 0 buffer modelheader resq 0)"

text \<open>The result is the returned difference and the value stored through \<open>res_err\<close>.\<close>

definition get_sec_dif_from_buf :: "u8 list \<Rightarrow> tm \<Rightarrow> opt_s \<Rightarrow> (int \<times> int) outcome" where
  "get_sec_dif_from_buf buffer time opt =
     (let t = opt_optbits opt AND LOCKER_DATATYPE in
      if t = DATATYPE_VDIF
      then bindE (SECOND_FROM_VDIF buffer) (\<lambda>time2.
        let temp = tv_sec (opt_starting_time opt) - time2
        in Inr (if temp > INT32_MAX then INT32_MAX else if temp < INT32_MIN then INT32_MIN else temp, 0))
      else if t = DATATYPE_MARK5B then bindE (secdiff_from_mark5b buffer time) (\<lambda>d. Inr (d, 0))
      else if t = DATATYPE_UDPMON then Inr (0, - 1)
      else if t = DATATYPE_MARK5BNET
      then bindE (secdiff_from_mark5b_net buffer time) (\<lambda>(d, e). Inr (d, case e of None \<Rightarrow> 0 | Some x \<Rightarrow> x))
      else if t = DATATYPE_UNKNOWN then Inr (0, - 1)
      else Inr (0, - 1))"

section \<open>Header fields\<close>

lemma le_nat_zeros: "le_nat (replicate n 0) = 0"
  by (induction n) simp_all

lemma load_be_word_be:
  "LENGTH('a) = 8 * k \<Longrightarrow> load_be (word_be k (w :: 'a::len word) @ rest) 0 k = Inr w"
  by (simp add: load_be_def mem_read_def slice_def)

lemma getseq_udpmon_eq:
  "off + 8 \<le> length buf \<Longrightarrow> getseq_udpmon (drop off buf) = Inr (be_word (slice buf off 8))"
  by (simp add: getseq_udpmon_def get_a_count_def HSIZE_UDPMON_def load_be_def mem_read_def slice_def)

lemma getseq_udpmon_word_be [simp]: "getseq_udpmon (word_be 8 s) = Inr s"
  using getseq_udpmon_eq[of 0 "word_be 8 s"] by (simp add: slice_def)

lemma set_framenum_udpmon [simp]: "length h = 8 \<Longrightarrow> SET_FRAMENUM_FOR_UDPMON h s = Inr (word_be 8 s)"
  by (simp add: SET_FRAMENUM_FOR_UDPMON_def splice_def)

lemma sint_eq_0_iff [simp]: "sint (w :: 'a::len word) = 0 \<longleftrightarrow> w = 0"
  by (metis signed_word_eqI sint_0)

text \<open>The sequence number written into a Mark5B-over-UDP header is the one read back, and the rest
  of the header is kept.\<close>

theorem mark5bnet_framenum_roundtrip:
  assumes "8 \<le> length h" and "- (2 ^ 31) \<le> n" and "n < 2 ^ 31"
  shows "\<exists>h'. SET_FRAMENUM_FOR_MARK5BNET h n = Inr h' \<and> getseq_mark5b_net h' = Inr n \<and>
    length h' = length h \<and> take 4 h' = take 4 h \<and> drop 8 h' = drop 8 h"
proof -
  let ?b = "word_le 4 (word_of_int n :: u32)"
  have set: "SET_FRAMENUM_FOR_MARK5BNET h n = Inr (splice h 4 ?b)"
    using assms(1) by (simp add: SET_FRAMENUM_FOR_MARK5BNET_def)
  have "sint (word_of_int n :: u32) = n"
    using assms(2,3) by (simp add: sint_sbintrunc' signed_take_bit_int_eq_self)
  then have "getseq_mark5b_net (splice h 4 ?b) = Inr n"
    using assms(1) by (simp add: getseq_mark5b_net_def load_le_def)
  moreover have "take 4 (splice h 4 ?b) = take 4 h" "drop 8 (splice h 4 ?b) = drop 8 h"
    using assms(1) by (simp_all add: splice_def)
  moreover have "length (splice h 4 ?b) = length h"
    using assms(1) by simp
  ultimately show ?thesis using set by blast
qed

theorem mark5bnet_framenum_roundtrip_witness:
  "\<exists>h'. SET_FRAMENUM_FOR_MARK5BNET (replicate 24 7) (- 5) = Inr h' \<and> getseq_mark5b_net h' = Inr (- 5)"
  using mark5bnet_framenum_roundtrip[of "replicate 24 7" "- 5"] by auto

section \<open>Time stamps\<close>

text \<open>The binary coded decimal a Mark5B header carries.\<close>

fun bcd :: "nat \<Rightarrow> nat" where
  "bcd n = (if n < 10 then n else 16 * bcd (n div 10) + n mod 10)"

declare bcd.simps [simp del]

lemma hex_digits_app: "d < 16 \<Longrightarrow> 0 < n \<Longrightarrow> hex_digits (16 * n + d) = hex_digits n @ [d]"
  by (subst hex_digits.simps) simp

lemma bcd_pos: "0 < n \<Longrightarrow> 0 < bcd n"
  by (induction n rule: bcd.induct) (subst bcd.simps, auto)

lemma hex_digits_bcd_decimal: "\<forall>d \<in> set (hex_digits (bcd n)). d < 10"
proof (induction n rule: bcd.induct)
  case (1 n)
  show ?case
  proof (cases "n < 10")
    case True
    then show ?thesis by (simp add: bcd.simps[of n] hex_digits.simps[of n])
  next
    case False
    then have "hex_digits (bcd n) = hex_digits (bcd (n div 10)) @ [n mod 10]"
      by (simp add: bcd.simps[of n] hex_digits_app bcd_pos)
    with 1 False show ?thesis by auto
  qed
qed

lemma atoi_hex_bcd: "atoi_digits (hex_digits (bcd n)) = n"
proof (induction n rule: bcd.induct)
  case (1 n)
  show ?case
  proof (cases "n < 10")
    case True
    then show ?thesis by (simp add: bcd.simps[of n] hex_digits.simps[of n] atoi_digits_def)
  next
    case False
    then have e: "hex_digits (bcd n) = hex_digits (bcd (n div 10)) @ [n mod 10]"
      by (simp add: bcd.simps[of n] hex_digits_app bcd_pos)
    have t: "takeWhile (\<lambda>d. d < 10) (hex_digits (bcd m)) = hex_digits (bcd m)" for m
      using hex_digits_bcd_decimal[of m] by (simp add: takeWhile_eq_all_conv)
    have "foldl (\<lambda>acc d. 10 * acc + d) 0 (hex_digits (bcd (n div 10))) = n div 10"
      using 1 False by (simp add: atoi_digits_def t)
    then show ?thesis using t[of n] by (simp add: atoi_digits_def e)
  qed
qed

lemma bcd_bound: "n < 10 ^ k \<Longrightarrow> bcd n < 16 ^ k"
proof (induction k arbitrary: n)
  case 0
  then show ?case by (simp add: bcd.simps)
next
  case (Suc k)
  show ?case
  proof (cases "n < 10")
    case True
    then have "bcd n < 16" by (simp add: bcd.simps)
    also have "\<dots> \<le> 16 ^ Suc k" by simp
    finally show ?thesis .
  next
    case False
    from Suc.prems have "n div 10 < 10 ^ k" by (simp add: div_less_iff_less_mult mult.commute)
    then have "bcd (n div 10) + 1 \<le> 16 ^ k" using Suc.IH by fastforce
    moreover have "n mod 10 < 16" by (rule less_trans[of _ 10]) simp_all
    ultimately show ?thesis using False by (simp add: bcd.simps[of n])
  qed
qed

definition mark5b_time_word :: "nat \<Rightarrow> nat \<Rightarrow> u32" where
  "mark5b_time_word day sec = of_nat (bcd day * 2 ^ 20 + bcd sec)"

lemma mark5b_time_word_fields:
  assumes "day < 1000" and "sec < 100000"
  shows "unat (drop_bit 20 (mark5b_time_word day sec AND 0xfff00000)) = bcd day"
    and "unat (mark5b_time_word day sec AND 0x000fffff) = bcd sec"
proof -
  have d: "bcd day < 4096" using bcd_bound[of day 3] assms by simp
  have s: "bcd sec < 1048576" using bcd_bound[of sec 5] assms by simp
  have u: "unat (mark5b_time_word day sec) = bcd day * 1048576 + bcd sec"
    unfolding mark5b_time_word_def unat_of_nat using d s by simp
  have m1: "drop_bit 20 (w AND 0xfff00000) = drop_bit 20 w" for w :: u32
  proof -
    have e: "(0xfff00000 :: u32) = push_bit 20 (mask 12)" by (simp add: mask_eq_exp_minus_1)
    show ?thesis unfolding e
      by (rule bit_word_eqI) (auto simp: bit_simps dest: bit_imp_le_length)
  qed
  show "unat (drop_bit 20 (mark5b_time_word day sec AND 0xfff00000)) = bcd day"
    unfolding m1 unsigned_drop_bit_eq u using s d by (simp add: drop_bit_eq_div take_bit_eq_mod)
  have e: "(0x000fffff :: u32) = mask 20" by (simp add: mask_eq_exp_minus_1)
  show "unat (mark5b_time_word day sec AND 0x000fffff) = bcd sec"
    unfolding e take_bit_eq_mask[symmetric] unsigned_take_bit_eq u using s by (simp add: take_bit_eq_mod)
qed

lemma get_sec_and_day_bcd:
  assumes "day < 1000" and "sec < 100000" and "12 \<le> length buf"
    and "slice buf 8 4 = word_le 4 (mark5b_time_word day sec)"
  shows "get_sec_and_day_from_mark5b buf = Inr (int sec, int day)"
  using assms mark5b_time_word_fields[OF assms(1,2)]
  by (simp add: get_sec_and_day_from_mark5b_def DAY_FROM_MARK5B_def SECOND_FROM_MARK5B_def load_le_def
      atoi_hex_bcd)

text \<open>C9: the time a Mark5B header carries in binary coded decimal is decoded to the day and second
  that were encoded, for every three-digit day and five-digit second.\<close>

theorem mark5b_time_roundtrip:
  assumes "day < 1000" and "sec < 100000" and "12 \<le> length buf"
    and "slice buf 8 4 = word_le 4 (mark5b_time_word day sec)"
  shows "get_sec_and_day_from_mark5b buf = Inr (int sec, int day)"
  by (rule get_sec_and_day_bcd[OF assms])

theorem mark5b_time_roundtrip_witness:
  "get_sec_and_day_from_mark5b (replicate 8 0 @ word_le 4 (mark5b_time_word 123 86399)) = Inr (86399, 123)"
  using mark5b_time_roundtrip[of 123 86399 "replicate 8 0 @ word_le 4 (mark5b_time_word 123 86399)"]
  by (simp add: slice_def)

text \<open>C8: a packet whose time stamp is less than 10000 seconds away from the reference time, across
  midnight or not, yields exactly that signed distance.\<close>

theorem secdiff_circular:
  assumes "get_sec_and_day_from_mark5b buf = Inr (sec, day)"
    and "0 \<le> sec" and "sec < SECONDS_IN_DAY"
    and "0 \<le> sec_of_day t" and "sec_of_day t < SECONDS_IN_DAY"
    and "\<bar>d\<bar> < MIDNIGHTRESHOLD" and "d mod SECONDS_IN_DAY = (sec_of_day t - sec) mod SECONDS_IN_DAY"
  shows "secdiff_from_mark5b buf t = Inr d"
proof -
  define s where "s = sec_of_day t"
  from assms(7) obtain k where k: "d = s - sec + SECONDS_IN_DAY * k"
    by (metis mod_eqE s_def add.commute diff_add_cancel mult.commute)
  have "k = 0 \<or> k = 1 \<or> k = - 1"
    using k assms(2-6) unfolding s_def[symmetric] SECONDS_IN_DAY_def MIDNIGHTRESHOLD_def by linarith
  then show ?thesis
    using k assms(1-6) unfolding s_def[symmetric] secdiff_from_mark5b_def SECONDS_IN_DAY_def MIDNIGHTRESHOLD_def
    by (auto simp: Let_def s_def[symmetric])
qed

theorem secdiff_circular_witness:
  "secdiff_from_mark5b (replicate 8 0 @ word_le 4 (mark5b_time_word 123 100))
     \<lparr>tm_hour = 23, tm_min = 58, tm_sec = 20, tm_year = 0, tm_mon = 0, tm_mday = 1\<rparr> = Inr (- 200)"
proof -
  have g: "get_sec_and_day_from_mark5b (replicate 8 0 @ word_le 4 (mark5b_time_word 123 100)) = Inr (100, 123)"
    using get_sec_and_day_bcd[of 123 100 "replicate 8 0 @ word_le 4 (mark5b_time_word 123 100)"]
    by (simp add: slice_def)
  show ?thesis
    by (rule secdiff_circular[OF g]) (simp_all add: sec_of_day_def SECONDS_IN_DAY_def MIDNIGHTRESHOLD_def)
qed

section \<open>Holes\<close>

definition udpmon_seq :: "u8 list \<Rightarrow> nat \<Rightarrow> u64" where
  "udpmon_seq buf off = be_word (slice buf off 8)"

lemma getseq_at: "off + 8 \<le> length buf \<Longrightarrow> getseq_udpmon (drop off buf) = Inr (udpmon_seq buf off)"
  by (simp add: getseq_udpmon_eq udpmon_seq_def)

lemma udpmon_seq_cong:
  assumes "length a = length b" and "off + 8 \<le> length b"
    and "\<And>j. off \<le> j \<Longrightarrow> j < off + 8 \<Longrightarrow> a ! j = b ! j"
  shows "udpmon_seq a off = udpmon_seq b off"
proof -
  have "slice a off 8 = slice b off 8"
    using assms by (intro nth_equalityI) (auto simp: slice_def)
  then show ?thesis by (simp add: udpmon_seq_def)
qed

lemma udpmon_seq_splice: "off + 8 \<le> length buf \<Longrightarrow> udpmon_seq (splice buf off (word_be 8 s)) off = s"
  by (simp add: udpmon_seq_def)

lemma nth_splice_other:
  "off + length src \<le> length buf \<Longrightarrow> j < length buf \<Longrightarrow> j < off \<or> off + length src \<le> j \<Longrightarrow>
   splice buf off src ! j = buf ! j"
  by (auto simp: splice_def nth_append)

definition udpmon_holes :: "u8 list \<Rightarrow> nat \<Rightarrow> nat \<Rightarrow> u64 \<Rightarrow> nat \<Rightarrow> nat" where
  "udpmon_holes buf off p s n = length (filter (\<lambda>i. udpmon_seq buf (off + i * p) \<noteq> s + of_nat i) [0..<n])"

lemma udpmon_holes_Suc:
  "udpmon_holes buf off p s (Suc n) =
   (if udpmon_seq buf off \<noteq> s then 1 else 0) + udpmon_holes buf (off + p) p (s + 1) n"
proof -
  have u: "[0..<Suc n] = 0 # map Suc [0..<n]" by (simp add: upt_conv_Cons map_Suc_upt del: upt_Suc)
  show ?thesis
    unfolding udpmon_holes_def u by (simp add: filter_map o_def algebra_simps)
qed

lemma udpmon_holes_cong:
  assumes "length a = length b" "\<And>j. off \<le> j \<Longrightarrow> j < length b \<Longrightarrow> a ! j = b ! j"
    and "off + n * p \<le> length b" and "8 \<le> p"
  shows "udpmon_holes a off p s n = udpmon_holes b off p s n"
proof -
  have "udpmon_seq a (off + i * p) = udpmon_seq b (off + i * p)" if "i < n" for i
  proof (rule udpmon_seq_cong)
    have "Suc i * p \<le> n * p" using that by (intro mult_le_mono1) simp
    with assms(3,4) show "off + i * p + 8 \<le> length b" by simp
    then show "a ! j = b ! j" if "off + i * p \<le> j" "j < off + i * p + 8" for j
      using that by (intro assms(2)) auto
  qed (rule assms(1))
  then show ?thesis
    unfolding udpmon_holes_def by (intro arg_cong[where f = length] filter_cong) auto
qed

definition is_udpmon :: "opt_s \<Rightarrow> bool" where
  "is_udpmon opt \<longleftrightarrow> opt_optbits opt AND LOCKER_DATATYPE = DATATYPE_UDPMON"

lemma datatype_distinct [simp]:
  "DATATYPE_UDPMON \<noteq> DATATYPE_VDIF" "DATATYPE_UDPMON \<noteq> DATATYPE_MARK5B"
  "DATATYPE_MARK5BNET \<noteq> DATATYPE_VDIF" "DATATYPE_MARK5BNET \<noteq> DATATYPE_MARK5B"
  "DATATYPE_MARK5BNET \<noteq> DATATYPE_UDPMON" "DATATYPE_MARK5B \<noteq> DATATYPE_VDIF"
  by (simp_all add: flag_defs flag_def)

lemma header_match_udpmon:
  "is_udpmon opt \<Longrightarrow> off + 8 \<le> length buf \<Longrightarrow>
   header_match (drop off buf) (word_be 8 s) opt resq = Inr (sint (udpmon_seq buf off - s), resq)"
  by (simp add: is_udpmon_def header_match_def getseq_at)

lemma fillpattern_udpmon:
  "is_udpmon opt \<Longrightarrow> off + 8 \<le> length buf \<Longrightarrow>
   fillpattern buf off (word_be 8 s) opt = Inr (splice buf off (word_be 8 s), 0)"
  by (simp add: is_udpmon_def fillpattern_def header_size_def HSIZE_UDPMON_def slice_def)

lemma increment_header_udpmon:
  "opt_optbits opt AND LOCKER_DATATYPE = DATATYPE_UDPMON \<Longrightarrow>
   increment_header (word_be 8 (s :: u64)) (opt_optbits opt) = Inr (word_be 8 (s + 1), 0)"
  by (simp add: increment_header_def)

lemma fill_loop_udpmon:
  assumes "is_udpmon opt" and "p = unat (opt_packet_size opt)" and "8 \<le> p"
  shows "off + todo * p \<le> length buf \<Longrightarrow>
    \<exists>buf'. fill_loop todo opt off buf (word_be 8 s) resq errors
        = Inr (buf', resq, errors + int (udpmon_holes buf off p s todo), 0) \<and>
      length buf' = length buf \<and>
      (\<forall>i<todo. udpmon_seq buf' (off + i * p) = s + of_nat i) \<and>
      (\<forall>j<length buf. (\<forall>i<todo. j < off + i * p \<or> off + i * p + 8 \<le> j) \<longrightarrow> buf' ! j = buf ! j)"
proof (induction todo arbitrary: off buf s errors)
  case 0
  then show ?case by (simp add: udpmon_holes_def)
next
  case (Suc n)
  let ?hole = "udpmon_seq buf off \<noteq> s"
  define b1 where "b1 = (if ?hole then splice buf off (word_be 8 s) else buf)"
  have off: "off + 8 \<le> length buf" "off + p + n * p \<le> length buf"
    using Suc.prems assms(3) by auto
  have b1: "length b1 = length buf" "udpmon_seq b1 off = s"
    "\<And>j. j < length buf \<Longrightarrow> j < off \<or> off + 8 \<le> j \<Longrightarrow> b1 ! j = buf ! j"
    using off(1) by (auto simp: b1_def udpmon_seq_splice nth_splice_other)
  have holes: "udpmon_holes b1 (off + p) p (s + 1) n = udpmon_holes buf (off + p) p (s + 1) n"
    using off(2) b1 assms(3) by (intro udpmon_holes_cong) auto
  have step: "fill_loop (Suc n) opt off buf (word_be 8 s) resq errors =
      fill_loop n opt (off + p) b1 (word_be 8 (s + 1)) resq (if ?hole then errors + 1 else errors)"
    using assms(1,2) off(1)
    by (simp add: header_match_udpmon fillpattern_udpmon b1_def increment_header_udpmon is_udpmon_def)
  obtain b2 where b2: "fill_loop n opt (off + p) b1 (word_be 8 (s + 1)) resq (if ?hole then errors + 1 else errors)
        = Inr (b2, resq, (if ?hole then errors + 1 else errors) + int (udpmon_holes b1 (off + p) p (s + 1) n), 0)"
      "length b2 = length b1"
      "\<And>i. i < n \<Longrightarrow> udpmon_seq b2 (off + p + i * p) = s + 1 + of_nat i"
      "\<And>j. j < length b1 \<Longrightarrow> \<forall>i<n. j < off + p + i * p \<or> off + p + i * p + 8 \<le> j \<Longrightarrow> b2 ! j = b1 ! j"
    using Suc.IH[of "off + p" b1 "s + 1" "if ?hole then errors + 1 else errors"] off(2) b1(1) by auto
  have first: "udpmon_seq b2 off = s"
    using udpmon_seq_cong[of b2 b1 off] b2(2,4) b1(1,2) off(1) assms(3) by fastforce
  have seqs: "udpmon_seq b2 (off + i * p) = s + of_nat i" if "i < Suc n" for i
    using that first b2(3)[of "i - 1"] by (cases i) (auto simp: algebra_simps)
  have keep: "b2 ! j = buf ! j"
    if "j < length buf" and away: "\<forall>i<Suc n. j < off + i * p \<or> off + i * p + 8 \<le> j" for j
  proof -
    have "\<forall>i<n. j < off + p + i * p \<or> off + p + i * p + 8 \<le> j"
      using away by (metis Suc_mono mult_Suc add.assoc)
    then show ?thesis using that(1) away[rule_format, of 0] b1 b2(4)[of j] by auto
  qed
  show ?case
    using step b2(1,2) b1(1) seqs keep holes by (auto simp: udpmon_holes_Suc)
qed

text \<open>C5: checking a recorded UDPMON buffer leaves a complete one. The number of packets to check is
  that of the buffer, or of the packets received so far when these are fewer; afterwards every one
  of them carries the sequence number of its position, only header bytes have changed, and the
  reported number of holes is the number of packets that carried another number.\<close>

theorem check_and_fill_udpmon:
  fixes opt :: opt_s
  defines "p \<equiv> unat (opt_packet_size opt)"
    and "s n0 fileid \<equiv> (n0 :: u64) + word_of_int (uint (opt_buf_num_elems opt) * fileid)"
  assumes "is_udpmon opt" and "8 \<le> p"
    and "opt_first_packet opt = Some first" and "8 \<le> length first"
    and "malloc_bytes 8 = Some garbage" and "length garbage = 8"
    and "n = nat (real_number_of_elements opt n_packets fileid)" and "n * p \<le> length buf"
  shows "\<exists>buf'. check_and_fill malloc_bytes n_packets buf opt resq fileid
        = Inr (buf', resq, int (udpmon_holes buf 0 p (s (udpmon_seq first 0) fileid) n), 0) \<and>
      length buf' = length buf \<and>
      (\<forall>i<n. udpmon_seq buf' (i * p) = s (udpmon_seq first 0) fileid + of_nat i) \<and>
      (\<forall>j<length buf. (\<forall>i<n. j < i * p \<or> i * p + 8 \<le> j) \<longrightarrow> buf' ! j = buf ! j)"
proof -
  have "init_header malloc_bytes opt = (Some garbage, 0)"
    using assms by (simp add: init_header_def header_size_def is_udpmon_def HSIZE_UDPMON_def)
  then have "create_initial_header malloc_bytes fileid opt resq =
      Inr (Some (word_be 8 (s (udpmon_seq first 0) fileid)))"
    using assms getseq_at[of 0 first] by (simp add: create_initial_header_def is_udpmon_def)
  then show ?thesis
    using fill_loop_udpmon[OF assms(3) p_def[THEN meta_eq_to_obj_eq] assms(4), of 0 n buf
        "s (udpmon_seq first 0) fileid" resq 0] assms(9,10)
    by (simp add: check_and_fill_def)
qed

theorem check_and_fill_udpmon_witness:
  "\<exists>buf'. check_and_fill (\<lambda>n. Some (replicate n 7)) 0 (replicate 32 1)
      (zero_opt\<lparr>opt_optbits := DATATYPE_UDPMON, opt_packet_size := 16, opt_buf_num_elems := 2,
        opt_first_packet := Some (word_be 8 (5 :: u64))\<rparr>) None 3
      = Inr (buf', None, 2, 0) \<and> udpmon_seq buf' 16 = 12"
proof -
  let ?o = "zero_opt\<lparr>opt_optbits := DATATYPE_UDPMON, opt_packet_size := 16, opt_buf_num_elems := 2,
        opt_first_packet := Some (word_be 8 (5 :: u64))\<rparr>"
  have u: "is_udpmon ?o" by (simp add: is_udpmon_def flag_defs flag_def)
  have n: "2 = nat (real_number_of_elements ?o 0 3)"
    by (simp add: real_number_of_elements_def zero_opt_def)
  have f: "udpmon_seq (word_be 8 (5 :: u64)) 0 = 5" by (simp add: udpmon_seq_def slice_def)
  have h: "udpmon_holes (replicate 32 1) 0 16 11 2 = 2"
  proof -
    have "replicate 8 (1 :: u8) = [1, 1, 1, 1, 1, 1, 1, 1]" by (simp add: eval_nat_numeral)
    then have "udpmon_seq (replicate 32 1) off = 0x0101010101010101" if "off \<le> 24" for off
      using that by (simp add: udpmon_seq_def slice_def min_def be_word_def le_word_def)
    then show ?thesis by (simp add: udpmon_holes_def upt_rec)
  qed
  show ?thesis
    using check_and_fill_udpmon[of ?o "word_be 8 (5 :: u64)" "\<lambda>n. Some (replicate n 7)" "replicate 8 7" 2 0 3
        "replicate 32 1" None, OF u _ _ _ _ _ n] f h
    by (auto dest: spec[of _ 1])
qed

section \<open>What the VDIF branches do\<close>

text \<open>For VDIF the comparison of a packet with the expected header does not depend on their
  distance: once the stream's rate is known the result is the sequence number of the expected
  header alone, whatever the packet carries.\<close>

theorem header_match_vdif_ignores_packet:
  assumes "opt_optbits opt AND LOCKER_DATATYPE = DATATYPE_VDIF"
    and "resq_starting_second r \<noteq> - 1" and "0 < resq_packets_per_second r"
    and "8 \<le> length target" and "8 \<le> length match"
  shows "\<exists>sec fr. SECOND_FROM_VDIF match = Inr sec \<and> FRAMENUM_FROM_VDIF match = Inr fr \<and>
    header_match target match opt (Some r) =
      Inr ((sec - resq_starting_second r) * resq_packets_per_second r + fr, Some r)"
proof -
  obtain s1 f1 s2 f2 where "SECOND_FROM_VDIF target = Inr s1" "FRAMENUM_FROM_VDIF target = Inr f1"
    "SECOND_FROM_VDIF match = Inr s2" "FRAMENUM_FROM_VDIF match = Inr f2"
    using assms(4,5) by (simp add: SECOND_FROM_VDIF_def FRAMENUM_FROM_VDIF_def load_le_def load_be_def)
  then show ?thesis
    using assms(1-3) by (simp add: header_match_def getseq_vdif_def Let_def)
qed

theorem header_match_vdif_ignores_packet_witness:
  "\<exists>r. header_match (replicate 16 0) (replicate 4 0 @ word_be 4 (3 :: u32)) (zero_opt\<lparr>opt_optbits := DATATYPE_VDIF\<rparr>) (Some r)
     = Inr (3, Some r)"
proof -
  let ?r = "\<lparr>resq_inc_before = None, resq_inc = None, resq_buf = None, resq_usebuf = None,
    resq_bufstart = None, resq_bufstart_before = None, resq_before = None, resq_current_seq = 0,
    resq_seqstart_current = 0, resq_i = 0, resq_packets_per_second = 100, resq_packetsecdif = 1,
    resq_tm_s = \<lparr>tm_hour = 0, tm_min = 0, tm_sec = 0, tm_year = 0, tm_mon = 0, tm_mday = 0\<rparr>,
    resq_starting_second = 0\<rparr>"
  let ?m = "replicate 4 0 @ word_be 4 (3 :: u32)"
  have "SECOND_FROM_VDIF ?m = Inr 0" "FRAMENUM_FROM_VDIF ?m = Inr 3"
    by (simp_all add: SECOND_FROM_VDIF_def FRAMENUM_FROM_VDIF_def load_le_def load_be_def slice_def
        le_word_def le_nat_zeros)
  then show ?thesis
    using header_match_vdif_ignores_packet[of "zero_opt\<lparr>opt_optbits := DATATYPE_VDIF\<rparr>" ?r "replicate 16 0" ?m]
    by (auto simp: flag_defs flag_def intro!: exI[of _ ?r])
qed

text \<open>A VDIF stream whose first packet has frame number 0 stops the receiver at the second packet:
  the frame number takes the place of the second it is compared with, the interval is taken to be 0
  seconds, and the division by it faults.\<close>

theorem getseq_vdif_second_packet_faults:
  assumes "getseq_vdif h1 r0 = Inr (0, r1)" and "resq_starting_second r0 = - 1"
    and "resq_packets_per_second r0 = - 1"
    and "SECOND_FROM_VDIF h1 = Inr sec" and "SECOND_FROM_VDIF h2 = Inr sec" and "0 < sec"
    and "FRAMENUM_FROM_VDIF h2 = Inr fr"
  shows "getseq_vdif h2 (r1\<lparr>resq_current_seq := 0\<rparr>) = Inl Div_By_Zero"
proof -
  have "sec < 2 ^ 30"
  proof -
    from assms(4) obtain w :: u32 where "sec = uint (w AND mask 30)"
      by (auto simp: SECOND_FROM_VDIF_def mask_eq_exp_minus_1)
    then have "sec = take_bit 30 (uint w)"
      by (simp add: unsigned_take_bit_eq flip: take_bit_eq_mask)
    then show ?thesis using take_bit_int_less_exp[of 30 "uint w"] by simp
  qed
  then have i: "to_int32 sec = sec"
    using assms(6) by (simp add: to_int32_def sint_sbintrunc' signed_take_bit_int_eq_self)
  from assms have r1: "r1 = r0\<lparr>resq_starting_second := sec\<rparr>"
    by (auto simp: getseq_vdif_def i)
  show ?thesis
    using assms(3,5,6,7) by (simp add: getseq_vdif_def r1 Let_def to_int32_def)
qed

theorem getseq_vdif_second_packet_faults_witness:
  "\<exists>r0 r1 h. getseq_vdif h r0 = Inr (0, r1) \<and> getseq_vdif h (r1\<lparr>resq_current_seq := 0\<rparr>) = Inl Div_By_Zero"
proof -
  let ?r = "\<lparr>resq_inc_before = None, resq_inc = None, resq_buf = None, resq_usebuf = None,
    resq_bufstart = None, resq_bufstart_before = None, resq_before = None, resq_current_seq = INT64_MAX,
    resq_seqstart_current = INT64_MAX, resq_i = 0, resq_packets_per_second = - 1, resq_packetsecdif = 0,
    resq_tm_s = \<lparr>tm_hour = 0, tm_min = 0, tm_sec = 0, tm_year = 0, tm_mon = 0, tm_mday = 0\<rparr>,
    resq_starting_second = - 1\<rparr>"
  let ?h = "word_le 4 (7 :: u32) @ replicate 12 0"
  have s: "SECOND_FROM_VDIF ?h = Inr 7" and f: "FRAMENUM_FROM_VDIF ?h = Inr 0"
    by (simp_all add: SECOND_FROM_VDIF_def FRAMENUM_FROM_VDIF_def load_le_def load_be_def slice_def
        be_word_def le_word_def le_nat_zeros word_le_def le_nat_to_le min_def)
  then have g: "getseq_vdif ?h ?r = Inr (0, ?r\<lparr>resq_starting_second := 7\<rparr>)"
    by (simp add: getseq_vdif_def to_int32_def)
  have "getseq_vdif ?h (?r\<lparr>resq_starting_second := 7\<rparr>\<lparr>resq_current_seq := 0\<rparr>) = Inl Div_By_Zero"
    by (rule getseq_vdif_second_packet_faults[OF g _ _ s s _ f]) simp_all
  with g show ?thesis by blast
qed

end
