(* ===== verification/Interfaces.thy ===== *)
theory Interfaces
  imports Prelude "HOL-Library.Multiset"
begin

text \<open>
  The contracts between the components, as locales. Each is interpreted on the model of the
  component that provides it: \<open>session_index\<close> by the file index (theory \<open>FileIndex\<close>), \<open>pool\<close> by the
  resource branches (theory \<open>ResourceTree\<close>), \<open>write_backend\<close> by the writers (theory \<open>BufferWriting\<close>).
\<close>

section \<open>Counted sessions\<close>

text \<open>Opening a key returns a handle, closing a handle ends one session on it; \<open>None\<close> is a refused or
  faulting call.\<close>

primrec open_all :: "('k \<Rightarrow> 's \<Rightarrow> ('s \<times> 'a) option) \<Rightarrow> 'k list \<Rightarrow> 's \<Rightarrow> ('s \<times> 'a list) option" where
  "open_all opn [] s = Some (s, [])"
| "open_all opn (k # ks) s = (case opn k s of None \<Rightarrow> None
     | Some (s1, a) \<Rightarrow> (case open_all opn ks s1 of None \<Rightarrow> None
         | Some (s2, as) \<Rightarrow> Some (s2, a # as)))"

primrec close_all :: "('a \<Rightarrow> 's \<Rightarrow> 's option) \<Rightarrow> 'a list \<Rightarrow> 's \<Rightarrow> 's option" where
  "close_all cls [] s = Some s"
| "close_all cls (a # as) s = (case cls a s of None \<Rightarrow> None | Some s' \<Rightarrow> close_all cls as s')"

locale session_index =
  fixes opn :: "'k \<Rightarrow> 's \<Rightarrow> ('s \<times> 'a) option"
    and cls :: "'a \<Rightarrow> 's \<Rightarrow> 's option"
    and sessions :: "'s \<Rightarrow> 'a \<Rightarrow> nat"
    and good :: "'s \<Rightarrow> bool"
    and limit :: nat
  assumes opn_sessions: "good s \<Longrightarrow> opn k s = Some (s', a) \<Longrightarrow> \<forall>b. sessions s b < limit \<Longrightarrow>
      good s' \<and> sessions s' = (sessions s)(a := Suc (sessions s a))"
    and cls_live: "good s \<Longrightarrow> 0 < sessions s a \<Longrightarrow>
      \<exists>s'. cls a s = Some s' \<and> good s' \<and> sessions s' = (sessions s)(a := sessions s a - 1)"
begin

lemma open_all_sessions:
  "good s \<Longrightarrow> open_all opn ks s = Some (s', as) \<Longrightarrow> \<forall>b. sessions s b + length ks \<le> limit \<Longrightarrow>
   good s' \<and> (\<forall>b. sessions s' b = sessions s b + count (mset as) b)"
proof (induction ks arbitrary: s as)
  case (Cons k ks)
  from Cons.prems(2) obtain s1 a bs where 1: "opn k s = Some (s1, a)"
    and 2: "open_all opn ks s1 = Some (s', bs)" and as: "as = a # bs"
    by (auto split: option.splits)
  have "sessions s b < limit" for b using Cons.prems(3)[rule_format, of b] by simp
  then have "\<forall>b. sessions s b < limit" by blast
  from opn_sessions[OF Cons.prems(1) 1 this] have g: "good s1" "sessions s1 = (sessions s)(a := Suc (sessions s a))"
    by auto
  have "sessions s1 b + length ks \<le> limit" for b
    using Cons.prems(3)[rule_format, of b] g(2) by (cases "b = a") auto
  then have "\<forall>b. sessions s1 b + length ks \<le> limit" by blast
  from Cons.IH[OF g(1) 2 this] g as show ?case by auto
qed simp

lemma close_all_sessions:
  "good s \<Longrightarrow> \<forall>b. count (mset as) b \<le> sessions s b \<Longrightarrow>
   \<exists>s'. close_all cls as s = Some s' \<and> good s' \<and> (\<forall>b. sessions s' b = sessions s b - count (mset as) b)"
proof (induction as arbitrary: s)
  case (Cons a as)
  have "0 < sessions s a" using Cons.prems(2)[rule_format, of a] by simp
  from cls_live[OF Cons.prems(1) this] obtain s1 where
    s1: "cls a s = Some s1" "good s1" "sessions s1 = (sessions s)(a := sessions s a - 1)" by blast
  have "count (mset as) b \<le> sessions s1 b" for b
    using Cons.prems(2)[rule_format, of b] s1(3) by (auto split: if_splits)
  with Cons.IH[OF s1(2)] obtain s2 where
    s2: "close_all cls as s1 = Some s2" "good s2" "\<forall>b. sessions s2 b = sessions s1 b - count (mset as) b"
    by blast
  with s1 show ?case by auto
qed simp

text \<open>Whatever sessions were opened, they can be closed in any order, and then the counts are the
  ones from before.\<close>

lemma balanced:
  assumes "good s" and "open_all opn ks s = Some (s1, as)" and "\<forall>b. sessions s b + length ks \<le> limit"
    and "mset bs = mset as"
  shows "\<exists>s2. close_all cls bs s1 = Some s2 \<and> good s2 \<and> sessions s2 = sessions s"
proof -
  have s1: "good s1" "\<forall>b. sessions s1 b = sessions s b + count (mset bs) b"
    using open_all_sessions[OF assms(1-3)] assms(4) by auto
  then have "\<forall>b. count (mset bs) b \<le> sessions s1 b" by simp
  from close_all_sessions[OF s1(1) this] s1(2) show ?thesis by auto
qed

end

section \<open>Pools\<close>

text \<open>\<open>rep s fr held\<close>: in the state \<open>s\<close> the entities \<open>fr\<close> wait in this order and \<open>held\<close> are in use.
  \<open>take_n\<close> takes several; \<open>cycle\<close> takes one and gives it back, several times.\<close>

primrec take_n :: "('s \<Rightarrow> ('s \<times> 'a) option) \<Rightarrow> nat \<Rightarrow> 's \<Rightarrow> ('s \<times> 'a list) option" where
  "take_n tk 0 s = Some (s, [])"
| "take_n tk (Suc n) s = (case tk s of None \<Rightarrow> None
     | Some (s1, a) \<Rightarrow> (case take_n tk n s1 of None \<Rightarrow> None | Some (s2, as) \<Rightarrow> Some (s2, a # as)))"

primrec cycle :: "('s \<Rightarrow> ('s \<times> 'a) option) \<Rightarrow> ('a \<Rightarrow> 's \<Rightarrow> 's option) \<Rightarrow> nat \<Rightarrow> 's \<Rightarrow> ('s \<times> 'a list) option" where
  "cycle tk gv 0 s = Some (s, [])"
| "cycle tk gv (Suc n) s = (case tk s of None \<Rightarrow> None
     | Some (s1, a) \<Rightarrow> (case gv a s1 of None \<Rightarrow> None
         | Some s2 \<Rightarrow> (case cycle tk gv n s2 of None \<Rightarrow> None | Some (s3, as) \<Rightarrow> Some (s3, a # as))))"

locale pool =
  fixes tk :: "'s \<Rightarrow> ('s \<times> 'a) option"
    and gv :: "'a \<Rightarrow> 's \<Rightarrow> 's option"
    and rep :: "'s \<Rightarrow> 'a list \<Rightarrow> 'a list \<Rightarrow> bool"
  assumes rep_distinct: "rep s fr held \<Longrightarrow> distinct (fr @ held)"
    and tk_head: "rep s (a # fr) held \<Longrightarrow> \<exists>s'. tk s = Some (s', a) \<and> rep s' fr (held @ [a])"
    and tk_empty: "rep s [] held \<Longrightarrow> tk s = None"
    and gv_back: "rep s fr held \<Longrightarrow> a \<in> set held \<Longrightarrow>
      \<exists>s'. gv a s = Some s' \<and> rep s' (fr @ [a]) (removeAll a held)"
begin

lemma take_n_prefix:
  "rep s fr held \<Longrightarrow> n \<le> length fr \<Longrightarrow>
   \<exists>s'. take_n tk n s = Some (s', take n fr) \<and> rep s' (drop n fr) (held @ take n fr)"
proof (induction n arbitrary: s fr held)
  case (Suc n)
  then obtain a fr' where fr: "fr = a # fr'" by (cases fr) auto
  from tk_head[OF Suc.prems(1)[unfolded fr]] obtain s1 where
    s1: "tk s = Some (s1, a)" "rep s1 fr' (held @ [a])" by blast
  from Suc.IH[OF s1(2)] Suc.prems(2) fr s1(1) show ?case by auto
qed simp

lemma take_n_exclusive:
  assumes "rep s fr held" and "take_n tk n s = Some (s', as)" and "n \<le> length fr"
  shows "distinct as \<and> set as \<inter> set held = {} \<and> length as = n"
  using take_n_prefix[OF assms(1,3)] rep_distinct[OF assms(1)] assms(2,3)
  by (auto dest: in_set_takeD)

lemma cycle_step:
  assumes "rep s (a # fr) held"
  shows "\<exists>s1 s2. tk s = Some (s1, a) \<and> gv a s1 = Some s2 \<and> rep s2 (fr @ [a]) held"
proof -
  obtain s1 where s1: "tk s = Some (s1, a)" "rep s1 fr (held @ [a])" using tk_head[OF assms] by blast
  have "removeAll a (held @ [a]) = held" using rep_distinct[OF assms] by (simp add: removeAll_id)
  with gv_back[OF s1(2), of a] s1(1) show ?thesis by auto
qed

text \<open>Taking and giving back goes round the pool: each entity is taken again only after all the others.\<close>

lemma cycle_round_robin:
  "rep s fr held \<Longrightarrow> fr \<noteq> [] \<Longrightarrow>
   \<exists>s'. cycle tk gv n s = Some (s', map (\<lambda>i. fr ! (i mod length fr)) [0..<n]) \<and> rep s' (rotate n fr) held"
proof (induction n arbitrary: s fr)
  case (Suc n)
  then obtain a xs where fr: "fr = a # xs" by (cases fr) auto
  from cycle_step[OF Suc.prems(1)[unfolded fr]] obtain s1 s2 where
    s2: "tk s = Some (s1, a)" "gv a s1 = Some s2" "rep s2 (xs @ [a]) held" by blast
  from Suc.IH[OF s2(3)] obtain s' where s': "rep s' (rotate n (xs @ [a])) held"
    "cycle tk gv n s2 = Some (s', map (\<lambda>i. (xs @ [a]) ! (i mod length (xs @ [a]))) [0..<n])" by auto
  have rot: "rotate n (xs @ [a]) = rotate (Suc n) fr" by (simp add: fr rotate1_rotate_swap)
  have at: "(xs @ [a]) ! (i mod Suc (length xs)) = fr ! (Suc i mod Suc (length xs))" for i
  proof -
    have "rotate1 fr ! (i mod length fr) = fr ! (Suc (i mod length fr) mod length fr)"
      by (rule nth_rotate1) (simp add: fr)
    then show ?thesis by (simp add: fr mod_Suc_eq)
  qed
  have "map (\<lambda>i. fr ! (i mod length fr)) [0..<Suc n] = a # map (\<lambda>i. fr ! (Suc i mod length fr)) [0..<n]"
    by (simp add: upt_conv_Cons fr o_def del: upt_Suc flip: map_Suc_upt)
  with s2 s' rot at show ?case by (simp add: fr)
qed simp

end

section \<open>Writers of a recording point\<close>

text \<open>\<open>wr off n\<close> writes the \<open>n\<close> bytes at \<open>off\<close> of the buffer in full, \<open>None\<close> is any other result; \<open>adv n\<close>
  is what the caller notes after it. \<open>out\<close> is what is stored so far, \<open>enc\<close> what the writer stores for a
  run of bytes, and \<open>gran\<close> the granularity at which runs can be split.\<close>

fun send_all :: "(nat \<Rightarrow> nat \<Rightarrow> 's \<Rightarrow> 's option) \<Rightarrow> (nat \<Rightarrow> 's \<Rightarrow> 's) \<Rightarrow> nat \<Rightarrow> nat \<Rightarrow> nat \<Rightarrow> 's \<Rightarrow> 's option" where
  "send_all wr adv limit off n s =
     (if n = 0 \<or> limit = 0 then Some s
      else (case wr off (min n limit) s of None \<Rightarrow> None
          | Some s' \<Rightarrow> send_all wr adv limit (off + min n limit) (n - min n limit) (adv (min n limit) s')))"

declare send_all.simps [simp del]

locale write_backend =
  fixes wr :: "nat \<Rightarrow> nat \<Rightarrow> 's \<Rightarrow> 's option"
    and adv :: "nat \<Rightarrow> 's \<Rightarrow> 's"
    and ready :: "'s \<Rightarrow> bool"
    and buffer :: "'s \<Rightarrow> u8 list"
    and out :: "'s \<Rightarrow> u8 list"
    and enc :: "u8 list \<Rightarrow> u8 list"
    and gran :: nat
  assumes wr_full: "ready s \<Longrightarrow> gran dvd n \<Longrightarrow> 0 < n \<Longrightarrow> off + n \<le> length (buffer s) \<Longrightarrow>
      \<exists>s'. wr off n s = Some s' \<and> ready s' \<and> buffer s' = buffer s \<and> out s' = out s @ enc (slice (buffer s) off n)"
    and adv_frame: "ready s \<Longrightarrow> ready (adv n s) \<and> buffer (adv n s) = buffer s \<and> out (adv n s) = out s"
    and enc_nil: "enc [] = []"
    and enc_append: "gran dvd length a \<Longrightarrow> gran dvd length b \<Longrightarrow> enc (a @ b) = enc a @ enc b"
begin

text \<open>Written in chunks, the run ends up stored as if it had been written at once.\<close>

lemma send_all_stores:
  assumes "gran dvd limit" and "0 < limit"
  shows "ready s \<Longrightarrow> gran dvd n \<Longrightarrow> off + n \<le> length (buffer s) \<Longrightarrow>
   \<exists>s'. send_all wr adv limit off n s = Some s' \<and> ready s' \<and> buffer s' = buffer s \<and>
        out s' = out s @ enc (slice (buffer s) off n)"
proof (induction n arbitrary: off s rule: less_induct)
  case (less n)
  show ?case
  proof (cases "n = 0")
    case True
    then show ?thesis using less.prems by (simp add: send_all.simps enc_nil slice_def)
  next
    case False
    let ?c = "min n limit"
    have c: "gran dvd ?c" "0 < ?c" using less.prems(2) assms False by (auto simp: min_def)
    have le: "off + ?c \<le> length (buffer s)" using less.prems(3) by (auto simp: min_def)
    from wr_full[OF less.prems(1) c le] obtain s1 where
      s1: "wr off ?c s = Some s1" "ready s1" "buffer s1 = buffer s"
      "out s1 = out s @ enc (slice (buffer s) off ?c)" by blast
    have a: "ready (adv ?c s1)" "buffer (adv ?c s1) = buffer s" "out (adv ?c s1) = out s1"
      using adv_frame[OF s1(2), of ?c] s1(3) by auto
    have "gran dvd n - ?c" using c(1) less.prems(2) by (rule dvd_diff_nat[rotated])
    with less.IH[of "n - ?c" "adv ?c s1" "off + ?c"] a less.prems c(2) obtain s2 where
      s2: "send_all wr adv limit (off + ?c) (n - ?c) (adv ?c s1) = Some s2" "ready s2" "buffer s2 = buffer s"
        "out s2 = out s1 @ enc (slice (buffer s) (off + ?c) (n - ?c))"
      using False by auto
    have split: "slice (buffer s) off n = slice (buffer s) off ?c @ slice (buffer s) (off + ?c) (n - ?c)"
      using take_add[of ?c "n - ?c" "drop off (buffer s)"] by (simp add: slice_def add.commute)
    have "enc (slice (buffer s) off n) = enc (slice (buffer s) off ?c) @ enc (slice (buffer s) (off + ?c) (n - ?c))"
      unfolding split using c(1) \<open>gran dvd n - ?c\<close> less.prems(3) by (intro enc_append) simp_all
    with s1 s2 False assms(2) show ?thesis
      by (subst send_all.simps) simp
  qed
qed

end

end
