(* ===== verification/FileIndex.thy ===== *)
theory FileIndex
  imports Interfaces
begin

text \<open>
  The active file index of \<open>src/active_file_index.c\<close>: the global list of the recordings in use, their
  association counts, and the status and disk of each file of a recording.

  The state is the head pointer \<open>files\<close> and the heap of \<open>struct file_index\<close> objects. The array a
  \<open>struct file_index\<close> points to is a list whose length is the size of the allocation, an access
  outside it being a fault. Sections under \<open>mainlock\<close> or \<open>augmentlock\<close> are atomic; the two waiting
  operations take the list of what other threads do at each wake-up. Results of \<open>calloc\<close>, \<open>strdup\<close>
  and \<open>realloc\<close> are arguments.
\<close>

section \<open>State\<close>

definition AFI_RECORD :: u32 where "AFI_RECORD = 1"
definition AFI_SEND :: u32 where "AFI_SEND = 2"
definition FH_ONDISK :: u32 where "FH_ONDISK = 1"
definition FH_MISSING :: u32 where "FH_MISSING = 2"
definition FH_INMEM :: u32 where "FH_INMEM = 3"
definition FH_BUSY :: u32 where "FH_BUSY = 4"
definition INITIAL_SIZE :: u64 where "INITIAL_SIZE = 128"

lemmas fh_defs = FH_ONDISK_def FH_MISSING_def FH_INMEM_def FH_BUSY_def
lemmas afi_defs = AFI_RECORD_def AFI_SEND_def

record fileholder =
  fh_diskid :: int
  fh_status :: u32

record file_index =
  fi_status :: u32
  fi_filename :: "string option"
  fi_associations :: u64
  fi_next :: "addr option"
  fi_packet_size :: u64
  fi_files :: "fileholder list"
  fi_n_packets :: u64
  fi_n_files :: u64
  fi_allocated_files :: u64

type_synonym fi_heap = "addr \<Rightarrow> file_index option"

record afi =
  afi_files :: "addr option"
  afi_heap :: fi_heap

datatype afi_update_action = AFI_ADD_TO_STATUS | AFI_DEL_FROM_STATUS

definition afi_empty :: afi where
  "afi_empty = \<lparr>afi_files = None, afi_heap = (\<lambda>_. None)\<rparr>"

definition afi_init :: "afi \<Rightarrow> afi" where
  "afi_init s = s\<lparr>afi_files := None\<rparr>"

definition put_fi :: "addr \<Rightarrow> file_index \<Rightarrow> afi \<Rightarrow> afi" where
  "put_fi a fi s = s\<lparr>afi_heap := (afi_heap s)(a \<mapsto> fi)\<rparr>"

definition free_fi :: "addr \<Rightarrow> afi \<Rightarrow> afi" where
  "free_fi a s = s\<lparr>afi_heap := (afi_heap s)(a := None)\<rparr>"

lemma put_fi_simps [simp]:
  "afi_files (put_fi a fi s) = afi_files s"
  "afi_heap (put_fi a fi s) = (afi_heap s)(a \<mapsto> fi)"
  "afi_files (free_fi a s) = afi_files s"
  "afi_heap (free_fi a s) = (afi_heap s)(a := None)"
  by (simp_all add: put_fi_def free_fi_def)

section \<open>The list of file indexes\<close>

partial_function (option) walk_last :: "fi_heap \<Rightarrow> addr \<Rightarrow> addr outcome option" where
  "walk_last h iter = (case deref h (Some iter) of
       Inl e \<Rightarrow> Some (Inl e)
     | Inr n \<Rightarrow> (case fi_next n of None \<Rightarrow> Some (Inr iter) | Some q \<Rightarrow> walk_last h q))"

declare walk_last.simps [code]

definition add_to_list_mutex_free :: "addr \<Rightarrow> afi \<Rightarrow> afi outcome" where
  "add_to_list_mutex_free fi s =
     bindE (deref (afi_heap s) (Some fi)) (\<lambda>n.
     bindE (check_assert (fi_next n = None)) (\<lambda>_.
       case afi_files s of
         None \<Rightarrow> Inr (s\<lparr>afi_files := Some fi\<rparr>)
       | Some p \<Rightarrow> bindE (ended (walk_last (afi_heap s) p)) (\<lambda>iter.
                   bindE (deref (afi_heap s) (Some iter)) (\<lambda>m.
                     Inr (put_fi iter (m\<lparr>fi_next := Some fi\<rparr>) s)))))"

text \<open>The search for the element before \<open>fi\<close>; the inner \<open>None\<close> is "not found".\<close>

partial_function (option) walk_before :: "fi_heap \<Rightarrow> addr \<Rightarrow> addr option \<Rightarrow> addr option outcome option" where
  "walk_before h fi iter = (case deref h iter of
       Inl e \<Rightarrow> Some (Inl e)
     | Inr n \<Rightarrow> (case fi_next n of
           None \<Rightarrow> Some (Inr None)
         | Some q \<Rightarrow> if q = fi then Some (Inr iter) else walk_before h fi (Some q)))"

declare walk_before.simps [code]

definition remove_from_list_mutex_free :: "addr \<Rightarrow> afi \<Rightarrow> afi outcome" where
  "remove_from_list_mutex_free fi s =
     (if afi_files s = Some fi
      then bindE (deref (afi_heap s) (Some fi)) (\<lambda>n.
             Inr (put_fi fi (n\<lparr>fi_next := None\<rparr>) (s\<lparr>afi_files := fi_next n\<rparr>)))
      else bindE (ended (walk_before (afi_heap s) fi (afi_files s))) (\<lambda>r. case r of
               None \<Rightarrow> Inr s
             | Some iter \<Rightarrow>
                 bindE (deref (afi_heap s) (Some fi)) (\<lambda>n.
                 bindE (deref (afi_heap s) (Some iter)) (\<lambda>m.
                   Inr (put_fi fi (n\<lparr>fi_next := None\<rparr>) (put_fi iter (m\<lparr>fi_next := fi_next n\<rparr>) s))))))"

definition close_file_index_mutex_free :: "addr \<Rightarrow> afi \<Rightarrow> (afi \<times> int) outcome" where
  "close_file_index_mutex_free fi s =
     bindE (deref (afi_heap s) (Some fi)) (\<lambda>n.
     bindE (remove_from_list_mutex_free fi s) (\<lambda>s'.
       Inr (free_fi fi s', if fi_associations n \<noteq> 0 then - 1 else 0)))"

definition close_file_index :: "addr \<Rightarrow> afi \<Rightarrow> (afi \<times> int) outcome" where
  "close_file_index fi s =
     bindE (close_file_index_mutex_free fi s) (\<lambda>(s', r). Inr (s', if r \<noteq> 0 then - 1 else 0))"

partial_function (option) afi_close_loop :: "afi \<Rightarrow> int \<Rightarrow> (afi \<times> int) outcome option" where
  "afi_close_loop s retval = (case afi_files s of
       None \<Rightarrow> Some (Inr (s, retval))
     | Some temp \<Rightarrow>
        (case deref (afi_heap s) (Some temp) of
           Inl e \<Rightarrow> Some (Inl e)
         | Inr n \<Rightarrow>
            (case close_file_index temp (put_fi temp (n\<lparr>fi_next := None\<rparr>) (s\<lparr>afi_files := fi_next n\<rparr>)) of
               Inl e \<Rightarrow> Some (Inl e)
             | Inr (s', err) \<Rightarrow> afi_close_loop s' (if err \<noteq> 0 then retval - 1 else retval))))"

declare afi_close_loop.simps [code]

definition afi_close :: "afi \<Rightarrow> (afi \<times> int) outcome" where
  "afi_close s = ended (afi_close_loop s 0)"

partial_function (option) walk_name :: "fi_heap \<Rightarrow> string \<Rightarrow> addr option \<Rightarrow> addr option outcome option" where
  "walk_name h name temp = (case temp of
       None \<Rightarrow> Some (Inr None)
     | Some a \<Rightarrow>
        (case deref h (Some a) of
           Inl e \<Rightarrow> Some (Inl e)
         | Inr n \<Rightarrow>
            (case fi_filename n of
               None \<Rightarrow> Some (Inl Null_Deref)
             | Some f \<Rightarrow> if f = name then Some (Inr (Some a)) else walk_name h name (fi_next n))))"

declare walk_name.simps [code]

definition afi_get :: "string \<Rightarrow> bool \<Rightarrow> afi \<Rightarrow> (afi \<times> addr option) outcome" where
  "afi_get name associate s =
     bindE (ended (walk_name (afi_heap s) name (afi_files s))) (\<lambda>r. case r of
         None \<Rightarrow> Inr (s, None)
       | Some a \<Rightarrow> bindE (deref (afi_heap s) (Some a)) (\<lambda>n.
           Inr (put_fi a (n\<lparr>fi_associations := fi_associations n + of_bool associate\<rparr>) s, Some a)))"

section \<open>Opening and closing a recording\<close>

text \<open>The results of the allocations of \<open>afi_add\<close>: the address of the new object or \<open>NULL\<close>, and
  whether \<open>strdup\<close> and the \<open>calloc\<close> of the file array succeed.\<close>

record allocs =
  al_new :: "addr option"
  al_strdup :: bool
  al_files :: bool

definition new_index :: "string \<Rightarrow> u64 \<Rightarrow> u32 \<Rightarrow> u64 \<Rightarrow> file_index" where
  "new_index name n_files status packet_size =
     (let allocated = (if n_files \<noteq> 0 then n_files else INITIAL_SIZE) in
      \<lparr>fi_status = status, fi_filename = Some name, fi_associations = 1, fi_next = None,
       fi_packet_size = packet_size,
       fi_files = replicate (unat allocated) \<lparr>fh_diskid = 0, fh_status = 0\<rparr>,
       fi_n_packets = 0, fi_n_files = n_files, fi_allocated_files = allocated\<rparr>)"

definition afi_add :: "allocs \<Rightarrow> string \<Rightarrow> u64 \<Rightarrow> u32 \<Rightarrow> u64 \<Rightarrow> afi \<Rightarrow> (afi \<times> addr option) outcome" where
  "afi_add al name n_files status packet_size s =
     bindE (afi_get name False s) (\<lambda>(s, r). case r of
         Some a \<Rightarrow> bindE (deref (afi_heap s) (Some a)) (\<lambda>fi.
             if has status AFI_RECORD \<and> has (fi_status fi) AFI_RECORD then Inr (s, None)
             else let st = (if has status AFI_RECORD then fi_status fi OR AFI_RECORD
                            else if has status AFI_SEND then fi_status fi OR AFI_SEND
                            else fi_status fi)
                  in Inr (put_fi a (fi\<lparr>fi_status := st, fi_associations := fi_associations fi + 1\<rparr>) s, Some a))
       | None \<Rightarrow>
          (case al_new al of
             None \<Rightarrow> Inr (s, None)
           | Some a \<Rightarrow>
              if \<not> al_strdup al \<or> \<not> al_files al then Inr (s, None)
              else
                bindE (add_to_list_mutex_free a (put_fi a (new_index name n_files status packet_size) s))
                  (\<lambda>s'. Inr (s', Some a))))"

text \<open>The wake-up of the waiting threads has no effect on the state.\<close>

definition afi_disassociate :: "addr \<Rightarrow> u32 \<Rightarrow> afi \<Rightarrow> (afi \<times> int) outcome" where
  "afi_disassociate a type s =
     bindE (deref (afi_heap s) (Some a)) (\<lambda>fi.
     bindE (check_assert (fi_associations fi > 0)) (\<lambda>_.
       let fi1 = fi\<lparr>fi_associations := fi_associations fi - 1\<rparr> in
       if fi_associations fi1 = 0 then close_file_index_mutex_free a (put_fi a fi1 s)
       else if has type AFI_RECORD
       then bindE (check_assert (has (fi_status fi1) AFI_RECORD)) (\<lambda>_.
              Inr (put_fi a (fi1\<lparr>fi_status := fi_status fi1 AND NOT AFI_RECORD\<rparr>) s, 0))
       else Inr (put_fi a fi1 s, 0)))"

section \<open>The files of a recording\<close>

partial_function (option) grow_allocated :: "u64 \<Rightarrow> u64 \<Rightarrow> u64 option" where
  "grow_allocated allocated fid =
     (if allocated < fid then grow_allocated (push_bit 1 allocated) fid else Some allocated)"

declare grow_allocated.simps [code]

text \<open>\<open>realloc_ok\<close> is whether \<open>realloc\<close> succeeds; \<open>garbage\<close> is the contents of the added part.\<close>

definition add_file_mutexfree :: "bool \<Rightarrow> fileholder \<Rightarrow> file_index \<Rightarrow> u64 \<Rightarrow> int \<Rightarrow> u32 \<Rightarrow> (file_index \<times> int) outcome" where
  "add_file_mutexfree realloc_ok garbage fi fid diskid status =
     bindE (if fid > fi_allocated_files fi
            then (case grow_allocated (fi_allocated_files fi) fid of
                    None \<Rightarrow> Inl Diverges
                  | Some n \<Rightarrow>
                     if realloc_ok
                     then Inr (fi\<lparr>fi_allocated_files := n,
                                  fi_files := fi_files fi @ replicate (unat n - length (fi_files fi)) garbage\<rparr>, True)
                     else Inr (fi\<lparr>fi_allocated_files := n\<rparr>, False))
            else Inr (fi, True)) (\<lambda>(fi1, ok).
       if \<not> ok then Inr (fi1, - 1)
       else
         let fi2 = (if fi_n_files fi1 > fid then fi1 else fi1\<lparr>fi_n_files := fi_n_files fi1 + 1\<rparr>)
         in bindE (array_set (fi_files fi2) (unat fid) \<lparr>fh_diskid = diskid, fh_status = status\<rparr>) (\<lambda>fs.
              Inr (fi2\<lparr>fi_files := fs\<rparr>, 0)))"

text \<open>The operations below read or update one object; \<open>on_fi\<close> lifts an update to the state.\<close>

definition on_fi :: "addr \<Rightarrow> (file_index \<Rightarrow> (file_index \<times> 'r) outcome) \<Rightarrow> afi \<Rightarrow> (afi \<times> 'r) outcome" where
  "on_fi a f s = bindE (deref (afi_heap s) (Some a)) (\<lambda>fi.
     bindE (f fi) (\<lambda>(fi', r). Inr (put_fi a fi' s, r)))"

definition afi_add_file :: "bool \<Rightarrow> fileholder \<Rightarrow> addr \<Rightarrow> u64 \<Rightarrow> int \<Rightarrow> u32 \<Rightarrow> afi \<Rightarrow> (afi \<times> int) outcome" where
  "afi_add_file realloc_ok garbage a fid diskid status =
     on_fi a (\<lambda>fi. add_file_mutexfree realloc_ok garbage fi fid diskid status)"

definition and_action :: "file_index \<Rightarrow> u64 \<Rightarrow> u32 \<Rightarrow> afi_update_action \<Rightarrow> file_index outcome" where
  "and_action fi filenum status action =
     bindE (array_get (fi_files fi) (unat filenum)) (\<lambda>fh.
       let st = (case action of AFI_ADD_TO_STATUS \<Rightarrow> fh_status fh OR status
                              | AFI_DEL_FROM_STATUS \<Rightarrow> fh_status fh AND NOT status)
       in Inr (fi\<lparr>fi_files := (fi_files fi)[unat filenum := fh\<lparr>fh_status := st\<rparr>]\<rparr>))"

definition afi_update_fh :: "addr \<Rightarrow> u64 \<Rightarrow> u32 \<Rightarrow> afi_update_action \<Rightarrow> afi \<Rightarrow> (afi \<times> unit) outcome" where
  "afi_update_fh a filenum status action =
     on_fi a (\<lambda>fi. bindE (and_action fi filenum status action) (\<lambda>fi'. Inr (fi', ())))"

definition update_fileholder :: "addr \<Rightarrow> u64 \<Rightarrow> u32 \<Rightarrow> afi_update_action \<Rightarrow> int \<Rightarrow> afi \<Rightarrow> (afi \<times> int) outcome" where
  "update_fileholder a filenum status action recid =
     on_fi a (\<lambda>fi. bindE (and_action fi filenum status action) (\<lambda>fi'.
       bindE (array_get (fi_files fi') (unat filenum)) (\<lambda>fh.
         Inr (fi'\<lparr>fi_files := (fi_files fi')[unat filenum := fh\<lparr>fh_diskid := recid\<rparr>]\<rparr>, 0))))"

text \<open>The loops over the files \<open>0 .. n_files - 1\<close>.\<close>

primrec each_file :: "nat \<Rightarrow> (fileholder \<Rightarrow> fileholder) \<Rightarrow> fileholder list \<Rightarrow> fileholder list outcome" where
  "each_file 0 f fs = Inr fs"
| "each_file (Suc i) f fs = bindE (each_file i f fs) (\<lambda>fs.
     bindE (array_get fs i) (\<lambda>fh. array_set fs i (f fh)))"

definition on_files :: "addr \<Rightarrow> (fileholder \<Rightarrow> fileholder) \<Rightarrow> afi \<Rightarrow> (afi \<times> unit) outcome" where
  "on_files a f = on_fi a (\<lambda>fi. bindE (each_file (unat (fi_n_files fi)) f (fi_files fi)) (\<lambda>fs.
     Inr (fi\<lparr>fi_files := fs\<rparr>, ())))"

definition afi_mark_recid_missing :: "string \<Rightarrow> int \<Rightarrow> afi \<Rightarrow> (afi \<times> int) outcome" where
  "afi_mark_recid_missing name recid s =
     bindE (afi_get name False s) (\<lambda>(s, r). case r of
         None \<Rightarrow> Inr (s, - 1)
       | Some a \<Rightarrow> bindE (on_files a (\<lambda>fh. if fh_diskid fh = recid
             then fh\<lparr>fh_diskid := - 1, fh_status := (fh_status fh AND NOT FH_ONDISK) OR FH_MISSING\<rparr>
             else fh) s) (\<lambda>(s', _). Inr (s', 0)))"

definition afi_single_all_found :: "addr \<Rightarrow> int \<Rightarrow> afi \<Rightarrow> (afi \<times> unit) outcome" where
  "afi_single_all_found a disk_id = on_files a (\<lambda>fh. \<lparr>fh_diskid = disk_id,
     fh_status = (fh_status fh AND NOT FH_MISSING) OR FH_ONDISK\<rparr>)"

definition afi_set_all_missing :: "addr \<Rightarrow> afi \<Rightarrow> (afi \<times> unit) outcome" where
  "afi_set_all_missing a = on_files a (\<lambda>fh. \<lparr>fh_diskid = - 1, fh_status = FH_MISSING\<rparr>)"

definition afi_get_n_files :: "addr \<Rightarrow> afi \<Rightarrow> u64 outcome" where
  "afi_get_n_files a s = bindE (deref (afi_heap s) (Some a)) (\<lambda>fi. Inr (fi_n_files fi))"

definition afi_get_n_packets :: "addr \<Rightarrow> afi \<Rightarrow> u64 outcome" where
  "afi_get_n_packets a s = bindE (deref (afi_heap s) (Some a)) (\<lambda>fi. Inr (fi_n_packets fi))"

definition afi_add_to_packets :: "addr \<Rightarrow> u64 \<Rightarrow> afi \<Rightarrow> (afi \<times> u64) outcome" where
  "afi_add_to_packets a n = on_fi a (\<lambda>fi.
     Inr (fi\<lparr>fi_n_packets := fi_n_packets fi + n\<rparr>, fi_n_packets fi + n))"

definition afi_get_status :: "addr \<Rightarrow> afi \<Rightarrow> u32 outcome" where
  "afi_get_status a s = bindE (deref (afi_heap s) (Some a)) (\<lambda>fi. Inr (fi_status fi))"

definition afi_update_metadata :: "addr \<Rightarrow> afi \<Rightarrow> (u64 \<times> u64 \<times> u32) outcome" where
  "afi_update_metadata a s = bindE (deref (afi_heap s) (Some a)) (\<lambda>fi.
     Inr (fi_n_files fi, fi_n_packets fi, fi_status fi))"

definition afi_get_packet_size :: "addr \<Rightarrow> afi \<Rightarrow> u64 outcome" where
  "afi_get_packet_size a s = bindE (deref (afi_heap s) (Some a)) (\<lambda>fi. Inr (fi_packet_size fi))"

definition afi_set_found :: "addr \<Rightarrow> u64 \<Rightarrow> int \<Rightarrow> afi \<Rightarrow> (afi \<times> unit) outcome" where
  "afi_set_found a file disk_id = on_fi a (\<lambda>fi.
     bindE (check_assert (fi_n_files fi \<le> file)) (\<lambda>_.
     bindE (array_get (fi_files fi) (unat file)) (\<lambda>fh.
       Inr (fi\<lparr>fi_files := (fi_files fi)[unat file := \<lparr>fh_diskid = disk_id,
         fh_status = (fh_status fh AND NOT FH_MISSING) OR FH_ONDISK\<rparr>]\<rparr>, ()))))"

definition afi_get_disk_id :: "addr \<Rightarrow> u64 \<Rightarrow> afi \<Rightarrow> int outcome" where
  "afi_get_disk_id a file s = bindE (deref (afi_heap s) (Some a)) (\<lambda>fi.
     bindE (check_assert (fi_n_files fi \<le> file)) (\<lambda>_.
     bindE (array_get (fi_files fi) (unat file)) (\<lambda>fh. Inr (fh_diskid fh))))"

definition afi_is_missing :: "addr \<Rightarrow> u64 \<Rightarrow> afi \<Rightarrow> bool outcome" where
  "afi_is_missing a file_id s = bindE (deref (afi_heap s) (Some a)) (\<lambda>fi.
     bindE (check_assert (file_id \<le> fi_n_files fi)) (\<lambda>_.
     bindE (array_get (fi_files fi) (unat file_id)) (\<lambda>fh. Inr (has (fh_status fh) FH_MISSING))))"

section \<open>Waiting for a file\<close>

text \<open>\<open>env\<close> holds what other threads do to the state each time the locks are released; when it is
  used up the caller is still waiting, and the result is \<open>None\<close>. When the recording is over the
  wait returns at once with -1, which \<open>afi_wait_on_file\<close> ignores.\<close>

fun afi_wait_on_file :: "(afi \<Rightarrow> afi) list \<Rightarrow> addr \<Rightarrow> u64 \<Rightarrow> afi \<Rightarrow> (afi \<times> int option) outcome" where
  "afi_wait_on_file env a fileid s =
     bindE (deref (afi_heap s) (Some a)) (\<lambda>fi.
     bindE (array_get (fi_files fi) (unat fileid)) (\<lambda>fh.
       if has (fh_status fh) FH_ONDISK then Inr (s, Some 0)
       else if has (fh_status fh) FH_MISSING then Inr (s, Some (- 1))
       else (case env of [] \<Rightarrow> Inr (s, None) | e # es \<Rightarrow> afi_wait_on_file es a fileid (e s))))"

text \<open>The loop of \<open>afi_start_loading\<close> once it waits. \<open>fh\<close> is a pointer into the array, read anew at
  each turn; a wait on a file whose recording is over returns -1.\<close>

fun afi_start_loading_wait :: "(afi \<Rightarrow> afi) list \<Rightarrow> addr \<Rightarrow> u64 \<Rightarrow> afi \<Rightarrow> (afi \<times> int option) outcome" where
  "afi_start_loading_wait env a file_id s =
     bindE (deref (afi_heap s) (Some a)) (\<lambda>fi.
     bindE (array_get (fi_files fi) (unat file_id)) (\<lambda>fh.
       if has (fh_status fh) FH_BUSY \<and> \<not> has (fh_status fh) FH_ONDISK
       then if \<not> has (fi_status fi) AFI_RECORD then Inr (s, Some (- 1))
            else (case env of [] \<Rightarrow> Inr (s, None) | e # es \<Rightarrow> afi_start_loading_wait es a file_id (e s))
       else Inr (s, Some 0)))"

definition afi_start_loading :: "(afi \<Rightarrow> afi) list \<Rightarrow> addr \<Rightarrow> u64 \<Rightarrow> bool \<Rightarrow> afi \<Rightarrow> (afi \<times> int option) outcome" where
  "afi_start_loading env a file_id in_loading s =
     bindE (deref (afi_heap s) (Some a)) (\<lambda>fi.
     bindE (check_assert (fi_n_files fi \<le> file_id)) (\<lambda>_.
     bindE (array_get (fi_files fi) (unat file_id)) (\<lambda>fh.
       if \<not> has (fh_status fh) FH_ONDISK
       then if has (fh_status fh) FH_BUSY
            then if in_loading then Inr (s, Some 1) else afi_start_loading_wait env a file_id s
            else Inr (s, Some 1)
       else Inr (s, Some 0))))"

declare afi_wait_on_file.simps [simp del] afi_start_loading_wait.simps [simp del]

section \<open>The list as a path in the heap\<close>

primrec path :: "fi_heap \<Rightarrow> addr option \<Rightarrow> addr list \<Rightarrow> addr option \<Rightarrow> bool" where
  "path h p [] q \<longleftrightarrow> p = q"
| "path h p (a # as) q \<longleftrightarrow> p = Some a \<and> (\<exists>n. h a = Some n \<and> path h (fi_next n) as q)"

lemma path_append: "path h p (as @ bs) q \<longleftrightarrow> (\<exists>r. path h p as r \<and> path h r bs q)"
  by (induction as arbitrary: p) auto

lemma path_upd_notin [simp]: "a \<notin> set as \<Longrightarrow> path (h(a := x)) p as q = path h p as q"
  by (induction as arbitrary: p) auto

lemma path_dom: "path h p as q \<Longrightarrow> a \<in> set as \<Longrightarrow> h a \<noteq> None"
  by (induction as arbitrary: p) auto

text \<open>Updating an object without touching its link keeps the path.\<close>

lemma path_upd_same_next:
  "h a = Some n \<Longrightarrow> fi_next m = fi_next n \<Longrightarrow> path (h(a \<mapsto> m)) p as q = path h p as q"
  by (induction as arbitrary: p) auto

lemma walk_last_path:
  "path h (Some p) as None \<Longrightarrow> walk_last h p = Some (Inr (last as))"
proof (induction as arbitrary: p)
  case (Cons a as)
  then obtain n where n: "p = a" "h a = Some n" "path h (fi_next n) as None" by auto
  show ?case
  proof (cases "fi_next n")
    case None
    with n have "as = []" by (cases as) auto
    with n None show ?thesis by (subst walk_last.simps) simp
  next
    case (Some q)
    with n Cons.IH[of q] have "walk_last h q = Some (Inr (last as))" "as \<noteq> []" by (auto split: list.splits)
    with n Some show ?thesis by (subst walk_last.simps) simp
  qed
qed simp

lemma walk_name_path:
  "path h p as None \<Longrightarrow> \<forall>a \<in> set as. \<exists>n f. h a = Some n \<and> fi_filename n = Some f \<Longrightarrow>
   walk_name h name p = Some (Inr (List.find (\<lambda>a. \<exists>n. h a = Some n \<and> fi_filename n = Some name) as))"
proof (induction as arbitrary: p)
  case Nil
  then show ?case by (subst walk_name.simps) simp
next
  case (Cons a as)
  then show ?case by (subst walk_name.simps) auto
qed

lemma walk_before_path:
  "path h p as None \<Longrightarrow> as \<noteq> [] \<Longrightarrow> hd as \<noteq> fi \<Longrightarrow> distinct as \<Longrightarrow>
   walk_before h fi p = Some (Inr (if fi \<in> set as then Some (last (takeWhile (\<lambda>a. a \<noteq> fi) as)) else None))"
proof (induction as arbitrary: p)
  case (Cons a as)
  then obtain n where n: "p = Some a" "h a = Some n" "path h (fi_next n) as None" by auto
  show ?case
  proof (cases as)
    case Nil
    with n Cons.prems show ?thesis by (subst walk_before.simps) auto
  next
    case (Cons b bs)
    with n have q: "fi_next n = Some b" by simp
    show ?thesis
    proof (cases "b = fi")
      case True
      with n q Cons Cons.prems show ?thesis by (subst walk_before.simps) simp
    next
      case False
      with n q Cons Cons.prems Cons.IH[of "Some b"] show ?thesis by (subst walk_before.simps) simp
    qed
  qed
qed simp

section \<open>The registry a list represents\<close>

text \<open>The abstract state is the list of the indexes with their contents, links removed. In the
  relation every allocated object is in the list: none has leaked.\<close>

type_synonym registry = "(addr \<times> file_index) list"

definition view :: "file_index \<Rightarrow> file_index" where
  "view n = n\<lparr>fi_next := None\<rparr>"

definition afi_rel :: "afi \<Rightarrow> registry \<Rightarrow> bool" where
  "afi_rel s L \<longleftrightarrow> path (afi_heap s) (afi_files s) (map fst L) None \<and> distinct (map fst L) \<and>
     dom (afi_heap s) = fst ` set L \<and>
     (\<forall>a fi. (a, fi) \<in> set L \<longrightarrow> map_option view (afi_heap s a) = Some fi)"

definition fi_ok :: "file_index \<Rightarrow> bool" where
  "fi_ok fi \<longleftrightarrow> fi_filename fi \<noteq> None \<and> 0 < fi_associations fi \<and> 0 < fi_allocated_files fi \<and>
     length (fi_files fi) = unat (fi_allocated_files fi) \<and> fi_n_files fi \<le> fi_allocated_files fi"

definition reg_ok :: "registry \<Rightarrow> bool" where
  "reg_ok L \<longleftrightarrow> distinct (map fst L) \<and> distinct (map (fi_filename \<circ> snd) L) \<and> (\<forall>(a, fi) \<in> set L. fi_ok fi)"

definition reg_find :: "string \<Rightarrow> registry \<Rightarrow> (addr \<times> file_index) option" where
  "reg_find name L = List.find (\<lambda>(a, fi). fi_filename fi = Some name) L"

definition reg_upd :: "addr \<Rightarrow> (file_index \<Rightarrow> file_index) \<Rightarrow> registry \<Rightarrow> registry" where
  "reg_upd a f L = map (\<lambda>(b, fi). (b, if b = a then f fi else fi)) L"

definition reg_del :: "addr \<Rightarrow> registry \<Rightarrow> registry" where
  "reg_del a L = filter (\<lambda>(b, fi). b \<noteq> a) L"

lemma view_simps [simp]:
  "fi_next (view n) = None" "fi_filename (view n) = fi_filename n" "fi_status (view n) = fi_status n"
  "fi_associations (view n) = fi_associations n" "fi_files (view n) = fi_files n"
  "fi_n_files (view n) = fi_n_files n" "fi_allocated_files (view n) = fi_allocated_files n"
  "fi_n_packets (view n) = fi_n_packets n" "fi_packet_size (view n) = fi_packet_size n"
  "view (view n) = view n" "view (n\<lparr>fi_next := q\<rparr>) = view n"
  by (simp_all add: view_def)

lemma view_id: "fi_next n = None \<Longrightarrow> view n = n"
  by (simp add: view_def)

lemma reg_upd_keys [simp]: "map fst (reg_upd a f L) = map fst L"
  by (simp add: reg_upd_def o_def case_prod_beta)

lemma reg_del_keys: "map fst (reg_del a L) = filter (\<lambda>b. b \<noteq> a) (map fst L)"
  by (induction L) (auto simp: reg_del_def)

lemma afi_rel_lookup:
  assumes "afi_rel s L" and "(a, fi) \<in> set L"
  obtains n where "afi_heap s a = Some n" "view n = fi"
  using assms by (fastforce simp: afi_rel_def)

lemma afi_rel_put:
  assumes rel: "afi_rel s L" and h: "afi_heap s a = Some n" and nx: "fi_next m = fi_next n"
  shows "afi_rel (put_fi a m s) (reg_upd a (\<lambda>_. view m) L)"
proof -
  have "dom ((afi_heap s)(a \<mapsto> m)) = dom (afi_heap s)" using h by auto
  moreover have "fst ` set (reg_upd a (\<lambda>_. view m) L) = fst ` set L"
    by (metis reg_upd_keys list.set_map)
  moreover have "map_option view (((afi_heap s)(a \<mapsto> m)) b) = Some k"
    if "(b, k) \<in> set (reg_upd a (\<lambda>_. view m) L)" for b k
  proof -
    from that obtain fi where "(b, fi) \<in> set L" "k = (if b = a then view m else fi)"
      by (auto simp: reg_upd_def)
    with rel show ?thesis by (auto simp: afi_rel_def)
  qed
  ultimately show ?thesis
    using rel path_upd_same_next[of "afi_heap s" a n m, OF h nx] by (simp add: afi_rel_def)
qed

lemma reg_upd_notin: "a \<notin> fst ` set L \<Longrightarrow> reg_upd a f L = L"
  by (induction L) (auto simp: reg_upd_def)

lemma afi_rel_put_const:
  assumes rel: "afi_rel s L" and h: "afi_heap s a = Some n" and m: "view m = f (view n)" "fi_next m = fi_next n"
  shows "afi_rel (put_fi a m s) (reg_upd a f L)"
proof -
  have "reg_upd a (\<lambda>_. view m) L = reg_upd a f L"
    unfolding reg_upd_def
  proof (rule map_cong[OF refl])
    fix x assume "x \<in> set L"
    obtain b fi where b: "x = (b, fi)" by (cases x)
    with \<open>x \<in> set L\<close> have x: "x = (b, fi)" "(b, fi) \<in> set L" by simp_all
    then obtain k where "afi_heap s b = Some k" "view k = fi" using afi_rel_lookup[OF rel] by blast
    with h m x show "(case x of (b, fi) \<Rightarrow> (b, if b = a then view m else fi)) =
        (case x of (b, fi) \<Rightarrow> (b, if b = a then f fi else fi))"
      by auto
  qed
  with afi_rel_put[OF rel h m(2)] show ?thesis by simp
qed

lemma add_to_list_rel:
  assumes rel: "afi_rel s L" and fresh: "afi_heap s a = None" and nx: "fi_next fi = None"
  shows "\<exists>s'. add_to_list_mutex_free a (put_fi a fi s) = Inr s' \<and> afi_rel s' (L @ [(a, fi)])"
proof -
  have notin: "a \<notin> set (map fst L)"
    using rel fresh unfolding afi_rel_def set_map by (metis domIff)
  show ?thesis
  proof (cases "afi_files s")
    case None
    with rel have "L = []" by (cases L) (auto simp: afi_rel_def)
    moreover from this rel have "dom (afi_heap s) = {}" by (simp add: afi_rel_def)
    ultimately show ?thesis using None nx
      by (simp add: add_to_list_mutex_free_def afi_rel_def view_id)
  next
    case (Some p)
    let ?as = "map fst L"
    have P: "path (afi_heap s) (Some p) ?as None" and d: "distinct ?as"
      using rel Some by (auto simp: afi_rel_def)
    then have ne: "?as \<noteq> []" by auto
    then obtain bs z where as: "?as = bs @ [z]" by (metis append_butlast_last_id)
    with P obtain m where m: "path (afi_heap s) (Some p) bs (Some z)" "afi_heap s z = Some m"
      by (auto simp: path_append)
    have z: "z \<noteq> a" "z \<notin> set bs" "a \<notin> set bs" using as notin d by auto
    have "walk_last (afi_heap (put_fi a fi s)) p = Some (Inr z)"
      using walk_last_path[of "afi_heap (put_fi a fi s)" p ?as] P notin as by simp
    then have r: "add_to_list_mutex_free a (put_fi a fi s) =
        Inr (put_fi z (m\<lparr>fi_next := Some a\<rparr>) (put_fi a fi s))"
      using Some nx z m(2) by (simp add: add_to_list_mutex_free_def)
    have "path ((afi_heap s)(a \<mapsto> fi, z \<mapsto> m\<lparr>fi_next := Some a\<rparr>)) (Some p) (bs @ [z, a]) None"
      using m z nx by (auto simp: path_append intro!: exI[of _ "Some z"])
    moreover have "map_option view (((afi_heap s)(a \<mapsto> fi, z \<mapsto> m\<lparr>fi_next := Some a\<rparr>)) b) = Some k"
      if "(b, k) \<in> set (L @ [(a, fi)])" for b k
    proof (cases "b = a")
      case True
      have "(a, k) \<notin> set L" using notin by (metis fst_conv image_eqI list.set_map)
      with that True have "k = fi" by simp
      with True nx z(1) show ?thesis by (simp add: view_def)
    next
      case False
      with that have "(b, k) \<in> set L" by auto
      from afi_rel_lookup[OF rel this] obtain n where "afi_heap s b = Some n" "view n = k" .
      with False m(2) show ?thesis by (cases "b = z") simp_all
    qed
    moreover have "map fst (L @ [(a, fi)]) = bs @ [z, a]" using as by simp
    moreover have "distinct (bs @ [z, a])" using d as notin by auto
    moreover have "dom ((afi_heap s)(a \<mapsto> fi, z \<mapsto> m\<lparr>fi_next := Some a\<rparr>)) = fst ` set (L @ [(a, fi)])"
      using rel m(2) by (auto simp: afi_rel_def)
    ultimately show ?thesis using r Some nx by (simp add: afi_rel_def view_id)
  qed
qed

lemma remove_from_list_rel:
  assumes rel: "afi_rel s L" and mem: "a \<in> set (map fst L)"
  shows "\<exists>s'. remove_from_list_mutex_free a s = Inr s' \<and> afi_rel (free_fi a s') (reg_del a L)"
proof -
  let ?as = "map fst L"
  from mem obtain bs cs where as: "?as = bs @ a # cs" by (meson split_list)
  have P: "path (afi_heap s) (afi_files s) ?as None" and d: "distinct ?as"
    using rel by (auto simp: afi_rel_def)
  have notin: "a \<notin> set bs" "a \<notin> set cs" using d as by auto
  then have "filter (\<lambda>b. b \<noteq> a) bs = bs" "filter (\<lambda>b. b \<noteq> a) cs = cs"
    by (auto intro: filter_True)
  then have keys: "map fst (reg_del a L) = bs @ cs"
    using as by (simp add: reg_del_keys)
  from P as obtain n where n: "path (afi_heap s) (afi_files s) bs (Some a)" "afi_heap s a = Some n"
    "path (afi_heap s) (fi_next n) cs None"
    by (auto simp: path_append)
  have dm: "fst ` set (reg_del a L) = dom (afi_heap s) - {a}"
    using rel by (force simp: afi_rel_def reg_del_def)
  show ?thesis
  proof (cases bs)
    case Nil
    with n have "afi_files s = Some a" by simp
    moreover have "afi_rel (free_fi a (put_fi a (n\<lparr>fi_next := None\<rparr>) (s\<lparr>afi_files := fi_next n\<rparr>))) (reg_del a L)"
      using rel n(3) notin d as Nil keys dm by (auto simp: afi_rel_def reg_del_def)
    ultimately show ?thesis using n(2) by (simp add: remove_from_list_mutex_free_def)
  next
    case (Cons b bs')
    then obtain ds z where bs: "bs = ds @ [z]" by (metis append_butlast_last_id list.distinct(1))
    with n(1) obtain m where m: "path (afi_heap s) (afi_files s) ds (Some z)" "afi_heap s z = Some m"
      by (auto simp: path_append)
    have dd: "z \<noteq> a" "z \<notin> set ds" "z \<notin> set cs" "a \<notin> set ds" using d as bs by auto
    have hd: "hd ?as \<noteq> a" using as bs notin by (cases ds) auto
    have "afi_files s \<noteq> Some a" using n(1) Cons notin by auto
    moreover have "takeWhile (\<lambda>x. x \<noteq> a) ?as = bs"
      using as notin by (auto simp: takeWhile_tail takeWhile_eq_all_conv)
    then have "walk_before (afi_heap s) a (afi_files s) = Some (Inr (Some z))"
      using walk_before_path[OF P _ hd d] as bs by simp
    ultimately have r: "remove_from_list_mutex_free a s =
        Inr (put_fi a (n\<lparr>fi_next := None\<rparr>) (put_fi z (m\<lparr>fi_next := fi_next n\<rparr>) s))"
      using n(2) m(2) by (simp add: remove_from_list_mutex_free_def)
    let ?h = "((afi_heap s)(z \<mapsto> m\<lparr>fi_next := fi_next n\<rparr>))(a := None)"
    have "path ?h (afi_files s) (ds @ z # cs) None"
      using m n(3) dd notin by (auto simp: path_append intro!: exI[of _ "Some z"])
    moreover have "map_option view (?h c) = Some k" if "(c, k) \<in> set (reg_del a L)" for c k
    proof -
      from that have c: "(c, k) \<in> set L" "c \<noteq> a" by (auto simp: reg_del_def)
      from afi_rel_lookup[OF rel c(1)] obtain x where "afi_heap s c = Some x" "view x = k" .
      with c(2) m(2) show ?thesis by (cases "c = z") simp_all
    qed
    moreover have "distinct (ds @ z # cs)" using d as bs by auto
    ultimately have "afi_rel (s\<lparr>afi_heap := ?h\<rparr>) (reg_del a L)"
      unfolding afi_rel_def using keys bs dm m(2) by auto
    moreover have "free_fi a (put_fi a (n\<lparr>fi_next := None\<rparr>) (put_fi z (m\<lparr>fi_next := fi_next n\<rparr>) s)) =
        s\<lparr>afi_heap := ?h\<rparr>"
      by (simp add: free_fi_def put_fi_def)
    ultimately show ?thesis using r by metis
  qed
qed

lemma close_file_index_rel:
  assumes rel: "afi_rel s L" and mem: "(a, fi) \<in> set L"
  shows "\<exists>s'. close_file_index_mutex_free a s = Inr (s', if fi_associations fi \<noteq> 0 then - 1 else 0) \<and>
    afi_rel s' (reg_del a L)"
proof -
  obtain n where n: "afi_heap s a = Some n" "view n = fi" using afi_rel_lookup[OF rel mem] .
  have "a \<in> set (map fst L)" using mem by force
  from remove_from_list_rel[OF rel this] n show ?thesis
    by (auto simp: close_file_index_mutex_free_def)
qed

lemma afi_get_rel:
  assumes rel: "afi_rel s L" and ok: "reg_ok L"
  shows "ended (walk_name (afi_heap s) name (afi_files s)) = Inr (map_option fst (reg_find name L))"
proof -
  have "\<exists>n f. afi_heap s a = Some n \<and> fi_filename n = Some f" if "a \<in> set (map fst L)" for a
  proof -
    from that obtain fi where "(a, fi) \<in> set L" by auto
    moreover from this obtain n where "afi_heap s a = Some n" "view n = fi"
      using afi_rel_lookup[OF rel] by blast
    moreover have "fi_ok fi" using ok \<open>(a, fi) \<in> set L\<close> by (auto simp: reg_ok_def)
    ultimately show ?thesis by (metis fi_ok_def not_None_eq view_simps(2))
  qed
  then have "walk_name (afi_heap s) name (afi_files s) = Some (Inr (List.find
      (\<lambda>a. \<exists>n. afi_heap s a = Some n \<and> fi_filename n = Some name) (map fst L)))"
    using rel by (intro walk_name_path) (auto simp: afi_rel_def)
  moreover have "List.find (\<lambda>a. \<exists>n. afi_heap s a = Some n \<and> fi_filename n = Some name) (map fst L') =
      map_option fst (reg_find name L')" if "set L' \<subseteq> set L" for L'
    using that
  proof (induction L')
    case (Cons x xs)
    obtain a fi where x: "x = (a, fi)" by (cases x)
    with Cons.prems have "(a, fi) \<in> set L" by simp
    then obtain n where "afi_heap s a = Some n" "view n = fi" using afi_rel_lookup[OF rel] by blast
    moreover from this have "fi_filename n = fi_filename fi" by auto
    moreover have "List.find (\<lambda>a. \<exists>n. afi_heap s a = Some n \<and> fi_filename n = Some name) (map fst xs) =
        map_option fst (reg_find name xs)"
      using Cons by simp
    ultimately show ?case using x by (simp add: reg_find_def)
  qed (simp add: reg_find_def)
  ultimately show ?thesis by simp
qed

section \<open>Operations refine those of the registry\<close>

definition reg_add :: "allocs \<Rightarrow> string \<Rightarrow> u64 \<Rightarrow> u32 \<Rightarrow> u64 \<Rightarrow> registry \<Rightarrow> registry \<times> addr option" where
  "reg_add al name n_files status packet_size L = (case reg_find name L of
       Some (a, fi) \<Rightarrow>
         if has status AFI_RECORD \<and> has (fi_status fi) AFI_RECORD then (L, None)
         else (reg_upd a (\<lambda>fi. fi\<lparr>fi_status := fi_status fi OR (status AND (AFI_RECORD OR AFI_SEND)),
                 fi_associations := fi_associations fi + 1\<rparr>) L, Some a)
     | None \<Rightarrow> (case al_new al of
           None \<Rightarrow> (L, None)
         | Some a \<Rightarrow> if al_strdup al \<and> al_files al
             then (L @ [(a, new_index name n_files status packet_size)], Some a)
             else (L, None)))"

definition reg_disassociate :: "addr \<Rightarrow> u32 \<Rightarrow> file_index \<Rightarrow> registry \<Rightarrow> registry" where
  "reg_disassociate a type fi L =
     (if fi_associations fi = 1 then reg_del a L
      else reg_upd a (\<lambda>fi. fi\<lparr>fi_associations := fi_associations fi - 1,
             fi_status := (if has type AFI_RECORD then fi_status fi AND NOT AFI_RECORD else fi_status fi)\<rparr>) L)"

lemma reg_find_Some: "reg_find name L = Some (a, fi) \<Longrightarrow> (a, fi) \<in> set L \<and> fi_filename fi = Some name"
  by (auto simp: reg_find_def find_Some_iff) (metis nth_mem)

lemma reg_find_None: "reg_find name L = None \<longleftrightarrow> (\<forall>(a, fi) \<in> set L. fi_filename fi \<noteq> Some name)"
  by (auto simp: reg_find_def find_None_iff)

lemma put_fi_same: "afi_heap s a = Some n \<Longrightarrow> put_fi a n s = s"
  by (cases s) (auto simp: put_fi_def)

lemma afi_get_False:
  assumes rel: "afi_rel s L" and ok: "reg_ok L"
  shows "afi_get name False s = Inr (s, map_option fst (reg_find name L))"
proof (cases "reg_find name L")
  case (Some x)
  then obtain a fi where x: "x = (a, fi)" "(a, fi) \<in> set L"
    using reg_find_Some by (metis surj_pair)
  with rel obtain n where "afi_heap s a = Some n" using afi_rel_lookup by blast
  moreover from this have "put_fi a (n\<lparr>fi_associations := fi_associations n + of_bool False\<rparr>) s = s"
    by (simp add: put_fi_same)
  ultimately show ?thesis using Some x afi_get_rel[OF rel ok] by (simp add: afi_get_def)
qed (simp add: afi_get_def afi_get_rel[OF rel ok])

lemma afi_add_rel:
  assumes rel: "afi_rel s L" and ok: "reg_ok L" and fresh: "\<forall>a. al_new al = Some a \<longrightarrow> afi_heap s a = None"
    and st: "status = AFI_RECORD \<or> status = AFI_SEND"
  shows "\<exists>s'. afi_add al name n_files status packet_size s =
      Inr (s', snd (reg_add al name n_files status packet_size L)) \<and>
    afi_rel s' (fst (reg_add al name n_files status packet_size L))"
proof (cases "reg_find name L")
  case None
  note g = afi_get_False[OF rel ok, of name]
  show ?thesis
  proof (cases "al_new al")
    case (Some a)
    with fresh have "afi_heap s a = None" by blast
    from add_to_list_rel[OF rel this, of "new_index name n_files status packet_size"]
    show ?thesis using None Some g rel
      by (auto simp: afi_add_def reg_add_def new_index_def Let_def)
  qed (use None g rel in \<open>simp add: afi_add_def reg_add_def\<close>)
next
  case (Some x)
  obtain a fi where x: "x = (a, fi)" by (cases x)
  with Some have mem: "(a, fi) \<in> set L" using reg_find_Some by blast
  obtain n where n: "afi_heap s a = Some n" "view n = fi" using afi_rel_lookup[OF rel mem] .
  have sts: "fi_status fi = fi_status n" using n(2) by auto
  let ?f = "\<lambda>fi. fi\<lparr>fi_status := fi_status fi OR (status AND (AFI_RECORD OR AFI_SEND)),
                 fi_associations := fi_associations fi + 1\<rparr>"
  have or: "status AND (AFI_RECORD OR AFI_SEND) = status" "has status AFI_RECORD \<longleftrightarrow> status = AFI_RECORD"
    "has AFI_SEND AFI_SEND"
    using st by (auto simp: afi_defs has_def)
  have "view (?f n) = ?f (view n)" by (simp add: view_def)
  from afi_rel_put_const[OF rel n(1), of "?f n" ?f, OF this]
  have "afi_rel (put_fi a (?f n) s) (reg_upd a ?f L)" by simp
  then show ?thesis
    using Some x n sts afi_get_False[OF rel ok, of name] rel st
    by (auto simp: afi_add_def reg_add_def Let_def or(1) or(2) or(3))
qed

text \<open>C6: opening a recording is the operation of the registry: a known name gets one association more,
  unless it is being recorded and is asked for recording again; an unknown name gets a new entry
  with one association at the end of the list, and a failed allocation changes nothing.\<close>

theorem afi_add_refines:
  assumes rel: "afi_rel s L" and ok: "reg_ok L" and fresh: "\<forall>a. al_new al = Some a \<longrightarrow> afi_heap s a = None"
    and st: "status = AFI_RECORD \<or> status = AFI_SEND"
  shows "\<exists>s'. afi_add al name n_files status packet_size s =
      Inr (s', snd (reg_add al name n_files status packet_size L)) \<and>
    afi_rel s' (fst (reg_add al name n_files status packet_size L))"
  by (rule afi_add_rel[OF assms])

theorem afi_add_refines_witness:
  "\<exists>s'. afi_add \<lparr>al_new = Some 3, al_strdup = True, al_files = True\<rparr> ''a'' 0 AFI_RECORD 10 afi_empty = Inr (s', Some 3) \<and>
     afi_rel s' [(3, new_index ''a'' 0 AFI_RECORD 10)]"
  using afi_add_refines[of afi_empty "[]" "\<lparr>al_new = Some 3, al_strdup = True, al_files = True\<rparr>" AFI_RECORD "''a''" 0 10]
  by (simp add: afi_rel_def reg_ok_def afi_empty_def reg_add_def reg_find_def)

lemma reg_ok_upd:
  assumes "reg_ok L" and "\<And>fi. (a, fi) \<in> set L \<Longrightarrow> fi_ok (f fi) \<and> fi_filename (f fi) = fi_filename fi"
  shows "reg_ok (reg_upd a f L)"
proof -
  have "map (fi_filename \<circ> snd) (reg_upd a f L) = map (fi_filename \<circ> snd) L"
    using assms(2) by (auto simp: reg_upd_def)
  moreover have "fi_ok k" if "(b, k) \<in> set (reg_upd a f L)" for b k
    using that assms by (auto simp: reg_upd_def reg_ok_def split: if_splits)
  ultimately show ?thesis using assms(1) by (auto simp: reg_ok_def)
qed

lemma reg_ok_del: "reg_ok L \<Longrightarrow> reg_ok (reg_del a L)"
  by (auto simp: reg_ok_def reg_del_def distinct_map_filter)

lemma new_index_ok: "fi_ok (new_index name n_files status packet_size)"
  by (simp add: new_index_def fi_ok_def Let_def INITIAL_SIZE_def word_gt_0)

lemma reg_add_ok:
  assumes "reg_ok L" and "\<forall>(a, fi) \<in> set L. fi_associations fi < - 1"
    and "\<forall>a. al_new al = Some a \<longrightarrow> a \<notin> fst ` set L"
  shows "reg_ok (fst (reg_add al name n_files status packet_size L))"
proof (cases "reg_find name L")
  case None
  then have notin: "Some name \<notin> set (map (fi_filename \<circ> snd) L)"
    unfolding reg_find_None by auto
  have fn: "fi_filename (new_index name n_files status packet_size) = Some name"
    by (simp add: new_index_def Let_def)
  have "reg_ok (L @ [(a, new_index name n_files status packet_size)])" if "a \<notin> fst ` set L" for a
    using assms(1) notin that new_index_ok[of name n_files status packet_size]
    unfolding reg_ok_def map_append distinct_append by (auto simp: fn)
  with None assms show ?thesis
    by (auto simp: reg_add_def split: option.split)
next
  case (Some x)
  then obtain a fi where x: "x = (a, fi)" "(a, fi) \<in> set L" using reg_find_Some by (metis surj_pair)
  from x(2) assms(2) have "0 < fi_associations fi' + 1" if "(a, fi') \<in> set L" for fi'
    using that by (intro not_max_plus1(2)) auto
  then have "reg_ok (reg_upd a (\<lambda>fi. fi\<lparr>fi_status := fi_status fi OR (status AND (AFI_RECORD OR AFI_SEND)),
                 fi_associations := fi_associations fi + 1\<rparr>) L)"
    using assms(1,2) by (intro reg_ok_upd) (auto simp: reg_ok_def fi_ok_def)
  then show ?thesis
    using Some x(1) assms(1) by (simp add: reg_add_def)
qed

lemma reg_unique: "distinct (map fst L) \<Longrightarrow> (a, x) \<in> set L \<Longrightarrow> (a, y) \<in> set L \<Longrightarrow> x = y"
  by (metis eq_key_imp_eq_value)

lemma afi_disassociate_rel:
  assumes rel: "afi_rel s L" and ok: "reg_ok L" and mem: "(a, fi) \<in> set L"
    and flag: "has type AFI_RECORD \<longrightarrow> fi_associations fi = 1 \<or> has (fi_status fi) AFI_RECORD"
  shows "\<exists>s'. afi_disassociate a type s = Inr (s', 0) \<and> afi_rel s' (reg_disassociate a type fi L) \<and>
    reg_ok (reg_disassociate a type fi L)"
proof -
  obtain n where n: "afi_heap s a = Some n" "view n = fi" using afi_rel_lookup[OF rel mem] .
  have fn: "fi_associations n = fi_associations fi" "fi_status n = fi_status fi" using n(2) by auto
  have pos: "0 < fi_associations fi" "fi_ok fi" using ok mem by (auto simp: reg_ok_def fi_ok_def)
  define n1 where "n1 = n\<lparr>fi_associations := fi_associations n - 1\<rparr>"
  have n1: "fi_next n1 = fi_next n" "view n1 = (view n)\<lparr>fi_associations := fi_associations (view n) - 1\<rparr>"
    by (simp_all add: n1_def view_def)
  show ?thesis
  proof (cases "fi_associations fi = 1")
    case True
    let ?f = "\<lambda>fi. fi\<lparr>fi_associations := fi_associations fi - 1\<rparr>"
    have r1: "afi_rel (put_fi a n1 s) (reg_upd a ?f L)"
      using afi_rel_put_const[OF rel n(1), of n1 ?f] n1 by simp
    have "(a, ?f fi) \<in> set (reg_upd a ?f L)" using mem by (force simp: reg_upd_def)
    from close_file_index_rel[OF r1 this] True obtain s' where
      s': "close_file_index_mutex_free a (put_fi a n1 s) = Inr (s', 0)" "afi_rel s' (reg_del a (reg_upd a ?f L))"
      by auto
    have "reg_del a (reg_upd a ?f L) = reg_del a L"
      by (induction L) (auto simp: reg_del_def reg_upd_def)
    with s' True n(1) fn pos reg_ok_del[OF ok] show ?thesis
      by (simp add: afi_disassociate_def reg_disassociate_def Let_def n1_def)
  next
    case False
    let ?g = "\<lambda>fi. fi\<lparr>fi_associations := fi_associations fi - 1,
             fi_status := (if has type AFI_RECORD then fi_status fi AND NOT AFI_RECORD else fi_status fi)\<rparr>"
    have "afi_rel (put_fi a (?g n) s) (reg_upd a ?g L)"
      by (rule afi_rel_put_const[OF rel n(1)]) (simp_all add: view_def)
    moreover have "0 < fi_associations fi - 1" using False pos(1)
      by (metis eq_iff_diff_eq_0 word_gt_0)
    then have "reg_ok (reg_upd a ?g L)"
      using pos(2) reg_unique[OF _ mem] ok
      by (intro reg_ok_upd) (auto simp: fi_ok_def reg_ok_def)
    moreover have "afi_disassociate a type s = Inr (put_fi a (?g n) s, 0)"
      using False n(1) fn pos(1) flag
      by (cases n; cases "has type AFI_RECORD") (simp_all add: afi_disassociate_def Let_def)
    ultimately show ?thesis using False by (simp add: reg_disassociate_def)
  qed
qed

text \<open>C7: ending an association either removes the entry, when it was the last one, or lowers its count
  and, for a recorder, takes the recording flag away. A recorder that ends an association of an
  index that is not being recorded fails the assertion.\<close>

theorem afi_disassociate_refines:
  assumes rel: "afi_rel s L" and ok: "reg_ok L" and mem: "(a, fi) \<in> set L"
    and flag: "has type AFI_RECORD \<longrightarrow> fi_associations fi = 1 \<or> has (fi_status fi) AFI_RECORD"
  shows "\<exists>s'. afi_disassociate a type s = Inr (s', 0) \<and> afi_rel s' (reg_disassociate a type fi L) \<and>
    reg_ok (reg_disassociate a type fi L)"
  by (rule afi_disassociate_rel[OF assms])

theorem afi_disassociate_refines_witness:
  "\<exists>s'. afi_disassociate 3 AFI_RECORD \<lparr>afi_files = Some 3, afi_heap = [3 \<mapsto> new_index ''a'' 0 AFI_RECORD 10]\<rparr> = Inr (s', 0) \<and>
     afi_rel s' []"
  using afi_disassociate_refines[of "\<lparr>afi_files = Some 3, afi_heap = [3 \<mapsto> new_index ''a'' 0 AFI_RECORD 10]\<rparr>"
      "[(3, new_index ''a'' 0 AFI_RECORD 10)]" 3 "new_index ''a'' 0 AFI_RECORD 10" AFI_RECORD]
    new_index_ok[of "''a''" 0 AFI_RECORD 10]
  by (simp add: afi_rel_def view_def new_index_def Let_def reg_ok_def reg_disassociate_def reg_del_def)

section \<open>Sessions of senders\<close>

text \<open>A sender opens an index by name and ends its association later. \<open>None\<close> stands for a failed
  allocation; the address of a new object is fresh.\<close>

definition send_open :: "allocs \<times> string \<times> u64 \<times> u64 \<Rightarrow> afi \<Rightarrow> (afi \<times> addr) option" where
  "send_open = (\<lambda>(al, name, n_files, packet_size) s.
     if (case al_new al of None \<Rightarrow> False | Some a \<Rightarrow> afi_heap s a \<noteq> None) then None
     else (case afi_add al name n_files AFI_SEND packet_size s of
         Inr (s', Some a) \<Rightarrow> Some (s', a) | _ \<Rightarrow> None))"

definition send_close :: "addr \<Rightarrow> afi \<Rightarrow> afi option" where
  "send_close a s = (case afi_disassociate a AFI_SEND s of Inr (s', _) \<Rightarrow> Some s' | Inl _ \<Rightarrow> None)"

definition associations :: "afi \<Rightarrow> addr \<Rightarrow> nat" where
  "associations s a = (case afi_heap s a of None \<Rightarrow> 0 | Some fi \<Rightarrow> unat (fi_associations fi))"

definition afi_good :: "afi \<Rightarrow> bool" where
  "afi_good s \<longleftrightarrow> (\<exists>L. afi_rel s L \<and> reg_ok L)"

definition assoc_of :: "registry \<Rightarrow> addr \<Rightarrow> nat" where
  "assoc_of L a = (case map_of L a of None \<Rightarrow> 0 | Some fi \<Rightarrow> unat (fi_associations fi))"

lemma associations_rel:
  assumes "afi_rel s L"
  shows "associations s = assoc_of L"
proof
  fix a
  show "associations s a = assoc_of L a"
  proof (cases "map_of L a")
    case None
    then have "a \<notin> fst ` set L" by (simp add: map_of_eq_None_iff)
    with assms have "afi_heap s a = None" unfolding afi_rel_def by blast
    with None show ?thesis by (simp add: associations_def assoc_of_def)
  next
    case (Some fi)
    then have "(a, fi) \<in> set L" by (rule map_of_SomeD)
    from afi_rel_lookup[OF assms this] obtain n where n: "afi_heap s a = Some n" "view n = fi" .
    then have "fi_associations fi = fi_associations n" by auto
    with n(1) Some show ?thesis by (simp add: associations_def assoc_of_def)
  qed
qed

lemma map_of_reg_upd: "map_of (reg_upd a f L) b = (if b = a then map_option f (map_of L b) else map_of L b)"
  by (induction L) (auto simp: reg_upd_def)

lemma map_of_reg_del: "map_of (reg_del a L) b = (if b = a then None else map_of L b)"
  by (induction L) (auto simp: reg_del_def)

lemma has_send [simp]: "\<not> has AFI_SEND AFI_RECORD"
  by (simp add: has_def afi_defs)

lemma reg_add_send_assoc:
  assumes "reg_ok L" "\<forall>(a, fi) \<in> set L. fi_associations fi < - 1"
    "reg_add al name n_files AFI_SEND packet_size L = (L', Some a)"
    "\<forall>a. al_new al = Some a \<longrightarrow> a \<notin> fst ` set L"
  shows "assoc_of L' = (assoc_of L)(a := Suc (assoc_of L a))"
proof (cases "reg_find name L")
  case None
  with assms have L': "L' = L @ [(a, new_index name n_files AFI_SEND packet_size)]" "a \<notin> fst ` set L"
    by (auto simp: reg_add_def split: option.splits if_splits)
  have "fi_associations (new_index name n_files AFI_SEND packet_size) = 1"
    by (simp add: new_index_def Let_def)
  moreover have "map_of L a = None" using L'(2) by (simp add: map_of_eq_None_iff)
  ultimately show ?thesis using L' by (auto simp: assoc_of_def fun_eq_iff map_add_def split: option.split)
next
  case (Some x)
  obtain b fi where x: "x = (b, fi)" by (cases x)
  with Some assms(3) have ab: "b = a" and L': "L' = reg_upd a (\<lambda>fi. fi\<lparr>fi_status := fi_status fi OR (AFI_SEND AND (AFI_RECORD OR AFI_SEND)),
                 fi_associations := fi_associations fi + 1\<rparr>) L"
    by (auto simp: reg_add_def)
  have mem: "(a, fi) \<in> set L" using reg_find_Some Some x ab by blast
  with assms(1) have m: "map_of L a = Some fi" by (simp add: reg_ok_def)
  have "fi_associations fi < - 1" using mem assms(2) by auto
  then have "unat (fi_associations fi + 1) = Suc (unat (fi_associations fi))"
    by (rule not_max_plus1)
  with m show ?thesis
    by (auto simp: L' assoc_of_def map_of_reg_upd fun_eq_iff)
qed

interpretation senders: session_index send_open send_close associations afi_good "2 ^ 64 - 1"
proof unfold_locales
  fix s k s' a
  assume g: "afi_good s" and o: "send_open k s = Some (s', a)" and lim: "\<forall>b. associations s b < 2 ^ 64 - 1"
  obtain al name n ps where k: "k = (al, name, n, ps)" by (cases k)
  from g obtain L where L: "afi_rel s L" "reg_ok L" by (auto simp: afi_good_def)
  from o k have fresh: "\<forall>b. al_new al = Some b \<longrightarrow> afi_heap s b = None"
    and add: "afi_add al name n AFI_SEND ps s = Inr (s', Some a)"
    by (auto simp: send_open_def split: if_splits option.splits sum.splits)
  from afi_add_rel[OF L fresh, of AFI_SEND name n ps] add have r:
    "snd (reg_add al name n AFI_SEND ps L) = Some a" "afi_rel s' (fst (reg_add al name n AFI_SEND ps L))"
    by auto
  have notin: "\<forall>b. al_new al = Some b \<longrightarrow> b \<notin> fst ` set L"
    using fresh L(1) unfolding afi_rel_def by (metis domIff)
  have small: "\<forall>(b, fi) \<in> set L. fi_associations fi < - 1"
  proof clarify
    fix b fi assume "(b, fi) \<in> set L"
    with L(2) have "assoc_of L b = unat (fi_associations fi)" by (simp add: assoc_of_def reg_ok_def)
    with lim have "unat (fi_associations fi) < 2 ^ 64 - 1" by (metis associations_rel L(1))
    then show "fi_associations fi < - 1" by (simp add: not_max_iff)
  qed
  have "associations s' = (associations s)(a := Suc (associations s a))"
    using reg_add_send_assoc[OF L(2) small _ notin, of name n ps "fst (reg_add al name n AFI_SEND ps L)" a]
      r associations_rel[OF L(1)] associations_rel[OF r(2)] by (metis prod.collapse)
  with r(2) reg_add_ok[OF L(2) small notin] show "afi_good s' \<and> associations s' = (associations s)(a := Suc (associations s a))"
    by (auto simp: afi_good_def)
next
  fix s a
  assume g: "afi_good s" and p: "0 < associations s a"
  from g obtain L where L: "afi_rel s L" "reg_ok L" by (auto simp: afi_good_def)
  from p associations_rel[OF L(1)] obtain fi where m: "map_of L a = Some fi"
    by (auto simp: assoc_of_def split: option.splits)
  then have mem: "(a, fi) \<in> set L" by (rule map_of_SomeD)
  from afi_disassociate_rel[OF L mem, of AFI_SEND] obtain s' where
    s': "afi_disassociate a AFI_SEND s = Inr (s', 0)" "afi_rel s' (reg_disassociate a AFI_SEND fi L)"
      "reg_ok (reg_disassociate a AFI_SEND fi L)" by auto
  have "0 < unat (fi_associations fi)" using p m associations_rel[OF L(1)] by (simp add: assoc_of_def)
  then have "unat (fi_associations fi - 1) = unat (fi_associations fi) - 1"
    by (simp add: unat_minus_one unat_gt_0)
  then have "assoc_of (reg_disassociate a AFI_SEND fi L) = (assoc_of L)(a := assoc_of L a - 1)"
    using m by (auto simp: reg_disassociate_def assoc_of_def map_of_reg_upd map_of_reg_del fun_eq_iff)
  then show "\<exists>s'. send_close a s = Some s' \<and> afi_good s' \<and> associations s' = (associations s)(a := associations s a - 1)"
    using s' associations_rel[OF L(1)] associations_rel[OF s'(2)]
    by (auto simp: send_close_def afi_good_def)
qed

text \<open>C4: when no allocation is live, however many sessions senders open on however many names, ending
  them in any order frees every index: nothing leaks and nothing is freed early.\<close>

theorem sender_sessions_balanced:
  assumes "afi_good s" and "open_all send_open ks s = Some (s1, as)"
    and "\<forall>b. associations s b + length ks \<le> 2 ^ 64 - 1" and "mset bs = mset as"
  shows "\<exists>s2. close_all send_close bs s1 = Some s2 \<and> afi_good s2 \<and> associations s2 = associations s"
  by (rule senders.balanced[OF assms])

lemma afi_good_empty: "afi_good afi_empty"
  unfolding afi_good_def by (rule exI[of _ "[]"]) (simp add: afi_rel_def reg_ok_def afi_empty_def)

theorem sender_sessions_balanced_witness:
  "\<exists>s1 s2. open_all send_open [(\<lparr>al_new = Some 3, al_strdup = True, al_files = True\<rparr>, ''a'', 1, 10),
      (\<lparr>al_new = None, al_strdup = True, al_files = True\<rparr>, ''a'', 1, 10)] afi_empty = Some (s1, [3, 3]) \<and>
    close_all send_close [3, 3] s1 = Some s2 \<and> associations s2 = associations afi_empty"
proof -
  let ?al = "\<lparr>al_new = Some 3, al_strdup = True, al_files = True\<rparr>"
  let ?al2 = "\<lparr>al_new = None, al_strdup = True, al_files = True\<rparr>"
  obtain s1 where o: "open_all send_open [(?al, ''a'', 1, 10), (?al2, ''a'', 1, 10)] afi_empty = Some (s1, [3, 3])"
    by (simp add: send_open_def afi_add_def afi_get_def afi_empty_def walk_name.simps new_index_def Let_def
        add_to_list_mutex_free_def put_fi_def afi_defs has_def)
  have "\<forall>b. associations afi_empty b + length [(?al, ''a'', 1, 10), (?al2, ''a'', 1, 10)] \<le> 2 ^ 64 - 1"
    by (simp add: associations_def afi_empty_def)
  from sender_sessions_balanced[OF afi_good_empty o, of "[3, 3]"] o this show ?thesis by auto
qed

section \<open>Closing the whole index\<close>

lemma afi_close_loop_faults:
  "path (afi_heap s) (afi_files s) as None \<Longrightarrow> as \<noteq> [] \<Longrightarrow> distinct as \<Longrightarrow>
   afi_close_loop s r = Some (Inl Null_Deref)"
proof (induction as arbitrary: s r)
  case (Cons a as)
  then obtain n where n: "afi_files s = Some a" "afi_heap s a = Some n" "path (afi_heap s) (fi_next n) as None"
    by auto
  let ?s = "put_fi a (n\<lparr>fi_next := None\<rparr>) (s\<lparr>afi_files := fi_next n\<rparr>)"
  have p: "path (afi_heap ?s) (fi_next n) as None" "a \<notin> set as" using n Cons.prems by auto
  show ?case
  proof (cases as)
    case Nil
    with p have "fi_next n = None" by simp
    then have "close_file_index a ?s = Inl Null_Deref"
      by (simp add: close_file_index_def close_file_index_mutex_free_def remove_from_list_mutex_free_def
          walk_before.simps)
    with n show ?thesis by (subst afi_close_loop.simps) simp
  next
    case (Cons b bs)
    have "walk_before (afi_heap ?s) a (fi_next n) = Some (Inr None)"
      using walk_before_path[OF p(1), of a] p(2) Cons Cons.prems by auto
    moreover have "fi_next n \<noteq> Some a" using p Cons by auto
    ultimately have c: "close_file_index a ?s = Inr (free_fi a ?s, if fi_associations n \<noteq> 0 then - 1 else 0)"
      by (simp add: close_file_index_def close_file_index_mutex_free_def remove_from_list_mutex_free_def)
    have "path (afi_heap (free_fi a ?s)) (afi_files (free_fi a ?s)) as None"
      using p by simp
    from Cons.IH[OF this] Cons.prems Cons
    have "afi_close_loop (free_fi a ?s) r' = Some (Inl Null_Deref)" for r' by simp
    with n c show ?thesis by (subst afi_close_loop.simps) simp
  qed
qed simp

text \<open>\<open>afi_close\<close> on an index that still holds recordings dereferences \<open>NULL\<close>: each entry is
  unlinked before \<open>close_file_index\<close> looks for it in the list that is left, and for the last entry
  that list is empty.\<close>

theorem afi_close_faults:
  assumes "afi_rel s L"
  shows "afi_close s = (if L = [] then Inr (s, 0) else Inl Null_Deref)"
proof (cases L)
  case Nil
  with assms have "afi_files s = None" by (simp add: afi_rel_def)
  with Nil show ?thesis by (simp add: afi_close_def afi_close_loop.simps)
next
  case (Cons x xs)
  with assms afi_close_loop_faults[of s "map fst L" 0] show ?thesis
    by (auto simp: afi_rel_def afi_close_def)
qed

theorem afi_close_faults_witness:
  "afi_close \<lparr>afi_files = Some 3, afi_heap = [3 \<mapsto> new_index ''a'' 0 AFI_RECORD 10]\<rparr> = Inl Null_Deref"
  using afi_close_faults[of "\<lparr>afi_files = Some 3, afi_heap = [3 \<mapsto> new_index ''a'' 0 AFI_RECORD 10]\<rparr>"
      "[(3, new_index ''a'' 0 AFI_RECORD 10)]"]
  by (simp add: afi_rel_def view_def new_index_def Let_def)

section \<open>Adding files\<close>

lemma grow_allocated_ge:
  "grow_allocated a fid = Some n \<Longrightarrow> fid \<le> n \<and> (n = a \<or> a < fid)"
proof (rule grow_allocated.raw_induct[of "\<lambda>a fid n. fid \<le> n \<and> (n = a \<or> a < fid)" a fid n])
  fix f :: "u64 \<Rightarrow> u64 \<Rightarrow> u64 option" and a fid n :: u64
  assume IH: "\<And>a fid n. f a fid = Some n \<Longrightarrow> fid \<le> n \<and> (n = a \<or> a < fid)"
    and eq: "(if a < fid then f (push_bit 1 a) fid else Some a) = Some n"
  then show "fid \<le> n \<and> (n = a \<or> a < fid)"
    by (cases "a < fid") (auto simp: not_less)
qed

lemma grow_allocated_stop: "\<not> a < fid \<Longrightarrow> grow_allocated a fid = Some a"
  by (simp add: grow_allocated.simps)

text \<open>Adding file number \<open>fid\<close> stores its disk and status in a table that has grown to a capacity
  \<open>n\<close> of at least \<open>fid\<close>. The capacity test lets \<open>fid = n\<close> through, and then the entry is written
  one past the end of the table.\<close>

theorem add_file_bounds:
  assumes "fi_ok fi" and "grow_allocated (fi_allocated_files fi) fid = Some n"
  shows "fid \<le> n \<and> add_file_mutexfree True g fi fid d st =
    (if fid = n then Inl Out_Of_Bounds
     else Inr (fi\<lparr>fi_allocated_files := n,
       fi_n_files := (if fid < fi_n_files fi then fi_n_files fi else fi_n_files fi + 1),
       fi_files := (fi_files fi @ replicate (unat n - length (fi_files fi)) g)
         [unat fid := \<lparr>fh_diskid = d, fh_status = st\<rparr>]\<rparr>, 0))"
proof -
  have len: "length (fi_files fi) = unat (fi_allocated_files fi)"
    using assms(1) by (simp add: fi_ok_def)
  have n: "fid \<le> n" "n = fi_allocated_files fi \<or> fi_allocated_files fi < fid"
    using grow_allocated_ge[OF assms(2)] by auto
  then have le: "unat (fi_allocated_files fi) \<le> unat n"
    by (auto simp flip: word_le_nat_alt)
  have lt: "unat fid < unat n \<longleftrightarrow> fid \<noteq> n"
    using n(1) by (metis order_less_le word_less_nat_alt)
  show ?thesis
  proof (cases "fi_allocated_files fi < fid")
    case True
    then show ?thesis
      using assms(2) n(1) le lt len
      by (cases fi; cases "fid < fi_n_files fi") (simp_all add: add_file_mutexfree_def Let_def len array_set_def)
  next
    case False
    with n have "n = fi_allocated_files fi" by simp
    then show ?thesis
      using False n(1) lt len
      by (cases fi; cases "fid < fi_n_files fi") (simp_all add: add_file_mutexfree_def Let_def array_set_def)
  qed
qed

theorem add_file_bounds_witness:
  "add_file_mutexfree True \<lparr>fh_diskid = 0, fh_status = 0\<rparr> (new_index ''a'' 0 AFI_RECORD 10) 128 2 1 = Inl Out_Of_Bounds"
proof -
  have "grow_allocated (fi_allocated_files (new_index ''a'' 0 AFI_RECORD 10)) 128 = Some 128"
    by (simp add: new_index_def INITIAL_SIZE_def grow_allocated_stop)
  from add_file_bounds[OF new_index_ok this] show ?thesis by simp
qed

section \<open>Status of a file\<close>

text \<open>The capture's sequence for one file of a recording: it is added as in memory and busy when its
  buffer is taken; when the last byte is written, busy is taken away and on-disk added.\<close>

definition record_file :: "bool \<Rightarrow> fileholder \<Rightarrow> addr \<Rightarrow> u64 \<Rightarrow> int \<Rightarrow> afi \<Rightarrow> afi outcome" where
  "record_file ok g a fid disk s =
     bindE (afi_add_file ok g a fid disk (FH_INMEM OR FH_BUSY) s) (\<lambda>(s1, _).
     bindE (afi_update_fh a fid FH_BUSY AFI_DEL_FROM_STATUS s1) (\<lambda>(s2, _).
     bindE (afi_update_fh a fid FH_ONDISK AFI_ADD_TO_STATUS s2) (\<lambda>(s3, _). Inr s3)))"

text \<open>A file that was recorded and written to disk is reported missing, because \<open>FH_INMEM\<close> shares
  the bit of \<open>FH_MISSING\<close>; while it is still busy, \<open>afi_wait_on_file\<close> already returns success.\<close>

theorem recorded_file_is_missing:
  assumes "afi_heap s a = Some fi" and "fi_ok fi" and "fid < fi_allocated_files fi" and "fid \<le> fi_n_files fi"
  shows "\<exists>s1 s2. afi_add_file True g a fid disk (FH_INMEM OR FH_BUSY) s = Inr (s1, 0) \<and>
    afi_wait_on_file env a fid s1 = Inr (s1, Some 0) \<and>
    record_file True g a fid disk s = Inr s2 \<and> afi_is_missing a fid s2 = Inr True"
proof -
  have len: "length (fi_files fi) = unat (fi_allocated_files fi)"
    using assms(2) by (simp add: fi_ok_def)
  have b: "unat fid < length (fi_files fi)" using assms(3) len by (simp add: word_less_nat_alt)
  let ?n = "if fid < fi_n_files fi then fi_n_files fi else fi_n_files fi + 1"
  let ?fi = "fi\<lparr>fi_n_files := ?n, fi_files := (fi_files fi)[unat fid := \<lparr>fh_diskid = disk, fh_status = FH_INMEM OR FH_BUSY\<rparr>]\<rparr>"
  have add: "afi_add_file True g a fid disk (FH_INMEM OR FH_BUSY) s = Inr (put_fi a ?fi s, 0)"
    using add_file_bounds[OF assms(2) grow_allocated_stop, of fid g disk "FH_INMEM OR FH_BUSY"] assms(1,3)
    by (auto simp: afi_add_file_def on_fi_def not_less len)
  have le: "fid \<le> ?n"
  proof (cases "fid < fi_n_files fi")
    case False
    with assms(4) have e: "fi_n_files fi = fid" by simp
    have "fid < - 1" using assms(3) by (rule less_le_trans) (rule word_order.extremum)
    then have "unat (fid + 1) = Suc (unat fid)" by (rule not_max_plus1)
    with e show ?thesis by (simp add: word_le_nat_alt)
  qed simp
  have bits: "has (FH_INMEM OR FH_BUSY) FH_ONDISK"
    "has ((FH_INMEM OR FH_BUSY) AND NOT FH_BUSY OR FH_ONDISK) FH_MISSING"
    by (simp_all add: fh_defs has_def)
  show ?thesis
    using b assms(1) le
    by (simp add: add bits record_file_def afi_wait_on_file.simps[of env] afi_is_missing_def afi_update_fh_def on_fi_def
        and_action_def Let_def)
qed

theorem recorded_file_is_missing_witness:
  "\<exists>s2. record_file True \<lparr>fh_diskid = 0, fh_status = 0\<rparr> 3 0 7 (put_fi 3 (new_index ''a'' 0 AFI_RECORD 10) afi_empty) = Inr s2 \<and>
     afi_is_missing 3 0 s2 = Inr True"
  using recorded_file_is_missing[of "put_fi 3 (new_index ''a'' 0 AFI_RECORD 10) afi_empty" 3
      "new_index ''a'' 0 AFI_RECORD 10" 0
      "\<lparr>fh_diskid = 0, fh_status = 0\<rparr>" 7 "[]"] new_index_ok[of "''a''" 0 AFI_RECORD 10]
  by (auto simp: new_index_def INITIAL_SIZE_def)

text \<open>The operations that the loading and sending side calls for a file of a recording fail their
  assertion for every file the recording has: it demands \<open>n_files \<le> file\<close>.\<close>

theorem valid_file_fails_assertion:
  assumes "afi_heap s a = Some fi" and "fid < fi_n_files fi"
  shows "afi_set_found a fid d s = Inl Assert_Failed \<and> afi_get_disk_id a fid s = Inl Assert_Failed \<and>
    afi_start_loading env a fid in_loading s = Inl Assert_Failed"
  using assms
  by (simp add: afi_set_found_def afi_get_disk_id_def afi_start_loading_def on_fi_def not_le check_assert_def)

theorem valid_file_fails_assertion_witness:
  "afi_get_disk_id 3 0 (put_fi 3 (new_index ''a'' 5 AFI_SEND 10) afi_empty) = Inl Assert_Failed"
  using valid_file_fails_assertion[of "put_fi 3 (new_index ''a'' 5 AFI_SEND 10) afi_empty" 3
      "new_index ''a'' 5 AFI_SEND 10" 0]
  by (simp add: new_index_def Let_def)

end
