(* ===== verification/ResourceTree.thy ===== *)
theory ResourceTree
  imports Options Interfaces
begin

text \<open>
  The resource branches of \<open>src/resourcetree.c\<close>: buffers and recording points wait in three doubly
  linked lists (free, busy, loaded), from which threads take them and to which they give them back.

  The state is the heap of \<open>struct listed_entity\<close> nodes, the three list heads of the
  \<open>struct entity_list_branch\<close>, and the world \<open>'w\<close> the callbacks of the entities act on. The field
  \<open>current_branch\<close>, a pointer to a list head, is the name of that list. A section under \<open>branchlock\<close>
  or \<open>waitlock\<close> is atomic; an operation that sleeps takes the list of what other threads do to the
  state at each wake-up.
\<close>

section \<open>State\<close>

datatype sel = Freelist | Busylist | Loadedlist

record 'w listed_entity =
  le_child :: "addr option"
  le_father :: "addr option"
  le_current_branch :: sel
  le_acquire :: "(addr \<Rightarrow> addr \<Rightarrow> u64 option \<Rightarrow> 'w \<Rightarrow> ('w \<times> int) outcome) option"
  le_check :: "(addr \<Rightarrow> addr \<Rightarrow> 'w \<Rightarrow> int) option"
  le_identify :: "addr \<Rightarrow> iden \<Rightarrow> 'w \<Rightarrow> bool"
  le_close :: "addr \<Rightarrow> 'w \<Rightarrow> ('w \<times> int) outcome"
  le_release :: "(addr \<Rightarrow> 'w \<Rightarrow> ('w \<times> int) outcome) option"
  le_waiters_head :: int
  le_waiters_bottom :: int
  le_entity :: addr

type_synonym 'w le_heap = "addr \<Rightarrow> 'w listed_entity option"

record 'w entity_list_branch =
  br_lists :: "sel \<Rightarrow> addr option"
  br_heap :: "'w le_heap"
  br_world :: 'w

definition put_le :: "addr \<Rightarrow> 'w listed_entity \<Rightarrow> 'w entity_list_branch \<Rightarrow> 'w entity_list_branch" where
  "put_le a n s = s\<lparr>br_heap := (br_heap s)(a \<mapsto> n)\<rparr>"

definition set_head :: "sel \<Rightarrow> addr option \<Rightarrow> 'w entity_list_branch \<Rightarrow> 'w entity_list_branch" where
  "set_head b p s = s\<lparr>br_lists := (br_lists s)(b := p)\<rparr>"

text \<open>\<open>p->field = v\<close> on the node \<open>p\<close> points to.\<close>

definition mod_le :: "addr option \<Rightarrow> ('w listed_entity \<Rightarrow> 'w listed_entity) \<Rightarrow> 'w entity_list_branch \<Rightarrow>
    'w entity_list_branch outcome" where
  "mod_le p f s = (case p of None \<Rightarrow> Inl Null_Deref
     | Some a \<Rightarrow> bindE (deref (br_heap s) (Some a)) (\<lambda>n. Inr (put_le a (f n) s)))"

lemma put_le_simps [simp]:
  "br_lists (put_le a n s) = br_lists s" "br_heap (put_le a n s) = (br_heap s)(a \<mapsto> n)"
  "br_world (put_le a n s) = br_world s"
  "br_lists (set_head b p s) = (br_lists s)(b := p)" "br_heap (set_head b p s) = br_heap s"
  "br_world (set_head b p s) = br_world s"
  by (simp_all add: put_le_def set_head_def)

lemma mod_le_Some [simp]: "br_heap s a = Some n \<Longrightarrow> mod_le (Some a) f s = Inr (put_le a (f n) s)"
  by (simp add: mod_le_def)

section \<open>List surgery\<close>

definition add_before_ent :: "addr \<Rightarrow> addr \<Rightarrow> 'w entity_list_branch \<Rightarrow> 'w entity_list_branch outcome" where
  "add_before_ent new old s =
     bindE (deref (br_heap s) (Some old)) (\<lambda>oldn.
     bindE (mod_le (Some new) (\<lambda>n. n\<lparr>le_child := Some old, le_father := le_father oldn\<rparr>) s) (\<lambda>s1.
     bindE (case le_father oldn of None \<Rightarrow> Inr s1
            | Some f \<Rightarrow> mod_le (Some f) (\<lambda>n. n\<lparr>le_child := Some new\<rparr>) s1) (\<lambda>s2.
       mod_le (Some old) (\<lambda>n. n\<lparr>le_father := Some new\<rparr>) s2)))"

text \<open>The walk of \<open>add_to_next\<close>: either the place before which the comparison puts the new entity, with
  the location of the pointer that leads there, or the last node.\<close>

datatype loc = At_Root | At_Child addr

datatype spot = Before loc addr | After addr

partial_function (option) find_spot ::
  "'w le_heap \<Rightarrow> (addr \<Rightarrow> addr \<Rightarrow> bool) option \<Rightarrow> addr \<Rightarrow> loc \<Rightarrow> addr \<Rightarrow> spot outcome option" where
  "find_spot h compare ent l cur = (case deref h (Some cur) of
       Inl e \<Rightarrow> Some (Inl e)
     | Inr c \<Rightarrow>
        if (case compare of None \<Rightarrow> False | Some cmp \<Rightarrow> cmp ent (le_entity c)) then Some (Inr (Before l cur))
        else (case le_child c of None \<Rightarrow> Some (Inr (After cur))
              | Some q \<Rightarrow> find_spot h compare ent (At_Child cur) q))"

declare find_spot.simps [code]

definition add_to_next :: "sel \<Rightarrow> addr \<Rightarrow> (addr \<Rightarrow> addr \<Rightarrow> bool) option \<Rightarrow> 'w entity_list_branch \<Rightarrow>
    'w entity_list_branch outcome" where
  "add_to_next root toadd compare s0 =
     bindE (mod_le (Some toadd) (\<lambda>n. n\<lparr>le_child := None, le_father := None, le_current_branch := root\<rparr>) s0) (\<lambda>s.
       case br_lists s root of
         None \<Rightarrow> Inr (set_head root (Some toadd) s)
       | Some r \<Rightarrow>
          bindE (deref (br_heap s) (Some toadd)) (\<lambda>n.
          bindE (ended (find_spot (br_heap s) compare (le_entity n) At_Root r)) (\<lambda>sp. case sp of
              Before l cur \<Rightarrow>
                bindE (deref (br_heap s) (Some cur)) (\<lambda>c.
                bindE (if le_father c = None
                       then (case l of At_Root \<Rightarrow> Inr (set_head root (Some toadd) s)
                             | At_Child q \<Rightarrow> mod_le (Some q) (\<lambda>m. m\<lparr>le_child := Some toadd\<rparr>) s)
                       else Inr s) (\<lambda>s1. add_before_ent toadd cur s1))
            | After cur \<Rightarrow>
                bindE (mod_le (Some toadd) (\<lambda>m. m\<lparr>le_father := Some cur\<rparr>) s) (\<lambda>s1.
                  mod_le (Some cur) (\<lambda>m. m\<lparr>le_child := Some toadd\<rparr>) s1))))"

definition add_to_entlist :: "addr \<Rightarrow> 'w entity_list_branch \<Rightarrow> 'w entity_list_branch outcome" where
  "add_to_entlist en s = add_to_next Freelist en None s"

text \<open>\<open>mutex_free_change_branch\<close>: unlinking \<open>en\<close> from the list \<open>src\<close> it is in, at the head or inside,
  and appending it to the list \<open>dst\<close>.\<close>

definition unlink_le :: "sel \<Rightarrow> addr \<Rightarrow> 'w listed_entity \<Rightarrow> 'w entity_list_branch \<Rightarrow> 'w entity_list_branch outcome" where
  "unlink_le src en n s =
     bindE (if br_lists s src = Some en then Inr (set_head src (le_child n) s)
            else mod_le (le_father n) (\<lambda>f. f\<lparr>le_child := le_child n\<rparr>) s) (\<lambda>s1.
       if le_child n = None then Inr s1
       else if br_lists s src = Some en then mod_le (le_child n) (\<lambda>c. c\<lparr>le_father := None\<rparr>) s1
       else mod_le (le_child n) (\<lambda>c. c\<lparr>le_father := le_father n\<rparr>) s1)"

definition mutex_free_change_branch :: "sel \<Rightarrow> addr \<Rightarrow> 'w entity_list_branch \<Rightarrow> 'w entity_list_branch outcome" where
  "mutex_free_change_branch dst en s =
     bindE (deref (br_heap s) (Some en)) (\<lambda>n.
       let src = le_current_branch n in
       if src = dst then Inr s
       else bindE (unlink_le src en n s) (\<lambda>s1. add_to_next dst en None s1))"

definition mutex_free_set_busy :: "addr \<Rightarrow> 'w entity_list_branch \<Rightarrow> 'w entity_list_branch outcome" where
  "mutex_free_set_busy en s = mutex_free_change_branch Busylist en s"

text \<open>The return value of \<open>close\<close> is ignored, and the signal has no effect on the state.\<close>

definition remove_from_branch :: "addr \<Rightarrow> 'w entity_list_branch \<Rightarrow> 'w entity_list_branch outcome" where
  "remove_from_branch en s =
     bindE (deref (br_heap s) (Some en)) (\<lambda>n.
     bindE (if br_lists s (le_current_branch n) = Some en
            then bindE (if le_child n \<noteq> None then mod_le (le_child n) (\<lambda>c. c\<lparr>le_father := None\<rparr>) s else Inr s)
                   (\<lambda>s1. Inr (set_head (le_current_branch n) (le_child n) s1))
            else if le_father n \<noteq> None
            then bindE (mod_le (le_father n) (\<lambda>f. f\<lparr>le_child := le_child n\<rparr>) s) (\<lambda>s1.
                   if le_child n \<noteq> None then mod_le (le_child n) (\<lambda>c. c\<lparr>le_father := le_father n\<rparr>) s1
                   else Inr s1)
            else Inr s) (\<lambda>s2.
     bindE (le_close n (le_entity n) (br_world s2)) (\<lambda>(w, _).
       Inr (s2\<lparr>br_world := w, br_heap := (br_heap s2)(en := None)\<rparr>))))"

section \<open>Queries\<close>

partial_function (option) loop_and_check :: "'w le_heap \<Rightarrow> 'w \<Rightarrow> iden \<Rightarrow> addr option \<Rightarrow> addr option outcome option" where
  "loop_and_check h w q head = (case head of
       None \<Rightarrow> Some (Inr None)
     | Some a \<Rightarrow> (case deref h (Some a) of
           Inl e \<Rightarrow> Some (Inl e)
         | Inr n \<Rightarrow> if le_identify n (le_entity n) q w then Some (Inr (Some a))
                     else loop_and_check h w q (le_child n)))"

declare loop_and_check.simps [code]

definition loop_list :: "sel \<Rightarrow> iden \<Rightarrow> 'w entity_list_branch \<Rightarrow> addr option outcome" where
  "loop_list b q s = ended (loop_and_check (br_heap s) (br_world s) q (br_lists s b))"

definition get_from_all :: "iden \<Rightarrow> 'w entity_list_branch \<Rightarrow> (addr \<times> sel) option outcome" where
  "get_from_all q s =
     bindE (loop_list Freelist q s) (\<lambda>r. case r of Some a \<Rightarrow> Inr (Some (a, Freelist)) | None \<Rightarrow>
     bindE (loop_list Busylist q s) (\<lambda>r. case r of Some a \<Rightarrow> Inr (Some (a, Busylist)) | None \<Rightarrow>
     bindE (loop_list Loadedlist q s) (\<lambda>r. case r of Some a \<Rightarrow> Inr (Some (a, Loadedlist)) | None \<Rightarrow>
       Inr None)))"

definition check_if_alive :: "'w entity_list_branch \<Rightarrow> int" where
  "check_if_alive s = (if br_lists s Freelist = None \<and> br_lists s Busylist = None \<and> br_lists s Loadedlist = None
     then - 1 else 0)"

definition check_if_free :: "'w entity_list_branch \<Rightarrow> int" where
  "check_if_free s = (if br_lists s Freelist = None then - 1 else 0)"

section \<open>Taking and giving back\<close>

definition INT16_MAX :: int where "INT16_MAX = 32767"

definition ADD_SAFELY_INT16T :: "int \<Rightarrow> int" where
  "ADD_SAFELY_INT16T x = (if x = INT16_MAX then 0 else x + 1)"

definition run_acquire :: "addr \<Rightarrow> addr \<Rightarrow> u64 option \<Rightarrow> 'w entity_list_branch \<Rightarrow>
    ('w entity_list_branch \<times> int option) outcome" where
  "run_acquire a opt acq s = bindE (deref (br_heap s) (Some a)) (\<lambda>n.
     case le_acquire n of None \<Rightarrow> Inr (s, None)
     | Some f \<Rightarrow> bindE (f (le_entity n) opt acq (br_world s)) (\<lambda>(w, r). Inr (s\<lparr>br_world := w\<rparr>, Some r)))"

definition run_release :: "addr \<Rightarrow> 'w entity_list_branch \<Rightarrow> 'w entity_list_branch outcome" where
  "run_release a s = bindE (deref (br_heap s) (Some a)) (\<lambda>n.
     case le_release n of None \<Rightarrow> Inr s
     | Some f \<Rightarrow> bindE (f (le_entity n) (br_world s)) (\<lambda>(w, _). Inr (s\<lparr>br_world := w\<rparr>)))"

definition set_free :: "addr \<Rightarrow> 'w entity_list_branch \<Rightarrow> 'w entity_list_branch outcome" where
  "set_free en s =
     bindE (run_release en s) (\<lambda>s1.
     bindE (deref (br_heap s1) (Some en)) (\<lambda>n.
       if le_waiters_bottom n \<noteq> le_waiters_head n
       then mod_le (Some en) (\<lambda>n. n\<lparr>le_waiters_bottom := ADD_SAFELY_INT16T (le_waiters_bottom n)\<rparr>) s1
       else mutex_free_change_branch Freelist en s1))"

definition set_loaded :: "addr \<Rightarrow> 'w entity_list_branch \<Rightarrow> 'w entity_list_branch outcome" where
  "set_loaded en s =
     bindE (deref (br_heap s) (Some en)) (\<lambda>n.
       if le_waiters_head n \<noteq> le_waiters_bottom n
       then mod_le (Some en) (\<lambda>n. n\<lparr>le_waiters_bottom := ADD_SAFELY_INT16T (le_waiters_bottom n)\<rparr>) s
       else mutex_free_change_branch Loadedlist en s)"

definition set_busy :: "addr \<Rightarrow> 'w entity_list_branch \<Rightarrow> 'w entity_list_branch outcome" where
  "set_busy en s = mutex_free_set_busy en s"

text \<open>The first node from \<open>temp\<close> on whose \<open>check\<close> returns 0.\<close>

partial_function (option) find_fit :: "'w le_heap \<Rightarrow> 'w \<Rightarrow> addr \<Rightarrow> addr option \<Rightarrow> addr option outcome option" where
  "find_fit h w opt temp = (case temp of
       None \<Rightarrow> Some (Inr None)
     | Some a \<Rightarrow> (case deref h (Some a) of
           Inl e \<Rightarrow> Some (Inl e)
         | Inr n \<Rightarrow> (case le_check n of
               None \<Rightarrow> Some (Inl Null_Deref)
             | Some chk \<Rightarrow> if chk (le_entity n) opt w \<noteq> 0 then find_fit h w opt (le_child n)
                           else Some (Inr (Some a)))))"

declare find_fit.simps [code]

text \<open>What \<open>get_free\<close> picks from the free list without sleeping.\<close>

definition pick_free :: "addr \<Rightarrow> 'w entity_list_branch \<Rightarrow> addr option outcome" where
  "pick_free opt s = (case br_lists s Freelist of
       None \<Rightarrow> Inr None
     | Some a \<Rightarrow> bindE (deref (br_heap s) (Some a)) (\<lambda>n.
         if le_check n \<noteq> None then ended (find_fit (br_heap s) (br_world s) opt (Some a)) else Inr (Some a)))"

text \<open>\<open>running w\<close> is whether the status of \<open>opt\<close> still has the running bit. \<open>Done None\<close> is the return of
  \<open>NULL\<close> because the branch is dead or the thread is over.\<close>

fun wait_free :: "('w entity_list_branch \<Rightarrow> 'w entity_list_branch) list \<Rightarrow> ('w \<Rightarrow> bool) \<Rightarrow> addr \<Rightarrow> bool \<Rightarrow>
    'w entity_list_branch \<Rightarrow> ('w entity_list_branch \<times> addr option wait) outcome" where
  "wait_free env running opt quit s =
     bindE (pick_free opt s) (\<lambda>r. case r of
         Some a \<Rightarrow> Inr (s, Done (Some a))
       | None \<Rightarrow>
          if br_lists s Busylist = None \<and> br_lists s Loadedlist = None then Inr (s, Done None)
          else (case env of
              [] \<Rightarrow> Inr (s, Blocked)
            | e # es \<Rightarrow> (let s' = e s in
                if quit \<and> \<not> running (br_world s') then Inr (s', Done None)
                else wait_free es running opt quit s')))"

declare wait_free.simps [simp del]

text \<open>The result is the node taken and the value stored through \<open>acquire_result\<close>.\<close>

definition get_free :: "('w entity_list_branch \<Rightarrow> 'w entity_list_branch) list \<Rightarrow> ('w \<Rightarrow> bool) \<Rightarrow> addr \<Rightarrow>
    u64 option \<Rightarrow> bool \<Rightarrow> 'w entity_list_branch \<Rightarrow>
    ('w entity_list_branch \<times> (addr \<times> int option) option wait) outcome" where
  "get_free env running opt acq quit s =
     bindE (wait_free env running opt quit s) (\<lambda>(s1, r). case r of
         Blocked \<Rightarrow> Inr (s1, Blocked)
       | Done None \<Rightarrow> Inr (s1, Done None)
       | Done (Some a) \<Rightarrow>
          bindE (mutex_free_set_busy a s1) (\<lambda>s2.
          bindE (run_acquire a opt acq s2) (\<lambda>(s3, ret). Inr (s3, Done (Some (a, ret))))))"

text \<open>Waiting for the turn \<open>myqueue\<close> of the waiters of \<open>a\<close>; \<open>None\<close> is still asleep, otherwise the
  wake-ups that are left are returned.\<close>

fun wait_turn :: "('w entity_list_branch \<Rightarrow> 'w entity_list_branch) list \<Rightarrow> addr \<Rightarrow> int \<Rightarrow>
    'w entity_list_branch \<Rightarrow>
    ('w entity_list_branch \<times> ('w entity_list_branch \<Rightarrow> 'w entity_list_branch) list option) outcome" where
  "wait_turn env a myqueue s =
     bindE (deref (br_heap s) (Some a)) (\<lambda>n.
       if le_waiters_bottom n = myqueue then Inr (s, Some env)
       else (case env of [] \<Rightarrow> Inr (s, None) | e # es \<Rightarrow> wait_turn es a myqueue (e s)))"

declare wait_turn.simps [simp del]

definition queue_up :: "('w entity_list_branch \<Rightarrow> 'w entity_list_branch) list \<Rightarrow> addr \<Rightarrow>
    'w entity_list_branch \<Rightarrow>
    ('w entity_list_branch \<times> ('w entity_list_branch \<Rightarrow> 'w entity_list_branch) list option) outcome" where
  "queue_up env a s =
     bindE (deref (br_heap s) (Some a)) (\<lambda>n.
       let myqueue = ADD_SAFELY_INT16T (le_waiters_head n)
       in wait_turn env a myqueue (put_le a (n\<lparr>le_waiters_head := myqueue\<rparr>) s))"

definition get_loaded :: "('w entity_list_branch \<Rightarrow> 'w entity_list_branch) list \<Rightarrow> u64 \<Rightarrow> addr \<Rightarrow>
    'w entity_list_branch \<Rightarrow> ('w entity_list_branch \<times> addr option wait) outcome" where
  "get_loaded env seq opt s =
     bindE (get_from_all (CHECK_BY_SEQ seq opt) s) (\<lambda>r. case r of
         None \<Rightarrow> Inr (s, Done None)
       | Some (temp, gotfrom) \<Rightarrow>
          bindE (check_assert (gotfrom \<noteq> Freelist)) (\<lambda>_.
            if gotfrom = Busylist
            then bindE (queue_up env temp s) (\<lambda>(s1, rest).
                   Inr (s1, if rest = None then Blocked else Done (Some temp)))
            else bindE (mutex_free_change_branch Busylist temp s) (\<lambda>s1. Inr (s1, Done (Some temp)))))"

definition get_specific :: "('w entity_list_branch \<Rightarrow> 'w entity_list_branch) list \<Rightarrow> addr \<Rightarrow> u64 \<Rightarrow> u64 \<Rightarrow>
    'w entity_list_branch \<Rightarrow> ('w entity_list_branch \<times> (addr option \<times> int option) wait) outcome" where
  "get_specific env opt seq ident s =
     bindE (get_from_all (CHECK_BY_SEQ ident opt) s) (\<lambda>r. case r of
         None \<Rightarrow> Inr (s, Done (None, Some (- 1)))
       | Some (temp, wherefrom) \<Rightarrow>
          bindE (if wherefrom = Freelist
                 then bindE (mutex_free_change_branch Busylist temp s) (\<lambda>s1. Inr (s1, True))
                 else bindE (queue_up env temp s) (\<lambda>(s1, rest). Inr (s1, rest \<noteq> None))) (\<lambda>(s1, ok).
            if \<not> ok then Inr (s1, Blocked)
            else bindE (run_acquire temp opt (Some seq) s1) (\<lambda>(s2, ret). Inr (s2, Done (Some temp, ret)))))"

text \<open>\<open>block_until_free\<close>: first wait for every busy entity of \<open>opt\<close>, then take back the loaded ones.
  Here \<open>release\<close> is called without a test for \<open>NULL\<close>.\<close>

definition take_back :: "addr \<Rightarrow> 'w entity_list_branch \<Rightarrow> 'w entity_list_branch outcome" where
  "take_back a s =
     bindE (mutex_free_change_branch Freelist a s) (\<lambda>s1.
     bindE (deref (br_heap s1) (Some a)) (\<lambda>n.
       if le_release n = None then Inl Null_Deref else run_release a s1))"

partial_function (option) block_busy :: "('w entity_list_branch \<Rightarrow> 'w entity_list_branch) list \<Rightarrow> addr \<Rightarrow>
    'w entity_list_branch \<Rightarrow> ('w entity_list_branch \<times> bool) outcome option" where
  "block_busy env opt s =
     (case loop_list Busylist (CHECK_BY_OPTPOINTER opt) s of
        Inl e \<Rightarrow> Some (Inl e)
      | Inr None \<Rightarrow> Some (Inr (s, True))
      | Inr (Some a) \<Rightarrow>
         (case queue_up env a s of
            Inl e \<Rightarrow> Some (Inl e)
          | Inr (s1, None) \<Rightarrow> Some (Inr (s1, False))
          | Inr (s1, Some es) \<Rightarrow>
             (case take_back a s1 of Inl e \<Rightarrow> Some (Inl e) | Inr s2 \<Rightarrow> block_busy es opt s2)))"

declare block_busy.simps [code]

partial_function (option) free_all_loaded :: "addr \<Rightarrow> 'w entity_list_branch \<Rightarrow> 'w entity_list_branch outcome option" where
  "free_all_loaded opt s =
     (case loop_list Loadedlist (CHECK_BY_OPTPOINTER opt) s of
        Inl e \<Rightarrow> Some (Inl e)
      | Inr None \<Rightarrow> Some (Inr s)
      | Inr (Some a) \<Rightarrow> (case take_back a s of Inl e \<Rightarrow> Some (Inl e) | Inr s1 \<Rightarrow> free_all_loaded opt s1))"

declare free_all_loaded.simps [code]

definition block_until_free :: "('w entity_list_branch \<Rightarrow> 'w entity_list_branch) list \<Rightarrow> addr \<Rightarrow>
    'w entity_list_branch \<Rightarrow> ('w entity_list_branch \<times> unit wait) outcome" where
  "block_until_free env opt s =
     bindE (ended (block_busy env opt s)) (\<lambda>(s1, ok).
       if \<not> ok then Inr (s1, Blocked)
       else bindE (ended (free_all_loaded opt s1)) (\<lambda>s2. Inr (s2, Done ())))"

text \<open>\<open>oper_to_list\<close> with the operation on the entity as \<open>oper\<close>, and \<open>removing\<close> when that operation
  closes the entity (\<open>BRANCHOP_CLOSERBUF\<close>, \<open>BRANCHOP_CLOSEWRITER\<close>), after which the node is removed.\<close>

partial_function (option) oper_to_list :: "(addr \<Rightarrow> 'w \<Rightarrow> 'w outcome) \<Rightarrow> bool \<Rightarrow> addr option \<Rightarrow>
    'w entity_list_branch \<Rightarrow> 'w entity_list_branch outcome option" where
  "oper_to_list oper removing le s = (case le of
       None \<Rightarrow> Some (Inr s)
     | Some a \<Rightarrow> (case deref (br_heap s) (Some a) of
           Inl e \<Rightarrow> Some (Inl e)
         | Inr n \<Rightarrow> (case oper (le_entity n) (br_world s) of
               Inl e \<Rightarrow> Some (Inl e)
             | Inr w \<Rightarrow>
                if removing
                then (case remove_from_branch a (s\<lparr>br_world := w\<rparr>) of
                    Inl e \<Rightarrow> Some (Inl e)
                  | Inr s1 \<Rightarrow> oper_to_list oper removing (le_child n) s1)
                else oper_to_list oper removing (le_child n) (s\<lparr>br_world := w\<rparr>))))"

declare oper_to_list.simps [code]

definition oper_to_all :: "(addr \<Rightarrow> 'w \<Rightarrow> 'w outcome) \<Rightarrow> bool \<Rightarrow> 'w entity_list_branch \<Rightarrow>
    'w entity_list_branch outcome" where
  "oper_to_all oper removing s =
     bindE (ended (oper_to_list oper removing (br_lists s Freelist) s)) (\<lambda>s1.
     bindE (ended (oper_to_list oper removing (br_lists s1 Busylist) s1)) (\<lambda>s2.
       ended (oper_to_list oper removing (br_lists s2 Loadedlist) s2)))"

section \<open>Doubly linked segments\<close>

text \<open>\<open>dseg h f p as l q\<close>: from \<open>p\<close>, whose father is \<open>f\<close>, the children are the nodes \<open>as\<close>, the last of
  them is \<open>l\<close> (or \<open>f\<close> for none) and its child is \<open>q\<close>.\<close>

primrec dseg :: "'w le_heap \<Rightarrow> addr option \<Rightarrow> addr option \<Rightarrow> addr list \<Rightarrow> addr option \<Rightarrow> addr option \<Rightarrow> bool" where
  "dseg h f p [] l q \<longleftrightarrow> l = f \<and> p = q"
| "dseg h f p (a # as) l q \<longleftrightarrow> p = Some a \<and>
     (\<exists>n. h a = Some n \<and> le_father n = f \<and> dseg h (Some a) (le_child n) as l q)"

lemma dseg_append:
  "dseg h f p (as @ bs) l q \<longleftrightarrow> (\<exists>m r. dseg h f p as m r \<and> dseg h m r bs l q)"
  by (induction as arbitrary: f p) auto

lemma dseg_upd_notin [simp]: "a \<notin> set as \<Longrightarrow> dseg (h(a := x)) f p as l q = dseg h f p as l q"
  by (induction as arbitrary: f p) auto

lemma dseg_last: "dseg h f p as l q \<Longrightarrow> l = (if as = [] then f else Some (last as))"
  by (induction as arbitrary: f p) auto

lemma dseg_snoc:
  "dseg h f p (as @ [c]) l q \<longleftrightarrow> l = Some c \<and>
    (\<exists>m n. dseg h f p as m (Some c) \<and> h c = Some n \<and> le_father n = m \<and> le_child n = q)"
  by (auto simp: dseg_append)

lemma dseg_set_child:
  assumes "dseg h f p (as @ [c]) l q" and "c \<notin> set as" and "h c = Some n"
  shows "dseg (h(c \<mapsto> n\<lparr>le_child := r\<rparr>)) f p (as @ [c]) l r"
  using assms by (auto simp: dseg_snoc)

lemma dseg_set_father:
  assumes "dseg h f p (b # bs) l q" and "b \<notin> set bs" and "h b = Some n"
  shows "dseg (h(b \<mapsto> n\<lparr>le_father := g\<rparr>)) g p (b # bs) l q"
  using assms by auto

section \<open>The lists a branch represents\<close>

definition lists_rel :: "'w entity_list_branch \<Rightarrow> (sel \<Rightarrow> addr list) \<Rightarrow> bool" where
  "lists_rel s F \<longleftrightarrow> (\<forall>b. (\<exists>l. dseg (br_heap s) None (br_lists s b) (F b) l None) \<and> distinct (F b) \<and>
     (\<forall>a \<in> set (F b). \<exists>n. br_heap s a = Some n \<and> le_current_branch n = b))"

definition members :: "(sel \<Rightarrow> addr list) \<Rightarrow> addr set" where
  "members F = (\<Union>b. set (F b))"

text \<open>Every node is in exactly one list (\<open>br_rel\<close>), or all but the node \<open>a\<close> are (\<open>br_loose\<close>).\<close>

definition br_rel :: "'w entity_list_branch \<Rightarrow> (sel \<Rightarrow> addr list) \<Rightarrow> bool" where
  "br_rel s F \<longleftrightarrow> lists_rel s F \<and> dom (br_heap s) = members F"

definition br_loose :: "'w entity_list_branch \<Rightarrow> (sel \<Rightarrow> addr list) \<Rightarrow> addr \<Rightarrow> bool" where
  "br_loose s F a \<longleftrightarrow> lists_rel s F \<and> dom (br_heap s) = insert a (members F) \<and> a \<notin> members F"

text \<open>What the list operations do not touch of a node.\<close>

definition core :: "'w listed_entity \<Rightarrow> 'w listed_entity" where
  "core n = n\<lparr>le_child := None, le_father := None, le_current_branch := Freelist\<rparr>"

definition cores :: "'w entity_list_branch \<Rightarrow> addr \<Rightarrow> 'w listed_entity option" where
  "cores s a = map_option core (br_heap s a)"

lemma core_links [simp]:
  "core (n\<lparr>le_child := x\<rparr>) = core n" "core (n\<lparr>le_father := x\<rparr>) = core n"
  "core (n\<lparr>le_current_branch := b\<rparr>) = core n"
  by (simp_all add: core_def)

lemma core_fields [simp]:
  "le_acquire (core n) = le_acquire n" "le_check (core n) = le_check n" "le_identify (core n) = le_identify n"
  "le_release (core n) = le_release n" "le_close (core n) = le_close n" "le_entity (core n) = le_entity n"
  "le_waiters_head (core n) = le_waiters_head n" "le_waiters_bottom (core n) = le_waiters_bottom n"
  by (simp_all add: core_def)

lemma cores_put: "br_heap s a = Some n \<Longrightarrow> core m = core n \<Longrightarrow> cores (put_le a m s) = cores s"
  by (auto simp: cores_def)

lemma cores_head [simp]: "cores (set_head b p s) = cores s"
  by (auto simp: cores_def)

lemma in_members: "a \<in> set (F b) \<Longrightarrow> a \<in> members F"
  by (auto simp: members_def)

lemma members_upd: "members (F(b := xs)) = set xs \<union> (\<Union>c \<in> - {b}. set (F c))"
  by (auto simp: members_def split: if_splits)

lemma members_split: "members F = set (F b) \<union> (\<Union>c \<in> - {b}. set (F c))"
  using members_upd[of F b "F b"] by simp

lemma lists_rel_node:
  assumes "lists_rel s F" and "a \<in> set (F b)"
  obtains n where "br_heap s a = Some n" "le_current_branch n = b"
  using assms by (auto simp: lists_rel_def)

lemma lists_rel_unique: "lists_rel s F \<Longrightarrow> a \<in> set (F b) \<Longrightarrow> a \<in> set (F c) \<Longrightarrow> b = c"
  by (metis lists_rel_node option.inject)

lemma lists_rel_split:
  assumes "lists_rel s F" and "F b = as @ a # bs"
  obtains n m l where "br_heap s a = Some n" "le_current_branch n = b" "le_father n = m"
    "dseg (br_heap s) None (br_lists s b) as m (Some a)" "dseg (br_heap s) (Some a) (le_child n) bs l None"
    "a \<notin> set as" "a \<notin> set bs" "set as \<inter> set bs = {}" "distinct as" "distinct bs"
proof -
  from assms obtain l where "dseg (br_heap s) None (br_lists s b) (as @ a # bs) l None" "distinct (as @ a # bs)"
    unfolding lists_rel_def by (metis)
  moreover obtain n where "br_heap s a = Some n" "le_current_branch n = b"
    using lists_rel_node[OF assms(1), of a b] assms(2) by auto
  ultimately show ?thesis by (intro that[of n _ l]) (auto simp: dseg_append)
qed

text \<open>A change of the heap that leaves the nodes of the other lists alone.\<close>

lemma lists_rel_change:
  assumes rel: "lists_rel s F"
    and other: "\<And>c x. c \<noteq> b \<Longrightarrow> x \<in> set (F c) \<Longrightarrow> br_heap t x = br_heap s x"
    and heads: "\<And>c. c \<noteq> b \<Longrightarrow> br_lists t c = br_lists s c"
    and seg: "dseg (br_heap t) None (br_lists t b) xs l None" and dist: "distinct xs"
    and cur: "\<And>x. x \<in> set xs \<Longrightarrow> \<exists>n. br_heap t x = Some n \<and> le_current_branch n = b"
  shows "lists_rel t (F(b := xs))"
proof -
  have cong: "dseg h f p as l q = dseg h' f p as l q" if "\<And>x. x \<in> set as \<Longrightarrow> h x = h' x"
    for h h' :: "'a le_heap" and f p as l q
    using that by (induction as arbitrary: f p) auto
  have "(\<exists>l. dseg (br_heap t) None (br_lists t c) (F c) l None) \<and> distinct (F c) \<and>
     (\<forall>a \<in> set (F c). \<exists>n. br_heap t a = Some n \<and> le_current_branch n = c)" if "c \<noteq> b" for c
    using rel other[OF that] heads[OF that] cong[of "F c" "br_heap t" "br_heap s"]
    unfolding lists_rel_def by metis
  with seg dist cur show ?thesis
    unfolding lists_rel_def by (metis fun_upd_other fun_upd_same)
qed

text \<open>The first half of the unlinking redirects the pointer that led to the node.\<close>

lemma unlink_first:
  assumes rel: "lists_rel s F" and F: "F b = as @ a # bs" and n: "br_heap s a = Some n"
  shows "\<exists>s1 l. (if br_lists s b = Some a then Inr (set_head b (le_child n) s)
            else mod_le (le_father n) (\<lambda>f. f\<lparr>le_child := le_child n\<rparr>) s) = Inr s1 \<and>
    dseg (br_heap s1) None (br_lists s1 b) as (le_father n) (le_child n) \<and>
    dseg (br_heap s1) (Some a) (le_child n) bs l None \<and>
    (\<forall>x. x \<notin> set as \<longrightarrow> br_heap s1 x = br_heap s x) \<and> (\<forall>c. c \<noteq> b \<longrightarrow> br_lists s1 c = br_lists s c) \<and>
    (\<forall>x. map_option le_current_branch (br_heap s1 x) = map_option le_current_branch (br_heap s x)) \<and>
    cores s1 = cores s \<and> br_world s1 = br_world s \<and> dom (br_heap s1) = dom (br_heap s) \<and>
    (br_lists s b = Some a \<longleftrightarrow> le_father n = None)"
proof -
  obtain n' m l where sp: "br_heap s a = Some n'" "le_father n' = m"
    "dseg (br_heap s) None (br_lists s b) as m (Some a)" "dseg (br_heap s) (Some a) (le_child n') bs l None"
    "a \<notin> set as" "a \<notin> set bs" "set as \<inter> set bs = {}" "distinct as"
    by (rule lists_rel_split[OF rel F])
  with n have sn: "le_father n = m" "n' = n" by auto
  show ?thesis
  proof (cases as rule: rev_cases)
    case Nil
    with sp sn have "br_lists s b = Some a" "m = None" by auto
    with sp sn Nil show ?thesis
      by (intro exI[of _ "set_head b (le_child n) s"] exI[of _ l]) simp
  next
    case (snoc cs c)
    with sp(3) obtain nc where nc: "m = Some c" "br_heap s c = Some nc" by (auto simp: dseg_snoc)
    have "br_lists s b \<noteq> Some a" using sp(3,5) snoc by (cases cs) auto
    moreover have "dseg ((br_heap s)(c \<mapsto> nc\<lparr>le_child := le_child n\<rparr>)) None (br_lists s b) as m (le_child n)"
      using dseg_set_child[of "br_heap s" None "br_lists s b" cs c m "Some a" nc] sp(3,8) snoc nc by auto
    moreover have "dseg ((br_heap s)(c \<mapsto> nc\<lparr>le_child := le_child n\<rparr>)) (Some a) (le_child n) bs l None"
      using sp(4,7) sn snoc by auto
    ultimately show ?thesis
      using sn nc snoc
      by (intro exI[of _ "put_le c (nc\<lparr>le_child := le_child n\<rparr>) s"] exI[of _ l])
        (auto simp: cores_put)
  qed
qed

lemma unlink_le_rel:
  assumes rel: "br_rel s F" and F: "F b = as @ a # bs" and n: "br_heap s a = Some n"
  shows "\<exists>s1. unlink_le b a n s = Inr s1 \<and> br_loose s1 (F(b := as @ bs)) a \<and> br_heap s1 a = Some n \<and>
    cores s1 = cores s \<and> br_world s1 = br_world s"
proof -
  have lrel: "lists_rel s F" and dm: "dom (br_heap s) = members F" using rel by (simp_all add: br_rel_def)
  obtain s1 l where s1: "(if br_lists s b = Some a then Inr (set_head b (le_child n) s)
            else mod_le (le_father n) (\<lambda>f. f\<lparr>le_child := le_child n\<rparr>) s) = Inr s1"
    "dseg (br_heap s1) None (br_lists s1 b) as (le_father n) (le_child n)"
    "dseg (br_heap s1) (Some a) (le_child n) bs l None"
    "\<forall>x. x \<notin> set as \<longrightarrow> br_heap s1 x = br_heap s x" "\<forall>c. c \<noteq> b \<longrightarrow> br_lists s1 c = br_lists s c"
    "\<forall>x. map_option le_current_branch (br_heap s1 x) = map_option le_current_branch (br_heap s x)"
    "cores s1 = cores s" "br_world s1 = br_world s" "dom (br_heap s1) = dom (br_heap s)"
    "br_lists s b = Some a \<longleftrightarrow> le_father n = None"
    using unlink_first[OF lrel F n] by (elim exE conjE) (rule that)
  have d: "distinct (as @ a # bs)" using lrel F unfolding lists_rel_def by metis
  have "\<exists>s2 l'. (if le_child n = None then Inr s1
       else if br_lists s b = Some a then mod_le (le_child n) (\<lambda>c. c\<lparr>le_father := None\<rparr>) s1
       else mod_le (le_child n) (\<lambda>c. c\<lparr>le_father := le_father n\<rparr>) s1) = Inr s2 \<and>
     dseg (br_heap s2) None (br_lists s2 b) (as @ bs) l' None \<and>
     (\<forall>x. x \<notin> set as \<union> set bs \<longrightarrow> br_heap s2 x = br_heap s x) \<and> (\<forall>c. c \<noteq> b \<longrightarrow> br_lists s2 c = br_lists s c) \<and>
     (\<forall>x. map_option le_current_branch (br_heap s2 x) = map_option le_current_branch (br_heap s x)) \<and>
     cores s2 = cores s \<and> br_world s2 = br_world s \<and> dom (br_heap s2) = dom (br_heap s)"
  proof (cases bs)
    case Nil
    with s1 have "le_child n = None" by simp
    with s1 Nil show ?thesis by auto
  next
    case (Cons e es)
    with s1(3) obtain ne where ne: "le_child n = Some e" "br_heap s1 e = Some ne" by auto
    let ?s2 = "put_le e (ne\<lparr>le_father := le_father n\<rparr>) s1"
    have r: "(if le_child n = None then Inr s1
       else if br_lists s b = Some a then mod_le (le_child n) (\<lambda>c. c\<lparr>le_father := None\<rparr>) s1
       else mod_le (le_child n) (\<lambda>c. c\<lparr>le_father := le_father n\<rparr>) s1) = Inr ?s2"
      using ne s1(10) by auto
    have "e \<notin> set as" "e \<notin> set es" using d Cons by auto
    then have "dseg (br_heap ?s2) None (br_lists ?s2 b) as (le_father n) (Some e)"
      "dseg (br_heap ?s2) (le_father n) (Some e) bs l None"
      using s1(2,3) ne Cons dseg_set_father[of "br_heap s1" "Some a" "Some e" e es l None ne] by auto
    then have "dseg (br_heap ?s2) None (br_lists ?s2 b) (as @ bs) l None"
      by (auto simp: dseg_append)
    moreover have "map_option le_current_branch (br_heap ?s2 x) = map_option le_current_branch (br_heap s x)" for x
      using s1(6)[rule_format, of x] ne(2) by auto
    moreover have "cores ?s2 = cores s" using s1(7) ne(2) by (simp add: cores_put)
    moreover have "dom (br_heap ?s2) = dom (br_heap s)" using s1(9) ne(2) by auto
    moreover have "br_heap ?s2 x = br_heap s x" if "x \<notin> set as \<union> set bs" for x
      using that s1(4)[rule_format, of x] Cons by auto
    moreover have "br_world ?s2 = br_world s" using s1(8) by simp
    moreover have "br_lists ?s2 c = br_lists s c" if "c \<noteq> b" for c using s1(5) that by simp
    ultimately show ?thesis using r by blast
  qed
  then obtain s2 l' where s2: "unlink_le b a n s = Inr s2"
    "dseg (br_heap s2) None (br_lists s2 b) (as @ bs) l' None"
    "\<forall>x. x \<notin> set as \<union> set bs \<longrightarrow> br_heap s2 x = br_heap s x" "\<forall>c. c \<noteq> b \<longrightarrow> br_lists s2 c = br_lists s c"
    "\<forall>x. map_option le_current_branch (br_heap s2 x) = map_option le_current_branch (br_heap s x)"
    "cores s2 = cores s" "br_world s2 = br_world s" "dom (br_heap s2) = dom (br_heap s)"
    using s1(1) by (auto simp: unlink_le_def simp del: split_paired_All)
  have "lists_rel s2 (F(b := as @ bs))"
  proof (rule lists_rel_change[OF lrel _ _ s2(2)])
    show "distinct (as @ bs)" using d by simp
    show "br_heap s2 x = br_heap s x" if "c \<noteq> b" "x \<in> set (F c)" for c x
    proof (rule s2(3)[rule_format])
      have "x \<notin> set (F b)" using lists_rel_unique[OF lrel that(2)] that(1) by blast
      then show "x \<notin> set as \<union> set bs" using F by auto
    qed
    show "\<exists>n. br_heap s2 x = Some n \<and> le_current_branch n = b" if "x \<in> set (as @ bs)" for x
    proof -
      have "x \<in> set (F b)" using that F by auto
      then obtain k where "br_heap s x = Some k" "le_current_branch k = b" by (rule lists_rel_node[OF lrel])
      with s2(5)[rule_format, of x] show ?thesis by auto
    qed
  qed (rule s2(4)[rule_format])
  moreover have ab: "a \<in> set (F b)" using F by simp
  then have "a \<notin> set (F c)" if "c \<noteq> b" for c using lists_rel_unique[OF lrel ab] that by blast
  then have "members F = insert a (members (F(b := as @ bs)))" "a \<notin> members (F(b := as @ bs))"
    using F d members_split[of F b] members_upd[of F b "as @ bs"] by auto
  moreover have "br_heap s2 a = Some n" using s2(3)[rule_format, of a] d n by auto
  ultimately show ?thesis using s2 dm by (auto simp: br_loose_def)
qed

lemma find_spot_end: "dseg h f (Some p) (as @ [c]) l None \<Longrightarrow> find_spot h None e k p = Some (Inr (After c))"
proof (induction as arbitrary: f p k)
  case Nil
  then show ?case by (subst find_spot.simps) auto
next
  case (Cons a as)
  then obtain n where n: "p = a" "h a = Some n" "dseg h (Some a) (le_child n) (as @ [c]) l None" by auto
  then obtain q where q: "le_child n = Some q" by (cases as) auto
  with n Cons.IH[of "Some a" q "At_Child a"] show ?case by (subst find_spot.simps) simp
qed

lemma add_to_next_rel:
  assumes loose: "br_loose s F a"
  shows "\<exists>s1. add_to_next b a None s = Inr s1 \<and> br_rel s1 (F(b := F b @ [a])) \<and>
    cores s1 = cores s \<and> br_world s1 = br_world s"
proof -
  have rel: "lists_rel s F" and dm: "dom (br_heap s) = insert a (members F)" and notin: "a \<notin> members F"
    using loose by (simp_all add: br_loose_def)
  from dm obtain n0 where n0: "br_heap s a = Some n0" by blast
  let ?n = "n0\<lparr>le_child := None, le_father := None, le_current_branch := b\<rparr>"
  let ?s = "put_le a ?n s"
  have c0: "cores ?s = cores s" using n0 by (intro cores_put) simp_all
  have nF: "a \<notin> set (F c)" for c using notin by (auto simp: members_def)
  have dist: "distinct (F b)" using rel by (simp add: lists_rel_def)
  obtain l where seg: "dseg (br_heap s) None (br_lists s b) (F b) l None" using rel by (auto simp: lists_rel_def)
  have mem: "members (F(b := F b @ [a])) = insert a (members F)"
    using members_split[of F b] members_upd[of F b "F b @ [a]"] by auto
  show ?thesis
  proof (cases "F b" rule: rev_cases)
    case Nil
    with seg have r: "br_lists s b = None" by simp
    have "lists_rel (set_head b (Some a) ?s) (F(b := [a]))"
      by (rule lists_rel_change[OF rel, where l = "Some a"]) (use nF in auto)
    then show ?thesis
      using r n0 dm mem Nil c0 by (auto simp: add_to_next_def br_rel_def)
  next
    case (snoc cs c)
    from seg snoc obtain nc where nc: "br_heap s c = Some nc" "dseg (br_heap s) None (br_lists s b) cs (le_father nc) (Some c)"
      by (auto simp: dseg_snoc)
    obtain p where p: "br_lists s b = Some p" using seg snoc by (cases cs) auto
    have ca: "c \<noteq> a" "c \<notin> set cs" "a \<notin> set cs" using snoc nF[of b] dist by auto
    have "dseg (br_heap ?s) None (Some p) (cs @ [c]) l None"
      using seg snoc nF[of b] p by simp
    then have fs: "find_spot (br_heap ?s) None (le_entity ?n) At_Root p = Some (Inr (After c))"
      by (rule find_spot_end)
    let ?na = "?n\<lparr>le_father := Some c\<rparr>"
    let ?t = "put_le c (nc\<lparr>le_child := Some a\<rparr>) (put_le a ?na ?s)"
    have r: "add_to_next b a None s = Inr ?t"
      using n0 p fs nc(1) ca(1) by (simp add: add_to_next_def)
    have "lists_rel ?t (F(b := F b @ [a]))"
    proof (rule lists_rel_change[OF rel])
      show "br_heap ?t x = br_heap s x" if "d \<noteq> b" "x \<in> set (F d)" for d x
        using that nF[of d] lists_rel_unique[OF rel that(2), of b] snoc by auto
      show "dseg (br_heap ?t) None (br_lists ?t b) (F b @ [a]) (Some a) None"
        using nc(2) snoc ca by (auto simp: dseg_append)
      show "distinct (F b @ [a])" using dist nF by simp
      show "\<exists>k. br_heap ?t x = Some k \<and> le_current_branch k = b" if x: "x \<in> set (F b @ [a])" for x
      proof (cases "x = a")
        case True
        then show ?thesis using ca(1) by auto
      next
        case False
        with x have "x \<in> set (F b)" by simp
        then obtain k where "br_heap s x = Some k" "le_current_branch k = b" by (rule lists_rel_node[OF rel])
        with False nc(1) show ?thesis by auto
      qed
    qed simp
    moreover have "cores ?t = cores s"
    proof -
      have "cores (put_le a ?na ?s) = cores s" using c0 by (subst cores_put[of ?s a ?n]) simp_all
      then show ?thesis using nc(1) ca(1) by (subst cores_put[of _ c nc]) simp_all
    qed
    moreover have "dom (br_heap ?t) = members (F(b := F b @ [a]))"
      using dm mem nc(1) by auto
    ultimately show ?thesis using r by (simp add: br_rel_def)
  qed
qed

section \<open>The operations on the lists\<close>

text \<open>A new node goes to the end of the free list.\<close>

lemma add_to_entlist_rel:
  assumes "br_rel b F" and "br_heap b le = None"
  shows "\<exists>b1. add_to_entlist le (put_le le n b) = Inr b1 \<and> br_rel b1 (F(Freelist := F Freelist @ [le])) \<and>
    cores b1 = (cores b)(le \<mapsto> core n) \<and> br_world b1 = br_world b"
proof -
  have le: "le \<notin> members F" using assms by (auto simp: br_rel_def)
  then have nF: "le \<notin> set (F x)" for x by (auto simp: members_def)
  have "lists_rel (put_le le n b) F"
    using assms(1) unfolding br_rel_def lists_rel_def by (simp add: nF)
  then have "br_loose (put_le le n b) F le" using assms(1) le by (auto simp: br_loose_def br_rel_def)
  moreover have "cores (put_le le n b) = (cores b)(le \<mapsto> core n)" by (auto simp: cores_def)
  ultimately show ?thesis using add_to_next_rel[of "put_le le n b" F le Freelist] by (auto simp: add_to_entlist_def)
qed


definition move :: "sel \<Rightarrow> addr \<Rightarrow> (sel \<Rightarrow> addr list) \<Rightarrow> sel \<Rightarrow> addr list" where
  "move dst a F = (if a \<in> set (F dst) then F else (\<lambda>b. if b = dst then F b @ [a] else removeAll a (F b)))"

lemma change_branch_rel:
  assumes rel: "br_rel s F" and a: "a \<in> members F"
  shows "\<exists>s1. mutex_free_change_branch dst a s = Inr s1 \<and> br_rel s1 (move dst a F) \<and>
    cores s1 = cores s \<and> br_world s1 = br_world s"
proof -
  have lrel: "lists_rel s F" using rel by (simp add: br_rel_def)
  from a obtain b where b: "a \<in> set (F b)" by (auto simp: members_def)
  then obtain n where n: "br_heap s a = Some n" "le_current_branch n = b" by (rule lists_rel_node[OF lrel])
  show ?thesis
  proof (cases "b = dst")
    case True
    with b n rel show ?thesis by (simp add: mutex_free_change_branch_def move_def)
  next
    case False
    have nd: "a \<notin> set (F dst)" using lists_rel_unique[OF lrel b] False by blast
    from b obtain as bs where F: "F b = as @ a # bs" by (meson split_list)
    from unlink_le_rel[OF rel F n(1)] obtain s1 where
      s1: "unlink_le b a n s = Inr s1" "br_loose s1 (F(b := as @ bs)) a" "cores s1 = cores s" "br_world s1 = br_world s"
      by blast
    from add_to_next_rel[OF s1(2), of dst] obtain s2 where
      s2: "add_to_next dst a None s1 = Inr s2" "cores s2 = cores s1" "br_world s2 = br_world s1"
        "br_rel s2 ((F(b := as @ bs))(dst := (F(b := as @ bs)) dst @ [a]))"
      by blast
    have "(F(b := as @ bs))(dst := (F(b := as @ bs)) dst @ [a]) = move dst a F"
    proof
      fix c
      have "distinct (F b)" using lrel by (simp add: lists_rel_def)
      then have "removeAll a (F b) = as @ bs" using F by (auto simp: removeAll_id)
      moreover have "a \<notin> set (F c)" if "c \<noteq> b" using lists_rel_unique[OF lrel b] that by blast
      ultimately show "((F(b := as @ bs))(dst := (F(b := as @ bs)) dst @ [a])) c = move dst a F c"
        using nd False by (auto simp: move_def)
    qed
    with s1 s2 n False show ?thesis by (simp add: mutex_free_change_branch_def)
  qed
qed

text \<open>C11: changing the branch of an entity takes it out of the list it is in and puts it at the end of the
  other, whatever its position; the order of the rest, every other entity, and the world are kept.\<close>

theorem change_branch_refines:
  assumes rel: "br_rel s F" and a: "a \<in> members F"
  shows "\<exists>s1. mutex_free_change_branch dst a s = Inr s1 \<and> br_rel s1 (move dst a F) \<and>
    cores s1 = cores s \<and> br_world s1 = br_world s"
  by (rule change_branch_rel[OF assms])

section \<open>Removing\<close>

lemma mod_le_set_head:
  "mod_le p f (set_head b q s) = bindE (mod_le p f s) (\<lambda>s1. Inr (set_head b q s1))"
proof (cases p)
  case (Some a)
  then show ?thesis
    by (cases "br_heap s a") (simp_all add: mod_le_def deref_def set_head_def put_le_def)
qed (simp add: mod_le_def)

lemma lists_rel_upd_notin:
  assumes "lists_rel s F" and "a \<notin> members F" and "br_lists t = br_lists s" and "br_heap t = (br_heap s)(a := x)"
  shows "lists_rel t F"
proof -
  have n: "a \<notin> set (F c)" for c using assms(2) by (auto simp: members_def)
  have "(\<exists>l. dseg (br_heap t) None (br_lists t c) (F c) l None) \<and> distinct (F c) \<and>
     (\<forall>y \<in> set (F c). \<exists>k. br_heap t y = Some k \<and> le_current_branch k = c)" for c
  proof -
    have "\<exists>l. dseg (br_heap t) None (br_lists t c) (F c) l None"
      using assms(1,3,4) n[of c] by (auto simp: lists_rel_def)
    moreover have "\<exists>k. br_heap t y = Some k \<and> le_current_branch k = c" if "y \<in> set (F c)" for y
      using lists_rel_node[OF assms(1) that] that n[of c] assms(4) by (metis fun_upd_other)
    ultimately show ?thesis using assms(1) by (simp add: lists_rel_def)
  qed
  then show ?thesis by (simp add: lists_rel_def)
qed

text \<open>Removing is unlinking and closing; the unlinking does not fault.\<close>

lemma remove_from_branch_eq:
  assumes rel: "br_rel s F" and b: "a \<in> set (F b)" and n: "br_heap s a = Some n"
  obtains s1 where "remove_from_branch a s = bindE (le_close n (le_entity n) (br_world s)) (\<lambda>(w, _).
      Inr (s1\<lparr>br_world := w, br_heap := (br_heap s1)(a := None)\<rparr>))"
    and "br_loose s1 (F(b := removeAll a (F b))) a" "cores s1 = cores s"
proof -
  have lrel: "lists_rel s F" using rel by (simp add: br_rel_def)
  from b obtain n' where "br_heap s a = Some n'" "le_current_branch n' = b" by (rule lists_rel_node[OF lrel])
  with n have cb: "le_current_branch n = b" by simp
  from b obtain as bs where F: "F b = as @ a # bs" by (meson split_list)
  have ra: "removeAll a (F b) = as @ bs"
    using lrel F by (auto simp: lists_rel_def removeAll_id)
      (metis distinct_append distinct.simps(2) not_distinct_conv_prefix removeAll_id Un_iff)
  from unlink_le_rel[OF rel F n] obtain s1 where
    s1: "unlink_le b a n s = Inr s1" "br_loose s1 (F(b := as @ bs)) a" "cores s1 = cores s" "br_world s1 = br_world s"
    by blast
  have hd: "br_lists s b = Some a \<longleftrightarrow> le_father n = None" using unlink_first[OF lrel F n] by blast
  have u: "(if br_lists s (le_current_branch n) = Some a
            then bindE (if le_child n \<noteq> None then mod_le (le_child n) (\<lambda>c. c\<lparr>le_father := None\<rparr>) s else Inr s)
                   (\<lambda>s1. Inr (set_head (le_current_branch n) (le_child n) s1))
            else if le_father n \<noteq> None
            then bindE (mod_le (le_father n) (\<lambda>f. f\<lparr>le_child := le_child n\<rparr>) s) (\<lambda>s1.
                   if le_child n \<noteq> None then mod_le (le_child n) (\<lambda>c. c\<lparr>le_father := le_father n\<rparr>) s1
                   else Inr s1)
            else Inr s) = unlink_le b a n s"
    using hd cb by (auto simp: unlink_le_def mod_le_set_head intro!: arg_cong[where f = "bindE _"])
  show ?thesis
    using that[of s1] s1 u n ra unfolding remove_from_branch_def by simp
qed

lemma remove_from_branch_rel:
  assumes rel: "br_rel s F" and b: "a \<in> set (F b)" and n: "br_heap s a = Some n"
    and close: "le_close n (le_entity n) (br_world s) = Inr (w, r)"
  shows "\<exists>s1. remove_from_branch a s = Inr s1 \<and> br_rel s1 (F(b := removeAll a (F b))) \<and>
    cores s1 = (cores s)(a := None) \<and> br_world s1 = w"
proof -
  let ?F = "F(b := removeAll a (F b))"
  obtain s1 where r: "remove_from_branch a s = bindE (le_close n (le_entity n) (br_world s)) (\<lambda>(w, _).
      Inr (s1\<lparr>br_world := w, br_heap := (br_heap s1)(a := None)\<rparr>))"
    and s1: "br_loose s1 ?F a" "cores s1 = cores s"
    using remove_from_branch_eq[OF rel b n] .
  let ?t = "s1\<lparr>br_world := w, br_heap := (br_heap s1)(a := None)\<rparr>"
  have loose: "lists_rel s1 ?F" "dom (br_heap s1) = insert a (members ?F)" "a \<notin> members ?F"
    using s1(1) by (simp_all add: br_loose_def)
  have "lists_rel ?t ?F" by (rule lists_rel_upd_notin[OF loose(1,3)]) simp_all
  moreover have "dom (br_heap ?t) = members ?F" using loose(2,3) by auto
  moreover have "cores ?t = (cores s)(a := None)" using s1(2) by (auto simp: cores_def fun_eq_iff)
  ultimately show ?thesis using r close by (simp add: br_rel_def)
qed

text \<open>C12: removing an entity closes it, takes it out of the list it is in, head or not, and frees its node;
  the other lists, their order and all other entities are kept, and the world is what \<open>close\<close> left.\<close>

theorem remove_from_branch_refines:
  assumes "br_rel s F" and "a \<in> set (F b)" and "br_heap s a = Some n"
    and "le_close n (le_entity n) (br_world s) = Inr (w, r)"
  shows "\<exists>s1. remove_from_branch a s = Inr s1 \<and> br_rel s1 (F(b := removeAll a (F b))) \<and>
    cores s1 = (cores s)(a := None) \<and> br_world s1 = w"
  by (rule remove_from_branch_rel[OF assms])

section \<open>Queries on the lists\<close>

definition identified :: "iden \<Rightarrow> 'w entity_list_branch \<Rightarrow> addr \<Rightarrow> bool" where
  "identified q s a = (case br_heap s a of None \<Rightarrow> False | Some n \<Rightarrow> le_identify n (le_entity n) q (br_world s))"

definition fits :: "addr \<Rightarrow> 'w entity_list_branch \<Rightarrow> addr \<Rightarrow> bool" where
  "fits opt s a = (case br_heap s a of None \<Rightarrow> False | Some n \<Rightarrow>
     (case le_check n of None \<Rightarrow> True | Some chk \<Rightarrow> chk (le_entity n) opt (br_world s) = 0))"

lemma loop_and_check_dseg:
  "dseg (br_heap s) f p as l None \<Longrightarrow>
   loop_and_check (br_heap s) (br_world s) q p = Some (Inr (List.find (identified q s) as))"
  by (induction as arbitrary: f p; subst loop_and_check.simps) (auto simp: identified_def)

lemma loop_list_rel: "br_rel s F \<Longrightarrow> loop_list b q s = Inr (List.find (identified q s) (F b))"
  unfolding loop_list_def br_rel_def lists_rel_def by (metis ended_Some loop_and_check_dseg)

text \<open>A query over the branch finds the first identified entity, searching the free list, then the
  busy one, then the loaded one, and tells which list it was in.\<close>

theorem get_from_all_finds:
  assumes "br_rel s F"
  shows "get_from_all q s = Inr (case List.find (identified q s) (F Freelist) of Some a \<Rightarrow> Some (a, Freelist)
    | None \<Rightarrow> (case List.find (identified q s) (F Busylist) of Some a \<Rightarrow> Some (a, Busylist)
    | None \<Rightarrow> map_option (\<lambda>a. (a, Loadedlist)) (List.find (identified q s) (F Loadedlist))))"
  by (simp add: get_from_all_def loop_list_rel[OF assms] split: option.split)

lemma find_fit_dseg:
  "dseg (br_heap s) f p as l None \<Longrightarrow> \<forall>a \<in> set as. \<exists>n. br_heap s a = Some n \<and> le_check n \<noteq> None \<Longrightarrow>
   find_fit (br_heap s) (br_world s) opt p = Some (Inr (List.find (fits opt s) as))"
  by (induction as arbitrary: f p; subst find_fit.simps) (auto simp: fits_def)

text \<open>The entities of a branch are all of one kind: all have a check or none has.\<close>

definition one_kind :: "'w entity_list_branch \<Rightarrow> bool" where
  "one_kind s \<longleftrightarrow> (\<forall>a n. br_heap s a = Some n \<longrightarrow> le_check n \<noteq> None) \<or>
     (\<forall>a n. br_heap s a = Some n \<longrightarrow> le_check n = None)"

lemma pick_free_rel:
  assumes rel: "br_rel s F" and kind: "one_kind s"
  shows "pick_free opt s = Inr (List.find (fits opt s) (F Freelist))"
proof (cases "F Freelist")
  case Nil
  then have "br_lists s Freelist = None" using rel unfolding br_rel_def lists_rel_def by (metis dseg.simps(1))
  with Nil show ?thesis by (simp add: pick_free_def)
next
  case (Cons a as)
  obtain l where seg: "dseg (br_heap s) None (br_lists s Freelist) (F Freelist) l None"
    using rel unfolding br_rel_def lists_rel_def by blast
  with Cons obtain n where n: "br_lists s Freelist = Some a" "br_heap s a = Some n" by auto
  show ?thesis
  proof (cases "le_check n")
    case None
    then have "fits opt s a" using n by (simp add: fits_def)
    with None n Cons show ?thesis by (simp add: pick_free_def)
  next
    case (Some chk)
    then have "\<forall>a k. br_heap s a = Some k \<longrightarrow> le_check k \<noteq> None" using kind n(2) by (auto simp: one_kind_def)
    moreover have "\<forall>a \<in> set (F Freelist). \<exists>k. br_heap s a = Some k"
      using rel by (fastforce simp: br_rel_def lists_rel_def)
    ultimately have "\<forall>a \<in> set (F Freelist). \<exists>k. br_heap s a = Some k \<and> le_check k \<noteq> None" by blast
    from find_fit_dseg[OF seg this, of opt] show ?thesis
      using n Some by (simp add: pick_free_def)
  qed
qed

lemma head_None_iff: "br_rel s F \<Longrightarrow> br_lists s b = None \<longleftrightarrow> F b = []"
proof -
  assume "br_rel s F"
  then obtain l where "dseg (br_heap s) None (br_lists s b) (F b) l None"
    unfolding br_rel_def lists_rel_def by blast
  then show ?thesis by (cases "F b") auto
qed

lemma find_Some_mem: "List.find P xs = Some a \<Longrightarrow> a \<in> set xs \<and> P a"
  by (auto simp: find_Some_iff)

text \<open>\<open>get_free\<close> returns the first free entity that is fit, moves it to the end of the busy list and
  runs its \<open>acquire\<close>; with no fit entity it returns \<open>NULL\<close> when nothing is busy or loaded, and
  otherwise sleeps.\<close>

theorem get_free_takes_first_fit:
  assumes rel: "br_rel s F" and kind: "one_kind s"
  shows "case List.find (fits opt s) (F Freelist) of
      Some a \<Rightarrow> (\<exists>s1. br_rel s1 (move Busylist a F) \<and> cores s1 = cores s \<and> br_world s1 = br_world s \<and>
        get_free env running opt acq quit s =
          bindE (run_acquire a opt acq s1) (\<lambda>(s2, ret). Inr (s2, Done (Some (a, ret)))))
    | None \<Rightarrow> (if F Busylist = [] \<and> F Loadedlist = []
        then get_free env running opt acq quit s = Inr (s, Done None)
        else get_free [] running opt acq quit s = Inr (s, Blocked))"
proof (cases "List.find (fits opt s) (F Freelist)")
  case None
  then show ?thesis
    using pick_free_rel[OF rel kind, of opt] head_None_iff[OF rel]
    by (simp add: get_free_def wait_free.simps)
next
  case (Some a)
  then have "a \<in> members F" using find_Some_mem in_members by metis
  from change_branch_rel[OF rel this, of Busylist] obtain s1 where
    "mutex_free_change_branch Busylist a s = Inr s1" "br_rel s1 (move Busylist a F)" "cores s1 = cores s"
    "br_world s1 = br_world s" by blast
  with Some show ?thesis
    using pick_free_rel[OF rel kind, of opt]
    by (auto simp: get_free_def wait_free.simps mutex_free_set_busy_def)
qed

section \<open>Buffers as a pool\<close>

text \<open>A branch of buffers: no check, nobody waits for a particular one, and the callbacks do not fault.\<close>

definition plain_node :: "'w listed_entity \<Rightarrow> bool" where
  "plain_node n \<longleftrightarrow> le_check n = None \<and> le_waiters_bottom n = le_waiters_head n \<and>
     (\<forall>f e opt acq w. le_acquire n = Some f \<longrightarrow> (\<exists>w' r. f e opt acq w = Inr (w', r))) \<and>
     (\<forall>f e w. le_release n = Some f \<longrightarrow> (\<exists>w' r. f e w = Inr (w', r)))"

definition buffer_pool :: "'w entity_list_branch \<Rightarrow> addr list \<Rightarrow> addr list \<Rightarrow> bool" where
  "buffer_pool s fr held \<longleftrightarrow> (\<exists>F. br_rel s F \<and> F Freelist = fr \<and> F Busylist = held \<and>
     (\<forall>a n. cores s a = Some n \<longrightarrow> plain_node n))"

definition take_buffer :: "addr \<Rightarrow> 'w entity_list_branch \<Rightarrow> ('w entity_list_branch \<times> addr) option" where
  "take_buffer opt s = (case get_free [] (\<lambda>_. True) opt None False s of
       Inr (s', Done (Some (a, _))) \<Rightarrow> Some (s', a) | _ \<Rightarrow> None)"

definition give_buffer :: "addr \<Rightarrow> 'w entity_list_branch \<Rightarrow> 'w entity_list_branch option" where
  "give_buffer a s = (case set_free a s of Inr s' \<Rightarrow> Some s' | Inl _ \<Rightarrow> None)"

lemma plain_core [simp]: "plain_node (core n) = plain_node n"
  by (simp add: plain_node_def)

lemma buffer_pool_nodes:
  "(\<forall>a n. cores s a = Some n \<longrightarrow> plain_node n) \<longleftrightarrow> (\<forall>a n. br_heap s a = Some n \<longrightarrow> plain_node n)"
  unfolding cores_def by (metis map_option_eq_Some plain_core)

lemma br_rel_world [simp]: "br_rel (s\<lparr>br_world := w\<rparr>) F = br_rel s F"
  by (simp add: br_rel_def lists_rel_def)

lemma cores_world [simp]: "cores (s\<lparr>br_world := w\<rparr>) = cores s"
  by (simp add: cores_def fun_eq_iff)

lemma run_acquire_plain:
  assumes "br_heap s a = Some n" and "plain_node n"
  shows "\<exists>w r. run_acquire a opt acq s = Inr (s\<lparr>br_world := w\<rparr>, r)"
proof (cases "le_acquire n")
  case None
  with assms have "run_acquire a opt acq s = Inr (s\<lparr>br_world := br_world s\<rparr>, None)" by (simp add: run_acquire_def)
  then show ?thesis by blast
next
  case (Some f)
  then obtain w r where "f (le_entity n) opt acq (br_world s) = Inr (w, r)"
    using assms(2) unfolding plain_node_def by blast
  with Some assms show ?thesis by (auto simp: run_acquire_def)
qed

lemma run_release_plain:
  assumes "br_heap s a = Some n" and "plain_node n"
  shows "\<exists>w. run_release a s = Inr (s\<lparr>br_world := w\<rparr>)"
proof (cases "le_release n")
  case None
  with assms have "run_release a s = Inr (s\<lparr>br_world := br_world s\<rparr>)" by (simp add: run_release_def)
  then show ?thesis by blast
next
  case (Some f)
  then obtain w r where "f (le_entity n) (br_world s) = Inr (w, r)"
    using assms(2) unfolding plain_node_def by blast
  with Some assms show ?thesis by (auto simp: run_release_def)
qed

lemma br_rel_heap:
  assumes "br_rel s F" and "a \<in> set (F b)"
  obtains n where "br_heap s a = Some n" "le_current_branch n = b"
  using assms lists_rel_node unfolding br_rel_def by blast

interpretation buffers: pool "take_buffer opt" give_buffer buffer_pool for opt
proof unfold_locales
  fix s :: "'b entity_list_branch" and fr held
  assume "buffer_pool s fr held"
  then obtain F where F: "lists_rel s F" "F Freelist = fr" "F Busylist = held"
    by (auto simp: buffer_pool_def br_rel_def)
  have "distinct fr" "distinct held" using F unfolding lists_rel_def by metis+
  moreover have "set fr \<inter> set held = {}"
    using lists_rel_unique[OF F(1), of _ Freelist Busylist] F(2,3) by auto
  ultimately show "distinct (fr @ held)" by simp
next
  fix s :: "'b entity_list_branch" and a fr held
  assume "buffer_pool s (a # fr) held"
  then obtain F where F: "br_rel s F" "F Freelist = a # fr" "F Busylist = held"
    and plain: "\<forall>x n. cores s x = Some n \<longrightarrow> plain_node n" by (auto simp: buffer_pool_def)
  have plain': "\<forall>x n. br_heap s x = Some n \<longrightarrow> plain_node n" using plain by (simp only: buffer_pool_nodes)
  then have kind: "one_kind s" unfolding one_kind_def plain_node_def by blast
  have am: "a \<in> set (F Freelist)" using F by simp
  then obtain n where n: "br_heap s a = Some n" by (rule br_rel_heap[OF F(1)])
  have "le_check n = None" using plain' n unfolding plain_node_def by blast
  with n have "fits opt s a" by (simp add: fits_def)
  then have pf: "pick_free opt s = Inr (Some a)" using pick_free_rel[OF F(1) kind, of opt] F(2) by simp
  from change_branch_rel[OF F(1) in_members[of a F Freelist, OF am], of Busylist] obtain s1 where
    s1: "mutex_free_change_branch Busylist a s = Inr s1" "br_rel s1 (move Busylist a F)" "cores s1 = cores s" by blast
  have "a \<in> members (move Busylist a F)" by (auto simp: move_def members_def)
  then obtain n1 where n1: "br_heap s1 a = Some n1" using s1(2) unfolding br_rel_def by blast
  have plain1: "\<forall>x k. cores s1 x = Some k \<longrightarrow> plain_node k" using plain s1(3) by simp
  then have "plain_node n1" using n1 unfolding buffer_pool_nodes by blast
  from run_acquire_plain[OF n1 this, of opt None] obtain w r where
    acq: "run_acquire a opt None s1 = Inr (s1\<lparr>br_world := w\<rparr>, r)" by blast
  have nb: "a \<notin> set held"
    using lists_rel_unique[of s F a Freelist Busylist] F am by (auto simp: br_rel_def)
  have "distinct (a # fr)" using F unfolding br_rel_def lists_rel_def by metis
  then have "move Busylist a F Freelist = fr" "move Busylist a F Busylist = held @ [a]"
    using nb F by (auto simp: move_def removeAll_id)
  with s1(2) plain1 have "buffer_pool (s1\<lparr>br_world := w\<rparr>) fr (held @ [a])" by (auto simp: buffer_pool_def)
  moreover have "take_buffer opt s = Some (s1\<lparr>br_world := w\<rparr>, a)"
    using pf s1(1) acq by (simp add: take_buffer_def get_free_def wait_free.simps mutex_free_set_busy_def)
  ultimately show "\<exists>s'. take_buffer opt s = Some (s', a) \<and> buffer_pool s' fr (held @ [a])" by blast
next
  fix s :: "'b entity_list_branch" and held
  assume "buffer_pool s [] held"
  then obtain F where F: "br_rel s F" "F Freelist = []" by (auto simp: buffer_pool_def)
  then have "br_lists s Freelist = None" by (simp add: head_None_iff)
  then show "take_buffer opt s = None"
    by (simp add: take_buffer_def get_free_def wait_free.simps pick_free_def)
next
  fix s :: "'b entity_list_branch" and fr held a
  assume "buffer_pool s fr held" and a: "a \<in> set held"
  then obtain F where F: "br_rel s F" "F Freelist = fr" "F Busylist = held"
    and plain: "\<forall>x n. cores s x = Some n \<longrightarrow> plain_node n" by (auto simp: buffer_pool_def)
  have am: "a \<in> set (F Busylist)" using a F by simp
  then obtain n where n: "br_heap s a = Some n" by (rule br_rel_heap[OF F(1)])
  have pn: "plain_node n" using plain n unfolding buffer_pool_nodes by blast
  from run_release_plain[OF n pn] obtain w where rel: "run_release a s = Inr (s\<lparr>br_world := w\<rparr>)" by blast
  have F': "br_rel (s\<lparr>br_world := w\<rparr>) F" using F(1) by simp
  from change_branch_rel[OF F' in_members[of a F Busylist, OF am], of Freelist] obtain s1 where
    s1: "mutex_free_change_branch Freelist a (s\<lparr>br_world := w\<rparr>) = Inr s1" "br_rel s1 (move Freelist a F)"
      "cores s1 = cores s" by auto
  have nf: "a \<notin> set fr"
    using lists_rel_unique[of s F a Busylist Freelist] F am by (auto simp: br_rel_def)
  then have "move Freelist a F Freelist = fr @ [a]" "move Freelist a F Busylist = removeAll a held"
    using F by (auto simp: move_def)
  with s1 plain have "buffer_pool s1 (fr @ [a]) (removeAll a held)" by (auto simp: buffer_pool_def)
  moreover have "give_buffer a s = Some s1"
    using rel n pn s1(1) by (simp add: give_buffer_def set_free_def plain_node_def)
  ultimately show "\<exists>s'. give_buffer a s = Some s' \<and> buffer_pool s' (fr @ [a]) (removeAll a held)" by blast
qed



text \<open>A branch of two buffers for the examples.\<close>

definition example_node :: "addr option \<Rightarrow> addr option \<Rightarrow> unit listed_entity" where
  "example_node f c = \<lparr>le_child = c, le_father = f, le_current_branch = Freelist, le_acquire = None,
     le_check = None, le_identify = (\<lambda>_ _ _. False), le_close = (\<lambda>_ w. Inr (w, 0)), le_release = None,
     le_waiters_head = 0, le_waiters_bottom = 0, le_entity = 7\<rparr>"

definition example_branch :: "unit entity_list_branch" where
  "example_branch = \<lparr>br_lists = (\<lambda>b. if b = Freelist then Some 1 else None),
     br_heap = [1 \<mapsto> example_node None (Some 2), 2 \<mapsto> example_node (Some 1) None], br_world = ()\<rparr>"

lemma example_rel: "br_rel example_branch (\<lambda>b. if b = Freelist then [1, 2] else [])"
proof -
  have "members (\<lambda>b. if b = Freelist then [1, 2] else []) = {1, 2}" by (auto simp: members_def)
  then show ?thesis
    by (auto simp: br_rel_def lists_rel_def example_branch_def example_node_def)
qed

lemma example_pool: "buffer_pool example_branch [1, 2] []"
proof -
  have "\<forall>a n. br_heap example_branch a = Some n \<longrightarrow> plain_node n"
    by (simp add: example_branch_def example_node_def plain_node_def)
  then show ?thesis
    unfolding buffer_pool_def buffer_pool_nodes
    by (intro exI[of _ "\<lambda>b. if b = Freelist then [1, 2] else []"] conjI example_rel) simp_all
qed

theorem change_branch_refines_witness:
  "\<exists>s1. mutex_free_change_branch Busylist 1 example_branch = Inr s1 \<and>
    br_rel s1 (\<lambda>b. if b = Freelist then [2] else if b = Busylist then [1] else [])"
proof -
  have "move Busylist 1 (\<lambda>b. if b = Freelist then [1, 2] else []) =
      (\<lambda>b. if b = Freelist then [2] else if b = Busylist then [1] else [])"
    by (auto simp: move_def)
  moreover have "1 \<in> members (\<lambda>b. if b = Freelist then [1, 2] else [])" by (auto simp: members_def)
  ultimately show ?thesis using change_branch_refines[OF example_rel, of 1 Busylist] by auto
qed

theorem remove_from_branch_refines_witness:
  "\<exists>s1. remove_from_branch 2 example_branch = Inr s1 \<and> br_rel s1 (\<lambda>b. if b = Freelist then [1] else [])"
proof -
  have "(\<lambda>b. if b = Freelist then [1, 2] else [])(Freelist := removeAll 2 [1, 2]) =
      (\<lambda>b. if b = Freelist then [1] else [] :: addr list)" by auto
  then show ?thesis
    using remove_from_branch_refines[OF example_rel, of 2 Freelist "example_node (Some 1) None" "()" 0]
    by (auto simp: example_branch_def example_node_def)
qed



theorem get_from_all_finds_witness:
  "get_from_all (CHECK_BY_SEQ 1 2) example_branch = Inr None"
  using get_from_all_finds[OF example_rel, of "CHECK_BY_SEQ 1 2"]
  by (simp add: identified_def example_branch_def example_node_def)

theorem get_free_takes_first_fit_witness:
  "\<exists>s1. get_free [] (\<lambda>_. True) 5 None True example_branch = Inr (s1, Done (Some (1, None)))"
proof -
  have k: "one_kind example_branch" by (simp add: one_kind_def example_branch_def example_node_def)
  have f: "fits 5 example_branch 1" by (simp add: fits_def example_branch_def example_node_def)
  from get_free_takes_first_fit[OF example_rel k, where opt = 5 and env = "[]" and running = "\<lambda>_. True"
      and acq = None and quit = True] f obtain s1 where
    s1: "cores s1 = cores example_branch"
      "get_free [] (\<lambda>_. True) 5 None True example_branch =
        bindE (run_acquire 1 5 None s1) (\<lambda>(s2, ret). Inr (s2, Done (Some (1, ret))))" by auto
  have "cores s1 1 = Some (core (example_node None (Some 2)))" using s1(1)
    by (simp add: cores_def example_branch_def)
  then obtain n where "br_heap s1 1 = Some n" "core n = core (example_node None (Some 2))"
    by (auto simp: cores_def)
  then have "run_acquire 1 5 None s1 = Inr (s1, None)"
    using core_fields(1)[of n] core_fields(1)[of "example_node None (Some 2)"]
    by (simp add: run_acquire_def example_node_def)
  with s1(2) show ?thesis by simp
qed

end
