(* ===== verification/Tickets.thy ===== *)
theory Tickets
  imports ResourceTree
begin

text \<open>
  The protocol by which threads wait for one particular entity (\<open>get_loaded\<close>, \<open>get_specific\<close> and
  \<open>block_until_free\<close> against \<open>set_free\<close> and \<open>set_loaded\<close> of \<open>src/resourcetree.c\<close>), as a step
  relation on the waiters of one entity. A thread that finds the entity busy draws the next ticket
  from \<open>waiters_head\<close> and sleeps on \<open>waitsig\<close> until \<open>waiters_bottom\<close> is its ticket; the thread that
  has the entity moves \<open>waiters_bottom\<close> on and signals one sleeper. \<open>pthread_cond_signal\<close> wakes any
  one of the sleeping threads.
\<close>

record tickets =
  tk_head :: int
  tk_bottom :: int
  tk_sleep :: "int set"
  tk_awake :: "int set"
  tk_held :: bool
  tk_log :: "int list"

text \<open>The entity has been taken from the branch, and nobody waits. \<open>tk_log\<close> records, as a ghost, the
  tickets served so far.\<close>

definition tickets_init :: tickets where
  "tickets_init = \<lparr>tk_head = 0, tk_bottom = 0, tk_sleep = {}, tk_awake = {}, tk_held = True, tk_log = []\<rparr>"

text \<open>\<open>Arrive\<close>: a thread queues up behind the entity. \<open>Hand_over\<close>: the holder gives the entity to the
  waiters; one sleeper, if any, wakes up. \<open>Served\<close> and \<open>Sleep_again\<close>: an awake thread looks whether
  it is its turn. The number of threads that wait at a time is below \<open>2 ^ 15 - 1\<close>.\<close>

inductive tickets_step :: "tickets \<Rightarrow> tickets \<Rightarrow> bool" where
  Arrive: "card (tk_sleep s \<union> tk_awake s) < 32766 \<Longrightarrow> t = ADD_SAFELY_INT16T (tk_head s) \<Longrightarrow>
     tickets_step s (s\<lparr>tk_head := t, tk_awake := insert t (tk_awake s)\<rparr>)"
| Hand_over: "tk_held s \<Longrightarrow> tk_bottom s \<noteq> tk_head s \<Longrightarrow> w \<in> tk_sleep s \<Longrightarrow>
     tickets_step s (s\<lparr>tk_bottom := ADD_SAFELY_INT16T (tk_bottom s), tk_held := False,
       tk_sleep := tk_sleep s - {w}, tk_awake := insert w (tk_awake s)\<rparr>)"
| Hand_over_unheard: "tk_held s \<Longrightarrow> tk_bottom s \<noteq> tk_head s \<Longrightarrow> tk_sleep s = {} \<Longrightarrow>
     tickets_step s (s\<lparr>tk_bottom := ADD_SAFELY_INT16T (tk_bottom s), tk_held := False\<rparr>)"
| Served: "t \<in> tk_awake s \<Longrightarrow> tk_bottom s = t \<Longrightarrow>
     tickets_step s (s\<lparr>tk_awake := tk_awake s - {t}, tk_held := True, tk_log := tk_log s @ [t]\<rparr>)"
| Sleep_again: "t \<in> tk_awake s \<Longrightarrow> tk_bottom s \<noteq> t \<Longrightarrow>
     tickets_step s (s\<lparr>tk_awake := tk_awake s - {t}, tk_sleep := insert t (tk_sleep s)\<rparr>)"

inductive_cases tickets_stepE: "tickets_step s t"

inductive tickets_reach :: "tickets \<Rightarrow> bool" where
  Init: "tickets_reach tickets_init"
| Step: "tickets_reach s \<Longrightarrow> tickets_step s t \<Longrightarrow> tickets_reach t"

section \<open>Exclusion and order\<close>

definition ring :: "int \<Rightarrow> nat \<Rightarrow> int" where
  "ring b i = (b + int i) mod 32768"

text \<open>\<open>first\<close> is 1 while the entity is held and 0 between the hand-over and the waking of the thread
  whose turn it is; the waiting tickets are the next \<open>w\<close> ones.\<close>

definition tickets_inv :: "tickets \<Rightarrow> bool" where
  "tickets_inv s \<longleftrightarrow> (\<exists>w first. w \<le> 32766 \<and> first = (if tk_held s then 1 else 0) \<and> (\<not> tk_held s \<longrightarrow> 0 < w) \<and>
     0 \<le> tk_bottom s \<and> tk_bottom s < 32768 \<and>
     tk_sleep s \<union> tk_awake s = ring (tk_bottom s) ` {first ..< first + w} \<and>
     tk_sleep s \<inter> tk_awake s = {} \<and>
     tk_head s = ring (tk_bottom s) (first + w - 1) \<and>
     tk_log s = map (\<lambda>i. int (Suc i) mod 32768) [0..<length (tk_log s)] \<and>
     tk_bottom s = (int (length (tk_log s)) + (if tk_held s then 0 else 1)) mod 32768)"

lemma tickets_invI:
  assumes "w \<le> 32766" "first = (if tk_held s then 1 else 0)" "\<not> tk_held s \<longrightarrow> 0 < w"
    "0 \<le> tk_bottom s" "tk_bottom s < 32768"
    "tk_sleep s \<union> tk_awake s = ring (tk_bottom s) ` {first ..< first + w}"
    "tk_sleep s \<inter> tk_awake s = {}" "tk_head s = ring (tk_bottom s) (first + w - 1)"
    "tk_log s = map (\<lambda>i. int (Suc i) mod 32768) [0..<length (tk_log s)]"
    "tk_bottom s = (int (length (tk_log s)) + (if tk_held s then 0 else 1)) mod 32768"
  shows "tickets_inv s"
  unfolding tickets_inv_def using assms by blast

lemma tickets_inv_cong:
  assumes inv: "tickets_inv s" and eqs: "tk_held s' = tk_held s" "tk_bottom s' = tk_bottom s" "tk_head s' = tk_head s"
    "tk_log s' = tk_log s" "tk_sleep s' \<union> tk_awake s' = tk_sleep s \<union> tk_awake s" "tk_sleep s' \<inter> tk_awake s' = {}"
  shows "tickets_inv s'"
  using inv unfolding tickets_inv_def eqs by blast

lemma add_safely_ring: "0 \<le> x \<Longrightarrow> x < 32768 \<Longrightarrow> ADD_SAFELY_INT16T x = (x + 1) mod 32768"
  by (auto simp: ADD_SAFELY_INT16T_def INT16_MAX_def)

lemma ring_range: "0 \<le> ring b i" "ring b i < 32768"
  by (simp_all add: ring_def)

lemma ring_Suc: "(ring b i + 1) mod 32768 = ring b (Suc i)"
  by (simp add: ring_def mod_simps algebra_simps)

lemma ring_shift: "ring ((b + 1) mod 32768) i = ring b (Suc i)"
  by (simp add: ring_def mod_simps add.assoc)

lemma ring_inj: "inj_on (ring b) {first ..< first + 32768}"
proof (rule inj_onI)
  fix x y assume "x \<in> {first ..< first + 32768}" "y \<in> {first ..< first + 32768}" "ring b x = ring b y"
  then have "(int x - int y) mod 32768 = 0" "\<bar>int x - int y\<bar> < 32768"
    by (auto simp: ring_def mod_eq_dvd_iff mod_0_imp_dvd dvd_imp_mod_0)
  then show "x = y" by (metis dvd_imp_le_int dvd_eq_mod_eq_0 eq_iff_diff_eq_0 linorder_not_less of_nat_eq_iff abs_numeral)
qed

lemma ring_0: "0 \<le> b \<Longrightarrow> b < 32768 \<Longrightarrow> ring b 0 = b"
  by (simp add: ring_def)

lemma tickets_inv_init: "tickets_inv tickets_init"
  unfolding tickets_inv_def tickets_init_def by (intro exI[of _ 0] exI[of _ 1]) (simp add: ring_def)

lemma tickets_inv_arrive:
  assumes inv: "tickets_inv s" and c: "card (tk_sleep s \<union> tk_awake s) < 32766"
    and t: "t = ADD_SAFELY_INT16T (tk_head s)"
  shows "tickets_inv (s\<lparr>tk_head := t, tk_awake := insert t (tk_awake s)\<rparr>)"
proof -
  let ?b = "tk_bottom s"
  obtain w first where i: "w \<le> 32766" "first = (if tk_held s then 1 else 0)" "\<not> tk_held s \<longrightarrow> 0 < w"
    "0 \<le> ?b" "?b < 32768" "tk_sleep s \<union> tk_awake s = ring ?b ` {first ..< first + w}"
    "tk_sleep s \<inter> tk_awake s = {}" "tk_head s = ring ?b (first + w - 1)"
    "tk_log s = map (\<lambda>i. int (Suc i) mod 32768) [0..<length (tk_log s)]"
    "?b = (int (length (tk_log s)) + (if tk_held s then 0 else 1)) mod 32768"
    using inv unfolding tickets_inv_def by blast
  have inj: "inj_on (ring ?b) {first ..< first + 32768}" by (rule ring_inj)
  have "card (ring ?b ` {first ..< first + w}) = w"
    using i(1) by (subst card_image[OF inj_on_subset[OF inj]]) auto
  with c i(6) have w: "w < 32766" by simp
  have pos: "0 < first + w" using i(2,3) by (cases "tk_held s") auto
  have tr: "t = ring ?b (first + w)"
    using add_safely_ring[OF ring_range, of ?b "first + w - 1"] ring_Suc[of ?b "first + w - 1"] pos
    by (simp add: t i(8))
  have "t \<notin> ring ?b ` {first ..< first + w}"
  proof
    assume "t \<in> ring ?b ` {first ..< first + w}"
    then obtain k where "k \<in> {first ..< first + w}" "ring ?b k = ring ?b (first + w)" using tr by auto
    with inj_onD[OF inj] w show False by fastforce
  qed
  then have A: "tk_sleep s \<inter> insert t (tk_awake s) = {}" using i(6,7) by blast
  have "insert t (ring ?b ` {first ..< first + w}) = ring ?b ` {first ..< first + Suc w}"
    using tr by (simp add: atLeastLessThanSuc)
  then have B: "tk_sleep s \<union> insert t (tk_awake s) = ring ?b ` {first ..< first + Suc w}"
    using i(6) by (simp only: Un_insert_right)
  have C: "t = ring ?b (first + Suc w - 1)" using tr by simp
  define s' where "s' = s\<lparr>tk_head := t, tk_awake := insert t (tk_awake s)\<rparr>"
  have fields: "tk_held s' = tk_held s" "tk_bottom s' = ?b" "tk_sleep s' = tk_sleep s" "tk_log s' = tk_log s"
    "tk_awake s' = insert t (tk_awake s)" "tk_head s' = t" by (simp_all add: s'_def)
  have "tickets_inv s'"
    by (rule tickets_invI[of "Suc w" first], unfold fields) (fact | use w in linarith | simp)+
  then show ?thesis by (simp add: s'_def)
qed

lemma tickets_inv_hand_over:
  assumes inv: "tickets_inv s" and held: "tk_held s" and ne: "tk_bottom s \<noteq> tk_head s"
    and sets: "tk_sleep s \<union> tk_awake s = S \<union> A" "S \<inter> A = {}"
  shows "tickets_inv (s\<lparr>tk_bottom := ADD_SAFELY_INT16T (tk_bottom s), tk_held := False, tk_sleep := S, tk_awake := A\<rparr>)"
proof -
  let ?b = "tk_bottom s"
  obtain w where i: "w \<le> 32766" "0 \<le> ?b" "?b < 32768" "tk_sleep s \<union> tk_awake s = ring ?b ` {1 ..< 1 + w}"
    "tk_head s = ring ?b (1 + w - 1)" "tk_log s = map (\<lambda>i. int (Suc i) mod 32768) [0..<length (tk_log s)]"
    "?b = int (length (tk_log s)) mod 32768"
    using inv held unfolding tickets_inv_def by auto
  have w: "0 < w" using ne i(2,3,5) ring_0[of ?b] by (cases w) auto
  have nb: "ADD_SAFELY_INT16T ?b = (?b + 1) mod 32768" by (rule add_safely_ring[OF i(2,3)])
  have img: "ring ((?b + 1) mod 32768) ` {0 ..< 0 + w} = ring ?b ` {1 ..< 1 + w}"
    by (simp add: ring_shift image_Suc_atLeastLessThan[symmetric] image_image del: image_Suc_atLeastLessThan)
  have hd: "tk_head s = ring ((?b + 1) mod 32768) (0 + w - 1)"
    using w i(5) by (simp add: ring_shift)
  have "(?b + 1) mod 32768 = (int (length (tk_log s)) + 1) mod 32768"
    by (subst i(7)) (simp add: mod_simps)
  then show ?thesis
    unfolding tickets_inv_def using i w img hd nb sets
    by (intro exI[of _ w] exI[of _ 0]) simp
qed

lemma tickets_inv_served:
  assumes inv: "tickets_inv s" and t: "t \<in> tk_awake s" "tk_bottom s = t"
  shows "\<not> tk_held s \<and> tickets_inv (s\<lparr>tk_awake := tk_awake s - {t}, tk_held := True, tk_log := tk_log s @ [t]\<rparr>)"
proof -
  let ?b = "tk_bottom s"
  obtain w first where i: "w \<le> 32766" "first = (if tk_held s then 1 else 0)" "\<not> tk_held s \<longrightarrow> 0 < w"
    "0 \<le> ?b" "?b < 32768" "tk_sleep s \<union> tk_awake s = ring ?b ` {first ..< first + w}"
    "tk_sleep s \<inter> tk_awake s = {}" "tk_head s = ring ?b (first + w - 1)"
    "tk_log s = map (\<lambda>i. int (Suc i) mod 32768) [0..<length (tk_log s)]"
    "?b = (int (length (tk_log s)) + (if tk_held s then 0 else 1)) mod 32768"
    using inv unfolding tickets_inv_def by blast
  have inj: "inj_on (ring ?b) {0 ..< 0 + 32768}" by (rule ring_inj)
  have r0: "ring ?b 0 = t" using ring_0[OF i(4,5)] t(2) by simp
  have nh: "\<not> tk_held s"
  proof
    assume "tk_held s"
    then have "t \<in> ring ?b ` {1 ..< 1 + w}" using i(2,6) t(1) by (metis Un_iff)
    then obtain k where "k \<in> {1 ..< 1 + w}" "ring ?b k = t" by blast
    with inj_onD[OF inj, of k 0] r0 i(1) show False by auto
  qed
  then have f: "first = 0" "0 < w" using i(2,3) by auto
  have D: "ring ?b ` {0 ..< w} - {t} = ring ?b ` {1 ..< 1 + (w - 1)}"
  proof -
    have "{0 ..< w} = insert 0 {1 ..< 1 + (w - 1)}" using f(2) by auto
    moreover have "t \<notin> ring ?b ` {1 ..< 1 + (w - 1)}"
      using inj_onD[OF inj, of _ 0] r0 i(1) by fastforce
    ultimately show ?thesis using r0 by auto
  qed
  have "t \<notin> tk_sleep s" using i(7) t(1) by blast
  then have "tk_sleep s \<union> (tk_awake s - {t}) = (tk_sleep s \<union> tk_awake s) - {t}" by blast
  then have sets: "tk_sleep s \<union> (tk_awake s - {t}) = ring ?b ` {1 ..< 1 + (w - 1)}"
    unfolding i(6) f(1) D[symmetric] by simp
  have "t = int (Suc (length (tk_log s))) mod 32768" using i(10) nh t(2) by (simp add: add.commute)
  then have L: "tk_log s @ [t] = map (\<lambda>i. int (Suc i) mod 32768) [0..<length (tk_log s @ [t])]"
    using i(9) by simp
  have B: "?b = (int (length (tk_log s @ [t])) + 0) mod 32768" using i(10) nh by (simp add: add.commute)
  define s' where "s' = s\<lparr>tk_awake := tk_awake s - {t}, tk_held := True, tk_log := tk_log s @ [t]\<rparr>"
  have fields: "tk_held s' = True" "tk_bottom s' = ?b" "tk_sleep s' = tk_sleep s" "tk_log s' = tk_log s @ [t]"
    "tk_awake s' = tk_awake s - {t}" "tk_head s' = tk_head s" by (simp_all add: s'_def)
  have I: "tk_sleep s \<inter> (tk_awake s - {t}) = {}" using i(7) by blast
  have H: "tk_head s = ring ?b (1 + (w - 1) - 1)" using i(8) f by simp
  have "tickets_inv s'"
    by (rule tickets_invI[of "w - 1" 1], unfold fields if_True)
      (fact L | fact | use i(1) in linarith | simp only: if_True simp_thms)+
  with nh show ?thesis by (simp add: s'_def)
qed

lemma tickets_inv_step: "tickets_step s t \<Longrightarrow> tickets_inv s \<Longrightarrow> tickets_inv t"
proof (induction rule: tickets_step.induct)
  case (Arrive s t)
  then show ?case by (intro tickets_inv_arrive)
next
  case (Hand_over s w)
  moreover have "tk_sleep s \<inter> tk_awake s = {}" using Hand_over.prems unfolding tickets_inv_def by blast
  ultimately show ?case by (intro tickets_inv_hand_over) auto
next
  case (Hand_over_unheard s)
  then have "tickets_inv (s\<lparr>tk_bottom := ADD_SAFELY_INT16T (tk_bottom s), tk_held := False, tk_sleep := {},
      tk_awake := tk_awake s\<rparr>)"
    by (intro tickets_inv_hand_over) auto
  moreover have "s\<lparr>tk_bottom := ADD_SAFELY_INT16T (tk_bottom s), tk_held := False, tk_sleep := {}, tk_awake := tk_awake s\<rparr>
      = s\<lparr>tk_bottom := ADD_SAFELY_INT16T (tk_bottom s), tk_held := False\<rparr>"
    using Hand_over_unheard by (cases s) simp
  ultimately show ?case by simp
next
  case (Served t s)
  then show ?case using tickets_inv_served by blast
next
  case (Sleep_again t s)
  have "insert t (tk_sleep s) \<union> (tk_awake s - {t}) = tk_sleep s \<union> tk_awake s"
    using Sleep_again(1) by blast
  moreover have "insert t (tk_sleep s) \<inter> (tk_awake s - {t}) = {}"
    using Sleep_again.prems unfolding tickets_inv_def by blast
  ultimately show ?case by (intro tickets_inv_cong[OF Sleep_again.prems]) simp_all
qed

lemma tickets_reach_inv: "tickets_reach s \<Longrightarrow> tickets_inv s"
  by (induction rule: tickets_reach.induct) (auto intro: tickets_inv_init tickets_inv_step)

text \<open>C15: a thread goes on only when nobody has the entity, and the threads are served in the order in
  which they drew their tickets, also when the 16-bit counters start again at 0.\<close>

theorem tickets_served_in_order:
  assumes "tickets_reach s"
  shows "tk_log s = map (\<lambda>i. int (Suc i) mod 32768) [0..<length (tk_log s)] \<and>
    (tk_held s \<longrightarrow> tk_bottom s \<notin> tk_sleep s \<union> tk_awake s)"
proof -
  have inv: "tickets_inv s" by (rule tickets_reach_inv[OF assms])
  then have "tk_log s = map (\<lambda>i. int (Suc i) mod 32768) [0..<length (tk_log s)]"
    unfolding tickets_inv_def by blast
  moreover have "tk_bottom s \<notin> tk_sleep s \<union> tk_awake s" if held: "tk_held s"
  proof
    let ?b = "tk_bottom s"
    assume a: "?b \<in> tk_sleep s \<union> tk_awake s"
    from inv held obtain w where w: "w \<le> 32766" "0 \<le> ?b" "?b < 32768"
      "tk_sleep s \<union> tk_awake s = ring ?b ` {1 ..< 1 + w}" unfolding tickets_inv_def by auto
    with a obtain k where "k \<in> {1 ..< 1 + w}" "ring ?b k = ?b" by auto
    with inj_onD[OF ring_inj[of ?b 0], of k 0] ring_0[OF w(2,3)] w(1) show False by auto
  qed
  ultimately show ?thesis by blast
qed

theorem tickets_served_in_order_witness:
  "tickets_reach (tickets_init\<lparr>tk_head := 1, tk_awake := {1}\<rparr>) \<and>
   tk_bottom (tickets_init\<lparr>tk_head := 1, tk_awake := {1}\<rparr>) \<notin> {1}"
proof -
  have "tickets_step tickets_init (tickets_init\<lparr>tk_head := 1, tk_awake := insert 1 (tk_awake tickets_init)\<rparr>)"
    by (rule tickets_step.Arrive) (simp_all add: tickets_init_def ADD_SAFELY_INT16T_def INT16_MAX_def)
  then have r: "tickets_reach (tickets_init\<lparr>tk_head := 1, tk_awake := {1}\<rparr>)"
    using tickets_reach.Step[OF tickets_reach.Init] by (simp add: tickets_init_def)
  from tickets_served_in_order[OF r] r show ?thesis by (simp add: tickets_init_def)
qed

section \<open>A lost wake-up\<close>

text \<open>The thread whose turn it is sleeps while nobody has the entity.\<close>

definition starved :: "tickets \<Rightarrow> bool" where
  "starved s \<longleftrightarrow> tickets_inv s \<and> tk_bottom s \<in> tk_sleep s \<and> \<not> tk_held s \<and> tk_log s = []"

lemma starved_step:
  assumes "tickets_step s t" and "starved s"
  shows "starved t"
proof -
  have inv: "tickets_inv t" using tickets_inv_step[OF assms(1)] assms(2) by (simp add: starved_def)
  have "tk_sleep s \<inter> tk_awake s = {}" using assms(2) unfolding starved_def tickets_inv_def by blast
  with assms inv show ?thesis by (cases rule: tickets_step.cases) (auto simp: starved_def)
qed

lemma starved_forever: "tickets_step\<^sup>*\<^sup>* s t \<Longrightarrow> starved s \<Longrightarrow> starved t"
  by (induction rule: rtranclp_induct) (auto intro: starved_step)

lemma two_waiters_starve:
  defines "s4 \<equiv> \<lparr>tk_head = 2, tk_bottom = 0, tk_sleep = {1, 2}, tk_awake = {}, tk_held = True, tk_log = []\<rparr>"
    and "s5 \<equiv> \<lparr>tk_head = 2, tk_bottom = 1, tk_sleep = {1}, tk_awake = {2}, tk_held = False, tk_log = []\<rparr>"
  shows "tickets_reach s5 \<and> tickets_step s4 s5"
proof -
  let ?s1 = "\<lparr>tk_head = 1, tk_bottom = 0, tk_sleep = {}, tk_awake = {1}, tk_held = True, tk_log = []\<rparr> :: tickets"
  let ?s2 = "\<lparr>tk_head = 1, tk_bottom = 0, tk_sleep = {1}, tk_awake = {}, tk_held = True, tk_log = []\<rparr> :: tickets"
  let ?s3 = "\<lparr>tk_head = 2, tk_bottom = 0, tk_sleep = {1}, tk_awake = {2}, tk_held = True, tk_log = []\<rparr> :: tickets"
  have a: "tickets_step tickets_init ?s1"
    using tickets_step.Arrive[of tickets_init 1] by (simp add: tickets_init_def ADD_SAFELY_INT16T_def INT16_MAX_def)
  have b: "tickets_step ?s1 ?s2" using tickets_step.Sleep_again[of 1 ?s1] by simp
  have c: "tickets_step ?s2 ?s3"
    using tickets_step.Arrive[of ?s2 2] by (simp add: ADD_SAFELY_INT16T_def INT16_MAX_def)
  have d: "tickets_step ?s3 s4" using tickets_step.Sleep_again[of 2 ?s3] by (simp add: s4_def insert_commute)
  have "{1, 2} - {2} = {1 :: int}" by auto
  then have e: "tickets_step s4 s5"
    using tickets_step.Hand_over[of s4 2] by (simp add: s4_def s5_def ADD_SAFELY_INT16T_def INT16_MAX_def)
  have "tickets_reach s4"
    by (rule tickets_reach.Step[OF tickets_reach.Step[OF tickets_reach.Step[OF tickets_reach.Step[OF tickets_reach.Init a] b] c] d])
  with e show ?thesis by (blast intro: tickets_reach.Step)
qed

text \<open>C16: with two threads waiting, the hand-over can wake the second one; it goes back to sleep, the
  entity belongs to nobody, and whatever happens later the first one is never served: the signal
  that was meant for it is lost.\<close>

theorem lost_wakeup:
  "\<exists>s. tickets_reach s \<and> {t. tickets_step\<^sup>*\<^sup>* s t} \<subseteq> {t. tk_bottom t \<in> tk_sleep t \<and> \<not> tk_held t \<and> tk_log t = []}"
proof -
  let ?s = "\<lparr>tk_head = 2, tk_bottom = 1, tk_sleep = {1}, tk_awake = {2}, tk_held = False, tk_log = []\<rparr> :: tickets"
  have r: "tickets_reach ?s" using two_waiters_starve by blast
  then have "starved ?s" using tickets_reach_inv[OF r] by (simp add: starved_def)
  then have "\<forall>t. tickets_step\<^sup>*\<^sup>* ?s t \<longrightarrow> starved t" using starved_forever by blast
  with r show ?thesis by (intro exI[of _ ?s]) (auto simp: starved_def)
qed

end
