(* ===== verification/SocketStream.thy ===== *)
theory SocketStream
  imports Datatypes
begin

text \<open>
  What a streamer thread works on (\<open>struct socketopts\<close> of \<open>src/sockethandling.h\<close>, \<open>struct streamer_entity\<close>
  of \<open>src/streamer.h\<close>), and the operations of \<open>src/sockethandling.c\<close> on it that the UDP thread uses.

  A buffer entity is seen through the interface the streamers use: its bytes, the counter that
  \<open>simple_get_writebuf\<close> hands out a pointer to, and the file number \<open>sbuf_acquire\<close> stores. An address
  names one lease of a buffer, from \<open>get_free\<close> until it is handed to the writer; \<open>st_free\<close> lists the
  leases \<open>get_free\<close> will return, and is empty when it will return \<open>NULL\<close>. What a new lease holds is
  left open.
\<close>

record socketopts =
  so_fd :: int
  so_fd_send :: int
  so_wrongsizeerrors :: int
  so_missing :: u64
  so_total_transacted_bytes :: u64
  so_incomplete :: u64
  so_files_sent :: u64
  so_out_of_order :: u64

text \<open>A buffer at the moment it was handed to the writer thread.\<close>

record ready_buf =
  rd_be :: addr
  rd_fileid :: u64
  rd_diff :: u64
  rd_data :: "u8 list"

text \<open>\<open>st_fi_packets\<close> is the packet count of the recording \<open>opt->fi\<close> in the file index; \<open>st_forwarded\<close>
  are the packets sent on through \<open>fd_send\<close>.\<close>

record stream =
  st_opt :: opt_s
  st_so :: socketopts
  st_resq :: resq_info
  st_be :: "addr option"
  st_diff :: "addr \<Rightarrow> u64"
  st_fileid :: "addr \<Rightarrow> u64"
  st_data :: "addr \<Rightarrow> u8 list"
  st_free :: "addr list"
  st_ready :: "ready_buf list"
  st_fi_packets :: u64
  st_forwarded :: "u8 list list"

text \<open>A function that may end the thread with \<open>pthread_exit\<close>.\<close>

datatype 'a run = Thread_Exit | Return 'a

section \<open>Buffers\<close>

definition get_buffer :: "u64 \<Rightarrow> stream \<Rightarrow> (stream \<times> addr option)" where
  "get_buffer acq s = (case st_free s of
       [] \<Rightarrow> (s, None)
     | a # as \<Rightarrow> (s\<lparr>st_free := as, st_fileid := (st_fileid s)(a := acq), st_diff := (st_diff s)(a := 0)\<rparr>, Some a))"

definition free_the_buf :: "addr \<Rightarrow> stream \<Rightarrow> stream" where
  "free_the_buf b s = s\<lparr>st_ready := st_ready s @
     [\<lparr>rd_be = b, rd_fileid = st_fileid s b, rd_diff = st_diff s b, rd_data = st_data s b\<rparr>]\<rparr>"

text \<open>\<open>*p += n\<close> and \<open>*p = n\<close> on the counter \<open>p\<close> points to.\<close>

definition put_count :: "addr option \<Rightarrow> (u64 \<Rightarrow> u64) \<Rightarrow> stream \<Rightarrow> stream outcome" where
  "put_count p f s = (case p of None \<Rightarrow> Inl Null_Deref
     | Some a \<Rightarrow> Inr (s\<lparr>st_diff := (st_diff s)(a := f (st_diff s a))\<rparr>))"

definition get_count :: "addr option \<Rightarrow> stream \<Rightarrow> u64 outcome" where
  "get_count p s = (case p of None \<Rightarrow> Inl Null_Deref | Some a \<Rightarrow> Inr (st_diff s a))"

definition buf_read :: "bufptr \<Rightarrow> nat \<Rightarrow> stream \<Rightarrow> u8 list outcome" where
  "buf_read p n s = (case p of None \<Rightarrow> Inl Null_Deref
     | Some (a, k) \<Rightarrow> if k < 0 then Inl Out_Of_Bounds else mem_read (st_data s a) (nat k) n)"

definition buf_write :: "bufptr \<Rightarrow> u8 list \<Rightarrow> stream \<Rightarrow> stream outcome" where
  "buf_write p bs s = (case p of None \<Rightarrow> Inl Null_Deref
     | Some (a, k) \<Rightarrow> if k < 0 then Inl Out_Of_Bounds
         else bindE (memcpy_at (st_data s a) (nat k) bs) (\<lambda>d. Inr (s\<lparr>st_data := (st_data s)(a := d)\<rparr>)))"

definition ptr_add :: "bufptr \<Rightarrow> int \<Rightarrow> bufptr" where
  "ptr_add p n = map_option (\<lambda>(a, k). (a, k + n)) p"

lemma ptr_add_Some [simp]: "ptr_add (Some (a, k)) n = Some (a, k + n)"
  by (simp add: ptr_add_def)

text \<open>The bytes from a pointer to the end of its buffer, what a header function is given.\<close>

definition bytes_from :: "bufptr \<Rightarrow> stream \<Rightarrow> u8 list outcome" where
  "bytes_from p s = (case p of None \<Rightarrow> Inl Null_Deref
     | Some (a, k) \<Rightarrow> if k < 0 then Inl Out_Of_Bounds else Inr (drop (nat k) (st_data s a)))"

section \<open>Operations of sockethandling.c\<close>

text \<open>The results of \<open>shutdown\<close> and \<open>close\<close> are only logged.\<close>

definition close_socket :: "stream \<Rightarrow> stream" where
  "close_socket s = (if so_fd (st_so s) = 0 then s else s\<lparr>st_so := (st_so s)\<lparr>so_fd := 0\<rparr>\<rparr>)"

definition set_status :: "u32 \<Rightarrow> stream \<Rightarrow> stream" where
  "set_status st s = s\<lparr>st_opt := set_status_for_opt (st_opt s) st\<rparr>"

definition stop_streamer :: "stream \<Rightarrow> stream" where
  "stop_streamer s = close_socket (set_status STATUS_STOPPED s)"

definition reset_udpopts_stats :: "stream \<Rightarrow> stream" where
  "reset_udpopts_stats s = s\<lparr>
     st_so := (st_so s)\<lparr>so_wrongsizeerrors := 0, so_total_transacted_bytes := 0, so_out_of_order := 0,
       so_incomplete := 0, so_missing := 0\<rparr>,
     st_opt := (st_opt s)\<lparr>opt_total_packets := 0\<rparr>\<rparr>"

definition count_missing :: "u64 \<Rightarrow> stream \<Rightarrow> stream" where
  "count_missing n s = s\<lparr>st_so := (st_so s)\<lparr>so_missing := so_missing (st_so s) + n\<rparr>\<rparr>"

text \<open>\<open>init_resq\<close> of \<open>src/common_filehandling.c\<close>; the record was cleared before.\<close>

definition init_resq :: "resq_info \<Rightarrow> resq_info" where
  "init_resq resq = resq\<lparr>resq_bufstart := resq_buf resq, resq_current_seq := INT64_MAX,
     resq_packets_per_second := - 1, resq_starting_second := - 1, resq_seqstart_current := INT64_MAX,
     resq_usebuf := None, resq_bufstart_before := None, resq_before := None\<rparr>"

definition zero_tm :: tm where
  "zero_tm = \<lparr>tm_hour = 0, tm_min = 0, tm_sec = 0, tm_year = 0, tm_mon = 0, tm_mday = 0\<rparr>"

definition zero_resq :: resq_info where
  "zero_resq = \<lparr>resq_inc_before = None, resq_inc = None, resq_buf = None, resq_usebuf = None,
     resq_bufstart = None, resq_bufstart_before = None, resq_before = None, resq_current_seq = 0,
     resq_seqstart_current = 0, resq_i = 0, resq_packets_per_second = 0, resq_packetsecdif = 0,
     resq_tm_s = zero_tm, resq_starting_second = 0\<rparr>"

end
