(* ===== verification/UdpStream.thy ===== *)
theory UdpStream
  imports SocketStream
begin

text \<open>
  The UDP receiver of \<open>src/udp_stream.c\<close>: it puts each packet at the place of its sequence number in
  the current buffer, or in the one before, and hands full buffers to the writer.

  \<open>memcpy\<close> of a packet and \<open>recv\<close> are checked against the bounds of the buffer. The signed sequence
  arithmetic is exact. A thread that runs out of buffers ends with \<open>pthread_exit\<close> (\<open>CHECK_AND_EXIT\<close>).
\<close>

section \<open>Switching buffers\<close>

abbreviation packet_len :: "stream \<Rightarrow> int" where
  "packet_len s \<equiv> uint (opt_packet_size (st_opt s))"

abbreviation num_elems :: "stream \<Rightarrow> int" where
  "num_elems s \<equiv> uint (opt_buf_num_elems (st_opt s))"

abbreviation upd_resq :: "(resq_info \<Rightarrow> resq_info) \<Rightarrow> stream \<Rightarrow> stream" where
  "upd_resq f s \<equiv> s\<lparr>st_resq := f (st_resq s)\<rparr>"

text \<open>The buffer before the current one, if it still waits for packets, is given up as it is.\<close>

definition flush_before :: "stream \<Rightarrow> stream outcome" where
  "flush_before s = (case resq_before (st_resq s) of
       None \<Rightarrow> Inr s
     | Some b \<Rightarrow>
        bindE (get_count (resq_inc_before (st_resq s)) s) (\<lambda>have.
        bindE (if opt_packet_size (st_opt s) = 0 then Inl Div_By_Zero
               else Inr ((CALC_BUFSIZE_FROM_OPT (st_opt s) - have) div opt_packet_size (st_opt s))) (\<lambda>lost.
        bindE (put_count (resq_inc_before (st_resq s)) (\<lambda>_. CALC_BUFSIZE_FROM_OPT (st_opt s))
                 (count_missing lost s)) (\<lambda>s1.
          Inr (upd_resq (\<lambda>r. r\<lparr>resq_bufstart_before := None, resq_before := None, resq_inc_before := None\<rparr>)
                 (free_the_buf b s1))))))"

text \<open>A full buffer goes to the writer, an incomplete one becomes the buffer before.\<close>

definition retire_current :: "stream \<Rightarrow> stream outcome" where
  "retire_current s =
     bindE (get_count (resq_inc (st_resq s)) s) (\<lambda>have.
       if have = ucast (opt_buf_num_elems (st_opt s)) * opt_packet_size (st_opt s)
       then (case st_be s of None \<Rightarrow> Inl Null_Deref
             | Some a \<Rightarrow> Inr (upd_resq (\<lambda>r. r\<lparr>resq_bufstart_before := None, resq_before := None\<rparr>)
                                ((free_the_buf a s)\<lparr>st_be := None\<rparr>)))
       else Inr (upd_resq (\<lambda>r. r\<lparr>resq_before := st_be s, resq_bufstart_before := resq_bufstart r,
                                resq_inc_before := resq_inc r\<rparr>) s))"

definition jump_to_next_buf :: "stream \<Rightarrow> (stream \<times> int run) outcome" where
  "jump_to_next_buf s0 =
     (let s = s0\<lparr>st_opt := (st_opt s0)\<lparr>opt_cumul := opt_cumul (st_opt s0) + 1\<rparr>\<rparr> in
      bindE (flush_before s) (\<lambda>s1.
      bindE (retire_current s1) (\<lambda>s2.
        let s3 = upd_resq (\<lambda>r. r\<lparr>resq_i := 0\<rparr>) s2;
            (s4, be) = get_buffer (opt_cumul (st_opt s3)) s3
        in (case be of
              None \<Rightarrow> Inr (s4\<lparr>st_be := None\<rparr>, Thread_Exit)
            | Some a \<Rightarrow> Inr (upd_resq (\<lambda>r. r\<lparr>resq_inc := Some a, resq_buf := Some (a, 0),
                              resq_bufstart := Some (a, 0),
                              resq_seqstart_current := resq_seqstart_current r + num_elems s4\<rparr>)
                            (s4\<lparr>st_be := Some a\<rparr>), Return 0)))))"

section \<open>Placing a packet\<close>

definition seqnum_of :: "u8 list \<Rightarrow> stream \<Rightarrow> (int option \<times> resq_info) outcome" where
  "seqnum_of header s =
     (let resq = st_resq s; t = opt_optbits (st_opt s) AND LOCKER_DATATYPE in
      if t = DATATYPE_UDPMON then bindE (getseq_udpmon header) (\<lambda>q. Inr (Some (sint q), resq))
      else if t = DATATYPE_VDIF then bindE (getseq_vdif header resq) (\<lambda>(q, r). Inr (Some q, r))
      else if t = DATATYPE_MARK5BNET then bindE (getseq_mark5b_net header) (\<lambda>q. Inr (Some q, resq))
      else if t = DATATYPE_MARK5B then Inr (Some (resq_current_seq resq + 1), resq)
      else Inr (None, resq))"

text \<open>The packet stays where it was received, as the next one of the buffer.\<close>

definition next_in_order :: "stream \<Rightarrow> stream outcome" where
  "next_in_order s =
     bindE (put_count (resq_inc (st_resq s)) (\<lambda>c. c + opt_packet_size (st_opt s)) s) (\<lambda>s1.
       Inr (upd_resq (\<lambda>r. r\<lparr>resq_i := resq_i r + 1, resq_buf := ptr_add (resq_buf r) (packet_len s)\<rparr>) s1))"

text \<open>Copying the packet from \<open>src\<close> to \<open>dst\<close>.\<close>

definition move_packet :: "bufptr \<Rightarrow> bufptr \<Rightarrow> stream \<Rightarrow> stream outcome" where
  "move_packet dst src s =
     bindE (buf_read src (nat (packet_len s)) s) (\<lambda>p.
     bindE (buf_write dst p s) (\<lambda>s1. Inr (upd_resq (\<lambda>r. r\<lparr>resq_usebuf := dst\<rparr>) s1)))"

definition place_before :: "int \<Rightarrow> stream \<Rightarrow> stream outcome" where
  "place_before diff_from_start s =
     (let r = st_resq s in
      if resq_bufstart_before r = None then Inr (count_missing 1 s)
      else if diff_from_start < - num_elems s then Inr (count_missing 1 s)
      else
        bindE (check_assert (resq_inc_before r \<noteq> None)) (\<lambda>_.
        bindE (put_count (resq_inc_before r) (\<lambda>c. c + opt_packet_size (st_opt s)) s) (\<lambda>s1.
        bindE (move_packet (ptr_add (resq_bufstart_before r) ((num_elems s + diff_from_start) * packet_len s))
                 (resq_buf r) s1) (\<lambda>s2.
        bindE (get_count (resq_inc_before r) s2) (\<lambda>c.
          if c + opt_packet_size (st_opt s) > CALC_BUFSIZE_FROM_OPT (st_opt s)
          then (case resq_before r of None \<Rightarrow> Inl Null_Deref
                | Some b \<Rightarrow> Inr (upd_resq (\<lambda>r. r\<lparr>resq_bufstart_before := None, resq_before := None,
                                    resq_inc_before := None\<rparr>) (free_the_buf b s2)))
          else Inr s2)))))"

definition place_behind :: "int \<Rightarrow> stream \<Rightarrow> stream outcome" where
  "place_behind diff_from_start s =
     bindE (put_count (resq_inc (st_resq s)) (\<lambda>c. c + opt_packet_size (st_opt s)) s) (\<lambda>s1.
       move_packet (ptr_add (resq_bufstart (st_resq s)) (diff_from_start * packet_len s)) (resq_buf (st_resq s)) s1)"

text \<open>Ahead of time, beyond this buffer: the packet goes to its place in the next one.\<close>

definition place_next_buf :: "int \<Rightarrow> int \<Rightarrow> stream \<Rightarrow> (stream \<times> bool run) outcome" where
  "place_next_buf seqnum diff_from_start s =
     (if diff_from_start \<ge> uint (opt_buf_num_elems (st_opt s) * 2) then Inr (count_missing 1 s, Return False)
      else
        let i_from_next = diff_from_start - num_elems s; origbuf = resq_buf (st_resq s) in
        bindE (jump_to_next_buf s) (\<lambda>(s1, err). case err of
            Thread_Exit \<Rightarrow> Inr (s1, Thread_Exit)
          | Return e \<Rightarrow> if e \<noteq> 0 then Inr (s1, Return False) else
              let usebuf = ptr_add (resq_bufstart (st_resq s1)) (i_from_next * packet_len s1) in
              bindE (move_packet usebuf origbuf s1) (\<lambda>s2.
              bindE (put_count (resq_inc (st_resq s2)) (\<lambda>c. c + opt_packet_size (st_opt s2)) s2) (\<lambda>s3.
                Inr (upd_resq (\<lambda>r. r\<lparr>resq_current_seq := seqnum, resq_i := resq_i r + i_from_next + 1,
                       resq_buf := ptr_add usebuf (packet_len s3)\<rparr>) s3, Return False)))))"

definition place_ahead :: "int \<Rightarrow> int \<Rightarrow> int \<Rightarrow> stream \<Rightarrow> stream outcome" where
  "place_ahead seqnum diff_from_start diff_to_current s =
     bindE (put_count (resq_inc (st_resq s)) (\<lambda>c. c + opt_packet_size (st_opt s)) s) (\<lambda>s1.
     (let usebuf = ptr_add (resq_bufstart (st_resq s)) (diff_from_start * packet_len s) in
      bindE (move_packet usebuf (resq_buf (st_resq s)) s1) (\<lambda>s2.
        Inr (upd_resq (\<lambda>r. r\<lparr>resq_i := resq_i r + diff_to_current, resq_current_seq := seqnum,
               resq_buf := ptr_add usebuf (packet_len s)\<rparr>) s2))))"

text \<open>The part of \<open>calc_bufpos_general\<close> after the sequence number is known; the result is whether a
  pointer (and not \<open>NULL\<close>) is returned.\<close>

definition place_packet :: "int \<Rightarrow> stream \<Rightarrow> (stream \<times> bool run) outcome" where
  "place_packet seqnum s =
     (let r = st_resq s in
      if resq_current_seq r = INT64_MAX \<and> resq_seqstart_current r = INT64_MAX
      then bindE (next_in_order (upd_resq (\<lambda>r. r\<lparr>resq_current_seq := seqnum, resq_seqstart_current := seqnum\<rparr>) s))
             (\<lambda>s1. Inr (s1, Return True))
      else if seqnum = resq_current_seq r + 1
      then bindE (next_in_order (upd_resq (\<lambda>r. r\<lparr>resq_current_seq := resq_current_seq r + 1\<rparr>) s))
             (\<lambda>s1. Inr (s1, Return True))
      else if seqnum = resq_current_seq r then Inr (s, Return False)
      else
        let diff_from_start = seqnum - resq_seqstart_current r;
            diff_to_current = seqnum - resq_current_seq r in
        if diff_to_current < 0
        then bindE (if diff_from_start < 0 then place_before diff_from_start s else place_behind diff_from_start s)
               (\<lambda>s1. Inr (s1, Return False))
        else if diff_from_start \<ge> num_elems s then place_next_buf seqnum diff_from_start s
        else bindE (place_ahead seqnum diff_from_start diff_to_current s) (\<lambda>s1. Inr (s1, Return False)))"

definition calc_bufpos_general :: "bufptr \<Rightarrow> stream \<Rightarrow> (stream \<times> bool run) outcome" where
  "calc_bufpos_general header s =
     bindE (bytes_from header s) (\<lambda>hdr.
     bindE (seqnum_of hdr s) (\<lambda>(q, r). case q of
         None \<Rightarrow> Inr (s, Return False)
       | Some seqnum \<Rightarrow> place_packet seqnum (s\<lparr>st_resq := r\<rparr>)))"

section \<open>A received packet\<close>

definition EINTR :: int where "EINTR = 4"

definition WRONGSIZELIMITBEFOREEXIT :: int where "WRONGSIZELIMITBEFOREEXIT = 20"

text \<open>Whether the recording still waits for its starting second: \<open>None\<close> goes on with the packet,
  \<open>Some e\<close> returns \<open>e\<close>. \<open>now\<close> is the second the clock shows.\<close>

definition wait_for_start :: "int \<Rightarrow> stream \<Rightarrow> (stream \<times> int option) outcome" where
  "wait_for_start now s =
     (if has (opt_optbits (st_opt s)) WAIT_START_ON_METADATA
      then bindE (bytes_from (resq_buf (st_resq s)) s) (\<lambda>b.
           bindE (get_sec_dif_from_buf b (resq_tm_s (st_resq s)) (st_opt s)) (\<lambda>(err, temperr).
             if temperr = NONEVEN_PACKET then Inr (s, Some 0)
             else if temperr \<noteq> 0 then Inr (s, Some (- 1))
             else if err > 0 then Inr (s, Some 0)
             else Inr (s\<lparr>st_opt := (st_opt s)\<lparr>
                    opt_optbits := opt_optbits (st_opt s) AND NOT WAIT_START_ON_METADATA,
                    opt_starting_time := (opt_starting_time (st_opt s))\<lparr>tv_sec := now\<rparr>\<rparr>\<rparr>, None)))
      else Inr (s, None))"

text \<open>The header of the first packet is kept.\<close>

definition keep_first_packet :: "(nat \<Rightarrow> u8 list option) \<Rightarrow> stream \<Rightarrow> stream outcome" where
  "keep_first_packet malloc_bytes s =
     (case opt_first_packet (st_opt s) of
        Some _ \<Rightarrow> Inr s
      | None \<Rightarrow>
         (case init_header malloc_bytes (st_opt s) of (hdr, err) \<Rightarrow>
            if err \<noteq> 0 then Inr (s\<lparr>st_opt := (st_opt s)\<lparr>opt_first_packet := hdr\<rparr>\<rparr>)
            else (case hdr of None \<Rightarrow> Inl Null_Deref
              | Some blk \<Rightarrow>
                 bindE (bytes_from (resq_buf (st_resq s)) s) (\<lambda>b.
                 bindE (copy_metadata blk b (opt_optbits (st_opt s))) (\<lambda>(blk', _).
                   Inr (s\<lparr>st_opt := (st_opt s)\<lparr>opt_first_packet := Some blk'\<rparr>\<rparr>))))))"

definition count_packet :: "int \<Rightarrow> stream \<Rightarrow> stream" where
  "count_packet received s =
     (let s1 = s\<lparr>st_so := (st_so s)\<lparr>so_total_transacted_bytes := so_total_transacted_bytes (st_so s) + word_of_int received\<rparr>,
                 st_opt := (st_opt s)\<lparr>opt_total_packets := opt_total_packets (st_opt s) + 1\<rparr>\<rparr>
      in if opt_last_packet (st_opt s1) = opt_total_packets (st_opt s1) then set_status STATUS_FINISHED s1 else s1)"

definition forward_packet :: "stream \<Rightarrow> stream outcome" where
  "forward_packet s = (case opt_hostname (st_opt s) of None \<Rightarrow> Inr s
     | Some _ \<Rightarrow> bindE (buf_read (resq_buf (st_resq s)) (nat (packet_len s)) s) (\<lambda>p.
         Inr (s\<lparr>st_forwarded := st_forwarded s @ [p]\<rparr>)))"

definition bad_size :: "stream \<Rightarrow> stream \<times> int run" where
  "bad_size s = (if get_status_from_opt (st_opt s) = STATUS_RUNNING
     then (let s1 = s\<lparr>st_so := (st_so s)\<lparr>so_incomplete := so_incomplete (st_so s) + 1,
                     so_wrongsizeerrors := so_wrongsizeerrors (st_so s) + 1\<rparr>\<rparr>
           in if so_wrongsizeerrors (st_so s1) > WRONGSIZELIMITBEFOREEXIT
              then (set_status STATUS_ERROR (stop_streamer s1), Return (- 1))
              else (s1, Return 0))
     else (s, Return 0))"

text \<open>What is done with a packet of the right size.\<close>

definition store_packet :: "(nat \<Rightarrow> u8 list option) \<Rightarrow> int \<Rightarrow> stream \<Rightarrow> (stream \<times> int run) outcome" where
  "store_packet malloc_bytes now s =
     (if \<not> has (opt_optbits (st_opt s)) DATATYPE_UNKNOWN
      then bindE (wait_for_start now s) (\<lambda>(s1, w). case w of
               Some e \<Rightarrow> Inr (s1, Return e)
             | None \<Rightarrow>
                bindE (keep_first_packet malloc_bytes s1) (\<lambda>s2.
                bindE (calc_bufpos_general (resq_buf (st_resq s2)) s2) (\<lambda>(s3, r). case r of
                    Thread_Exit \<Rightarrow> Inr (s3, Thread_Exit)
                  | Return _ \<Rightarrow> Inr (s3, Return 1))))
      else bindE (put_count (resq_inc (st_resq s)) (\<lambda>c. c + opt_packet_size (st_opt s)) s) (\<lambda>s1.
             Inr (upd_resq (\<lambda>r. r\<lparr>resq_buf := ptr_add (resq_buf r) (packet_len s), resq_i := resq_i r + 1\<rparr>) s1,
                  Return 1)))"

definition udps_handle_received_packet ::
  "(nat \<Rightarrow> u8 list option) \<Rightarrow> int \<Rightarrow> int \<Rightarrow> stream \<Rightarrow> (stream \<times> int run) outcome" where
  "udps_handle_received_packet malloc_bytes now received s =
     (if received = 0 then Inr (s, Return 1)
      else if received < 0
      then (if received = EINTR then Inr (s, Return 1)
            else Inr (set_status STATUS_ERROR (stop_streamer s), Return (- 1)))
      else if word_of_int received \<noteq> opt_packet_size (st_opt s) then Inr (bad_size s)
      else
        bindE (forward_packet s) (\<lambda>s1.
        bindE (check_assert (word_of_int (resq_i (st_resq s1)) < opt_buf_num_elems (st_opt s1))) (\<lambda>_.
        bindE (store_packet malloc_bytes now s1) (\<lambda>(s2, r). case r of
            Thread_Exit \<Rightarrow> Inr (s2, Thread_Exit)
          | Return e \<Rightarrow> if e \<noteq> 1 then Inr (s2, Return e) else
              bindE (get_count (resq_inc (st_resq s2)) s2) (\<lambda>c.
              bindE (check_assert (ucast (ucast c :: u32) \<le> CALC_BUFSIZE_FROM_OPT_NOOFFSET (st_opt s2))) (\<lambda>_.
                Inr (count_packet received s2, Return 0)))))))"

definition handle_buffer_switch :: "stream \<Rightarrow> (stream \<times> int run) outcome" where
  "handle_buffer_switch s =
     (if word_of_int (resq_i (st_resq s)) = opt_buf_num_elems (st_opt s)
      then bindE (check_assert (opt_fi (st_opt s) \<noteq> None)) (\<lambda>_.
        let s1 = s\<lparr>st_fi_packets := st_fi_packets s + ucast (opt_buf_num_elems (st_opt s))\<rparr> in
        if \<not> has (opt_optbits (st_opt s1)) DATATYPE_UNKNOWN
        then bindE (jump_to_next_buf s1) (\<lambda>(s2, r). case r of
                 Thread_Exit \<Rightarrow> Inr (s2, Thread_Exit)
               | Return err \<Rightarrow> if err < 0 then Inr (set_status STATUS_ERROR s2, Return (- 1)) else Inr (s2, Return 0))
        else (case st_be s1 of None \<Rightarrow> Inl Null_Deref
          | Some a \<Rightarrow>
             (let s2 = free_the_buf a (upd_resq (\<lambda>r. r\<lparr>resq_i := 0\<rparr>)
                    (s1\<lparr>st_opt := (st_opt s1)\<lparr>opt_cumul := opt_cumul (st_opt s1) + 1\<rparr>\<rparr>));
                  (s3, be) = get_buffer (opt_cumul (st_opt s2)) s2
              in (case be of None \<Rightarrow> Inr (s3\<lparr>st_be := None\<rparr>, Thread_Exit)
                  | Some b \<Rightarrow> Inr (upd_resq (\<lambda>r. r\<lparr>resq_buf := Some (b, 0), resq_inc := Some b\<rparr>)
                                    (s3\<lparr>st_be := Some b\<rparr>), Return 0)))))
      else Inr (s, Return 0))"

section \<open>The receiver thread\<close>

text \<open>One \<open>recv\<close>: its result, the bytes it stored, and the second the clock shows.\<close>

record rx =
  rx_ret :: int
  rx_bytes :: "u8 list"
  rx_now :: int

definition recv_into :: "rx \<Rightarrow> stream \<Rightarrow> stream outcome" where
  "recv_into x s = (if rx_ret x > 0 then buf_write (resq_buf (st_resq s)) (rx_bytes x) s else Inr s)"

text \<open>A turn of the receive loop; the boolean is whether the loop goes on.\<close>

definition receive_turn :: "(nat \<Rightarrow> u8 list option) \<Rightarrow> rx \<Rightarrow> stream \<Rightarrow> (stream \<times> bool run) outcome" where
  "receive_turn malloc_bytes x s =
     bindE (handle_buffer_switch s) (\<lambda>(s1, r). case r of
         Thread_Exit \<Rightarrow> Inr (s1, Thread_Exit)
       | Return e \<Rightarrow> if e \<noteq> 0 then Inr (set_status STATUS_ERROR s1, Return False) else
           bindE (recv_into x s1) (\<lambda>s2.
           bindE (udps_handle_received_packet malloc_bytes (rx_now x) (rx_ret x) s2) (\<lambda>(s3, r). case r of
               Thread_Exit \<Rightarrow> Inr (s3, Thread_Exit)
             | Return e \<Rightarrow> if e = 0 then Inr (s3, Return True)
                 else if e = 1 then Inr (s3, Return False)
                 else Inr (set_status STATUS_ERROR s3, Return False))))"

text \<open>The loop over what the network delivers. When the list is used up the thread is in \<open>recv\<close>
  (\<open>Blocked\<close>).\<close>

fun receive_loop :: "(nat \<Rightarrow> u8 list option) \<Rightarrow> rx list \<Rightarrow> stream \<Rightarrow> (stream \<times> unit run wait) outcome" where
  "receive_loop malloc_bytes xs s =
     (if \<not> has (get_status_from_opt (st_opt s)) STATUS_RUNNING then Inr (s, Done (Return ()))
      else (case xs of
          [] \<Rightarrow> Inr (s, Blocked)
        | x # xs' \<Rightarrow> bindE (receive_turn malloc_bytes x s) (\<lambda>(s1, r). case r of
              Thread_Exit \<Rightarrow> Inr (s1, Done Thread_Exit)
            | Return go \<Rightarrow> if go then receive_loop malloc_bytes xs' s1 else Inr (s1, Done (Return ())))))"

declare receive_loop.simps [simp del]

text \<open>What follows the loop. \<open>cancel_writebuf\<close> gives the unused buffer back.\<close>

definition end_before :: "stream \<Rightarrow> stream outcome" where
  "end_before s = (case resq_before (st_resq s) of
       None \<Rightarrow> Inr s
     | Some b \<Rightarrow> bindE (put_count (resq_inc_before (st_resq s)) (\<lambda>_. CALC_BUFSIZE_FROM_OPT (st_opt s)) s)
                   (\<lambda>s1. Inr (free_the_buf b s1)))"

definition end_current :: "stream \<Rightarrow> stream outcome" where
  "end_current s =
     bindE (get_count (resq_inc (st_resq s)) s) (\<lambda>c. case st_be s of
         None \<Rightarrow> Inl Null_Deref
       | Some a \<Rightarrow>
           if c = 0 then Inr (s\<lparr>st_be := None\<rparr>)
           else (let s1 = (if opt_fi (st_opt s) \<noteq> None
                    then s\<lparr>st_fi_packets := st_fi_packets s + word_of_int (resq_i (st_resq s))\<rparr> else s)
                 in Inr (free_the_buf a (s1\<lparr>st_opt := (st_opt s1)\<lparr>opt_cumul := opt_cumul (st_opt s1) + 1\<rparr>\<rparr>))))"

definition receiver_end :: "stream \<Rightarrow> stream outcome" where
  "receiver_end s =
     bindE (end_before s) (\<lambda>s1.
     bindE (end_current s1) (\<lambda>s2.
       Inr (if get_status_from_opt (st_opt s2) \<noteq> STATUS_STOPPED then close_socket s2 else s2)))"

text \<open>The preparation before the loop; \<open>gmtime\<close> is the C library function.\<close>

definition receiver_start :: "(int \<Rightarrow> tm) \<Rightarrow> stream \<Rightarrow> stream \<times> unit run" where
  "receiver_start gmtime s0 =
     (let s = reset_udpopts_stats (s0\<lparr>st_resq := zero_resq\<rparr>);
          (s1, be) = get_buffer (opt_cumul (st_opt s)) s
      in (case be of
           None \<Rightarrow> (s1\<lparr>st_be := None\<rparr>, Thread_Exit)
         | Some a \<Rightarrow>
            (let s2 = upd_resq (\<lambda>r. r\<lparr>resq_buf := Some (a, 0), resq_inc := Some a\<rparr>) (s1\<lparr>st_be := Some a\<rparr>);
                 s3 = (if \<not> has (opt_optbits (st_opt s2)) DATATYPE_UNKNOWN
                       then (let s' = upd_resq init_resq s2
                             in if has (opt_optbits (st_opt s')) WAIT_START_ON_METADATA
                                then upd_resq (\<lambda>r. r\<lparr>resq_tm_s := gmtime (tv_sec (opt_starting_time (st_opt s')))\<rparr>) s'
                                else s')
                       else s2)
             in (s3, Return ()))))"

definition udp_receiver :: "(nat \<Rightarrow> u8 list option) \<Rightarrow> (int \<Rightarrow> tm) \<Rightarrow> rx list \<Rightarrow> stream \<Rightarrow>
    (stream \<times> unit wait) outcome" where
  "udp_receiver malloc_bytes gmtime xs s =
     (case receiver_start gmtime s of
        (s1, Thread_Exit) \<Rightarrow> Inr (s1, Done ())
      | (s1, Return _) \<Rightarrow>
          bindE (receive_loop malloc_bytes xs s1) (\<lambda>(s2, r). case r of
              Blocked \<Rightarrow> Inr (s2, Blocked)
            | Done Thread_Exit \<Rightarrow> Inr (s2, Done ())
            | Done (Return _) \<Rightarrow> bindE (receiver_end s2) (\<lambda>s3. Inr (s3, Done ()))))"

section \<open>Statistics and sending\<close>

definition get_udp_stats :: "stream \<Rightarrow> stats \<Rightarrow> stats" where
  "get_udp_stats s st = st\<lparr>
     s_total_packets := s_total_packets st + opt_total_packets (st_opt s),
     s_total_bytes := s_total_bytes st + so_total_transacted_bytes (st_so s),
     s_incomplete := s_incomplete st + so_incomplete (st_so s),
     s_dropped := s_dropped st + so_missing (st_so s),
     s_progress := (if opt_last_packet (st_opt s) > 0
        then to_int32 (uint ((opt_total_packets (st_opt s) * 100) div opt_last_packet (st_opt s))) else - 1)\<rparr>"

end
