(* ===== verification/UdpWindow.thy ===== *)
theory UdpWindow
  imports UdpStream
begin

text \<open>
  What the receiver of theory \<open>UdpStream\<close> promises, and the proof that it keeps it. The specification
  numbers the files of a recording from the first packet on and says which packets are placed; it
  has no buffers, pointers or counters. The simulation states that every placed packet is in its
  slot of the buffer of its file: the current one, the one before, or one already with the writer.
\<close>

section \<open>The specification\<close>

record window =
  w_first :: int
  w_cur :: int
  w_file :: nat
  w_open :: bool
  w_placed :: "int \<Rightarrow> u8 list option"

definition seq_at :: "nat \<Rightarrow> window \<Rightarrow> nat \<Rightarrow> nat \<Rightarrow> int" where
  "seq_at n w f k = w_first w + int (n * f + k)"

definition start :: "nat \<Rightarrow> window \<Rightarrow> int" where
  "start n w = seq_at n w (w_file w) 0"

definition put :: "int \<Rightarrow> u8 list \<Rightarrow> window \<Rightarrow> window" where
  "put q p w = w\<lparr>w_placed := (w_placed w)(q \<mapsto> p)\<rparr>"

definition cnt :: "nat \<Rightarrow> window \<Rightarrow> nat \<Rightarrow> nat" where
  "cnt n w f = card {k. k < n \<and> w_placed w (seq_at n w f k) \<noteq> None}"

definition next_file :: "nat \<Rightarrow> window \<Rightarrow> window" where
  "next_file n w = w\<lparr>w_file := Suc (w_file w), w_open := cnt n w (w_file w) < n\<rparr>"

definition place :: "nat \<Rightarrow> int \<Rightarrow> u8 list \<Rightarrow> window \<Rightarrow> window" where
  "place n q p w =
     (if q = w_cur w + 1 then put q p (w\<lparr>w_cur := q\<rparr>)
      else if q = w_cur w then w
      else if q < start n w - int n then w
      else if q < start n w
      then (if w_open w then (let w' = put q p w in w'\<lparr>w_open := cnt n w' (w_file w - 1) < n\<rparr>) else w)
      else if q < w_cur w then put q p w
      else if q < start n w + int n then put q p (w\<lparr>w_cur := q\<rparr>)
      else if q < start n w + 2 * int n then put q p ((next_file n w)\<lparr>w_cur := q\<rparr>)
      else w)"

definition turn :: "nat \<Rightarrow> int \<Rightarrow> u8 list \<Rightarrow> window \<Rightarrow> window" where
  "turn n q p w = place n q p (if w_cur w + 1 = start n w + int n then next_file n w else w)"

text \<open>The first packet opens the first file.\<close>

definition first_window :: "int \<Rightarrow> u8 list \<Rightarrow> window" where
  "first_window q p = \<lparr>w_first = q, w_cur = q, w_file = 0, w_open = False, w_placed = [q \<mapsto> p]\<rparr>"

definition turns :: "nat \<Rightarrow> (int \<times> u8 list) list \<Rightarrow> window \<Rightarrow> window" where
  "turns n qs w = fold (\<lambda>(q, p). turn n q p) qs w"

section \<open>Slots of a buffer\<close>

lemma slot_in: "k < n \<Longrightarrow> k * ps + ps \<le> n * (ps :: nat)"
  by (metis Suc_leI add.commute mult_Suc mult_le_mono1)

lemma slot_other:
  assumes "length d = n * ps" "k < n" "j < n" "j \<noteq> k" "length p = ps"
  shows "slice (splice d (k * ps) p) (j * ps) ps = slice d (j * ps) ps"
proof (cases "j < k")
  case True
  then have "j * ps + ps \<le> k * ps" by (rule slot_in)
  then show ?thesis using assms slot_in[OF assms(2)] by (simp add: slice_splice_before)
next
  case False
  then have "k < j" using assms by simp
  then have "k * ps + ps \<le> j * ps" by (rule slot_in)
  then show ?thesis using assms slot_in[OF assms(2)] by (simp add: slice_splice_after)
qed

definition holds :: "nat \<Rightarrow> nat \<Rightarrow> window \<Rightarrow> nat \<Rightarrow> u8 list \<Rightarrow> bool" where
  "holds n ps w f d \<longleftrightarrow> length d = n * ps \<and>
     (\<forall>k < n. \<forall>p. w_placed w (seq_at n w f k) = Some p \<longrightarrow> slice d (k * ps) ps = p)"

lemma seq_at_simps [simp]:
  "seq_at n (w\<lparr>w_cur := c\<rparr>) f k = seq_at n w f k" "seq_at n (w\<lparr>w_file := g\<rparr>) f k = seq_at n w f k"
  "seq_at n (w\<lparr>w_open := b\<rparr>) f k = seq_at n w f k" "seq_at n (put q p w) f k = seq_at n w f k"
  "seq_at n (next_file n w) f k = seq_at n w f k"
  by (simp_all add: seq_at_def put_def next_file_def)

lemma cnt_simps [simp]:
  "cnt n (w\<lparr>w_cur := c\<rparr>) f = cnt n w f" "cnt n (w\<lparr>w_file := g\<rparr>) f = cnt n w f" "cnt n (w\<lparr>w_open := b\<rparr>) f = cnt n w f"
  "cnt n (next_file n w) f = cnt n w f"
  by (simp_all add: cnt_def next_file_def)

lemma holds_simps [simp]:
  "holds n ps (w\<lparr>w_cur := c\<rparr>) f d = holds n ps w f d" "holds n ps (w\<lparr>w_file := g\<rparr>) f d = holds n ps w f d"
  "holds n ps (w\<lparr>w_open := b\<rparr>) f d = holds n ps w f d" "holds n ps (next_file n w) f d = holds n ps w f d"
  by (simp_all add: holds_def next_file_def)

lemma put_simps [simp]:
  "w_first (put q p w) = w_first w" "w_cur (put q p w) = w_cur w" "w_file (put q p w) = w_file w"
  "w_open (put q p w) = w_open w" "w_placed (put q p w) = (w_placed w)(q \<mapsto> p)"
  "w_first (next_file n w) = w_first w" "w_cur (next_file n w) = w_cur w" "w_file (next_file n w) = Suc (w_file w)"
  "w_open (next_file n w) = (cnt n w (w_file w) < n)" "w_placed (next_file n w) = w_placed w"
  by (simp_all add: put_def next_file_def)

lemma start_simps [simp]:
  "start n (w\<lparr>w_cur := c\<rparr>) = start n w" "start n (w\<lparr>w_open := b\<rparr>) = start n w"
  "start n (put q p w) = start n w" "start n (next_file n w) = start n w + int n"
  by (simp_all add: start_def) (simp add: seq_at_def next_file_def)

lemma seq_at_inj: "k < n \<Longrightarrow> j < n \<Longrightarrow> seq_at n w f k = seq_at n w g j \<longleftrightarrow> f = g \<and> k = j"
proof
  assume k: "k < n" "j < n" and "seq_at n w f k = seq_at n w g j"
  then have e: "n * f + k = n * g + j" by (simp only: seq_at_def add_left_cancel of_nat_eq_iff)
  then have "(n * f + k) div n = (n * g + j) div n" "(n * f + k) mod n = (n * g + j) mod n" by simp_all
  with k show "f = g \<and> k = j" by simp
qed simp

lemma holds_put:
  assumes "holds n ps w f d" and "k < n" and "length p = ps"
  shows "holds n ps (put (seq_at n w f k) p w) f (splice d (k * ps) p)"
proof -
  have l: "length d = n * ps" using assms(1) by (simp add: holds_def)
  have "slice (splice d (k * ps) p) (j * ps) ps = p'"
    if "j < n" "((w_placed w)(seq_at n w f k \<mapsto> p)) (seq_at n w f j) = Some p'" for j p'
  proof (cases "j = k")
    case True
    with that assms l slot_in[OF assms(2)] show ?thesis by auto
  next
    case False
    with that assms(2) have "w_placed w (seq_at n w f j) = Some p'" by (simp add: seq_at_inj)
    with assms(1) that(1) have "slice d (j * ps) ps = p'" by (simp add: holds_def)
    with slot_other[OF l assms(2) that(1) False assms(3)] show ?thesis by simp
  qed
  then show ?thesis using l slot_in[OF assms(2), of ps] assms(3) by (simp add: holds_def del: fun_upd_apply)
qed

lemma holds_scratch:
  assumes "holds n ps w f d" and "k < n" and "length p = ps" and "w_placed w (seq_at n w f k) = None"
  shows "holds n ps w f (splice d (k * ps) p)"
proof -
  have l: "length d = n * ps" using assms(1) by (simp add: holds_def)
  have "slice (splice d (k * ps) p) (j * ps) ps = p'"
    if "j < n" "w_placed w (seq_at n w f j) = Some p'" for j p'
  proof -
    have "j \<noteq> k" using that assms(4) by auto
    from slot_other[OF l assms(2) that(1) this assms(3)] that assms(1) show ?thesis by (simp add: holds_def)
  qed
  then show ?thesis using l slot_in[OF assms(2), of ps] assms(3) by (simp add: holds_def)
qed

lemma placed_put_other: "k < n \<Longrightarrow> j < n \<Longrightarrow> f \<noteq> g \<Longrightarrow>
   w_placed (put (seq_at n w f k) p w) (seq_at n w g j) = w_placed w (seq_at n w g j)"
  by (simp add: seq_at_inj)

lemma holds_put_other: "k < n \<Longrightarrow> f \<noteq> g \<Longrightarrow> holds n ps (put (seq_at n w f k) p w) g d = holds n ps w g d"
  unfolding holds_def seq_at_simps using placed_put_other[of k n _ f g w p] by auto

lemma cnt_put_other: "k < n \<Longrightarrow> f \<noteq> g \<Longrightarrow> cnt n (put (seq_at n w f k) p w) g = cnt n w g"
  unfolding cnt_def seq_at_simps put_simps
  by (intro arg_cong[where f = card] Collect_cong) (auto simp: seq_at_inj)

lemma cnt_put:
  assumes "k < n" and "w_placed w (seq_at n w f k) = None"
  shows "cnt n (put (seq_at n w f k) p w) f = Suc (cnt n w f)"
proof -
  have "{j. j < n \<and> w_placed (put (seq_at n w f k) p w) (seq_at n w f j) \<noteq> None} =
      insert k {j. j < n \<and> w_placed w (seq_at n w f j) \<noteq> None}"
    using assms(1) by (auto simp: seq_at_inj)
  then show ?thesis using assms by (simp add: cnt_def)
qed

lemma cnt_le: "cnt n w f \<le> n"
proof -
  have "card {k. k < n \<and> w_placed w (seq_at n w f k) \<noteq> None} \<le> card {..<n}" by (intro card_mono) auto
  then show ?thesis by (simp add: cnt_def)
qed

lemma cnt_less: "k < n \<Longrightarrow> w_placed w (seq_at n w f k) = None \<Longrightarrow> cnt n w f < n"
  using cnt_put[of k n w f] cnt_le[of n "put (seq_at n w f k) [] w" f] by simp

section \<open>The simulation\<close>

text \<open>A UDPMON stream of \<open>n\<close> packets of \<open>ps\<close> bytes per file.\<close>

definition geometry :: "nat \<Rightarrow> nat \<Rightarrow> opt_s \<Rightarrow> bool" where
  "geometry n ps opt \<longleftrightarrow> 0 < n \<and> 2 * n < 2 ^ 32 \<and> 8 \<le> ps \<and> ps < 2 ^ 31 \<and>
     opt_buf_num_elems opt = of_nat n \<and> opt_packet_size opt = of_nat ps \<and> opt_offset opt = 0 \<and>
     opt_optbits opt AND LOCKER_DATATYPE = DATATYPE_UDPMON \<and> \<not> has (opt_optbits opt) DATATYPE_UNKNOWN \<and>
     \<not> has (opt_optbits opt) WAIT_START_ON_METADATA \<and> opt_fi opt \<noteq> None"

text \<open>The counter of a buffer that has \<open>k\<close> packets.\<close>

definition nbytes :: "nat \<Rightarrow> nat \<Rightarrow> u64" where
  "nbytes ps k = of_nat (ps * k)"

definition current_ok :: "nat \<Rightarrow> nat \<Rightarrow> window \<Rightarrow> addr \<Rightarrow> nat \<Rightarrow> stream \<Rightarrow> bool" where
  "current_ok n ps w a i s \<longleftrightarrow> (let r = st_resq s in
     st_be s = Some a \<and> resq_inc r = Some a \<and> resq_bufstart r = Some (a, 0) \<and>
     resq_buf r = Some (a, int (i * ps)) \<and> resq_i r = int i \<and> i \<le> n \<and>
     resq_seqstart_current r = start n w \<and> resq_current_seq r = w_cur w \<and> w_cur w < INT64_MAX \<and>
     st_fileid s a = of_nat (w_file w) \<and>
     st_diff s a = nbytes ps (cnt n w (w_file w)) \<and> holds n ps w (w_file w) (st_data s a))"

definition before_ok :: "nat \<Rightarrow> nat \<Rightarrow> window \<Rightarrow> addr \<Rightarrow> stream \<Rightarrow> bool" where
  "before_ok n ps w a s \<longleftrightarrow>
     (if w_open w
      then \<exists>b f. b \<noteq> a \<and> w_file w = Suc f \<and> resq_before (st_resq s) = Some b \<and>
        resq_inc_before (st_resq s) = Some b \<and> resq_bufstart_before (st_resq s) = Some (b, 0) \<and>
        st_fileid s b = of_nat f \<and> cnt n w f < n \<and>
        st_diff s b = nbytes ps (cnt n w f) \<and> holds n ps w f (st_data s b)
      else resq_before (st_resq s) = None \<and> resq_bufstart_before (st_resq s) = None)"

definition free_ok :: "nat \<Rightarrow> nat \<Rightarrow> addr \<Rightarrow> stream \<Rightarrow> bool" where
  "free_ok n ps a s \<longleftrightarrow> distinct (st_free s) \<and> a \<notin> set (st_free s) \<and>
     (\<forall>b. resq_before (st_resq s) = Some b \<longrightarrow> b \<notin> set (st_free s)) \<and>
     (\<forall>c \<in> set (st_free s). length (st_data s c) = n * ps)"

text \<open>The files with the writer: each once, all but the current one and an open one before it.\<close>

definition done_files :: "window \<Rightarrow> nat set" where
  "done_files w = {..<w_file w} - (if w_open w then {w_file w - 1} else {})"

definition ready_ok :: "nat \<Rightarrow> nat \<Rightarrow> window \<Rightarrow> ready_buf list \<Rightarrow> bool" where
  "ready_ok n ps w rs \<longleftrightarrow> (\<exists>fs. distinct fs \<and> set fs = done_files w \<and>
     list_all2 (\<lambda>e f. rd_fileid e = of_nat f \<and> holds n ps w f (rd_data e)) rs fs)"

definition linked :: "nat \<Rightarrow> nat \<Rightarrow> window \<Rightarrow> addr \<Rightarrow> nat \<Rightarrow> stream \<Rightarrow> bool" where
  "linked n ps w a i s \<longleftrightarrow> geometry n ps (st_opt s) \<and> current_ok n ps w a i s \<and> before_ok n ps w a s \<and>
     free_ok n ps a s \<and> ready_ok n ps w (st_ready s)"

text \<open>Between two packets: the next one in order is received at its slot, and nothing is placed after the
  current packet.\<close>

definition sim :: "nat \<Rightarrow> nat \<Rightarrow> window \<Rightarrow> addr \<Rightarrow> nat \<Rightarrow> stream \<Rightarrow> bool" where
  "sim n ps w a i s \<longleftrightarrow> linked n ps w a i s \<and> opt_cumul (st_opt s) = of_nat (w_file w) \<and>
     w_cur w + 1 = seq_at n w (w_file w) i \<and> (\<forall>q. w_placed w q \<noteq> None \<longrightarrow> w_first w \<le> q \<and> q \<le> w_cur w)"

lemma geometry_words:
  assumes "geometry n ps opt"
  shows "uint (opt_buf_num_elems opt) = int n" "uint (opt_packet_size opt) = int ps"
    "uint (opt_buf_num_elems opt * 2) = 2 * int n" "CALC_BUFSIZE_FROM_OPT opt = of_nat (n * ps)"
    "ucast (opt_buf_num_elems opt) * opt_packet_size opt = of_nat (n * ps)"
    "CALC_BUFSIZE_FROM_OPT_NOOFFSET opt = of_nat (n * ps)"
    "n * ps < 2 ^ 62" "opt_packet_size opt \<noteq> 0"
proof -
  have g: "2 * n < 2 ^ 32" "ps < 2 ^ 31" "8 \<le> ps" "opt_buf_num_elems opt = of_nat n" "opt_packet_size opt = of_nat ps"
    "opt_offset opt = 0" using assms by (auto simp: geometry_def)
  have n: "n < 2 ^ 31" using g(1) by simp
  show a: "uint (opt_buf_num_elems opt) = int n" using n g(4) by (simp add: uint_nat unat_of_nat)
  show b: "uint (opt_packet_size opt) = int ps" using g(2,5) by (simp add: uint_nat unat_of_nat)
  have "opt_buf_num_elems opt * 2 = of_nat (n * 2)" using g(4) by simp
  then show "uint (opt_buf_num_elems opt * 2) = 2 * int n" using n by (simp add: uint_nat unat_of_nat del: of_nat_mult)
  have "ucast (opt_buf_num_elems opt) = (of_nat n :: u64)"
    using a by (metis of_int_of_nat_eq word_of_int_uint unsigned_ucast_eq take_bit_word_eq_self ucast_eq)
  then show c: "ucast (opt_buf_num_elems opt) * opt_packet_size opt = of_nat (n * ps)" using g(5) by simp
  then show "CALC_BUFSIZE_FROM_OPT opt = of_nat (n * ps)" "CALC_BUFSIZE_FROM_OPT_NOOFFSET opt = of_nat (n * ps)"
    using g(6) by (simp_all add: CALC_BUFSIZE_FROM_OPT_def CALC_BUFSIZE_FROM_OPT_NOOFFSET_def)
  have "n * ps < 2 ^ 31 * 2 ^ 31" using n g(2) by (intro mult_strict_mono) auto
  then show "n * ps < 2 ^ 62" by simp
  show "opt_packet_size opt \<noteq> 0" using b g(3) by auto
qed

lemma unat64: "x < 2 ^ 62 \<Longrightarrow> unat (of_nat x :: u64) = x"
  by (simp add: unat_of_nat)

lemma of_nat_64: "x < 2 ^ 62 \<Longrightarrow> y < 2 ^ 62 \<Longrightarrow> (of_nat x :: u64) = of_nat y \<longleftrightarrow> x = y"
  by (simp add: word_of_nat_eq_iff take_bit_nat_eq_self)

lemma of_nat_64_le: "x < 2 ^ 62 \<Longrightarrow> y < 2 ^ 62 \<Longrightarrow> (of_nat x :: u64) \<le> of_nat y \<longleftrightarrow> x \<le> y"
  by (simp add: word_le_nat_alt unat_of_nat)

lemma of_nat_64_less: "x < 2 ^ 63 \<Longrightarrow> y < 2 ^ 63 \<Longrightarrow> (of_nat x :: u64) < of_nat y \<longleftrightarrow> x < y"
  by (simp add: word_less_nat_alt unat_of_nat)

lemma count_bytes: "geometry n ps opt \<Longrightarrow> ps * cnt n w f < 2 ^ 62"
  using geometry_words(7)[of n ps opt] le_less_trans[OF mult_le_mono2[OF cnt_le[of n w f], of ps]]
  by (simp only: mult.commute[of n])

lemma full_iff:
  assumes "geometry n ps opt"
  shows "nbytes ps (cnt n w f) = of_nat (n * ps) \<longleftrightarrow> cnt n w f = n"
proof -
  have "(of_nat (ps * cnt n w f) :: u64) = of_nat (n * ps) \<longleftrightarrow> ps * cnt n w f = n * ps"
    by (rule of_nat_64[OF count_bytes[OF assms] geometry_words(7)[OF assms]])
  also have "\<dots> \<longleftrightarrow> cnt n w f = n" using assms by (auto simp: geometry_def)
  finally show ?thesis unfolding nbytes_def .
qed

lemma holds_length: "holds n ps w f d \<Longrightarrow> length d = n * ps"
  by (simp add: holds_def)

lemma done_files_next:
  "done_files (next_file n w) =
     (if cnt n w (w_file w) < n then {..<w_file w} else insert (w_file w) {..<w_file w})"
  by (auto simp: done_files_def lessThan_Suc)

lemma ready_ok_flush:
  assumes "ready_ok n ps w rs" and "w_open w" and "w_file w = Suc f"
    and "rd_fileid e = of_nat f" and "holds n ps w f (rd_data e)"
  shows "ready_ok n ps (w\<lparr>w_open := False\<rparr>) (rs @ [e])"
proof -
  from assms(1) obtain fs where fs: "distinct fs" "set fs = done_files w"
    "list_all2 (\<lambda>e f. rd_fileid e = of_nat f \<and> holds n ps w f (rd_data e)) rs fs" by (auto simp: ready_ok_def)
  have "f \<notin> done_files w" "done_files (w\<lparr>w_open := False\<rparr>) = insert f (done_files w)"
    using assms(2,3) by (auto simp: done_files_def)
  with fs assms(4,5) show ?thesis
    unfolding ready_ok_def by (intro exI[of _ "fs @ [f]"]) (simp add: list_all2_appendI)
qed

lemma ready_ok_next:
  assumes "ready_ok n ps w rs" and "\<not> w_open w" and "cnt n w (w_file w) < n"
  shows "ready_ok n ps (next_file n w) rs"
  using assms by (simp add: ready_ok_def done_files_next) (simp add: done_files_def)

lemma ready_ok_next_full:
  assumes "ready_ok n ps w rs" and "\<not> w_open w" and "\<not> cnt n w (w_file w) < n"
    and "rd_fileid e = of_nat (w_file w)" and "holds n ps w (w_file w) (rd_data e)"
  shows "ready_ok n ps (next_file n w) (rs @ [e])"
proof -
  from assms(1) obtain fs where fs: "distinct fs" "set fs = done_files w"
    "list_all2 (\<lambda>e f. rd_fileid e = of_nat f \<and> holds n ps w f (rd_data e)) rs fs" by (auto simp: ready_ok_def)
  have "w_file w \<notin> done_files w" "done_files (next_file n w) = insert (w_file w) (done_files w)"
    using assms(2,3) by (auto simp: done_files_def)
  with fs assms(4,5) show ?thesis
    unfolding ready_ok_def by (intro exI[of _ "fs @ [w_file w]"]) (simp add: list_all2_appendI)
qed

lemma linked_opt:
  assumes "linked n ps w a i s" and "geometry n ps opt"
  shows "linked n ps w a i (s\<lparr>st_opt := opt\<rparr>)"
  using assms by (auto simp: linked_def current_ok_def before_ok_def free_ok_def Let_def)

text \<open>The two halves of \<open>jump_to_next_buf\<close>.\<close>

lemma flush_before_linked:
  assumes sim: "linked n ps w a i s"
  shows "\<exists>s1. flush_before s = Inr s1 \<and> linked n ps (w\<lparr>w_open := False\<rparr>) a i s1 \<and> st_data s1 = st_data s \<and>
    st_free s1 = st_free s \<and> st_opt s1 = st_opt s"
proof (cases "w_open w")
  case False
  then have "resq_before (st_resq s) = None" and w: "w\<lparr>w_open := False\<rparr> = w"
    using sim by (auto simp: linked_def before_ok_def Let_def)
  then have "flush_before s = Inr s" by (simp add: flush_before_def)
  with sim w show ?thesis by auto
next
  case True
  have g: "geometry n ps (st_opt s)" and cur: "current_ok n ps w a i s" and fr: "free_ok n ps a s"
    and rd: "ready_ok n ps w (st_ready s)" using sim by (simp_all add: linked_def)
  from True sim obtain b f where b: "b \<noteq> a" "w_file w = Suc f" "resq_before (st_resq s) = Some b"
    "resq_inc_before (st_resq s) = Some b" "st_fileid s b = of_nat f" "holds n ps w f (st_data s b)"
    by (auto simp: linked_def before_ok_def Let_def)
  let ?e = "\<lparr>rd_be = b, rd_fileid = st_fileid s b, rd_diff = CALC_BUFSIZE_FROM_OPT (st_opt s), rd_data = st_data s b\<rparr>"
  obtain s1 where s1: "flush_before s = Inr s1" "st_data s1 = st_data s" "st_free s1 = st_free s" "st_opt s1 = st_opt s"
    "st_ready s1 = st_ready s @ [?e]" "st_be s1 = st_be s" "st_fileid s1 = st_fileid s"
    "st_diff s1 = (st_diff s)(b := CALC_BUFSIZE_FROM_OPT (st_opt s))"
    "st_resq s1 = (st_resq s)\<lparr>resq_bufstart_before := None, resq_before := None, resq_inc_before := None\<rparr>"
    using b geometry_words(8)[OF g]
    by (simp add: flush_before_def get_count_def put_count_def count_missing_def free_the_buf_def)
  have "ready_ok n ps (w\<lparr>w_open := False\<rparr>) (st_ready s @ [?e])"
    by (rule ready_ok_flush[OF rd True b(2)]) (simp_all add: b)
  moreover have "current_ok n ps (w\<lparr>w_open := False\<rparr>) a i s1"
    using cur b(1) by (simp add: current_ok_def Let_def s1)
  moreover have "free_ok n ps a s1" using fr by (simp add: free_ok_def s1)
  ultimately have "linked n ps (w\<lparr>w_open := False\<rparr>) a i s1" using g by (simp add: linked_def before_ok_def s1)
  with s1 show ?thesis by blast
qed

lemma next_file_open [simp]: "next_file n (w\<lparr>w_open := b\<rparr>) = next_file n w"
  by (simp add: next_file_def)

lemma retire_current_linked:
  assumes sim: "linked n ps w a i s" and closed: "\<not> w_open w"
  shows "\<exists>s1 be. retire_current s = Inr s1 \<and> st_data s1 = st_data s \<and> st_free s1 = st_free s \<and>
    st_opt s1 = st_opt s \<and> st_diff s1 = st_diff s \<and> st_fileid s1 = st_fileid s \<and>
    ready_ok n ps (next_file n w) (st_ready s1) \<and>
    resq_seqstart_current (st_resq s1) = start n w \<and> resq_current_seq (st_resq s1) = w_cur w \<and>
    (if cnt n w (w_file w) < n then resq_before (st_resq s1) = Some a \<and> resq_inc_before (st_resq s1) = Some a \<and>
       resq_bufstart_before (st_resq s1) = Some (a, 0)
     else resq_before (st_resq s1) = None \<and> resq_bufstart_before (st_resq s1) = None)"
proof -
  have g: "geometry n ps (st_opt s)" and cur: "current_ok n ps w a i s"
    and rd: "ready_ok n ps w (st_ready s)" using sim by (simp_all add: linked_def)
  note c = cur[unfolded current_ok_def Let_def]
  have words: "ucast (opt_buf_num_elems (st_opt s)) * opt_packet_size (st_opt s) = (of_nat (n * ps) :: u64)"
    by (rule geometry_words(5)[OF g])
  show ?thesis
  proof (cases "cnt n w (w_file w) < n")
    case True
    then have "st_diff s a \<noteq> of_nat (n * ps)" using c full_iff[OF g] by simp
    then have "retire_current s = Inr (upd_resq (\<lambda>r. r\<lparr>resq_before := st_be s, resq_bufstart_before := resq_bufstart r,
                                resq_inc_before := resq_inc r\<rparr>) s)"
      using c by (simp add: retire_current_def get_count_def words)
    then show ?thesis using True c ready_ok_next[OF rd closed True] by simp
  next
    case False
    then have "st_diff s a = of_nat (n * ps)" using c full_iff[OF g, of w "w_file w"] cnt_le[of n w "w_file w"] by simp
    then have "retire_current s = Inr (upd_resq (\<lambda>r. r\<lparr>resq_bufstart_before := None, resq_before := None\<rparr>)
                                ((free_the_buf a s)\<lparr>st_be := None\<rparr>))"
      using c by (simp add: retire_current_def get_count_def words)
    then show ?thesis using False c ready_ok_next_full[OF rd closed False, of
        "\<lparr>rd_be = a, rd_fileid = st_fileid s a, rd_diff = st_diff s a, rd_data = st_data s a\<rparr>"]
      by (simp add: free_the_buf_def)
  qed
qed

lemma cnt_none: "(\<And>k. k < n \<Longrightarrow> w_placed w (seq_at n w f k) = None) \<Longrightarrow> cnt n w f = 0"
  by (auto simp: cnt_def)

lemma jump_linked:
  assumes sim: "linked n ps w a i s" and cum: "opt_cumul (st_opt s) = of_nat (w_file w)"
    and free: "st_free s = c # cs"
    and new: "\<And>k. k < n \<Longrightarrow> w_placed w (seq_at n w (Suc (w_file w)) k) = None"
  shows "\<exists>s1. jump_to_next_buf s = Inr (s1, Return 0) \<and> linked n ps (next_file n w) c 0 s1 \<and>
    opt_cumul (st_opt s1) = of_nat (Suc (w_file w)) \<and> st_data s1 = st_data s \<and> st_free s1 = cs \<and>
    st_opt s1 = (st_opt s)\<lparr>opt_cumul := opt_cumul (st_opt s) + 1\<rparr>"
proof -
  let ?s0 = "s\<lparr>st_opt := (st_opt s)\<lparr>opt_cumul := opt_cumul (st_opt s) + 1\<rparr>\<rparr>"
  have "linked n ps w a i ?s0"
    using sim by (intro linked_opt) (simp_all add: linked_def geometry_def)
  from flush_before_linked[OF this] obtain s1 where s1: "flush_before ?s0 = Inr s1"
    "linked n ps (w\<lparr>w_open := False\<rparr>) a i s1" "st_data s1 = st_data s" "st_free s1 = c # cs" "st_opt s1 = st_opt ?s0"
    using free by auto
  have l1: "geometry n ps (st_opt s1)" "current_ok n ps w a i s1" "free_ok n ps a s1"
    using s1(2) by (simp_all add: linked_def current_ok_def)
  from retire_current_linked[OF s1(2)] obtain s2 where s2: "retire_current s1 = Inr s2" "st_data s2 = st_data s1"
    "st_free s2 = st_free s1" "st_opt s2 = st_opt s1" "st_diff s2 = st_diff s1" "st_fileid s2 = st_fileid s1"
    "ready_ok n ps (next_file n w) (st_ready s2)" "resq_seqstart_current (st_resq s2) = start n w"
    "resq_current_seq (st_resq s2) = w_cur w"
    "if cnt n w (w_file w) < n then resq_before (st_resq s2) = Some a \<and> resq_inc_before (st_resq s2) = Some a \<and>
       resq_bufstart_before (st_resq s2) = Some (a, 0)
     else resq_before (st_resq s2) = None \<and> resq_bufstart_before (st_resq s2) = None" by auto
  let ?s3 = "s2\<lparr>st_resq := (st_resq s2)\<lparr>resq_i := 0\<rparr>, st_free := cs, st_fileid := (st_fileid s2)(c := opt_cumul (st_opt s2)),
    st_diff := (st_diff s2)(c := 0)\<rparr>"
  let ?s4 = "upd_resq (\<lambda>r. r\<lparr>resq_inc := Some c, resq_buf := Some (c, 0), resq_bufstart := Some (c, 0),
      resq_seqstart_current := resq_seqstart_current r + num_elems ?s3\<rparr>) (?s3\<lparr>st_be := Some c\<rparr>)"
  have j: "jump_to_next_buf s = Inr (?s4, Return 0)"
    using s1(1,4) s2(1,3) by (simp add: jump_to_next_buf_def Let_def get_buffer_def)
  have ca: "c \<noteq> a" "c \<notin> set cs" "distinct cs" "a \<notin> set cs" using l1(3) s1(4) by (auto simp: free_ok_def)
  have len: "length (st_data s2 c) = n * ps" "\<forall>x \<in> set cs. length (st_data s2 x) = n * ps"
    using l1(3) s1(4) s2(2) by (auto simp: free_ok_def)
  have op: "opt_cumul (st_opt s2) = of_nat (Suc (w_file w))" using s2(4) s1(5) cum by simp
  have g: "geometry n ps (st_opt s2)" using l1(1) s2(4) by simp
  note cur = l1(2)[unfolded current_ok_def Let_def]
  have "current_ok n ps (next_file n w) c 0 ?s4"
    unfolding current_ok_def Let_def
    using len(1) op cur s2(8,9) geometry_words(1)[OF g] cnt_none[OF new] by (simp add: holds_def new nbytes_def)
  moreover have "before_ok n ps (next_file n w) c ?s4"
    using s2(10) cur ca s2(2,5,6) by (auto simp: before_ok_def Let_def)
  moreover have "free_ok n ps c ?s4" using ca len(2) s2(10) by (auto simp: free_ok_def split: if_splits)
  ultimately have "linked n ps (next_file n w) c 0 ?s4" using g s2(7) by (simp add: linked_def)
  with j op s1 s2 show ?thesis by (intro exI[of _ ?s4]) simp
qed

section \<open>Placing\<close>

lemma splice_slice: "off + m \<le> length d \<Longrightarrow> splice d off (slice d off m) = d"
  by (simp add: splice_def slice_def) (metis append_take_drop_id drop_drop add.commute)

lemma nbytes_Suc: "nbytes ps (Suc k) = nbytes ps k + of_nat ps"
  by (simp add: nbytes_def algebra_simps)

lemma ready_ok_put:
  assumes "ready_ok n ps w rs" and "k < n" and "f \<notin> done_files w"
  shows "ready_ok n ps (put (seq_at n w f k) p w) rs"
proof -
  from assms(1) obtain fs where fs: "distinct fs" "set fs = done_files w"
    "list_all2 (\<lambda>e f. rd_fileid e = of_nat f \<and> holds n ps w f (rd_data e)) rs fs" by (auto simp: ready_ok_def)
  have "holds n ps (put (seq_at n w f k) p w) g d = holds n ps w g d" if "g \<in> set fs" for g d
    using that fs(2) assms(2,3) by (intro holds_put_other) auto
  then have "list_all2 (\<lambda>e g. rd_fileid e = of_nat g \<and> holds n ps (put (seq_at n w f k) p w) g (rd_data e)) rs fs"
    using fs(3) by (auto simp: list_all2_conv_all_nth)
  with fs(1,2) show ?thesis unfolding ready_ok_def by (intro exI[of _ fs]) (simp add: done_files_def)
qed

text \<open>A packet that arrives in the current buffer.\<close>

lemma linked_put_current:
  assumes l: "linked n ps w a i s" and k: "k < n" "w_placed w (seq_at n w (w_file w) k) = None" "length p = ps"
    and s': "st_data s' = (st_data s)(a := splice (st_data s a) (k * ps) p)"
      "st_diff s' = (st_diff s)(a := st_diff s a + of_nat ps)"
      "st_resq s' = (st_resq s)\<lparr>resq_usebuf := u\<rparr>" "st_opt s' = st_opt s" "st_be s' = st_be s"
      "st_fileid s' = st_fileid s" "st_free s' = st_free s" "st_ready s' = st_ready s"
  shows "linked n ps (put (seq_at n w (w_file w) k) p w) a i s'"
proof -
  let ?w = "put (seq_at n w (w_file w) k) p w"
  have g: "geometry n ps (st_opt s)" and cur: "current_ok n ps w a i s" and bef: "before_ok n ps w a s"
    and fr: "free_ok n ps a s" and rd: "ready_ok n ps w (st_ready s)" using l by (simp_all add: linked_def)
  note c = cur[unfolded current_ok_def Let_def]
  have "current_ok n ps ?w a i s'"
    using c holds_put[OF _ k(1,3)] cnt_put[OF k(1,2)] by (simp add: current_ok_def s' nbytes_Suc)
  moreover have "before_ok n ps ?w a s'"
  proof (cases "w_open w")
    case True
    then obtain b f where b: "b \<noteq> a" "w_file w = Suc f" "resq_before (st_resq s) = Some b"
      "resq_inc_before (st_resq s) = Some b" "resq_bufstart_before (st_resq s) = Some (b, 0)" "st_fileid s b = of_nat f"
      "cnt n w f < n" "st_diff s b = nbytes ps (cnt n w f)" "holds n ps w f (st_data s b)"
      using bef by (auto simp: before_ok_def Let_def)
    have f: "w_file w \<noteq> f" using b(2) by simp
    have "cnt n ?w f = cnt n w f" "holds n ps ?w f d = holds n ps w f d" for d
      using cnt_put_other[OF k(1) f] holds_put_other[OF k(1) f] by blast+
    then show ?thesis
      using True b unfolding before_ok_def Let_def s'
      by (simp del: fun_upd_apply) (simp add: fun_upd_other)
  next
    case False
    with bef show ?thesis by (simp add: before_ok_def s')
  qed
  moreover have "free_ok n ps a s'" using fr by (auto simp: free_ok_def s')
  moreover have "ready_ok n ps ?w (st_ready s')" unfolding s'(8)
    by (rule ready_ok_put[OF rd k(1)]) (auto simp: done_files_def)
  ultimately show ?thesis using g by (simp add: linked_def s')
qed

lemma ready_ok_cur [simp]: "ready_ok n ps (w\<lparr>w_cur := c\<rparr>) rs = ready_ok n ps w rs"
  by (simp add: ready_ok_def done_files_def)

lemma linked_move:
  assumes l: "linked n ps w a i s" and j: "j \<le> n" "c < INT64_MAX"
    and r: "st_resq s' = (st_resq s)\<lparr>resq_current_seq := c, resq_i := int j, resq_buf := Some (a, int (j * ps))\<rparr>"
    and s': "st_opt s' = st_opt s" "st_be s' = st_be s" "st_data s' = st_data s" "st_diff s' = st_diff s"
      "st_fileid s' = st_fileid s" "st_free s' = st_free s" "st_ready s' = st_ready s"
  shows "linked n ps (w\<lparr>w_cur := c\<rparr>) a j s'"
proof -
  show ?thesis
    using l j by (auto simp: linked_def current_ok_def before_ok_def free_ok_def Let_def r s')
qed

text \<open>A packet that arrives in the buffer before; the last one hands it to the writer.\<close>

lemma linked_put_before:
  assumes l: "linked n ps w a i s" and o: "w_open w" "w_file w = Suc f" "resq_before (st_resq s) = Some b"
    and k: "k < n" "w_placed w (seq_at n w f k) = None" "length p = ps"
    and w': "w' = put (seq_at n w f k) p w"
    and s': "st_data s' = (st_data s)(b := splice (st_data s b) (k * ps) p)"
      "st_diff s' = (st_diff s)(b := st_diff s b + of_nat ps)"
      "st_resq s' = (st_resq s)\<lparr>resq_usebuf := u\<rparr>" "st_opt s' = st_opt s" "st_be s' = st_be s"
      "st_fileid s' = st_fileid s" "st_free s' = st_free s" "st_ready s' = st_ready s"
  shows "if cnt n w' f < n then linked n ps w' a i s'
    else linked n ps (w'\<lparr>w_open := False\<rparr>) a i (upd_resq (\<lambda>r. r\<lparr>resq_bufstart_before := None, resq_before := None,
           resq_inc_before := None\<rparr>) (free_the_buf b s'))"
proof -
  have g: "geometry n ps (st_opt s)" and cur: "current_ok n ps w a i s" and bef: "before_ok n ps w a s"
    and fr: "free_ok n ps a s" and rd: "ready_ok n ps w (st_ready s)" using l by (simp_all add: linked_def)
  have b: "b \<noteq> a" "resq_inc_before (st_resq s) = Some b" "resq_bufstart_before (st_resq s) = Some (b, 0)"
    "st_fileid s b = of_nat f" "st_diff s b = nbytes ps (cnt n w f)" "holds n ps w f (st_data s b)"
    using bef o by (auto simp: before_ok_def)
  have h: "holds n ps w' f (splice (st_data s b) (k * ps) p)" unfolding w' by (rule holds_put[OF b(6) k(1,3)])
  have n: "cnt n w' f = Suc (cnt n w f)" unfolding w' by (rule cnt_put[OF k(1,2)])
  have f: "f \<noteq> w_file w" using o(2) by simp
  have other: "cnt n w' (w_file w) = cnt n w (w_file w)" "holds n ps w' (w_file w) d = holds n ps w (w_file w) d" for d
    using cnt_put_other[OF k(1) f] holds_put_other[OF k(1) f] unfolding w' by blast+
  have w'f: "w_file w' = w_file w" "w_open w' = w_open w" "w_cur w' = w_cur w" "start n w' = start n w" unfolding w' by simp_all
  have cur': "current_ok n ps w' a i s'"
    using cur b(1) other unfolding current_ok_def Let_def s' w'f by simp
  have fr': "free_ok n ps a s'" using fr o(3) by (auto simp: free_ok_def s')
  have rd': "ready_ok n ps w' (st_ready s)" unfolding w'
    by (rule ready_ok_put[OF rd k(1)]) (use o in \<open>auto simp: done_files_def\<close>)
  show ?thesis
  proof (cases "cnt n w' f < n")
    case True
    have "before_ok n ps w' a s'" using True o b h n by (simp add: before_ok_def w'f s' nbytes_Suc)
    with True cur' fr' rd' g show ?thesis by (simp add: linked_def s')
  next
    case False
    let ?e = "\<lparr>rd_be = b, rd_fileid = st_fileid s b, rd_diff = st_diff s' b, rd_data = st_data s' b\<rparr>"
    let ?s = "upd_resq (\<lambda>r. r\<lparr>resq_bufstart_before := None, resq_before := None, resq_inc_before := None\<rparr>)
      (free_the_buf b s')"
    have "ready_ok n ps (w'\<lparr>w_open := False\<rparr>) (st_ready s @ [?e])"
    proof (rule ready_ok_flush[OF rd'])
      show "holds n ps w' f (rd_data ?e)" using h by (simp add: s'(1))
    qed (simp_all add: w'f o b(4))
    then have "ready_ok n ps (w'\<lparr>w_open := False\<rparr>) (st_ready ?s)" by (simp add: free_the_buf_def s')
    moreover have "current_ok n ps (w'\<lparr>w_open := False\<rparr>) a i ?s"
      using cur' by (simp add: current_ok_def Let_def free_the_buf_def)
    moreover have "before_ok n ps (w'\<lparr>w_open := False\<rparr>) a ?s" by (simp add: before_ok_def free_the_buf_def)
    moreover have "free_ok n ps a ?s" using fr' by (simp add: free_ok_def free_the_buf_def)
    ultimately show ?thesis using False g by (simp add: linked_def s' free_the_buf_def)
  qed
qed

lemma move_packet_ok:
  assumes "uint (opt_packet_size (st_opt s)) = int ps" and "length (st_data s a) = n * ps" and "i < n"
    and "length (st_data s b) = n * ps" and "k < n" and "slice (st_data s a) (i * ps) ps = p"
  shows "move_packet (Some (b, int (k * ps))) (Some (a, int (i * ps))) s =
    Inr (upd_resq (\<lambda>r. r\<lparr>resq_usebuf := Some (b, int (k * ps))\<rparr>)
      (s\<lparr>st_data := (st_data s)(b := splice (st_data s b) (k * ps) p)\<rparr>))"
proof -
  have "i * ps + ps \<le> n * ps" "k * ps + ps \<le> n * ps" using slot_in assms(3,5) by blast+
  then have "length p = ps" "mem_read (st_data s a) (i * ps) ps = Inr p" "k * ps + length p \<le> length (st_data s b)"
    using assms(2,4,6) by auto
  then show ?thesis
    using assms(1) by (simp add: move_packet_def buf_read_def buf_write_def nat_int del: of_nat_mult)
qed

text \<open>The packet in slot \<open>i\<close> of the current buffer, where it was received.\<close>

definition received_at :: "nat \<Rightarrow> u8 list \<Rightarrow> addr \<Rightarrow> nat \<Rightarrow> stream \<Rightarrow> bool" where
  "received_at ps p a i s \<longleftrightarrow> length p = ps \<and> slice (st_data s a) (i * ps) ps = p"

lemma linkedD:
  assumes "linked n ps w a i s"
  shows "geometry n ps (st_opt s)" "uint (opt_packet_size (st_opt s)) = int ps" "opt_packet_size (st_opt s) = of_nat ps"
    "uint (opt_buf_num_elems (st_opt s)) = int n"
    "st_be s = Some a" "resq_inc (st_resq s) = Some a" "resq_bufstart (st_resq s) = Some (a, 0)"
    "resq_buf (st_resq s) = Some (a, int (i * ps))" "resq_i (st_resq s) = int i"
    "resq_seqstart_current (st_resq s) = start n w" "resq_current_seq (st_resq s) = w_cur w"
    "length (st_data s a) = n * ps" "w_cur w < INT64_MAX"
  using assms geometry_words[of n ps "st_opt s"]
  by (auto simp: linked_def current_ok_def Let_def geometry_def holds_length)

lemma place_behind_linked:
  assumes l: "linked n ps w a i s" and rc: "received_at ps p a i s" and i: "i < n"
    and k: "k < n" "w_placed w (seq_at n w (w_file w) k) = None"
  shows "\<exists>s1. place_behind (int k) s = Inr s1 \<and> linked n ps (put (seq_at n w (w_file w) k) p w) a i s1 \<and>
    st_opt s1 = st_opt s \<and> st_free s1 = st_free s"
proof -
  note d = linkedD[OF l]
  let ?s0 = "s\<lparr>st_diff := (st_diff s)(a := st_diff s a + of_nat ps)\<rparr>"
  let ?s1 = "upd_resq (\<lambda>r. r\<lparr>resq_usebuf := Some (a, int (k * ps))\<rparr>)
      (?s0\<lparr>st_data := (st_data ?s0)(a := splice (st_data ?s0 a) (k * ps) p)\<rparr>)"
  have m: "move_packet (Some (a, int (k * ps))) (Some (a, int (i * ps))) ?s0 = Inr ?s1"
    by (rule move_packet_ok[where n = n]) (use d i k rc in \<open>simp_all add: received_at_def\<close>)
  have "place_behind (int k) s = Inr ?s1"
    using m d(2,3,6,7,8) by (simp add: place_behind_def put_count_def)
  moreover have "linked n ps (put (seq_at n w (w_file w) k) p w) a i ?s1"
    by (rule linked_put_current[OF l k, where u = "Some (a, int (k * ps))"]) (use rc in \<open>simp_all add: received_at_def\<close>)
  ultimately show ?thesis by (intro exI[of _ ?s1]) simp
qed

lemma put_cur: "put q p (w\<lparr>w_cur := c\<rparr>) = (put q p w)\<lparr>w_cur := c\<rparr>"
  by (simp add: put_def)

lemma place_ahead_linked:
  assumes l: "linked n ps w a i s" and rc: "received_at ps p a i s" and i: "i < n"
    and k: "k < n" "w_placed w (seq_at n w (w_file w) k) = None" and q: "q = seq_at n w (w_file w) k" "q < INT64_MAX"
    and ki: "int (Suc k) = int i + dc"
  shows "\<exists>s1. place_ahead q (int k) dc s = Inr s1 \<and> linked n ps (put q p (w\<lparr>w_cur := q\<rparr>)) a (Suc k) s1 \<and>
    st_opt s1 = st_opt s \<and> st_free s1 = st_free s"
proof -
  note d = linkedD[OF l]
  let ?s0 = "s\<lparr>st_diff := (st_diff s)(a := st_diff s a + of_nat ps)\<rparr>"
  let ?s1 = "upd_resq (\<lambda>r. r\<lparr>resq_usebuf := Some (a, int (k * ps))\<rparr>)
      (?s0\<lparr>st_data := (st_data ?s0)(a := splice (st_data ?s0 a) (k * ps) p)\<rparr>)"
  let ?s2 = "upd_resq (\<lambda>r. r\<lparr>resq_i := resq_i r + dc, resq_current_seq := q,
      resq_buf := Some (a, int (Suc k * ps))\<rparr>) ?s1"
  have m: "move_packet (Some (a, int (k * ps))) (Some (a, int (i * ps))) ?s0 = Inr ?s1"
    by (rule move_packet_ok[where n = n]) (use d i k rc in \<open>simp_all add: received_at_def\<close>)
  have "place_ahead q (int k) dc s = Inr ?s2"
    using m d(2,3,6,7,8) by (simp add: place_ahead_def put_count_def Let_def algebra_simps)
  moreover have "linked n ps (put q p w) a i ?s1" unfolding q
    by (rule linked_put_current[OF l k, where u = "Some (a, int (k * ps))"]) (use rc in \<open>simp_all add: received_at_def\<close>)
  then have "linked n ps ((put q p w)\<lparr>w_cur := q\<rparr>) a (Suc k) ?s2"
    by (rule linked_move) (use k(1) q(2) ki d(9) in simp_all)
  ultimately show ?thesis unfolding put_cur by (intro exI[of _ ?s2]) simp
qed

lemma next_in_order_linked:
  assumes l: "linked n ps w a i s" and rc: "received_at ps p a i s" and i: "i < n"
    and free: "w_placed w (seq_at n w (w_file w) i) = None" and q: "q = seq_at n w (w_file w) i" "q < INT64_MAX"
  shows "\<exists>s1. next_in_order (upd_resq (\<lambda>r. r\<lparr>resq_current_seq := q\<rparr>) s) = Inr s1 \<and>
    linked n ps (put q p (w\<lparr>w_cur := q\<rparr>)) a (Suc i) s1 \<and> st_opt s1 = st_opt s \<and> st_free s1 = st_free s"
proof -
  note d = linkedD[OF l]
  let ?s1 = "s\<lparr>st_diff := (st_diff s)(a := st_diff s a + of_nat ps)\<rparr>"
  let ?s2 = "upd_resq (\<lambda>r. r\<lparr>resq_current_seq := q, resq_i := int (Suc i), resq_buf := Some (a, int (Suc i * ps))\<rparr>) ?s1"
  have "splice (st_data s a) (i * ps) p = st_data s a"
    using splice_slice[of "i * ps" ps "st_data s a"] slot_in[OF i, of ps] rc d(12) by (simp add: received_at_def)
  then have "(st_data s)(a := splice (st_data s a) (i * ps) p) = st_data s" by simp
  then have "linked n ps (put q p w) a i ?s1" unfolding q(1)
    by (intro linked_put_current[OF l i free, where u = "resq_usebuf (st_resq s)"])
      (use rc in \<open>simp_all add: received_at_def\<close>)
  then have "linked n ps ((put q p w)\<lparr>w_cur := q\<rparr>) a (Suc i) ?s2"
    by (rule linked_move) (use i q(2) in simp_all)
  moreover have "next_in_order (upd_resq (\<lambda>r. r\<lparr>resq_current_seq := q\<rparr>) s) = Inr ?s2"
    using d(2,3,6,8,9) by (simp add: next_in_order_def put_count_def algebra_simps)
  ultimately show ?thesis unfolding put_cur by (intro exI[of _ ?s2]) simp
qed

lemma full_word:
  assumes "geometry n ps opt" and "m \<le> n"
  shows "nbytes ps m + opt_packet_size opt > of_nat (n * ps) \<longleftrightarrow> \<not> m < n"
proof -
  have g: "0 < ps" "opt_packet_size opt = of_nat ps" "ps < 2 ^ 31" using assms by (auto simp: geometry_def)
  have "ps * m \<le> n * ps" using assms(2) by simp
  moreover have "2 ^ 62 + 2 ^ 31 \<le> (2 :: nat) ^ 63" by simp
  ultimately have "ps * Suc m < 2 ^ 63"
    using geometry_words(7)[OF assms(1)] g(3) unfolding mult_Suc_right by linarith
  moreover have "n * ps < 2 ^ 63" using geometry_words(7)[OF assms(1)] by simp
  ultimately have "(of_nat (n * ps) :: u64) < of_nat (ps * Suc m) \<longleftrightarrow> n * ps < ps * Suc m"
    by (intro of_nat_64_less)
  also have "\<dots> \<longleftrightarrow> n < Suc m" by (simp only: mult.commute[of n] nat_mult_less_cancel1[OF g(1)])
  finally have "(of_nat (n * ps) :: u64) < of_nat (ps * Suc m) \<longleftrightarrow> n < Suc m" .
  moreover have "nbytes ps m + opt_packet_size opt = of_nat (ps * Suc m)"
    using g(2) by (simp add: nbytes_def algebra_simps)
  ultimately show ?thesis by (simp only:) linarith
qed

lemma place_before_linked:
  assumes l: "linked n ps w a i s" and rc: "received_at ps p a i s" and i: "i < n"
    and o: "w_open w" "w_file w = Suc f" and k: "k < n" "w_placed w (seq_at n w f k) = None"
    and w': "w' = put (seq_at n w f k) p w"
  shows "\<exists>s1. place_before (int k - int n) s = Inr s1 \<and>
    linked n ps (w'\<lparr>w_open := cnt n w' f < n\<rparr>) a i s1 \<and> st_opt s1 = st_opt s \<and> st_free s1 = st_free s"
proof -
  note d = linkedD[OF l]
  obtain b where b: "b \<noteq> a" "resq_before (st_resq s) = Some b" "resq_inc_before (st_resq s) = Some b"
    "resq_bufstart_before (st_resq s) = Some (b, 0)" "st_diff s b = nbytes ps (cnt n w f)"
    "length (st_data s b) = n * ps"
    using l o by (auto simp: linked_def before_ok_def holds_length)
  let ?s0 = "s\<lparr>st_diff := (st_diff s)(b := st_diff s b + of_nat ps)\<rparr>"
  let ?s1 = "upd_resq (\<lambda>r. r\<lparr>resq_usebuf := Some (b, int (k * ps))\<rparr>)
      (?s0\<lparr>st_data := (st_data ?s0)(b := splice (st_data ?s0 b) (k * ps) p)\<rparr>)"
  have m: "move_packet (Some (b, int (k * ps))) (Some (a, int (i * ps))) ?s0 = Inr ?s1"
    by (rule move_packet_ok[where n = n]) (use d i k b rc in \<open>simp_all add: received_at_def\<close>)
  have n': "cnt n w' f = Suc (cnt n w f)" unfolding w' by (rule cnt_put[OF k])
  have c: "st_diff ?s1 b = nbytes ps (cnt n w' f)" using b(5) n' by (simp add: nbytes_Suc)
  have full: "nbytes ps (cnt n w' f) + opt_packet_size (st_opt s) > CALC_BUFSIZE_FROM_OPT (st_opt s) \<longleftrightarrow> \<not> cnt n w' f < n"
    using full_word[OF d(1) cnt_le] geometry_words(4)[OF d(1)] by simp
  let ?s2 = "if cnt n w' f < n then ?s1 else upd_resq (\<lambda>r. r\<lparr>resq_bufstart_before := None, resq_before := None,
         resq_inc_before := None\<rparr>) (free_the_buf b ?s1)"
  have "place_before (int k - int n) s =
      bindE (move_packet (Some (b, int (k * ps))) (Some (a, int (i * ps))) ?s0) (\<lambda>s2.
      bindE (get_count (Some b) s2) (\<lambda>c.
          if c + opt_packet_size (st_opt s) > CALC_BUFSIZE_FROM_OPT (st_opt s)
          then Inr (upd_resq (\<lambda>r. r\<lparr>resq_bufstart_before := None, resq_before := None,
                                    resq_inc_before := None\<rparr>) (free_the_buf b s2))
          else Inr s2))"
    using d(2,3,4,8) b by (simp add: place_before_def Let_def put_count_def cong: if_cong)
  also have "\<dots> = Inr ?s2"
    unfolding m using c full by (simp add: get_count_def del: fun_upd_apply)
  finally have pb: "place_before (int k - int n) s = Inr ?s2" .
  have "if cnt n w' f < n then linked n ps w' a i ?s1
    else linked n ps (w'\<lparr>w_open := False\<rparr>) a i (upd_resq (\<lambda>r. r\<lparr>resq_bufstart_before := None, resq_before := None,
           resq_inc_before := None\<rparr>) (free_the_buf b ?s1))"
    by (rule linked_put_before[OF l o b(2) k _ w', where u = "Some (b, int (k * ps))"])
      (use rc in \<open>simp_all add: received_at_def\<close>)
  moreover have "w'\<lparr>w_open := True\<rparr> = w'" using o(1) by (simp add: w' put_def)
  ultimately have "linked n ps (w'\<lparr>w_open := cnt n w' f < n\<rparr>) a i ?s2" by (auto split: if_splits)
  with pb show ?thesis by (intro exI[of _ ?s2]) (simp add: free_the_buf_def)
qed

lemma place_next_buf_linked:
  assumes l: "linked n ps w a i s" and cum: "opt_cumul (st_opt s) = of_nat (w_file w)" and rc: "received_at ps p a i s"
    and i: "i < n" and fr: "st_free s = c # cs"
    and new: "\<And>k. k < n \<Longrightarrow> w_placed w (seq_at n w (Suc (w_file w)) k) = None"
    and k: "k < n" and q: "q = seq_at n w (Suc (w_file w)) k" "q < INT64_MAX"
  shows "\<exists>s1. place_next_buf q (int n + int k) s = Inr (s1, Return False) \<and>
    linked n ps (put q p ((next_file n w)\<lparr>w_cur := q\<rparr>)) c (Suc k) s1 \<and>
    opt_cumul (st_opt s1) = of_nat (Suc (w_file w)) \<and> st_free s1 = cs \<and>
    st_opt s1 = (st_opt s)\<lparr>opt_cumul := opt_cumul (st_opt s) + 1\<rparr>"
proof -
  note d = linkedD[OF l]
  from jump_linked[OF l cum fr new] obtain s1 where s1: "jump_to_next_buf s = Inr (s1, Return 0)"
    "linked n ps (next_file n w) c 0 s1" "opt_cumul (st_opt s1) = of_nat (Suc (w_file w))" "st_data s1 = st_data s"
    "st_free s1 = cs" "st_opt s1 = (st_opt s)\<lparr>opt_cumul := opt_cumul (st_opt s) + 1\<rparr>" by blast
  note e = linkedD[OF s1(2)]
  let ?s2 = "upd_resq (\<lambda>r. r\<lparr>resq_usebuf := Some (c, int (k * ps))\<rparr>)
      (s1\<lparr>st_data := (st_data s1)(c := splice (st_data s1 c) (k * ps) p)\<rparr>)"
  let ?s3 = "?s2\<lparr>st_diff := (st_diff s1)(c := st_diff s1 c + of_nat ps)\<rparr>"
  let ?s4 = "upd_resq (\<lambda>r. r\<lparr>resq_current_seq := q, resq_i := int (Suc k), resq_buf := Some (c, int (Suc k * ps))\<rparr>) ?s3"
  have m: "move_packet (Some (c, int (k * ps))) (Some (a, int (i * ps))) s1 = Inr ?s2"
    by (rule move_packet_ok[where n = n]) (use d e i k rc s1(4) in \<open>simp_all add: received_at_def\<close>)
  have "\<not> int n + int k \<ge> uint (opt_buf_num_elems (st_opt s) * 2)" using geometry_words(3)[OF d(1)] k by simp
  then have "place_next_buf q (int n + int k) s = Inr (?s4, Return False)"
    using s1(1) m d(4,8) e(2,3,6,7,9) by (simp add: place_next_buf_def Let_def put_count_def algebra_simps)
  moreover have "linked n ps (put (seq_at n (next_file n w) (w_file (next_file n w)) k) p (next_file n w)) c 0 ?s3"
    by (rule linked_put_current[OF s1(2) k, where u = "Some (c, int (k * ps))"])
      (use rc new k in \<open>simp_all add: received_at_def\<close>)
  then have l3: "linked n ps (put q p (next_file n w)) c 0 ?s3" using q(1) by simp
  have "linked n ps ((put q p (next_file n w))\<lparr>w_cur := q\<rparr>) c (Suc k) ?s4" by (rule linked_move[OF l3]) (use k q e(9) in simp_all)
  ultimately show ?thesis unfolding put_cur using s1 by (intro exI[of _ ?s4]) simp
qed

section \<open>One packet\<close>

lemma sim_unplaced:
  assumes "sim n ps w a i s" and "w_cur w < q"
  shows "w_placed w q = None"
  using assms unfolding sim_def by (meson leD not_None_eq)

lemma window_slot:
  assumes "start n w \<le> q" and "q < start n w + int n"
  shows "\<exists>k < n. q = seq_at n w (w_file w) k"
  using assms by (intro exI[of _ "nat (q - start n w)"]) (auto simp: start_def seq_at_def)

lemma seq_at_start: "seq_at n w (w_file w) k = start n w + int k"
  "seq_at n w (Suc (w_file w)) k = start n w + int n + int k"
  "w_file w = Suc f \<Longrightarrow> seq_at n w f k = start n w - int n + int k"
  by (simp_all add: start_def seq_at_def algebra_simps)

lemma linked_next: "linked n ps w a i s \<Longrightarrow> w_cur w + 1 = seq_at n w (w_file w) i \<Longrightarrow> i = n \<or> i < n"
  by (auto simp: linked_def current_ok_def Let_def)

lemma sim_first: "sim n ps w a i s \<Longrightarrow> w_first w \<le> seq_at n w f k"
  by (simp add: seq_at_def)

lemma sim_put_behind:
  assumes "sim n ps w a i s" and "linked n ps (put q p w) a i s1" and "st_opt s1 = st_opt s"
    and "w_first w \<le> q" and "q \<le> w_cur w"
  shows "sim n ps (put q p w) a i s1"
  using assms by (auto simp: sim_def)

lemma sim_put_cur:
  assumes "sim n ps w a i s" and "linked n ps (put q p (w\<lparr>w_cur := q\<rparr>)) a (Suc k) s1" and "st_opt s1 = st_opt s"
    and "q = seq_at n w (w_file w) k" and "w_cur w < q"
  shows "sim n ps (put q p (w\<lparr>w_cur := q\<rparr>)) a (Suc k) s1"
proof -
  have "w_placed w x \<noteq> None \<longrightarrow> w_first w \<le> x \<and> x \<le> q" for x using assms(1,5) by (fastforce simp: sim_def)
  moreover have "w_first w \<le> q" using assms(4) by (simp add: seq_at_def)
  moreover have "q + 1 = seq_at n w (w_file w) (Suc k)" using assms(4) by (simp add: seq_at_def)
  ultimately show ?thesis using assms(1,2,3) by (auto simp: sim_def)
qed

lemma place_behind_sim:
  assumes sim: "sim n ps w a i s" and rc: "received_at ps p a i s" and i: "i < n"
    and q: "start n w \<le> q" "q < w_cur w" "w_placed w q = None"
  shows "\<exists>s1. place_behind (q - start n w) s = Inr s1 \<and> sim n ps (put q p w) a i s1 \<and>
    st_opt s1 = st_opt s \<and> st_free s1 = st_free s"
proof -
  have l: "linked n ps w a i s" and c: "w_cur w + 1 = start n w + int i"
    using sim seq_at_start(1) by (simp_all add: sim_def)
  obtain k where k: "k < n" "q = seq_at n w (w_file w) k" using window_slot[of n w q] q(1,2) c i by auto
  from place_behind_linked[OF l rc i k(1)] k(2) q(3) obtain s1 where
    s1: "place_behind (int k) s = Inr s1" "linked n ps (put q p w) a i s1" "st_opt s1 = st_opt s" "st_free s1 = st_free s"
    by auto
  have "int k = q - start n w" using k(2) seq_at_start(1) by simp
  moreover have "w_first w \<le> q" unfolding k(2) by (rule sim_first[OF sim])
  then have "sim n ps (put q p w) a i s1" by (rule sim_put_behind[OF sim s1(2,3)]) (use q(2) in simp)
  ultimately show ?thesis using s1 by auto
qed

lemma place_before_sim:
  assumes sim: "sim n ps w a i s" and rc: "received_at ps p a i s" and i: "i < n" and o: "w_open w"
    and q: "start n w - int n \<le> q" "q < start n w" "w_placed w q = None" "q \<le> w_cur w"
    and w': "w' = put q p w"
  shows "\<exists>s1. place_before (q - start n w) s = Inr s1 \<and> sim n ps (w'\<lparr>w_open := cnt n w' (w_file w - 1) < n\<rparr>) a i s1 \<and>
    st_opt s1 = st_opt s \<and> st_free s1 = st_free s"
proof -
  have l: "linked n ps w a i s" using sim by (simp add: sim_def)
  then obtain f where f: "w_file w = Suc f" using o by (auto simp: linked_def before_ok_def)
  define k where "k = nat (q - (start n w - int n))"
  have k: "k < n" "q = seq_at n w f k" using q(1,2) seq_at_start(3)[OF f] by (auto simp: k_def)
  from place_before_linked[OF l rc i o f k(1)] k(2) q(3) w' obtain s1 where
    s1: "place_before (int k - int n) s = Inr s1" "linked n ps (w'\<lparr>w_open := cnt n w' f < n\<rparr>) a i s1"
      "st_opt s1 = st_opt s" "st_free s1 = st_free s" by auto
  have "int k - int n = q - start n w" using k(2) seq_at_start(3)[OF f] by simp
  moreover have "w_first w \<le> q" unfolding k(2) by (rule sim_first[OF sim])
  then have "sim n ps (w'\<lparr>w_open := cnt n w' f < n\<rparr>) a i s1"
    using sim s1(2,3) q(4) unfolding w' by (auto simp: sim_def)
  ultimately show ?thesis using s1 f by auto
qed

lemma place_ahead_sim:
  assumes sim: "sim n ps w a i s" and rc: "received_at ps p a i s" and i: "i < n"
    and q: "w_cur w < q" "q < start n w + int n" "q < INT64_MAX"
  shows "\<exists>s1. place_ahead q (q - start n w) (q - w_cur w) s = Inr s1 \<and>
    (\<exists>j. sim n ps (put q p (w\<lparr>w_cur := q\<rparr>)) a j s1) \<and> st_opt s1 = st_opt s \<and> st_free s1 = st_free s"
proof -
  have l: "linked n ps w a i s" and c: "w_cur w + 1 = start n w + int i"
    using sim seq_at_start(1) by (simp_all add: sim_def)
  obtain k where k: "k < n" "q = seq_at n w (w_file w) k" using window_slot[of n w q] q(1,2) c by auto
  have "int k = q - start n w" using k(2) seq_at_start(1) by simp
  then have kc: "int (Suc k) = int i + (q - w_cur w)" using c by simp
  from place_ahead_linked[OF l rc i k(1) _ k(2) q(3) kc] sim_unplaced[OF sim q(1)] k(2) obtain s1 where
    s1: "place_ahead q (int k) (q - w_cur w) s = Inr s1" "linked n ps (put q p (w\<lparr>w_cur := q\<rparr>)) a (Suc k) s1"
      "st_opt s1 = st_opt s" "st_free s1 = st_free s" by auto
  from sim_put_cur[OF sim s1(2,3) k(2) q(1)] s1 show ?thesis using \<open>int k = q - start n w\<close> by auto
qed

lemma next_in_order_sim:
  assumes sim: "sim n ps w a i s" and rc: "received_at ps p a i s" and i: "i < n"
    and q: "q = w_cur w + 1" "q < INT64_MAX"
  shows "\<exists>s1. next_in_order (upd_resq (\<lambda>r. r\<lparr>resq_current_seq := q\<rparr>) s) = Inr s1 \<and>
    (\<exists>j. sim n ps (put q p (w\<lparr>w_cur := q\<rparr>)) a j s1) \<and> st_opt s1 = st_opt s \<and> st_free s1 = st_free s"
proof -
  have l: "linked n ps w a i s" and c: "q = seq_at n w (w_file w) i" using sim q(1) by (simp_all add: sim_def)
  have "w_placed w q = None" using sim_unplaced[OF sim] q(1) by simp
  with next_in_order_linked[OF l rc i _ c q(2)] c obtain s1 where
    s1: "next_in_order (upd_resq (\<lambda>r. r\<lparr>resq_current_seq := q\<rparr>) s) = Inr s1"
      "linked n ps (put q p (w\<lparr>w_cur := q\<rparr>)) a (Suc i) s1" "st_opt s1 = st_opt s" "st_free s1 = st_free s" by auto
  from sim_put_cur[OF sim s1(2,3) c] s1 q(1) show ?thesis by auto
qed

end
