(* ===== verification/UdpReceive.thy ===== *)
theory UdpReceive
  imports UdpWindow
begin

text \<open>
  The receive loop of theory \<open>UdpStream\<close> against the specification of theory \<open>UdpWindow\<close>: one packet,
  one turn of the loop, and whole streams of packets, with what that means for the files.
\<close>

section \<open>One packet\<close>

lemma sim_new:
  assumes sim: "sim n ps w a i s" and i: "i \<le> n" and k: "k < n"
  shows "w_placed w (seq_at n w (Suc (w_file w)) k) = None"
proof (rule sim_unplaced[OF sim])
  have "w_cur w + 1 = start n w + int i" using sim seq_at_start(1) by (simp add: sim_def)
  then show "w_cur w < seq_at n w (Suc (w_file w)) k" using seq_at_start(2)[of n w k] i by simp
qed

lemma place_next_buf_sim:
  assumes sim: "sim n ps w a i s" and rc: "received_at ps p a i s" and i: "i < n" and fr: "st_free s = c # cs"
    and q: "start n w + int n \<le> q" "q < start n w + 2 * int n" "q < INT64_MAX"
  shows "\<exists>s1. place_next_buf q (q - start n w) s = Inr (s1, Return False) \<and>
    (\<exists>j. sim n ps (put q p ((next_file n w)\<lparr>w_cur := q\<rparr>)) c j s1) \<and> st_free s1 = cs \<and>
    st_opt s1 = (st_opt s)\<lparr>opt_cumul := opt_cumul (st_opt s) + 1\<rparr>"
proof -
  have l: "linked n ps w a i s" and cum: "opt_cumul (st_opt s) = of_nat (w_file w)"
    and c: "w_cur w + 1 = start n w + int i" using sim seq_at_start(1) by (simp_all add: sim_def)
  define k where "k = nat (q - (start n w + int n))"
  have k: "k < n" "q = seq_at n w (Suc (w_file w)) k" using q(1,2) by (auto simp: k_def seq_at_start(2))
  have new: "\<And>k. k < n \<Longrightarrow> w_placed w (seq_at n w (Suc (w_file w)) k) = None"
    using sim_new[OF sim] i by simp
  have e: "int n + int k = q - start n w" using k(2) seq_at_start(2) by simp
  from place_next_buf_linked[OF l cum rc i fr new k q(3)] obtain s1 where
    s1: "place_next_buf q (q - start n w) s = Inr (s1, Return False)"
      "linked n ps (put q p ((next_file n w)\<lparr>w_cur := q\<rparr>)) c (Suc k) s1"
      "opt_cumul (st_opt s1) = of_nat (Suc (w_file w))" "st_free s1 = cs"
      "st_opt s1 = (st_opt s)\<lparr>opt_cumul := opt_cumul (st_opt s) + 1\<rparr>" unfolding e by blast
  have "w_placed w x \<noteq> None \<longrightarrow> w_first w \<le> x \<and> x \<le> q" for x
    using sim q(1) c i by (fastforce simp: sim_def)
  moreover have "w_first w \<le> q" unfolding k(2) by (rule sim_first[OF sim])
  moreover have "q + 1 = seq_at n w (Suc (w_file w)) (Suc k)" unfolding k(2) by (simp add: seq_at_def)
  ultimately have "sim n ps (put q p ((next_file n w)\<lparr>w_cur := q\<rparr>)) c (Suc k) s1"
    using s1(2,3) by (auto simp: sim_def)
  with s1 show ?thesis by blast
qed

text \<open>The simulation does not look at statistics, status and the like.\<close>

lemma sim_same:
  assumes "sim n ps w a i s" and "geometry n ps (st_opt s1)" and "opt_cumul (st_opt s1) = opt_cumul (st_opt s)"
    and "st_be s1 = st_be s" "st_resq s1 = st_resq s" "st_diff s1 = st_diff s" "st_fileid s1 = st_fileid s"
      "st_data s1 = st_data s" "st_free s1 = st_free s" "st_ready s1 = st_ready s"
  shows "sim n ps w a i s1"
proof -
  have "linked n ps w a i s1"
    using assms(1,2,4-) by (auto simp: sim_def linked_def current_ok_def before_ok_def free_ok_def Let_def)
  then show ?thesis using assms(1,3) by (simp add: sim_def)
qed

text \<open>What handling a packet does to the options and to the free buffers.\<close>

definition opt_kept :: "stream \<Rightarrow> stream \<Rightarrow> bool" where
  "opt_kept s s1 \<longleftrightarrow> (\<exists>c. st_opt s1 = (st_opt s)\<lparr>opt_cumul := c\<rparr>) \<and> length (st_free s) \<le> Suc (length (st_free s1))"

lemma opt_kept_same: "st_opt s1 = st_opt s \<Longrightarrow> st_free s1 = st_free s \<Longrightarrow> opt_kept s s1"
  unfolding opt_kept_def by (metis (no_types, lifting) le_SucI le_refl opt_s.surjective opt_s.update_convs(2))

lemma place_packet_sim:
  assumes sim: "sim n ps w a i s" and rc: "received_at ps p a i s" and i: "i < n" and fr: "st_free s \<noteq> []"
    and q: "q < INT64_MAX" "w_placed w q = None \<or> q = w_cur w"
  shows "\<exists>s1 b. place_packet q s = Inr (s1, Return b) \<and> (\<exists>a' j. sim n ps (place n q p w) a' j s1) \<and> opt_kept s s1"
proof -
  have l: "linked n ps w a i s" and c: "w_cur w + 1 = start n w + int i"
    using sim seq_at_start(1) by (simp_all add: sim_def)
  note d = linkedD[OF l]
  have started: "w_cur w \<noteq> INT64_MAX" using d(13) by simp
  have same: ?thesis if "place_packet q s = Inr (s, Return b)" "place n q p w = w" for b
    using that sim opt_kept_same[of s s] by auto
  have missing: ?thesis if "place_packet q s = Inr (count_missing 1 s, Return b)" "place n q p w = w" for b
  proof -
    have "sim n ps w a i (count_missing 1 s)"
      by (rule sim_same[OF sim]) (simp_all add: count_missing_def d(1))
    with that show ?thesis using opt_kept_same[of "count_missing 1 s" s] by (auto simp: count_missing_def)
  qed
  show ?thesis
  proof (cases "q = w_cur w + 1")
    case True
    from next_in_order_sim[OF sim rc i this q(1)] obtain s1 where
      s1: "next_in_order (upd_resq (\<lambda>r. r\<lparr>resq_current_seq := q\<rparr>) s) = Inr s1"
        "\<exists>j. sim n ps (put q p (w\<lparr>w_cur := q\<rparr>)) a j s1" "st_opt s1 = st_opt s" "st_free s1 = st_free s" by blast
    then have "place_packet q s = Inr (s1, Return True)"
      using started d(11) True by (auto simp: place_packet_def Let_def)
    then show ?thesis using s1 True opt_kept_same[of s1 s] by (auto simp: place_def)
  next
    case nord: False
    show ?thesis
    proof (cases "q = w_cur w")
      case True
      then show ?thesis using started d(11) nord by (intro same) (auto simp: place_packet_def Let_def place_def)
    next
      case ncur: False
      then have un: "w_placed w q = None" using q(2) by simp
      have pp: "place_packet q s = (if q < w_cur w
          then bindE (if q < start n w then place_before (q - start n w) s else place_behind (q - start n w) s)
                 (\<lambda>s1. Inr (s1, Return False))
          else if start n w + int n \<le> q then place_next_buf q (q - start n w) s
          else bindE (place_ahead q (q - start n w) (q - w_cur w) s) (\<lambda>s1. Inr (s1, Return False)))"
        using started d(4,10,11) nord ncur by (simp add: place_packet_def Let_def algebra_simps)
      consider "q < w_cur w" "q < start n w" | "q < w_cur w" "start n w \<le> q"
        | "w_cur w < q" "q < start n w + int n" | "start n w + int n \<le> q" "w_cur w < q" using ncur by linarith
      then show ?thesis
      proof cases
        case 1
        show ?thesis
        proof (cases "w_open w \<and> start n w - int n \<le> q")
          case True
          let ?w = "put q p w"
          from place_before_sim[OF sim rc i conjunct1[OF True] conjunct2[OF True] 1(2) un _ refl] 1 obtain s1 where
            s1: "place_before (q - start n w) s = Inr s1" "sim n ps (?w\<lparr>w_open := cnt n ?w (w_file w - 1) < n\<rparr>) a i s1"
              "st_opt s1 = st_opt s" "st_free s1 = st_free s" by auto
          have "place n q p w = ?w\<lparr>w_open := cnt n ?w (w_file w - 1) < n\<rparr>"
            using 1 True nord ncur by (simp add: place_def Let_def)
          then show ?thesis using s1 1 pp opt_kept_same[OF s1(3,4)] by auto
        next
          case False
          have "place_before (q - start n w) s = Inr (count_missing 1 s)"
          proof (cases "w_open w")
            case True
            with False have "q < start n w - int n" by simp
            then show ?thesis using d(4) by (auto simp: place_before_def Let_def)
          next
            case False
            then show ?thesis using l by (simp add: place_before_def linked_def before_ok_def Let_def)
          qed
          then show ?thesis using False 1 pp nord ncur
            by (intro missing[of False]) (auto simp: place_def Let_def)
        qed
      next
        case 2
        from place_behind_sim[OF sim rc i 2(2,1) un] obtain s1 where
          s1: "place_behind (q - start n w) s = Inr s1" "sim n ps (put q p w) a i s1"
            "st_opt s1 = st_opt s" "st_free s1 = st_free s" by blast
        have "place n q p w = put q p w" using 2 nord ncur by (simp add: place_def)
        then show ?thesis using s1 2 pp opt_kept_same[OF s1(3,4)] by auto
      next
        case 3
        from place_ahead_sim[OF sim rc i 3 q(1)] obtain s1 where
          s1: "place_ahead q (q - start n w) (q - w_cur w) s = Inr s1" "\<exists>j. sim n ps (put q p (w\<lparr>w_cur := q\<rparr>)) a j s1"
            "st_opt s1 = st_opt s" "st_free s1 = st_free s" by blast
        have "place n q p w = put q p (w\<lparr>w_cur := q\<rparr>)" using 3 c nord by (simp add: place_def)
        then show ?thesis using s1 3 pp opt_kept_same[OF s1(3,4)] by auto
      next
        case 4
        show ?thesis
        proof (cases "q < start n w + 2 * int n")
          case True
          obtain b bs where b: "st_free s = b # bs" using fr by (cases "st_free s") auto
          from place_next_buf_sim[OF sim rc i b 4(1) True q(1)] obtain s1 where
            s1: "place_next_buf q (q - start n w) s = Inr (s1, Return False)"
              "\<exists>j. sim n ps (put q p ((next_file n w)\<lparr>w_cur := q\<rparr>)) b j s1" "st_free s1 = bs"
              "st_opt s1 = (st_opt s)\<lparr>opt_cumul := opt_cumul (st_opt s) + 1\<rparr>" by blast
          have "opt_kept s s1" unfolding opt_kept_def using s1(3,4) b by auto
          moreover have "place n q p w = put q p ((next_file n w)\<lparr>w_cur := q\<rparr>)"
            using 4 c nord True by (simp add: place_def)
          ultimately show ?thesis using s1 4 pp by auto
        next
          case False
          then have "place_next_buf q (q - start n w) s = Inr (count_missing 1 s, Return False)"
            using geometry_words(3)[OF d(1)] by (simp add: place_next_buf_def)
          then show ?thesis using False 4 pp nord c by (intro missing[of False]) (auto simp: place_def)
        qed
      qed
    qed
  qed
qed

section \<open>One turn of the loop\<close>

definition seq_of :: "u8 list \<Rightarrow> int" where
  "seq_of p = sint (be_word (take 8 p) :: u64)"

text \<open>A packet of the stream, as \<open>recv\<close> delivers it.\<close>

definition rx_packet :: "u8 list \<Rightarrow> rx \<Rightarrow> bool" where
  "rx_packet p x \<longleftrightarrow> rx_ret x = int (length p) \<and> rx_bytes x = p"

definition malloc_ok :: "(nat \<Rightarrow> u8 list option) \<Rightarrow> bool" where
  "malloc_ok m \<longleftrightarrow> (case m HSIZE_UDPMON of None \<Rightarrow> False | Some b \<Rightarrow> length b = HSIZE_UDPMON)"

text \<open>Between the arrival of a packet and its placing only statistics and the kept header change.\<close>

definition only_opt :: "stream \<Rightarrow> stream \<Rightarrow> bool" where
  "only_opt s s1 \<longleftrightarrow> (\<exists>h. st_opt s1 = (st_opt s)\<lparr>opt_first_packet := h\<rparr>) \<and> st_be s1 = st_be s \<and> st_resq s1 = st_resq s \<and>
     st_diff s1 = st_diff s \<and> st_fileid s1 = st_fileid s \<and> st_data s1 = st_data s \<and> st_free s1 = st_free s \<and>
     st_ready s1 = st_ready s"

lemma geometry_keep [simp]:
  "geometry n ps (opt\<lparr>opt_first_packet := h\<rparr>) = geometry n ps opt"
  "geometry n ps (opt\<lparr>opt_cumul := c\<rparr>) = geometry n ps opt"
  "geometry n ps (opt\<lparr>opt_total_packets := t\<rparr>) = geometry n ps opt"
  "geometry n ps (opt\<lparr>opt_status := st\<rparr>) = geometry n ps opt"
  by (simp_all add: geometry_def)

lemma header_size_udpmon: "t AND LOCKER_DATATYPE = DATATYPE_UDPMON \<Longrightarrow> header_size t = Some HSIZE_UDPMON"
  by (simp add: header_size_def Let_def)

lemma keep_first_packet_ok:
  assumes g: "geometry n ps (st_opt s)" and m: "malloc_ok m" and b: "resq_buf (st_resq s) = Some (a, int k)"
    and len: "k + 8 \<le> length (st_data s a)"
  shows "\<exists>s1. keep_first_packet m s = Inr s1 \<and> only_opt s s1"
proof (cases "opt_first_packet (st_opt s)")
  case None
  from m obtain blk where blk: "m HSIZE_UDPMON = Some blk" "length blk = 8"
    by (auto simp: malloc_ok_def HSIZE_UDPMON_def split: option.splits)
  have h: "header_size (opt_optbits (st_opt s)) = Some HSIZE_UDPMON"
    using g by (simp add: geometry_def header_size_udpmon)
  let ?s1 = "s\<lparr>st_opt := (st_opt s)\<lparr>opt_first_packet := Some (splice blk 0 (slice (drop k (st_data s a)) 0 8))\<rparr>\<rparr>"
  have "bytes_from (resq_buf (st_resq s)) s = Inr (drop k (st_data s a))" using b by (simp add: bytes_from_def)
  moreover have "copy_metadata blk (drop k (st_data s a)) (opt_optbits (st_opt s)) =
      Inr (splice blk 0 (slice (drop k (st_data s a)) 0 8), 0)"
    using h blk(2) len by (simp add: copy_metadata_def HSIZE_UDPMON_def)
  ultimately have "keep_first_packet m s = Inr ?s1"
    using None h blk(1) by (simp add: keep_first_packet_def init_header_def)
  moreover have "only_opt s ?s1" unfolding only_opt_def by (intro conjI exI[of _ "opt_first_packet (st_opt ?s1)"]) simp_all
  ultimately show ?thesis by blast
next
  case (Some h)
  then have "keep_first_packet m s = Inr s" by (simp add: keep_first_packet_def)
  moreover have "only_opt s s" unfolding only_opt_def using Some
    by (intro conjI exI[of _ "Some h"]) (simp_all flip: Some)
  ultimately show ?thesis by blast
qed

lemma calc_bufpos_udpmon:
  assumes g: "geometry n ps (st_opt s)" and b: "resq_buf (st_resq s) = Some (a, int (i * ps))"
    and i: "i < n" and len: "length (st_data s a) = n * ps" and rc: "received_at ps p a i s"
  shows "calc_bufpos_general (resq_buf (st_resq s)) s = place_packet (seq_of p) s"
proof -
  have ps: "8 \<le> ps" "opt_optbits (st_opt s) AND LOCKER_DATATYPE = DATATYPE_UDPMON" using g by (auto simp: geometry_def)
  have off: "i * ps + 8 \<le> length (st_data s a)" using slot_in[OF i, of ps] ps(1) len by linarith
  have "take 8 p = take 8 (slice (st_data s a) (i * ps) ps)" using rc by (simp add: received_at_def)
  also have "\<dots> = slice (st_data s a) (i * ps) 8" using ps(1) by (simp add: slice_def min_def)
  finally have "getseq_udpmon (drop (i * ps) (st_data s a)) = Inr (be_word (take 8 p))"
    using getseq_udpmon_eq[OF off] by simp
  then show ?thesis
    using b ps(2) by (simp add: calc_bufpos_general_def bytes_from_def seqnum_of_def seq_of_def Let_def nat_mult_distrib mult_less_0_iff)
qed

lemma small_words:
  assumes "geometry n ps opt" and "i \<le> n"
  shows "(word_of_int (int i) :: u32) < opt_buf_num_elems opt \<longleftrightarrow> i < n"
    and "(word_of_int (int i) :: u32) = opt_buf_num_elems opt \<longleftrightarrow> i = n"
    and "(word_of_int (int ps) :: u64) = opt_packet_size opt"
proof -
  have g: "2 * n < 2 ^ 32" "opt_buf_num_elems opt = of_nat n" "opt_packet_size opt = of_nat ps"
    using assms(1) by (auto simp: geometry_def)
  then have "unat (opt_buf_num_elems opt) = n" "unat (word_of_int (int i) :: u32) = i"
    using assms(2) by (simp_all add: unat_of_nat)
  then show "(word_of_int (int i) :: u32) < opt_buf_num_elems opt \<longleftrightarrow> i < n"
    "(word_of_int (int i) :: u32) = opt_buf_num_elems opt \<longleftrightarrow> i = n"
    by (auto simp: word_less_nat_alt)
  show "(word_of_int (int ps) :: u64) = opt_packet_size opt" using g(3) by simp
qed

text \<open>\<open>(unsigned) *inc\<close> cuts the counter to 32 bits, which does not make it larger.\<close>

lemma counter_check:
  assumes "geometry n ps opt" and "m \<le> n"
  shows "(ucast (ucast (nbytes ps m) :: u32) :: u64) \<le> CALC_BUFSIZE_FROM_OPT_NOOFFSET opt"
proof -
  have l: "ps * m \<le> n * ps" "n * ps < 2 ^ 62" using assms geometry_words(7)[OF assms(1)] by simp_all
  have "unat (ucast (ucast (nbytes ps m) :: u32) :: u64) = unat (nbytes ps m) mod 2 ^ 32"
    unfolding unsigned_ucast_eq by (simp add: take_bit_eq_mod unat_mod_distrib)
  also have "\<dots> \<le> unat (nbytes ps m)" by simp
  also have "\<dots> = ps * m" unfolding nbytes_def by (rule unat64) (use l in linarith)
  also have "\<dots> \<le> n * ps" by (rule l(1))
  also have "\<dots> = unat (CALC_BUFSIZE_FROM_OPT_NOOFFSET opt)"
    unfolding geometry_words(6)[OF assms(1)] by (rule unat64[OF l(2), symmetric])
  finally show ?thesis by (simp only: word_le_nat_alt)
qed

text \<open>After the switch of buffers: the arrival of a packet, up to the placing.\<close>

lemma arrival:
  assumes g: "geometry n ps (st_opt s)" and b: "resq_buf (st_resq s) = Some (a, int (i * ps))"
    and ri: "resq_i (st_resq s) = int i" and i: "i < n" and len: "length (st_data s a) = n * ps"
    and p: "length p = ps" "rx_packet p x" and m: "malloc_ok m"
  shows "\<exists>s2. received_at ps p a i s2 \<and>
    only_opt (s\<lparr>st_data := (st_data s)(a := splice (st_data s a) (i * ps) p)\<rparr>) s2 \<and>
    (\<forall>s3 b c k. place_packet (seq_of p) s2 = Inr (s3, Return b) \<longrightarrow> opt_kept s2 s3 \<longrightarrow>
      resq_inc (st_resq s3) = Some c \<longrightarrow> st_diff s3 c = nbytes ps k \<longrightarrow> k \<le> n \<longrightarrow>
      bindE (recv_into x s) (udps_handle_received_packet m (rx_now x) (rx_ret x)) =
        Inr (count_packet (int ps) s3, Return 0))"
proof -
  have fit: "i * ps + length p \<le> length (st_data s a)" using slot_in[OF i, of ps] p(1) len by simp
  have ps: "0 < ps" "8 \<le> ps" using g by (auto simp: geometry_def)
  let ?s1 = "s\<lparr>st_data := (st_data s)(a := splice (st_data s a) (i * ps) p)\<rparr>"
  have recv: "recv_into x s = Inr ?s1"
    using b p fit ps(1) by (simp add: recv_into_def rx_packet_def buf_write_def nat_mult_distrib mult_less_0_iff)
  have rc: "received_at ps p a i ?s1" using fit p(1) by (simp add: received_at_def)
  let ?f = "if opt_hostname (st_opt s) = None then ?s1 else ?s1\<lparr>st_forwarded := st_forwarded ?s1 @ [p]\<rparr>"
  have fwd: "forward_packet ?s1 = Inr ?f"
    using b rc fit p(1) geometry_words(2)[OF g]
    by (auto simp: forward_packet_def buf_read_def received_at_def nat_mult_distrib mult_less_0_iff split: option.split)
  have fb: "resq_buf (st_resq ?f) = Some (a, int (i * ps))" using b by simp
  have gf: "geometry n ps (st_opt ?f)" using g by simp
  have l8: "i * ps + 8 \<le> length (st_data ?f a)" using slot_in[OF i, of ps] ps(2) len fit by simp
  obtain s2 where s2: "keep_first_packet m ?f = Inr s2" "only_opt ?f s2"
    using keep_first_packet_ok[OF gf m fb l8] by blast
  have o2: "only_opt ?s1 s2" using s2(2) by (auto simp: only_opt_def split: if_splits)
  have rc2: "received_at ps p a i s2" using rc o2 by (simp add: received_at_def only_opt_def)
  have g2: "geometry n ps (st_opt s2)" using o2 g by (auto simp: only_opt_def)
  have calc: "calc_bufpos_general (resq_buf (st_resq s2)) s2 = place_packet (seq_of p) s2"
    by (rule calc_bufpos_udpmon[OF g2 _ i _ rc2]) (use o2 b len fit in \<open>auto simp: only_opt_def\<close>)
  have store: "store_packet m (rx_now x) ?f =
      bindE (place_packet (seq_of p) s2) (\<lambda>(s3, r). case r of
          Thread_Exit \<Rightarrow> Inr (s3, Thread_Exit) | Return _ \<Rightarrow> Inr (s3, Return 1))"
    using gf s2(1) calc by (simp add: store_packet_def wait_for_start_def geometry_def)
  have "bindE (recv_into x s) (udps_handle_received_packet m (rx_now x) (rx_ret x)) = Inr (count_packet (int ps) s3, Return 0)"
    if "place_packet (seq_of p) s2 = Inr (s3, Return b')" "opt_kept s2 s3" "resq_inc (st_resq s3) = Some c"
      "st_diff s3 c = nbytes ps k" "k \<le> n" for s3 b' c k
  proof -
    have g3: "geometry n ps (st_opt s3)" using g2 that(2) by (auto simp: opt_kept_def)
    have "word_of_int (resq_i (st_resq ?f)) < opt_buf_num_elems (st_opt ?f)"
      using small_words(1)[OF g, of i] i ri by simp
    then show ?thesis
      using recv fwd store that ps(1) p small_words(3)[OF g, of 0] counter_check[OF g3 that(5)]
      by (simp add: udps_handle_received_packet_def rx_packet_def get_count_def)
  qed
  with rc2 o2 show ?thesis by blast
qed

lemma switch_sim:
  assumes sim: "sim n ps w a i s" and fr: "st_free s \<noteq> []"
  shows "\<exists>s1 a1 j. handle_buffer_switch s = Inr (s1, Return 0) \<and>
    sim n ps (if w_cur w + 1 = start n w + int n then next_file n w else w) a1 j s1 \<and> j < n \<and> opt_kept s s1"
proof -
  have l: "linked n ps w a i s" and cum: "opt_cumul (st_opt s) = of_nat (w_file w)"
    and c: "w_cur w + 1 = start n w + int i" using sim seq_at_start(1) by (simp_all add: sim_def)
  note d = linkedD[OF l]
  have i: "i \<le> n" using l by (simp add: linked_def current_ok_def Let_def)
  show ?thesis
  proof (cases "i = n")
    case False
    have "handle_buffer_switch s = Inr (s, Return 0)"
      using False d(9) small_words(2)[OF d(1) i] by (simp add: handle_buffer_switch_def)
    moreover have "i < n" using False i by simp
    ultimately show ?thesis using False sim c opt_kept_same[of s s] by auto
  next
    case True
    let ?s1 = "s\<lparr>st_fi_packets := st_fi_packets s + ucast (opt_buf_num_elems (st_opt s))\<rparr>"
    have sim1: "sim n ps w a i ?s1" by (rule sim_same[OF sim]) (simp_all add: d(1))
    then have l1: "linked n ps w a i ?s1" by (simp add: sim_def)
    obtain b bs where b: "st_free ?s1 = b # bs" using fr by (cases "st_free s") auto
    have cum1: "opt_cumul (st_opt ?s1) = of_nat (w_file w)" using cum by simp
    from jump_linked[OF l1 cum1 b sim_new[OF sim1 i]] obtain s2 where
      s2: "jump_to_next_buf ?s1 = Inr (s2, Return 0)" "linked n ps (next_file n w) b 0 s2"
        "opt_cumul (st_opt s2) = of_nat (Suc (w_file w))" "st_free s2 = bs"
        "st_opt s2 = (st_opt s)\<lparr>opt_cumul := opt_cumul (st_opt s) + 1\<rparr>" by auto
    have "handle_buffer_switch s = Inr (s2, Return 0)"
      using d(1,9) small_words(2)[OF d(1) i] True s2(1)
      by (simp add: handle_buffer_switch_def geometry_def Let_def)
    moreover have "sim n ps (next_file n w) b 0 s2"
      using sim s2(2,3) c True by (simp add: sim_def seq_at_start(2))
    moreover have "opt_kept s s2" unfolding opt_kept_def using s2(4,5) b by auto
    moreover have "0 < n" using d(1) by (simp add: geometry_def)
    ultimately show ?thesis using True c by auto
  qed
qed

lemma sim_scratch:
  assumes sim: "sim n ps w a i s" and i: "i < n" and p: "length p = ps"
  shows "sim n ps w a i (s\<lparr>st_data := (st_data s)(a := splice (st_data s a) (i * ps) p)\<rparr>)"
proof -
  have l: "linked n ps w a i s" and c: "w_cur w + 1 = seq_at n w (w_file w) i" using sim by (simp_all add: sim_def)
  have un: "w_placed w (seq_at n w (w_file w) i) = None" by (rule sim_unplaced[OF sim]) (use c in simp)
  have "holds n ps w (w_file w) (splice (st_data s a) (i * ps) p)"
    by (rule holds_scratch[OF _ i p un]) (use l in \<open>simp add: linked_def current_ok_def Let_def\<close>)
  then have "current_ok n ps w a i (s\<lparr>st_data := (st_data s)(a := splice (st_data s a) (i * ps) p)\<rparr>)"
    using l by (simp add: linked_def current_ok_def Let_def)
  moreover have "before_ok n ps w a (s\<lparr>st_data := (st_data s)(a := splice (st_data s a) (i * ps) p)\<rparr>)"
    using l by (cases "w_open w") (simp_all add: linked_def before_ok_def, metis fun_upd_other)
  moreover have "free_ok n ps a (s\<lparr>st_data := (st_data s)(a := splice (st_data s a) (i * ps) p)\<rparr>)"
    using l by (auto simp: linked_def free_ok_def)
  ultimately have "linked n ps w a i (s\<lparr>st_data := (st_data s)(a := splice (st_data s a) (i * ps) p)\<rparr>)"
    using l by (simp add: linked_def)
  with sim show ?thesis by (simp add: sim_def)
qed

definition live :: "nat \<Rightarrow> stream \<Rightarrow> bool" where
  "live m s \<longleftrightarrow> opt_status (st_opt s) = STATUS_RUNNING \<and> opt_last_packet (st_opt s) = 0 \<and>
     unat (opt_total_packets (st_opt s)) + m < 2 ^ 64 \<and> 2 * m \<le> length (st_free s)"

lemma count_packet_live:
  assumes "unat (opt_total_packets (st_opt s)) + 1 < 2 ^ 64" and "opt_last_packet (st_opt s) = 0"
  shows "count_packet r s = s\<lparr>st_so := (st_so s)\<lparr>so_total_transacted_bytes := so_total_transacted_bytes (st_so s) + word_of_int r\<rparr>,
      st_opt := (st_opt s)\<lparr>opt_total_packets := opt_total_packets (st_opt s) + 1\<rparr>\<rparr>"
    and "unat (opt_total_packets (st_opt s) + 1) = Suc (unat (opt_total_packets (st_opt s)))"
proof -
  have "opt_total_packets (st_opt s) < - 1" using assms(1) by (simp add: not_max_iff)
  note t = not_max_plus1[OF this]
  show "unat (opt_total_packets (st_opt s) + 1) = Suc (unat (opt_total_packets (st_opt s)))" by (rule t(1))
  show "count_packet r s = s\<lparr>st_so := (st_so s)\<lparr>so_total_transacted_bytes := so_total_transacted_bytes (st_so s) + word_of_int r\<rparr>,
      st_opt := (st_opt s)\<lparr>opt_total_packets := opt_total_packets (st_opt s) + 1\<rparr>\<rparr>"
    using assms(2) t(2) by (simp add: count_packet_def Let_def)
qed

lemma sim_inc:
  assumes "sim n ps w a i s"
  shows "resq_inc (st_resq s) = Some a" "st_diff s a = nbytes ps (cnt n w (w_file w))" "cnt n w (w_file w) \<le> n"
    "geometry n ps (st_opt s)"
  using assms by (simp_all add: sim_def linked_def current_ok_def Let_def cnt_le)

lemma sim_only_opt: "sim n ps w a i s \<Longrightarrow> only_opt s s2 \<Longrightarrow> sim n ps w a i s2"
  by (rule sim_same) (auto simp: only_opt_def dest: sim_inc(4))

lemma turn_sim:
  assumes sim: "sim n ps w a i s" and lv: "live (Suc m) s" and mal: "malloc_ok mal"
    and p: "length p = ps" "rx_packet p x" and q: "seq_of p < INT64_MAX"
      "w_placed w (seq_of p) = None \<or> seq_of p = w_cur w"
  shows "\<exists>s1. receive_turn mal x s = Inr (s1, Return True) \<and> (\<exists>a' j. sim n ps (turn n (seq_of p) p w) a' j s1) \<and> live m s1"
proof -
  let ?w = "if w_cur w + 1 = start n w + int n then next_file n w else w"
  have "st_free s \<noteq> []" using lv by (auto simp: live_def)
  from switch_sim[OF sim this] obtain s1 a1 j where
    s1: "handle_buffer_switch s = Inr (s1, Return 0)" "sim n ps ?w a1 j s1" "j < n" "opt_kept s s1" by blast
  have l1: "linked n ps ?w a1 j s1" using s1(2) by (simp add: sim_def)
  note d = linkedD[OF l1]
  from arrival[OF d(1) d(8) d(9) s1(3) d(12) p mal] obtain s2 where
    s2: "received_at ps p a1 j s2"
      "only_opt (s1\<lparr>st_data := (st_data s1)(a1 := splice (st_data s1 a1) (j * ps) p)\<rparr>) s2"
      "\<And>s3 b c k. place_packet (seq_of p) s2 = Inr (s3, Return b) \<Longrightarrow> opt_kept s2 s3 \<Longrightarrow>
        resq_inc (st_resq s3) = Some c \<Longrightarrow> st_diff s3 c = nbytes ps k \<Longrightarrow> k \<le> n \<Longrightarrow>
        bindE (recv_into x s1) (udps_handle_received_packet mal (rx_now x) (rx_ret x)) =
          Inr (count_packet (int ps) s3, Return 0)" by blast
  have sim2: "sim n ps ?w a1 j s2" by (rule sim_only_opt[OF sim_scratch[OF s1(2,3) p(1)] s2(2)])
  have "st_free s2 \<noteq> []" using s1(4) s2(2) lv by (auto simp: opt_kept_def only_opt_def live_def)
  moreover have "w_placed ?w (seq_of p) = None \<or> seq_of p = w_cur ?w" using q(2) by simp
  ultimately obtain s3 b a3 k where
    s3: "place_packet (seq_of p) s2 = Inr (s3, Return b)" "sim n ps (place n (seq_of p) p ?w) a3 k s3" "opt_kept s2 s3"
    using place_packet_sim[OF sim2 s2(1) s1(3) _ q(1)] by blast
  note inc = sim_inc[OF s3(2)]
  have body: "bindE (recv_into x s1) (udps_handle_received_packet mal (rx_now x) (rx_ret x)) =
      Inr (count_packet (int ps) s3, Return 0)"
    by (rule s2(3)[OF s3(1,3) inc(1-3)])
  then have "receive_turn mal x s = Inr (count_packet (int ps) s3, Return True)"
    using s1(1) by (auto simp: receive_turn_def)
  moreover
  have o: "opt_status (st_opt s3) = STATUS_RUNNING" "opt_last_packet (st_opt s3) = 0"
    "unat (opt_total_packets (st_opt s3)) + Suc m < 2 ^ 64" "2 * m \<le> length (st_free s3)"
    using lv s1(4) s2(2) s3(3) by (auto simp: live_def opt_kept_def only_opt_def)
  have t: "unat (opt_total_packets (st_opt s3)) + 1 < 2 ^ 64" using o(3) by simp
  have "live m (count_packet (int ps) s3)"
    using o count_packet_live(2)[OF t o(2)] by (simp add: live_def count_packet_live(1)[OF t o(2)])
  moreover have "sim n ps (place n (seq_of p) p ?w) a3 k (count_packet (int ps) s3)"
    by (rule sim_same[OF s3(2)]) (simp_all add: count_packet_live(1)[OF t o(2)] inc(4))
  ultimately show ?thesis unfolding turn_def by blast
qed

section \<open>The first packet\<close>

text \<open>The receiver before any packet.\<close>

definition fresh :: "nat \<Rightarrow> nat \<Rightarrow> addr \<Rightarrow> stream \<Rightarrow> bool" where
  "fresh n ps a s \<longleftrightarrow> (let r = st_resq s in geometry n ps (st_opt s) \<and> st_be s = Some a \<and> resq_inc r = Some a \<and>
     resq_bufstart r = Some (a, 0) \<and> resq_buf r = Some (a, 0) \<and> resq_i r = 0 \<and> resq_current_seq r = INT64_MAX \<and>
     resq_seqstart_current r = INT64_MAX \<and> resq_before r = None \<and> resq_bufstart_before r = None \<and>
     opt_cumul (st_opt s) = 0 \<and> st_fileid s a = 0 \<and> st_diff s a = 0 \<and> length (st_data s a) = n * ps \<and>
     free_ok n ps a s \<and> st_ready s = [])"

definition no_packets :: "int \<Rightarrow> window" where
  "no_packets q = \<lparr>w_first = q, w_cur = q - 1, w_file = 0, w_open = False, w_placed = Map.empty\<rparr>"

lemma first_window_eq: "first_window q p = put q p ((no_packets q)\<lparr>w_cur := q\<rparr>)"
  by (simp add: first_window_def no_packets_def put_def)

lemma fresh_linked:
  assumes "fresh n ps a s" and "q < INT64_MAX"
  shows "linked n ps (no_packets q) a 0 (upd_resq (\<lambda>r. r\<lparr>resq_current_seq := q - 1, resq_seqstart_current := q\<rparr>) s)"
proof -
  note f = assms(1)[unfolded fresh_def Let_def]
  have "ready_ok n ps (no_packets q) []"
    unfolding ready_ok_def by (intro exI[of _ "[]"]) (simp add: done_files_def no_packets_def)
  moreover have "cnt n (no_packets q) 0 = 0" by (simp add: cnt_def no_packets_def)
  ultimately show ?thesis
    using f assms(2)
    by (simp add: linked_def current_ok_def before_ok_def free_ok_def holds_def nbytes_def start_def seq_at_def
        no_packets_def Let_def)
qed

lemma resq_swap:
  "(r :: resq_info)\<lparr>resq_seqstart_current := x, resq_current_seq := y\<rparr> = r\<lparr>resq_current_seq := y, resq_seqstart_current := x\<rparr>"
  by simp

lemma first_place:
  assumes f: "fresh n ps a s" and rc: "received_at ps p a 0 s" and q: "q < INT64_MAX"
  shows "\<exists>s1. place_packet q s = Inr (s1, Return True) \<and> sim n ps (first_window q p) a 1 s1 \<and> opt_kept s s1"
proof -
  let ?s = "upd_resq (\<lambda>r. r\<lparr>resq_current_seq := q - 1, resq_seqstart_current := q\<rparr>) s"
  have l: "linked n ps (no_packets q) a 0 ?s" by (rule fresh_linked[OF f q])
  have n: "0 < n" using f by (simp add: fresh_def Let_def geometry_def)
  have "received_at ps p a 0 ?s" using rc by (simp add: received_at_def)
  from next_in_order_linked[OF l this n, of q] q obtain s1 where
    s1: "next_in_order (upd_resq (\<lambda>r. r\<lparr>resq_current_seq := q\<rparr>) ?s) = Inr s1"
      "linked n ps (first_window q p) a 1 s1" "st_opt s1 = st_opt s" "st_free s1 = st_free s"
    by (auto simp: no_packets_def seq_at_def first_window_eq)
  have "upd_resq (\<lambda>r. r\<lparr>resq_current_seq := q\<rparr>) ?s = upd_resq (\<lambda>r. r\<lparr>resq_current_seq := q, resq_seqstart_current := q\<rparr>) s"
    by simp
  then have "next_in_order (upd_resq (\<lambda>r. r\<lparr>resq_current_seq := q, resq_seqstart_current := q\<rparr>) s) = Inr s1"
    using s1(1) by (simp add: resq_swap)
  then have "place_packet q s = Inr (s1, Return True)"
    using f by (simp add: place_packet_def fresh_def Let_def)
  moreover have "sim n ps (first_window q p) a 1 s1"
    using s1(2,3) f by (simp add: sim_def fresh_def Let_def first_window_def seq_at_def)
  ultimately show ?thesis using s1 opt_kept_same by blast
qed

lemma first_turn:
  assumes f: "fresh n ps a s" and lv: "live (Suc m) s" and mal: "malloc_ok mal"
    and p: "length p = ps" "rx_packet p x" and q: "seq_of p < INT64_MAX"
  shows "\<exists>s1. receive_turn mal x s = Inr (s1, Return True) \<and> (\<exists>a' j. sim n ps (first_window (seq_of p) p) a' j s1) \<and> live m s1"
proof -
  note d = f[unfolded fresh_def Let_def]
  have n: "0 < n" using d by (simp add: geometry_def)
  have g: "geometry n ps (st_opt s)" "resq_buf (st_resq s) = Some (a, int (0 * ps))" "resq_i (st_resq s) = int 0"
    "length (st_data s a) = n * ps" using d by simp_all
  have sw: "handle_buffer_switch s = Inr (s, Return 0)"
    using small_words(2)[OF g(1), of 0] g(3) n by (simp add: handle_buffer_switch_def)
  from arrival[OF g(1,2,3) n g(4) p mal] obtain s2 where
    s2: "received_at ps p a 0 s2"
      "only_opt (s\<lparr>st_data := (st_data s)(a := splice (st_data s a) (0 * ps) p)\<rparr>) s2"
      "\<And>s3 b c k. place_packet (seq_of p) s2 = Inr (s3, Return b) \<Longrightarrow> opt_kept s2 s3 \<Longrightarrow>
        resq_inc (st_resq s3) = Some c \<Longrightarrow> st_diff s3 c = nbytes ps k \<Longrightarrow> k \<le> n \<Longrightarrow>
        bindE (recv_into x s) (udps_handle_received_packet mal (rx_now x) (rx_ret x)) =
          Inr (count_packet (int ps) s3, Return 0)" by blast
  have fit: "length p \<le> n * ps" using n p(1) by (cases n) auto
  have "fresh n ps a s2"
    using d s2(2) fit by (auto simp: fresh_def Let_def only_opt_def free_ok_def)
  from first_place[OF this s2(1) q] obtain s3 where
    s3: "place_packet (seq_of p) s2 = Inr (s3, Return True)" "sim n ps (first_window (seq_of p) p) a 1 s3" "opt_kept s2 s3"
    by blast
  note inc = sim_inc[OF s3(2)]
  have body: "bindE (recv_into x s) (udps_handle_received_packet mal (rx_now x) (rx_ret x)) =
      Inr (count_packet (int ps) s3, Return 0)"
    by (rule s2(3)[OF s3(1,3) inc(1-3)])
  then have "receive_turn mal x s = Inr (count_packet (int ps) s3, Return True)"
    using sw by (auto simp: receive_turn_def)
  moreover
  have o: "opt_status (st_opt s3) = STATUS_RUNNING" "opt_last_packet (st_opt s3) = 0"
    "unat (opt_total_packets (st_opt s3)) + Suc m < 2 ^ 64" "2 * m \<le> length (st_free s3)"
    using lv s2(2) s3(3) by (auto simp: live_def opt_kept_def only_opt_def)
  have t: "unat (opt_total_packets (st_opt s3)) + 1 < 2 ^ 64" using o(3) by simp
  have "live m (count_packet (int ps) s3)"
    using o count_packet_live(2)[OF t o(2)] by (simp add: live_def count_packet_live(1)[OF t o(2)])
  moreover have "sim n ps (first_window (seq_of p) p) a 1 (count_packet (int ps) s3)"
    by (rule sim_same[OF s3(2)]) (simp_all add: count_packet_live(1)[OF t o(2)] inc(4))
  ultimately show ?thesis by blast
qed

section \<open>A stream of packets\<close>

lemma turn_placed: "dom (w_placed (turn n q p w)) \<subseteq> insert q (dom (w_placed w))"
  by (auto simp: turn_def place_def Let_def split: if_splits)

lemma live_running: "live m s \<Longrightarrow> has (get_status_from_opt (st_opt s)) STATUS_RUNNING"
  by (simp add: live_def get_status_from_opt_def has_def STATUS_RUNNING_def flag_def)

definition numbered :: "u8 list list \<Rightarrow> (int \<times> u8 list) list" where
  "numbered ps = map (\<lambda>p. (seq_of p, p)) ps"

lemma loop_sim:
  assumes "sim n ps w a i s" and "live (length xs + m) s" and "malloc_ok mal" and "list_all2 rx_packet pkts xs"
    and "\<forall>p \<in> set pkts. length p = ps \<and> seq_of p < INT64_MAX" and "distinct (map seq_of pkts)"
    and "\<forall>p \<in> set pkts. w_placed w (seq_of p) = None"
  shows "\<exists>s1 a1 j. receive_loop mal (xs @ ys) s = receive_loop mal ys s1 \<and>
    sim n ps (turns n (numbered pkts) w) a1 j s1 \<and> live m s1"
  using assms
proof (induction pkts arbitrary: xs w a i s)
  case Nil
  then show ?case by (auto simp: turns_def numbered_def)
next
  case (Cons p pkts)
  then obtain x xs' where xs: "xs = x # xs'" "rx_packet p x" "list_all2 rx_packet pkts xs'"
    by (auto simp: list_all2_Cons1)
  have lv: "live (Suc (length xs' + m)) s" using Cons.prems(2) xs(1) by simp
  have p: "length p = ps" "seq_of p < INT64_MAX" "w_placed w (seq_of p) = None" using Cons.prems(5,7) by auto
  from turn_sim[OF Cons.prems(1) lv Cons.prems(3) p(1) xs(2) p(2)] p(3) obtain s1 a1 j where
    s1: "receive_turn mal x s = Inr (s1, Return True)" "sim n ps (turn n (seq_of p) p w) a1 j s1"
      "live (length xs' + m) s1" by blast
  have "\<forall>p' \<in> set pkts. w_placed (turn n (seq_of p) p w) (seq_of p') = None"
  proof
    fix p' assume "p' \<in> set pkts"
    then have "w_placed w (seq_of p') = None" using Cons.prems(7) by simp
    moreover have "seq_of p' \<noteq> seq_of p" using Cons.prems(6) imageI[OF \<open>p' \<in> set pkts\<close>, of seq_of] by auto
    ultimately show "w_placed (turn n (seq_of p) p w) (seq_of p') = None"
      using turn_placed[of n "seq_of p" p w] by (auto simp: domIff)
  qed
  from Cons.IH[OF s1(2,3) Cons.prems(3) xs(3) _ _ this] Cons.prems(5,6) obtain s2 a2 k where
    s2: "receive_loop mal (xs' @ ys) s1 = receive_loop mal ys s2"
      "sim n ps (turns n (numbered pkts) (turn n (seq_of p) p w)) a2 k s2" "live m s2" by auto
  have "receive_loop mal (xs @ ys) s = receive_loop mal (xs' @ ys) s1"
    using live_running[OF lv] s1(1) xs(1) by (simp add: receive_loop.simps[of mal "x # _"])
  then show ?case using s2 by (auto simp: turns_def numbered_def)
qed

section \<open>The whole receiver\<close>

text \<open>A recording that is set up: enough free buffers of the right size, nothing received yet.\<close>

definition prepared :: "nat \<Rightarrow> nat \<Rightarrow> nat \<Rightarrow> stream \<Rightarrow> bool" where
  "prepared n ps m s \<longleftrightarrow> geometry n ps (st_opt s) \<and> opt_cumul (st_opt s) = 0 \<and> distinct (st_free s) \<and>
     (\<forall>c \<in> set (st_free s). length (st_data s c) = n * ps) \<and> st_ready s = [] \<and>
     opt_status (st_opt s) = STATUS_RUNNING \<and> opt_last_packet (st_opt s) = 0 \<and>
     2 * m < length (st_free s) \<and> m < 2 ^ 64"

lemma receiver_start_fresh:
  assumes "prepared n ps m s"
  shows "\<exists>s1 a. receiver_start gm s = (s1, Return ()) \<and> fresh n ps a s1 \<and> live m s1"
proof -
  note p = assms[unfolded prepared_def]
  obtain a as where a: "st_free s = a # as" using p by (cases "st_free s") auto
  have g: "\<not> has (opt_optbits (st_opt s)) DATATYPE_UNKNOWN" "\<not> has (opt_optbits (st_opt s)) WAIT_START_ON_METADATA"
    using p by (simp_all add: geometry_def)
  let ?s0 = "reset_udpopts_stats (s\<lparr>st_resq := zero_resq\<rparr>)"
  let ?s1 = "?s0\<lparr>st_free := as, st_fileid := (st_fileid s)(a := 0), st_diff := (st_diff s)(a := 0), st_be := Some a,
      st_resq := init_resq (zero_resq\<lparr>resq_buf := Some (a, 0), resq_inc := Some a\<rparr>)\<rparr>"
  have "receiver_start gm s = (?s1, Return ())"
    using p a g by (simp add: receiver_start_def get_buffer_def reset_udpopts_stats_def Let_def)
  moreover have "fresh n ps a ?s1"
    using p a by (simp add: fresh_def Let_def init_resq_def zero_resq_def reset_udpopts_stats_def free_ok_def)
  moreover have "live m ?s1" using p a by (simp add: live_def reset_udpopts_stats_def)
  ultimately show ?thesis by blast
qed

text \<open>Slot \<open>k\<close> of file \<open>f\<close> holds \<open>p\<close> in what the writer gets.\<close>

definition written :: "nat \<Rightarrow> nat \<Rightarrow> nat \<Rightarrow> u8 list \<Rightarrow> stream \<Rightarrow> bool" where
  "written ps f k p s \<longleftrightarrow> (\<exists>e \<in> set (st_ready s). rd_fileid e = of_nat f \<and> slice (rd_data e) (k * ps) ps = p)"

lemma ready_written:
  assumes "ready_ok n ps w rs" and "f \<in> done_files w" and "k < n" and "w_placed w (seq_at n w f k) = Some p"
  shows "\<exists>e \<in> set rs. rd_fileid e = of_nat f \<and> slice (rd_data e) (k * ps) ps = p"
proof -
  from assms(1) obtain fs where fs: "set fs = done_files w"
    "list_all2 (\<lambda>e f. rd_fileid e = of_nat f \<and> holds n ps w f (rd_data e)) rs fs" by (auto simp: ready_ok_def)
  with assms(2) obtain j where j: "j < length fs" "fs ! j = f" by (metis in_set_conv_nth)
  then have "rd_fileid (rs ! j) = of_nat f" "holds n ps w f (rd_data (rs ! j))" "j < length rs"
    using fs(2) by (auto simp: list_all2_conv_all_nth)
  with assms(3,4) show ?thesis by (intro bexI[of _ "rs ! j"]) (auto simp: holds_def)
qed

lemma end_before_ready:
  assumes bef: "before_ok n ps w a s" and l: "linked n ps w a i s"
  shows "\<exists>s1 es. end_before s = Inr s1 \<and> st_ready s1 = st_ready s @ es \<and> st_be s1 = st_be s \<and> st_resq s1 = st_resq s \<and>
    st_opt s1 = st_opt s \<and> st_data s1 = st_data s \<and> st_fileid s1 = st_fileid s \<and> st_diff s1 a = st_diff s a \<and>
    (w_open w \<longrightarrow> (\<exists>f e. w_file w = Suc f \<and> es = [e] \<and> rd_fileid e = of_nat f \<and> holds n ps w f (rd_data e)))"
proof (cases "w_open w")
  case True
  then obtain b f where b: "b \<noteq> a" "w_file w = Suc f" "resq_before (st_resq s) = Some b"
    "resq_inc_before (st_resq s) = Some b" "st_fileid s b = of_nat f" "holds n ps w f (st_data s b)"
    using bef by (auto simp: before_ok_def)
  then show ?thesis by (simp add: end_before_def put_count_def free_the_buf_def)
next
  case False
  then show ?thesis using bef by (simp add: end_before_def before_ok_def)
qed

lemma nbytes_0_iff:
  assumes "geometry n ps opt"
  shows "nbytes ps (cnt n w f) = 0 \<longleftrightarrow> cnt n w f = 0"
proof -
  have "(of_nat (ps * cnt n w f) :: u64) = of_nat 0 \<longleftrightarrow> ps * cnt n w f = 0"
    by (rule of_nat_64[OF count_bytes[OF assms]]) simp
  then show ?thesis using assms by (simp add: nbytes_def geometry_def)
qed

lemma receiver_end_ready:
  assumes sim: "sim n ps w a i s"
  shows "\<exists>s1 rs. receiver_end s = Inr s1 \<and> st_ready s1 = st_ready s @ rs \<and>
    (w_open w \<longrightarrow> (\<exists>f. w_file w = Suc f \<and> (\<exists>e \<in> set rs. rd_fileid e = of_nat f \<and> holds n ps w f (rd_data e)))) \<and>
    (cnt n w (w_file w) \<noteq> 0 \<longrightarrow> (\<exists>e \<in> set rs. rd_fileid e = of_nat (w_file w) \<and> holds n ps w (w_file w) (rd_data e) \<and>
       rd_diff e = nbytes ps (cnt n w (w_file w))))"
proof -
  have l: "linked n ps w a i s" using sim by (simp add: sim_def)
  then have g: "geometry n ps (st_opt s)" and bef: "before_ok n ps w a s" by (simp_all add: linked_def)
  have c: "st_be s = Some a" "resq_inc (st_resq s) = Some a" "st_fileid s a = of_nat (w_file w)"
    "st_diff s a = nbytes ps (cnt n w (w_file w))" "holds n ps w (w_file w) (st_data s a)"
    using l by (simp_all add: linked_def current_ok_def Let_def)
  from end_before_ready[OF bef l] obtain s1 es where
    s1: "end_before s = Inr s1" "st_ready s1 = st_ready s @ es" "st_be s1 = st_be s" "st_resq s1 = st_resq s"
      "st_opt s1 = st_opt s" "st_data s1 = st_data s" "st_fileid s1 = st_fileid s" "st_diff s1 a = st_diff s a"
      "w_open w \<longrightarrow> (\<exists>f e. w_file w = Suc f \<and> es = [e] \<and> rd_fileid e = of_nat f \<and> holds n ps w f (rd_data e))" by blast
  have close: "st_ready (if b then close_socket t else t) = st_ready t" for b t by (simp add: close_socket_def)
  show ?thesis
  proof (cases "cnt n w (w_file w) = 0")
    case True
    then have "end_current s1 = Inr (s1\<lparr>st_be := None\<rparr>)"
      using c s1 nbytes_0_iff[OF g, of w "w_file w"] by (simp add: end_current_def get_count_def)
    then show ?thesis using s1(1,2,9) True by (auto simp: receiver_end_def close)
  next
    case False
    then obtain s2 where s2: "end_current s1 = Inr s2" "st_ready s2 = st_ready s1 @
        [\<lparr>rd_be = a, rd_fileid = st_fileid s a, rd_diff = st_diff s a, rd_data = st_data s a\<rparr>]"
      using c s1 nbytes_0_iff[OF g, of w "w_file w"]
      by (simp add: end_current_def get_count_def free_the_buf_def Let_def)
    then show ?thesis using s1(1,2,9) c by (auto simp: receiver_end_def close)
  qed
qed

lemma receiver_end_written:
  assumes sim: "sim n ps w a i s" and k: "k < n" and p: "w_placed w (seq_at n w f k) = Some p"
  shows "\<exists>s1. receiver_end s = Inr s1 \<and> written ps f k p s1"
proof -
  have l: "linked n ps w a i s" and cur: "w_cur w + 1 = start n w + int i" using sim seq_at_start(1) by (simp_all add: sim_def)
  have rd: "ready_ok n ps w (st_ready s)" using l by (simp add: linked_def)
  from receiver_end_ready[OF sim] obtain s1 rs where e: "receiver_end s = Inr s1" "st_ready s1 = st_ready s @ rs"
    "w_open w \<longrightarrow> (\<exists>f. w_file w = Suc f \<and> (\<exists>e \<in> set rs. rd_fileid e = of_nat f \<and> holds n ps w f (rd_data e)))"
    "cnt n w (w_file w) \<noteq> 0 \<longrightarrow> (\<exists>e \<in> set rs. rd_fileid e = of_nat (w_file w) \<and> holds n ps w (w_file w) (rd_data e))"
    by blast
  have holds: "written ps f k p s1" if "e \<in> set rs" "rd_fileid e = of_nat f" "holds n ps w f (rd_data e)" for e
    using that k p e(2) by (auto simp: written_def holds_def)
  have "i \<le> n" using l by (simp add: linked_def current_ok_def Let_def)
  moreover have "seq_at n w f k \<le> w_cur w" using sim p by (auto simp: sim_def)
  ultimately have "int (n * f + k) < int (n * w_file w + n)" using cur unfolding seq_at_def start_def by linarith
  then have "n * f + k < n * w_file w + n" by (simp only: of_nat_less_iff)
  then have "f \<le> w_file w" using k by (metis add_lessD1 mult_Suc_right mult_less_cancel1 add.commute less_Suc_eq_le)
  then have "f \<in> done_files w \<or> w_open w \<and> w_file w = Suc f \<or> f = w_file w" by (auto simp: done_files_def)
  then consider "f \<in> done_files w" | "w_open w" "w_file w = Suc f" | "f = w_file w" by blast
  then have "written ps f k p s1"
  proof cases
    case 1
    from ready_written[OF rd 1 k p] show ?thesis using e(2) by (auto simp: written_def)
  next
    case 2
    then show ?thesis using e(3) holds by auto
  next
    case 3
    then have "k \<in> {k. k < n \<and> w_placed w (seq_at n w (w_file w) k) \<noteq> None}" using k p by simp
    then have "cnt n w (w_file w) \<noteq> 0" unfolding cnt_def by (subst card_0_eq) auto
    then show ?thesis using e(4) holds 3 by auto
  qed
  with e(1) show ?thesis by blast
qed

text \<open>The end of a recording: the main thread shuts the socket down, and \<open>recv\<close> returns 0.\<close>

lemma shutdown_sim:
  assumes sim: "sim n ps w a i s" and lv: "live 1 s" and x: "rx_ret x = 0"
  shows "\<exists>s1 a1 j. receive_loop mal [x] s = Inr (s1, Done (Return ())) \<and>
    sim n ps (if w_cur w + 1 = start n w + int n then next_file n w else w) a1 j s1"
proof -
  have "st_free s \<noteq> []" using lv by (auto simp: live_def)
  from switch_sim[OF sim this] obtain s1 a1 j where
    s1: "handle_buffer_switch s = Inr (s1, Return 0)"
      "sim n ps (if w_cur w + 1 = start n w + int n then next_file n w else w) a1 j s1" by blast
  have "receive_turn mal x s = Inr (s1, Return False)"
    using s1(1) x by (simp add: receive_turn_def recv_into_def udps_handle_received_packet_def)
  then have "receive_loop mal [x] s = Inr (s1, Done (Return ()))"
    using live_running[OF lv] by (simp add: receive_loop.simps[of mal "[x]"])
  with s1(2) show ?thesis by blast
qed

text \<open>The assumptions on a stream of packets: all of the right size, no sequence number twice.\<close>

definition good_stream :: "nat \<Rightarrow> u8 list list \<Rightarrow> rx list \<Rightarrow> bool" where
  "good_stream ps pkts xs \<longleftrightarrow> pkts \<noteq> [] \<and> list_all2 rx_packet pkts xs \<and>
     (\<forall>p \<in> set pkts. length p = ps \<and> seq_of p < INT64_MAX) \<and> distinct (map seq_of pkts)"

definition stream_window :: "nat \<Rightarrow> u8 list list \<Rightarrow> window" where
  "stream_window n pkts = turns n (numbered (tl pkts)) (first_window (seq_of (hd pkts)) (hd pkts))"

lemma first_placed: "w_first (turn n q p w) = w_first w"
  by (simp add: turn_def place_def Let_def)

lemma turns_first: "w_first (turns n qs w) = w_first w"
  by (induction qs arbitrary: w) (auto simp: turns_def first_placed)

lemma stream_first [simp]: "w_first (stream_window n pkts) = seq_of (hd pkts)"
  by (simp add: stream_window_def turns_first) (simp add: first_window_def)

lemma receiver_sim:
  assumes pr: "prepared n ps (Suc (length pkts)) s" and mal: "malloc_ok mal" and st: "good_stream ps pkts xs"
  shows "\<exists>s1 s2 a i. receiver_start gm s = (s1, Return ()) \<and> receive_loop mal (xs @ ys) s1 = receive_loop mal ys s2 \<and>
    sim n ps (stream_window n pkts) a i s2 \<and> live 1 s2"
proof -
  from st obtain p pkts' x xs' where l: "pkts = p # pkts'" "xs = x # xs'" "rx_packet p x" "list_all2 rx_packet pkts' xs'"
    unfolding good_stream_def by (metis list_all2_Cons1 neq_Nil_conv)
  have len: "length xs' = length pkts'" using l(4) by (simp add: list_all2_lengthD)
  from receiver_start_fresh[OF pr] obtain s1 a where
    s1: "receiver_start gm s = (s1, Return ())" "fresh n ps a s1" "live (Suc (length pkts)) s1" by blast
  have lv: "live (Suc (length xs' + 1)) s1" using s1(3) l(1) len by simp
  have p: "length p = ps" "seq_of p < INT64_MAX" using st l(1) by (auto simp: good_stream_def)
  from first_turn[OF s1(2) lv mal p(1) l(3) p(2)] obtain s2 b j where
    s2: "receive_turn mal x s1 = Inr (s2, Return True)" "sim n ps (first_window (seq_of p) p) b j s2" "live (length xs' + 1) s2"
    by blast
  have new: "\<forall>p' \<in> set pkts'. w_placed (first_window (seq_of p) p) (seq_of p') = None"
  proof -
    have "seq_of p \<notin> set (map seq_of pkts')" using st l(1) by (simp add: good_stream_def)
    then show ?thesis by (auto simp: first_window_def image_iff)
  qed
  from loop_sim[OF s2(2,3) mal l(4) _ _ new, of ys] st l(1) obtain s3 c k where
    s3: "receive_loop mal (xs' @ ys) s2 = receive_loop mal ys s3"
      "sim n ps (turns n (numbered pkts') (first_window (seq_of p) p)) c k s3" "live 1 s3"
    by (auto simp: good_stream_def)
  have "receive_loop mal (xs @ ys) s1 = receive_loop mal ys s3"
    using live_running[OF lv] s2(1) s3(1) l(2) by (simp add: receive_loop.simps[of mal "x # _"])
  then show ?thesis using s1(1) s3(2,3) l(1) by (auto simp: stream_window_def)
qed

lemma receiver_written:
  assumes pr: "prepared n ps (Suc (length pkts)) s" and mal: "malloc_ok mal" and st: "good_stream ps pkts xs"
    and x: "rx_ret x = 0"
  shows "\<exists>s1. udp_receiver mal gm (xs @ [x]) s = Inr (s1, Done ()) \<and>
    (\<forall>f k p. k < n \<longrightarrow> w_placed (stream_window n pkts) (seq_of (hd pkts) + int (n * f + k)) = Some p \<longrightarrow>
      written ps f k p s1)"
proof -
  let ?w = "stream_window n pkts"
  from receiver_sim[OF pr mal st, of gm "[x]"] obtain s1 s2 a i where
    s2: "receiver_start gm s = (s1, Return ())" "receive_loop mal (xs @ [x]) s1 = receive_loop mal [x] s2"
      "sim n ps ?w a i s2" "live 1 s2" by blast
  let ?w1 = "if w_cur ?w + 1 = start n ?w + int n then next_file n ?w else ?w"
  from shutdown_sim[OF s2(3,4) x] obtain s3 b j where
    s3: "receive_loop mal [x] s2 = Inr (s3, Done (Return ()))" "sim n ps ?w1 b j s3" by blast
  from receiver_end_ready[OF s3(2)] obtain s4 where s4: "receiver_end s3 = Inr s4" by blast
  have "udp_receiver mal gm (xs @ [x]) s = Inr (s4, Done ())"
    using s2(1,2) s3(1) s4 by (simp add: udp_receiver_def)
  moreover have "written ps f k p s4" if "k < n" "w_placed ?w (seq_of (hd pkts) + int (n * f + k)) = Some p" for f k p
  proof -
    have "w_placed ?w1 (seq_at n ?w1 f k) = Some p"
      using that(2) by (auto simp: seq_at_def)
    from receiver_end_written[OF s3(2) that(1) this] s4 show ?thesis by auto
  qed
  ultimately show ?thesis by blast
qed

section \<open>Bounded reordering\<close>

text \<open>Every packet comes within \<open>n\<close> of the newest one so far, and none before the first.\<close>

fun mild :: "nat \<Rightarrow> int \<Rightarrow> int \<Rightarrow> int list \<Rightarrow> bool" where
  "mild n first newest [] = True"
| "mild n first newest (q # qs) =
     (first \<le> q \<and> newest - int n < q \<and> q < newest + int n \<and> mild n first (max newest q) qs)"

definition nothing_closed :: "nat \<Rightarrow> window \<Rightarrow> bool" where
  "nothing_closed n w \<longleftrightarrow> start n w \<le> w_cur w + 1 \<and> w_cur w + 1 \<le> start n w + int n \<and> w_placed w (w_cur w) \<noteq> None \<and>
     (w_file w \<noteq> 0 \<longrightarrow> \<not> w_open w \<longrightarrow> cnt n w (w_file w - 1) = n)"

lemma cnt_full: "cnt n w f = n \<Longrightarrow> k < n \<Longrightarrow> w_placed w (seq_at n w f k) \<noteq> None"
  using cnt_less[of k n w f] by (metis less_irrefl)

lemma nothing_closed_next:
  assumes "nothing_closed n w" and "w_cur w + 1 = start n w + int n"
  shows "nothing_closed n (next_file n w)"
  using assms cnt_le[of n w "w_file w"] by (auto simp: nothing_closed_def)

lemma cnt_put_ge: "cnt n w f \<le> cnt n (put q p w) f"
  unfolding cnt_def by (rule card_mono) auto

lemma place_mild:
  assumes w: "nothing_closed n w" "w_cur w + 1 < start n w + int n" and un: "w_placed w q = None"
    and q: "w_first w \<le> q" "w_cur w - int n < q" "q < w_cur w + int n"
  shows "w_placed (place n q p w) = (w_placed w)(q \<mapsto> p) \<and> w_cur (place n q p w) = max (w_cur w) q \<and>
    nothing_closed n (place n q p w)"
proof -
  note c = w(1)[unfolded nothing_closed_def]
  have ne: "q \<noteq> w_cur w" using c un by auto
  consider "q < start n w" "q < w_cur w" | "start n w \<le> q" "q < w_cur w" | "w_cur w < q" "q < start n w + int n"
    | "start n w + int n \<le> q" "w_cur w < q" using ne by linarith
  then show ?thesis
  proof cases
    case 1
    have f: "w_file w \<noteq> 0" using 1(1) q(1) by (auto simp: start_def seq_at_def intro: ccontr)
    then obtain f where f': "w_file w = Suc f" by (cases "w_file w") auto
    define k where "k = nat (q - (start n w - int n))"
    have k: "k < n" "q = seq_at n w f k" using 1 q(2) c seq_at_start(3)[OF f'] by (auto simp: k_def)
    have "w_open w" using cnt_full[of n w f k] k un c f f' by auto
    moreover have "\<not> q < start n w - int n" using q(2) c by linarith
    ultimately have p: "place n q p w = (put q p w)\<lparr>w_open := cnt n (put q p w) f < n\<rparr>"
      using 1 f' by (simp add: place_def Let_def)
    have "nothing_closed n (place n q p w)"
      unfolding p using c f' cnt_le[of n "put q p w" f] by (auto simp: nothing_closed_def)
    then show ?thesis using 1 by (simp add: p)
  next
    case 2
    then have p: "place n q p w = put q p w" using c by (simp add: place_def)
    have "nothing_closed n (put q p w)"
      using c cnt_put_ge[of n w "w_file w - 1" q p] cnt_le[of n "put q p w" "w_file w - 1"]
      by (auto simp: nothing_closed_def)
    then show ?thesis using 2 by (simp add: p)
  next
    case 3
    then have p: "place n q p w = put q p (w\<lparr>w_cur := q\<rparr>)" using c by (simp add: place_def)
    have "nothing_closed n (put q p (w\<lparr>w_cur := q\<rparr>))"
      using c 3 cnt_put_ge[of n "w\<lparr>w_cur := q\<rparr>" "w_file w - 1" q p] cnt_le[of n "put q p (w\<lparr>w_cur := q\<rparr>)" "w_file w - 1"]
      by (auto simp: nothing_closed_def)
    then show ?thesis using 3 by (simp add: p)
  next
    case 4
    then have p: "place n q p w = put q p ((next_file n w)\<lparr>w_cur := q\<rparr>)" using c w(2) q(3) by (simp add: place_def)
    have e: "cnt n (put q p ((next_file n w)\<lparr>w_cur := q\<rparr>)) (w_file w) = n" if "\<not> cnt n w (w_file w) < n"
      using that cnt_put_ge[of n "(next_file n w)\<lparr>w_cur := q\<rparr>" "w_file w" q p]
        cnt_le[of n "put q p ((next_file n w)\<lparr>w_cur := q\<rparr>)" "w_file w"] by simp
    have "nothing_closed n (put q p ((next_file n w)\<lparr>w_cur := q\<rparr>))"
      using c 4 e w(2) q(3) by (auto simp: nothing_closed_def)
    then show ?thesis using 4 by (simp add: p)
  qed
qed

lemma turn_mild:
  assumes w: "nothing_closed n w" and n: "0 < n" and un: "w_placed w q = None"
    and q: "w_first w \<le> q" "w_cur w - int n < q" "q < w_cur w + int n"
  shows "w_placed (turn n q p w) = (w_placed w)(q \<mapsto> p) \<and> w_cur (turn n q p w) = max (w_cur w) q \<and>
    nothing_closed n (turn n q p w)"
proof (cases "w_cur w + 1 = start n w + int n")
  case True
  then show ?thesis
    using place_mild[OF nothing_closed_next[OF w True], of q p] un q n by (simp add: turn_def)
next
  case False
  then have "w_cur w + 1 < start n w + int n" using w by (auto simp: nothing_closed_def)
  from place_mild[OF w this un q] False show ?thesis by (simp add: turn_def)
qed

lemma turns_mild:
  assumes "nothing_closed n w" and "0 < n" and "mild n (w_first w) (w_cur w) (map fst qs)"
    and "distinct (map fst qs)" and "\<forall>x \<in> set qs. w_placed w (fst x) = None"
  shows "w_placed (turns n qs w) = w_placed w ++ map_of qs"
  using assms
proof (induction qs arbitrary: w)
  case Nil
  then show ?case by (simp add: turns_def)
next
  case (Cons x qs)
  obtain q p where x: "x = (q, p)" by (cases x)
  let ?w = "turn n q p w"
  have t: "w_placed ?w = (w_placed w)(q \<mapsto> p)" "w_cur ?w = max (w_cur w) q" "nothing_closed n ?w"
    using turn_mild[OF Cons.prems(1,2), of q p] Cons.prems(3,5) x by auto
  have "w_placed (turns n qs ?w) = w_placed ?w ++ map_of qs"
    by (rule Cons.IH[OF t(3) Cons.prems(2)])
      (use Cons.prems(3-5) t(1,2) x in \<open>force simp: first_placed\<close>)+
  moreover have "(w_placed w)(q \<mapsto> p) ++ map_of qs = w_placed w ++ map_of (x # qs)"
    using Cons.prems(4) x by (auto simp: map_add_def fun_eq_iff image_iff split: option.split dest: map_of_SomeD)
  moreover have "turns n (x # qs) w = turns n qs ?w" by (simp add: turns_def x)
  ultimately show ?case by (simp only: t(1))
qed

lemma numbered_simps [simp]: "map fst (numbered ps) = map seq_of ps" "fst ` set (numbered ps) = seq_of ` set ps"
  by (auto simp: numbered_def image_image)

lemma stream_window_mild:
  assumes st: "good_stream ps pkts xs" and n: "0 < n"
    and mild: "mild n (seq_of (hd pkts)) (seq_of (hd pkts)) (map seq_of (tl pkts))" and p: "p \<in> set pkts"
  shows "w_placed (stream_window n pkts) (seq_of p) = Some p"
proof -
  obtain p0 ps' where l: "pkts = p0 # ps'" using st by (cases pkts) (auto simp: good_stream_def)
  let ?w = "first_window (seq_of p0) p0"
  have d: "distinct (map seq_of pkts)" using st by (simp add: good_stream_def)
  then have new: "seq_of p0 \<notin> seq_of ` set ps'" using l by simp
  have "w_placed (turns n (numbered ps') ?w) = w_placed ?w ++ map_of (numbered ps')"
  proof (rule turns_mild[OF _ n])
    show "nothing_closed n ?w" using n by (simp add: nothing_closed_def first_window_def start_def seq_at_def)
    show "mild n (w_first ?w) (w_cur ?w) (map fst (numbered ps'))" using mild l by (simp add: first_window_def)
    show "distinct (map fst (numbered ps'))" using d l by simp
    show "\<forall>x \<in> set (numbered ps'). w_placed ?w (fst x) = None"
      using new by (auto simp: first_window_def numbered_def image_iff)
  qed
  moreover have "map_of (numbered ps') (seq_of p) = Some p" if "p \<in> set ps'"
  proof (rule map_of_is_SomeI)
    show "distinct (map fst (numbered ps'))" using d l by simp
    show "(seq_of p, p) \<in> set (numbered ps')" using that by (simp add: numbered_def)
  qed
  moreover have "map_of (numbered ps') (seq_of p0) = None" using new by (simp add: map_of_eq_None_iff)
  ultimately show ?thesis using p l by (auto simp: stream_window_def first_window_def map_add_def)
qed

lemma mild_first:
  "mild n first newest qs \<Longrightarrow> q \<in> set qs \<Longrightarrow> first \<le> q"
  by (induction qs arbitrary: newest) auto

text \<open>C3: the receiver puts every packet it accepts into the file and the slot of its sequence number. For
  any stream of UDPMON packets with different sequence numbers, in any order, it ends without a fault
  when the socket is shut down, and each packet the specification places is, at its slot, in the
  buffer of its file that the writer got.\<close>

theorem receiver_refines_window:
  assumes "prepared n ps (Suc (length pkts)) s" and "malloc_ok mal" and "good_stream ps pkts xs" and "rx_ret x = 0"
  shows "\<exists>s1. udp_receiver mal gm (xs @ [x]) s = Inr (s1, Done ()) \<and>
    (\<forall>f k p. k < n \<longrightarrow> w_placed (stream_window n pkts) (seq_of (hd pkts) + int (n * f + k)) = Some p \<longrightarrow>
      written ps f k p s1)"
  by (rule receiver_written[OF assms])


section \<open>Examples\<close>

definition example_opt :: opt_s where
  "example_opt = zero_opt\<lparr>opt_buf_num_elems := 3, opt_packet_size := 8, opt_optbits := DATATYPE_UDPMON,
     opt_fi := Some 0, opt_status := STATUS_RUNNING\<rparr>"

definition example_stream :: stream where
  "example_stream = \<lparr>st_opt = example_opt, st_so = \<lparr>so_fd = 3, so_fd_send = 0, so_wrongsizeerrors = 0, so_missing = 0,
       so_total_transacted_bytes = 0, so_incomplete = 0, so_files_sent = 0, so_out_of_order = 0\<rparr>,
     st_resq = zero_resq, st_be = None, st_diff = (\<lambda>_. 0), st_fileid = (\<lambda>_. 0), st_data = (\<lambda>_. replicate 24 0),
     st_free = [1, 2, 3, 4, 5, 6, 7, 8, 9], st_ready = [], st_fi_packets = 0, st_forwarded = []\<rparr>"

definition example_packet :: "u64 \<Rightarrow> u8 list" where
  "example_packet q = word_be 8 q"

definition example_rx :: "u64 \<Rightarrow> rx" where
  "example_rx q = \<lparr>rx_ret = 8, rx_bytes = example_packet q, rx_now = 0\<rparr>"

definition shutdown_rx :: rx where
  "shutdown_rx = \<lparr>rx_ret = 0, rx_bytes = [], rx_now = 0\<rparr>"

lemma example_seq [simp]: "seq_of (example_packet q) = sint q" "length (example_packet q) = 8"
  by (simp_all add: seq_of_def example_packet_def)

lemma example_geometry: "geometry 3 8 example_opt"
  by (simp add: geometry_def example_opt_def zero_opt_def has_def LOCKER_DATATYPE_def DATATYPE_UDPMON_def
      DATATYPE_UNKNOWN_def WAIT_START_ON_METADATA_def flag_def)

lemma example_prepared: "prepared 3 8 4 example_stream"
  using example_geometry
  by (simp add: prepared_def example_stream_def) (simp add: example_opt_def zero_opt_def)

lemma example_good: "good_stream 8 (map example_packet [5, 7, 6]) (map example_rx [5, 7, 6])"
  by (simp add: good_stream_def rx_packet_def example_rx_def INT64_MAX_def)

theorem receiver_refines_window_witness:
  "\<exists>s1. udp_receiver (\<lambda>_. Some (replicate 8 0)) (\<lambda>_. zero_tm) (map example_rx [5, 7, 6] @ [shutdown_rx]) example_stream = Inr (s1, Done ()) \<and>
    written 8 0 0 (example_packet 5) s1"
proof -
  have "prepared 3 8 (Suc (length (map example_packet [5, 7, 6]))) example_stream"
    using example_prepared by (simp add: numeral_eq_Suc)
  moreover have "malloc_ok (\<lambda>_. Some (replicate 8 0))" by (simp add: malloc_ok_def HSIZE_UDPMON_def)
  moreover have "rx_ret shutdown_rx = 0" by (simp add: shutdown_rx_def)
  ultimately obtain s1 where s1: "udp_receiver (\<lambda>_. Some (replicate 8 0)) (\<lambda>_. zero_tm)
      (map example_rx [5, 7, 6] @ [shutdown_rx]) example_stream = Inr (s1, Done ())"
    "\<forall>f k p. k < 3 \<longrightarrow> w_placed (stream_window 3 (map example_packet [5, 7, 6]))
       (seq_of (hd (map example_packet [5, 7, 6])) + int (3 * f + k)) = Some p \<longrightarrow> written 8 f k p s1"
    using receiver_refines_window[OF _ _ example_good] by blast
  have "w_placed (stream_window 3 (map example_packet [5, 7, 6])) 5 = Some (example_packet 5)"
    by (simp add: stream_window_def first_window_def turns_def numbered_def turn_def place_def start_def seq_at_def put_def
        next_file_def Let_def)
  with s1 show ?thesis by (intro exI[of _ s1]) (auto dest!: spec[of _ 0])
qed


section \<open>Where the receiver fails\<close>

definition example_run :: "u64 list \<Rightarrow> (stream \<times> unit wait) outcome" where
  "example_run qs = udp_receiver (\<lambda>_. Some (replicate 8 0)) (\<lambda>_. zero_tm) (map example_rx qs @ [shutdown_rx]) example_stream"

text \<open>A packet that the network delivers twice stops the program. The second copy of an older packet of
  the current file is counted again, and when the file is full the counter is past the size of the
  buffer, which the assertion after \<open>calc_bufpos_general\<close> does not survive.\<close>

theorem duplicate_packet_aborts:
  "udp_receiver (\<lambda>_. Some (replicate 8 0)) (\<lambda>_. zero_tm) (map example_rx [5, 6, 5, 7] @ [shutdown_rx]) example_stream =
    Inl Assert_Failed"
proof -
  have "case example_run [5, 6, 5, 7] of Inl e \<Rightarrow> e = Assert_Failed | Inr _ \<Rightarrow> False" by code_simp
  then show ?thesis by (simp add: example_run_def split: sum.splits)
qed

definition files_of :: "stream \<Rightarrow> (u64 \<times> u64 \<times> u8 list) list" where
  "files_of s = map (\<lambda>e. (rd_fileid e, rd_diff e, rd_data e)) (st_ready s)"

text \<open>A hole in the last file costs its last packet. Of the packets 5, 6, 7 and 9 in files of three, the
  second file has packet 9 in its second slot, but the writer is told to write only the eight bytes
  of the first slot: the counter has the number of packets, not the end of the last one.\<close>

theorem last_file_cut_short:
  "\<exists>s1. udp_receiver (\<lambda>_. Some (replicate 8 0)) (\<lambda>_. zero_tm) (map example_rx [5, 6, 7, 9] @ [shutdown_rx]) example_stream =
      Inr (s1, Done ()) \<and>
    (\<exists>d. files_of s1 = [(0, 24, example_packet 5 @ example_packet 6 @ example_packet 7), (1, 8, d)] \<and>
      slice d 8 8 = example_packet 9)"
proof -
  have "case example_run [5, 6, 7, 9] of Inl e \<Rightarrow> False | Inr (s1, r) \<Rightarrow> r = Done () \<and>
      files_of s1 = [(0, 24, example_packet 5 @ example_packet 6 @ example_packet 7),
        (1, 8, example_packet 9 @ example_packet 9 @ replicate 8 0)]" by code_simp
  moreover have "slice (example_packet 9 @ example_packet 9 @ replicate 8 0) 8 8 = example_packet 9" by code_simp
  ultimately show ?thesis by (auto simp: example_run_def split: sum.splits prod.splits)
qed

text \<open>Packets are not counted when the stream jumps over the end of a file. After packets 5 and 8 in
  files of three, two files are with the writer, but the recording counts a single packet, though it
  reaches into the second file.\<close>

theorem jump_ahead_uncounted:
  "\<exists>s1. udp_receiver (\<lambda>_. Some (replicate 8 0)) (\<lambda>_. zero_tm) (map example_rx [5, 8] @ [shutdown_rx]) example_stream =
      Inr (s1, Done ()) \<and> map fst (files_of s1) = [0, 1] \<and> st_fi_packets s1 = 1"
proof -
  have "case example_run [5, 8] of Inl e \<Rightarrow> False | Inr (s1, r) \<Rightarrow> r = Done () \<and>
      map fst (files_of s1) = [0, 1] \<and> st_fi_packets s1 = 1" by code_simp
  then show ?thesis by (auto simp: example_run_def split: sum.splits prod.splits)
qed

end
