(* ===== verification/World.thy ===== *)
theory World
  imports FileIndex Datatypes
begin

text \<open>
  What the callbacks of the disk and memory branches act on: the option records, the recording
  points (\<open>struct recording_entity\<close> with its \<open>struct common_io_info\<close>), the buffers (\<open>struct
  buffer_entity\<close> with its \<open>struct simplebuf\<close>), the memory of the buffers, the
  sequencing state \<open>opt->resqut\<close> of each option record, the file index, and the
  part of POSIX the writers call.

  The operating system is a small file system with open file descriptions. Each call first takes the
  next element of the script \<open>os_script\<close>: the system may refuse the call with an error number, or
  transfer at most a given number of bytes. When the script is used up every call succeeds in full.
\<close>

section \<open>POSIX calls\<close>

datatype reply = Refuse int | Upto nat

record os =
  os_files :: "string \<Rightarrow> u8 list option"
  os_dirs :: "string \<Rightarrow> bool"
  os_fds :: "int \<Rightarrow> (string \<times> nat) option"
  os_next_fd :: int
  os_errno :: int
  os_script :: "reply list"

definition ENOENT :: int where "ENOENT = 2"
definition EBADF :: int where "EBADF = 9"
definition EACCES :: int where "EACCES = 13"
definition EEXIST :: int where "EEXIST = 17"
definition ENOTDIR :: int where "ENOTDIR = 20"
definition ENOSPC :: int where "ENOSPC = 28"
definition EOPNOTSUPP :: int where "EOPNOTSUPP = 95"

lemmas errno_defs = ENOENT_def EBADF_def EACCES_def EEXIST_def ENOTDIR_def ENOSPC_def EOPNOTSUPP_def

definition O_WRONLY :: u32 where "O_WRONLY = 1"
definition O_RDWR :: u32 where "O_RDWR = 2"
definition O_CREAT :: u32 where "O_CREAT = 64"
definition O_DIRECT :: u32 where "O_DIRECT = 0x4000"
definition O_NOATIME :: u32 where "O_NOATIME = 0x40000"
definition O_SYNC :: u32 where "O_SYNC = 0x101000"

lemmas open_flag_defs = O_WRONLY_def O_RDWR_def O_CREAT_def O_DIRECT_def O_NOATIME_def O_SYNC_def

definition refuse :: "int \<Rightarrow> os \<Rightarrow> os" where
  "refuse e s = s\<lparr>os_errno := e\<rparr>"

text \<open>\<open>granted n s\<close>: how many of \<open>n\<close> bytes the next transfer moves, or -1.\<close>

definition granted :: "nat \<Rightarrow> os \<Rightarrow> os \<times> int" where
  "granted n s = (case os_script s of
       [] \<Rightarrow> (s, int n)
     | Upto k # r \<Rightarrow> (s\<lparr>os_script := r\<rparr>, int (min n k))
     | Refuse e # r \<Rightarrow> (refuse e (s\<lparr>os_script := r\<rparr>), - 1))"

definition permitted :: "os \<Rightarrow> os \<times> bool" where
  "permitted s = (let (s', r) = granted 0 s in (s', 0 \<le> r))"

definition write_at :: "u8 list \<Rightarrow> nat \<Rightarrow> u8 list \<Rightarrow> u8 list" where
  "write_at f off data = (if data = [] then f
     else take off (f @ replicate (off - length f) 0) @ data @ drop (off + length data) f)"

definition the_file :: "os \<Rightarrow> string \<Rightarrow> u8 list" where
  "the_file s p = (case os_files s p of None \<Rightarrow> [] | Some f \<Rightarrow> f)"

definition put_bytes :: "string \<Rightarrow> nat \<Rightarrow> u8 list \<Rightarrow> os \<Rightarrow> os" where
  "put_bytes p off data s = s\<lparr>os_files := (os_files s)(p \<mapsto> write_at (the_file s p) off data)\<rparr>"

definition seek_fd :: "int \<Rightarrow> string \<Rightarrow> nat \<Rightarrow> os \<Rightarrow> os" where
  "seek_fd fd p off s = s\<lparr>os_fds := (os_fds s)(fd \<mapsto> (p, off))\<rparr>"

definition sys_write :: "int \<Rightarrow> u8 list \<Rightarrow> os \<Rightarrow> os \<times> int" where
  "sys_write fd data s = (case os_fds s fd of
       None \<Rightarrow> (refuse EBADF s, - 1)
     | Some (p, off) \<Rightarrow> (let (s1, k) = granted (length data) s in
         if k < 0 then (s1, - 1)
         else (seek_fd fd p (off + nat k) (put_bytes p off (take (nat k) data) s1), k)))"

definition sys_read :: "int \<Rightarrow> nat \<Rightarrow> os \<Rightarrow> os \<times> int \<times> u8 list" where
  "sys_read fd n s = (case os_fds s fd of
       None \<Rightarrow> (refuse EBADF s, - 1, [])
     | Some (p, off) \<Rightarrow> (let rest = take n (drop off (the_file s p)); (s1, k) = granted (length rest) s in
         if k < 0 then (s1, - 1, [])
         else (seek_fd fd p (off + nat k) s1, k, take (nat k) rest)))"

definition sys_pwritev :: "int \<Rightarrow> u8 list list \<Rightarrow> nat \<Rightarrow> os \<Rightarrow> os \<times> int" where
  "sys_pwritev fd iov off s = (case os_fds s fd of
       None \<Rightarrow> (refuse EBADF s, - 1)
     | Some (p, _) \<Rightarrow> (let (s1, k) = granted (length (concat iov)) s in
         if k < 0 then (s1, - 1) else (put_bytes p off (take (nat k) (concat iov)) s1, k)))"

text \<open>\<open>sendfile\<close> reads at the given offset, which it advances, and writes at the offset of the output.\<close>

definition sys_sendfile :: "int \<Rightarrow> int \<Rightarrow> nat \<Rightarrow> nat \<Rightarrow> os \<Rightarrow> os \<times> int" where
  "sys_sendfile out_fd in_fd off n s = (case (os_fds s out_fd, os_fds s in_fd) of
       (Some (p, o1), Some (q, _)) \<Rightarrow>
         (let rest = take n (drop off (the_file s q)); (s1, k) = granted (length rest) s in
          if k < 0 then (s1, - 1)
          else (seek_fd out_fd p (o1 + nat k) (put_bytes p o1 (take (nat k) rest) s1), k))
     | _ \<Rightarrow> (refuse EBADF s, - 1))"

definition parent :: "string \<Rightarrow> string" where
  "parent p = rev (tl (dropWhile (\<lambda>c. c \<noteq> CHR ''/'') (rev p)))"

text \<open>\<open>stat\<close>: the size of a file, or that it is a directory.\<close>

datatype statbuf = Is_File nat | Is_Dir

definition sys_stat :: "string \<Rightarrow> os \<Rightarrow> os \<times> statbuf option" where
  "sys_stat p s = (let (s1, ok) = permitted s in
     if \<not> ok then (s1, None)
     else case os_files s1 p of Some f \<Rightarrow> (s1, Some (Is_File (length f)))
        | None \<Rightarrow> if os_dirs s1 p then (s1, Some Is_Dir) else (refuse ENOENT s1, None))"

definition sys_open :: "string \<Rightarrow> u32 \<Rightarrow> os \<Rightarrow> os \<times> int" where
  "sys_open p flags s = (let (s1, ok) = permitted s in
     if \<not> ok then (s1, - 1)
     else if os_files s1 p = None \<and> \<not> (has flags O_CREAT \<and> os_dirs s1 (parent p)) then (refuse ENOENT s1, - 1)
     else (s1\<lparr>os_files := (os_files s1)(p \<mapsto> the_file s1 p), os_fds := (os_fds s1)(os_next_fd s1 \<mapsto> (p, 0)),
              os_next_fd := os_next_fd s1 + 1\<rparr>, os_next_fd s1))"

definition sys_close :: "int \<Rightarrow> os \<Rightarrow> os \<times> int" where
  "sys_close fd s = (let (s1, ok) = permitted s in
     if os_fds s1 fd = None then (refuse EBADF s1, - 1)
     else (s1\<lparr>os_fds := (os_fds s1)(fd := None)\<rparr>, if ok then 0 else - 1))"

definition sys_mkdir :: "string \<Rightarrow> os \<Rightarrow> os \<times> int" where
  "sys_mkdir p s = (let (s1, ok) = permitted s in
     if \<not> ok then (s1, - 1)
     else if os_dirs s1 p \<or> os_files s1 p \<noteq> None then (refuse EEXIST s1, - 1)
     else if \<not> os_dirs s1 (parent p) then (refuse ENOENT s1, - 1)
     else (s1\<lparr>os_dirs := (os_dirs s1)(p := True)\<rparr>, 0))"

definition sys_fallocate :: "int \<Rightarrow> nat \<Rightarrow> os \<Rightarrow> os \<times> int" where
  "sys_fallocate fd n s = (case os_fds s fd of
       None \<Rightarrow> (refuse EBADF s, - 1)
     | Some (p, _) \<Rightarrow> (let (s1, ok) = permitted s; f = the_file s p in
         if ok then (s1\<lparr>os_files := (os_files s1)(p \<mapsto> f @ replicate (n - length f) 0)\<rparr>, 0) else (s1, - 1)))"

definition sys_rewind :: "int \<Rightarrow> os \<Rightarrow> os" where
  "sys_rewind fd s = (case os_fds s fd of None \<Rightarrow> refuse EBADF s | Some (p, _) \<Rightarrow> seek_fd fd p 0 s)"

section \<open>Recording points and buffers\<close>

text \<open>The function table of a recording entity is the writer it was initialised for.\<close>

datatype writer = Def_Writer | Writev_Writer | Dummy_Writer | Sendfile_Writer

record recording_entity =
  re_writer :: writer
  re_self :: addr
  ci_id :: int
  ci_status :: u32
  ci_curfilename :: string
  ci_fd :: int
  ci_offset :: nat
  ci_bytes_exchanged :: int
  ci_filesize :: u64
  ci_opt :: "addr option"
  ci_file_seqnum :: u64
  ci_shmid :: int
  ci_bufstart :: bufptr

record buffer_entity =
  be_recer :: "addr option"
  be_self :: addr
  be_buffer :: bufptr
  be_locked :: bool
  sb_opt :: "addr option"
  sb_diff :: u64
  sb_optbits :: u64
  sb_asyncdiff :: u64
  sb_running :: bool
  sb_shmid :: int
  sb_fileid :: u64
  sb_fi :: "addr option"
  sb_ready_to_act :: bool
  sb_bufnum :: int
  sb_bufoffset :: bufptr
  sb_opt_default :: addr

record world =
  wd_opt :: "addr \<Rightarrow> opt_s option"
  wd_rec :: "addr \<Rightarrow> recording_entity option"
  wd_buf :: "addr \<Rightarrow> buffer_entity option"
  wd_mem :: "addr \<Rightarrow> u8 list option"
  wd_resq :: "addr \<Rightarrow> resq_info option"
  wd_fi :: afi
  wd_os :: os

definition get_opt :: "addr option \<Rightarrow> world \<Rightarrow> opt_s outcome" where
  "get_opt p w = deref (wd_opt w) p"

definition get_rec :: "addr \<Rightarrow> world \<Rightarrow> recording_entity outcome" where
  "get_rec r w = deref (wd_rec w) (Some r)"

definition get_buf :: "addr \<Rightarrow> world \<Rightarrow> buffer_entity outcome" where
  "get_buf b w = deref (wd_buf w) (Some b)"

definition put_opt :: "addr option \<Rightarrow> (opt_s \<Rightarrow> opt_s) \<Rightarrow> world \<Rightarrow> world outcome" where
  "put_opt p f w = (case p of None \<Rightarrow> Inl Null_Deref
     | Some a \<Rightarrow> bindE (get_opt p w) (\<lambda>x. Inr (w\<lparr>wd_opt := (wd_opt w)(a \<mapsto> f x)\<rparr>)))"

definition put_rec :: "addr \<Rightarrow> (recording_entity \<Rightarrow> recording_entity) \<Rightarrow> world \<Rightarrow> world outcome" where
  "put_rec r f w = bindE (get_rec r w) (\<lambda>x. Inr (w\<lparr>wd_rec := (wd_rec w)(r \<mapsto> f x)\<rparr>))"

definition put_buf :: "addr \<Rightarrow> (buffer_entity \<Rightarrow> buffer_entity) \<Rightarrow> world \<Rightarrow> world outcome" where
  "put_buf b f w = bindE (get_buf b w) (\<lambda>x. Inr (w\<lparr>wd_buf := (wd_buf w)(b \<mapsto> f x)\<rparr>))"

definition call_os :: "(os \<Rightarrow> os \<times> 'a) \<Rightarrow> world \<Rightarrow> world \<times> 'a" where
  "call_os f w = (let (o1, r) = f (wd_os w) in (w\<lparr>wd_os := o1\<rparr>, r))"

definition load_bytes :: "bufptr \<Rightarrow> nat \<Rightarrow> world \<Rightarrow> u8 list outcome" where
  "load_bytes p n w = (case p of None \<Rightarrow> Inl Null_Deref
     | Some (a, off) \<Rightarrow> bindE (deref (wd_mem w) (Some a)) (\<lambda>m.
         if off < 0 then Inl Out_Of_Bounds else mem_read m (nat off) n))"

definition store_bytes :: "bufptr \<Rightarrow> u8 list \<Rightarrow> world \<Rightarrow> world outcome" where
  "store_bytes p bs w = (case p of None \<Rightarrow> Inl Null_Deref
     | Some (a, off) \<Rightarrow> bindE (deref (wd_mem w) (Some a)) (\<lambda>m.
         if off < 0 then Inl Out_Of_Bounds
         else bindE (memcpy_at m (nat off) bs) (\<lambda>m'. Inr (w\<lparr>wd_mem := (wd_mem w)(a \<mapsto> m')\<rparr>))))"

definition shift_ptr :: "bufptr \<Rightarrow> int \<Rightarrow> bufptr" where
  "shift_ptr p n = map_option (\<lambda>(a, off). (a, off + n)) p"

text \<open>Numbers in file names: \<open>%i\<close> and \<open>%08ld\<close>.\<close>

fun dec :: "nat \<Rightarrow> string" where
  "dec n = (if n < 10 then [''0123456789'' ! n] else dec (n div 10) @ [''0123456789'' ! (n mod 10)])"

declare dec.simps [simp del]

definition fmt_i :: "int \<Rightarrow> string" where
  "fmt_i i = (if i < 0 then CHR ''-'' # dec (nat (- i)) else dec (nat i))"

definition pad0 :: "nat \<Rightarrow> string \<Rightarrow> string" where
  "pad0 k s = replicate (k - length s) (CHR ''0'') @ s"

definition fmt_08ld :: "u64 \<Rightarrow> string" where
  "fmt_08ld w = (if sint w < 0 then CHR ''-'' # pad0 7 (dec (nat (- sint w))) else pad0 8 (dec (nat (sint w))))"

definition ROOTDIRS :: string where "ROOTDIRS = ''/mnt/disk''"

definition dir_name :: "int \<Rightarrow> string \<Rightarrow> string" where
  "dir_name ident name = ROOTDIRS @ fmt_i ident @ ''/'' @ name"

definition single_file_name :: "int \<Rightarrow> string \<Rightarrow> string" where
  "single_file_name ident name = dir_name ident name @ ''/'' @ name"

definition data_file_name :: "int \<Rightarrow> string \<Rightarrow> u64 \<Rightarrow> string" where
  "data_file_name ident name seq = single_file_name ident name @ ''.'' @ fmt_08ld seq"

section \<open>Facts about the calls\<close>

named_theorems world_simps "access to the parts of the world"

lemma put_bytes_simps [simp]:
  "os_fds (put_bytes p off d s) = os_fds s" "os_dirs (put_bytes p off d s) = os_dirs s"
  "os_script (put_bytes p off d s) = os_script s" "os_next_fd (put_bytes p off d s) = os_next_fd s"
  "os_files (seek_fd fd p n s) = os_files s" "os_dirs (seek_fd fd p n s) = os_dirs s"
  "os_script (seek_fd fd p n s) = os_script s" "os_next_fd (seek_fd fd p n s) = os_next_fd s"
  "the_file (seek_fd fd p n s) q = the_file s q"
  "os_fds (seek_fd fd p n s) = (os_fds s)(fd \<mapsto> (p, n))"
  by (simp_all add: put_bytes_def seek_fd_def the_file_def)

lemma refuse_simps [simp]:
  "os_fds (refuse e s) = os_fds s" "os_files (refuse e s) = os_files s" "os_script (refuse e s) = os_script s"
  "os_dirs (refuse e s) = os_dirs s" "os_next_fd (refuse e s) = os_next_fd s"
  by (simp_all add: refuse_def)

lemma the_file_put [simp]: "the_file (put_bytes p off d s) q = (if q = p then write_at (the_file s p) off d else the_file s q)"
  by (simp add: the_file_def put_bytes_def)

lemma granted_bounds:
  assumes "granted n s = (s1, k)"
  shows "k \<le> int n" and "- 1 \<le> k"
  using assms by (auto simp: granted_def split: list.splits reply.splits)

lemma granted_same:
  assumes "granted n s = (s1, k)"
  shows "os_fds s1 = os_fds s" and "os_files s1 = os_files s" and "os_dirs s1 = os_dirs s"
    and "os_next_fd s1 = os_next_fd s"
  using assms by (auto simp: granted_def split: list.splits reply.splits)

lemma granted_all [simp]: "os_script s = [] \<Longrightarrow> granted n s = (s, int n)"
  by (simp add: granted_def)

lemma permitted_all [simp]: "os_script s = [] \<Longrightarrow> permitted s = (s, True)"
  by (simp add: permitted_def)

lemma sys_write_bounds:
  assumes "sys_write fd data s = (s1, k)"
  shows "k \<le> int (length data)" and "- 1 \<le> k"
  using assms granted_bounds by (auto simp: sys_write_def split: option.splits prod.splits if_splits)

lemma sys_read_bounds:
  assumes "sys_read fd n s = (s1, k, bs)"
  shows "k \<le> int n" and "- 1 \<le> k" and "0 \<le> k \<Longrightarrow> length bs = nat k"
proof -
  have *: "granted m s = (s2, j) \<Longrightarrow> j \<le> int m" for m s2 j
    using granted_bounds by blast
  show "k \<le> int n" "- 1 \<le> k" "0 \<le> k \<Longrightarrow> length bs = nat k"
    using assms by (auto simp: sys_read_def Let_def split: option.splits prod.splits if_splits dest!: *)
qed

lemma write_at_end: "write_at f (length f) d = f @ d"
  by (simp add: write_at_def)

lemma write_at_append: "write_at (write_at f off d) (off + length d) e = write_at f off (d @ e)"
proof (cases "d = [] \<or> e = []")
  case False
  let ?p = "take off (f @ replicate (off - length f) 0)"
  have "length ?p = off" by simp
  then have "take (off + length d) (write_at f off d @ r) = ?p @ d" for r
    using False by (simp add: write_at_def)
  moreover have "min (length f) off + (off - length f) = off" by arith
  ultimately show ?thesis using False by (simp add: write_at_def ac_simps)
qed (auto simp: write_at_def)

lemma load_store_ptr [simp]: "shift_ptr (Some (a, off)) n = Some (a, off + n)"
  by (simp add: shift_ptr_def)

end
