(* ===== verification/Writers.thy ===== *)
theory Writers
  imports World
begin

text \<open>
  The writers of a recording point: the functions shared by all of them (\<open>src/common_wrt.c\<close>) and the
  transfer functions of \<open>src/defwriter.c\<close>, \<open>src/writev_writer.c\<close>, \<open>src/dummywriter.c\<close> and
  \<open>src/sendfile_writer.c\<close>. The asynchronous writer is in \<open>AioWriter\<close>, the splice writer in \<open>SpliceWriter\<close>.

  A recording point is named by the address of its \<open>struct recording_entity\<close>. Logging and the cache
  advice calls have no effect on the state.
\<close>

definition EOF :: int where "EOF = - 1"

section \<open>Transfers\<close>

text \<open>Adding to \<open>bytes_exchanged\<close> of the recording point and, in the daemon, of the recording.\<close>

definition count_exchanged :: "addr \<Rightarrow> u64 \<Rightarrow> world \<Rightarrow> world outcome" where
  "count_exchanged r n w =
     bindE (put_rec r (\<lambda>c. c\<lparr>ci_bytes_exchanged := ci_bytes_exchanged c + uint n\<rparr>) w) (\<lambda>w1.
     bindE (get_rec r w1) (\<lambda>c.
       put_opt (ci_opt c) (\<lambda>o1. o1\<lparr>opt_bytes_exchanged := opt_bytes_exchanged o1 + n\<rparr>) w1))"

text \<open>One \<open>read\<close> or \<open>write\<close> of \<open>def_write\<close>.\<close>

definition def_transfer :: "addr \<Rightarrow> bufptr \<Rightarrow> u64 \<Rightarrow> world \<Rightarrow> (world \<times> int) outcome" where
  "def_transfer r start n w =
     bindE (get_rec r w) (\<lambda>ioi.
     bindE (get_opt (ci_opt ioi) w) (\<lambda>opt.
       if has (opt_optbits opt) READMODE
       then (let (w1, k, bs) = call_os (sys_read (ci_fd ioi) (unat n)) w in
             if k \<le> 0 then Inr (w1, k) else bindE (store_bytes start bs w1) (\<lambda>w2. Inr (w2, k)))
       else bindE (load_bytes start (unat n) w) (\<lambda>bs. Inr (call_os (sys_write (ci_fd ioi) bs) w))))"

definition in_readmode :: "addr \<Rightarrow> world \<Rightarrow> bool outcome" where
  "in_readmode r w = bindE (get_rec r w) (\<lambda>ioi. bindE (get_opt (ci_opt ioi) w) (\<lambda>opt.
     Inr (has (opt_optbits opt) READMODE)))"

text \<open>The loop of \<open>def_write\<close>: every turn transfers from or to \<open>start\<close>.\<close>

partial_function (option) def_write_loop ::
  "addr \<Rightarrow> bufptr \<Rightarrow> u64 \<Rightarrow> int \<Rightarrow> world \<Rightarrow> (world \<times> int) outcome option" where
  "def_write_loop r start downcount total_w w =
     (if downcount = 0 then Some (Inr (w, total_w))
      else case def_transfer r start downcount w of Inl e \<Rightarrow> Some (Inl e)
      | Inr (w1, ret) \<Rightarrow>
         if ret \<le> 0
         then (case in_readmode r w1 of Inl e \<Rightarrow> Some (Inl e)
               | Inr rd \<Rightarrow> if ret = 0 \<and> rd
                   then Some (bindE (count_exchanged r downcount w1) (\<lambda>w2. Inr (w2, EOF)))
                   else Some (Inr (w1, ret)))
         else (case count_exchanged r (word_of_int ret) w1 of Inl e \<Rightarrow> Some (Inl e)
               | Inr w2 \<Rightarrow> def_write_loop r start (downcount - word_of_int ret) (total_w + ret) w2))"

declare def_write_loop.simps [code]

definition def_write :: "addr \<Rightarrow> bufptr \<Rightarrow> u64 \<Rightarrow> world \<Rightarrow> (world \<times> int) outcome" where
  "def_write r start cnt w = bindE (get_rec r w) (\<lambda>ioi.
     if ci_fd ioi = 0 then Inr (w, - 1) else ended (def_write_loop r start cnt 0 w))"

definition IOV_MAX :: nat where "IOV_MAX = 1024"

text \<open>The segments \<open>iov\<close> of the packets \<open>done .. done + i - 1\<close>, each without its first \<open>offset\<close> bytes.\<close>

primrec gather :: "bufptr \<Rightarrow> u64 \<Rightarrow> int \<Rightarrow> nat \<Rightarrow> nat \<Rightarrow> world \<Rightarrow> u8 list list outcome" where
  "gather start psize off from 0 w = Inr []"
| "gather start psize off from (Suc i) w =
     bindE (load_bytes (shift_ptr start (int from * uint psize + off)) (unat (psize - word_of_int off)) w) (\<lambda>b.
     bindE (gather start psize off (Suc from) i w) (\<lambda>bs. Inr (b # bs)))"

function writev_loop :: "addr \<Rightarrow> bufptr \<Rightarrow> opt_s \<Rightarrow> nat \<Rightarrow> nat \<Rightarrow> world \<Rightarrow> (world \<times> bool) outcome" where
  "writev_loop r start opt total_i n_vecs w =
     (if n_vecs \<le> total_i then Inr (w, True)
      else let i = min IOV_MAX (n_vecs - total_i); len = opt_packet_size opt - word_of_int (opt_offset opt) in
        bindE (get_rec r w) (\<lambda>ioi.
        bindE (gather start (opt_packet_size opt) (opt_offset opt) total_i i w) (\<lambda>iov.
          let (w1, err) = call_os (sys_pwritev (ci_fd ioi) iov (ci_offset ioi)) w in
          if err < 0 then Inr (w1, False)
          else bindE (put_rec r (\<lambda>c. c\<lparr>ci_offset := ci_offset c + i * unat len\<rparr>) w1) (\<lambda>w2.
            writev_loop r start opt (total_i + i) n_vecs w2))))"
  by pat_completeness auto

termination
  by (relation "measure (\<lambda>(r, start, opt, total_i, n_vecs, w). n_vecs - total_i)") (auto simp: IOV_MAX_def)

declare writev_loop.simps [simp del]

definition writev_write :: "addr \<Rightarrow> bufptr \<Rightarrow> u64 \<Rightarrow> world \<Rightarrow> (world \<times> int) outcome" where
  "writev_write r start cnt w =
     bindE (get_rec r w) (\<lambda>ioi.
     bindE (get_opt (ci_opt ioi) w) (\<lambda>opt.
       if has (opt_optbits opt) READMODE then def_write r start cnt w
       else if opt_packet_size opt = 0 then Inl Div_By_Zero
       else let n_vecs = unat (cnt div opt_packet_size opt) in
         bindE (writev_loop r start opt 0 n_vecs w) (\<lambda>(w1, ok).
           if \<not> ok then Inr (w1, - 1)
           else bindE (count_exchanged r (of_nat n_vecs * (opt_packet_size opt - word_of_int (opt_offset opt))) w1)
                  (\<lambda>w2. Inr (w2, sint cnt)))))"

definition dummy_write :: "addr \<Rightarrow> bufptr \<Rightarrow> u64 \<Rightarrow> world \<Rightarrow> (world \<times> int) outcome" where
  "dummy_write r start cnt w = bindE (count_exchanged r cnt w) (\<lambda>w1. Inr (w1, sint cnt))"

text \<open>\<open>sendfile_write\<close>: the end of the source is a transfer of 0 bytes, after which the loop goes on.
  Subtracting pointers into different buffers is undefined, here a fault.\<close>

partial_function (option) sendfile_loop ::
  "addr \<Rightarrow> bool \<Rightarrow> nat \<Rightarrow> int \<Rightarrow> int \<Rightarrow> world \<Rightarrow> (world \<times> int option) outcome option" where
  "sendfile_loop r rd offset tosend total_w w =
     (if tosend \<le> 0 then Some (Inr (w, Some total_w))
      else case get_rec r w of Inl e \<Rightarrow> Some (Inl e)
      | Inr ioi \<Rightarrow>
         (let (w1, ret) = (if rd then call_os (sys_sendfile (ci_shmid ioi) (ci_fd ioi) (ci_offset ioi) (nat tosend)) w
                           else call_os (sys_sendfile (ci_fd ioi) (ci_shmid ioi) offset (nat tosend)) w) in
          if ret < 0 then Some (Inr (w1, None))
          else case put_rec r (\<lambda>c. if rd then c\<lparr>ci_offset := ci_offset c + nat ret\<rparr> else c) w1 of
              Inl e \<Rightarrow> Some (Inl e)
            | Inr w2 \<Rightarrow> sendfile_loop r rd (offset + nat ret) (tosend - ret) (total_w + ret) w2))"

declare sendfile_loop.simps [code]

definition sendfile_write :: "addr \<Rightarrow> bufptr \<Rightarrow> u64 \<Rightarrow> world \<Rightarrow> (world \<times> int) outcome" where
  "sendfile_write r start cnt w =
     bindE (get_rec r w) (\<lambda>ioi.
     bindE (in_readmode r w) (\<lambda>rd.
       case (start, ci_bufstart ioi) of
         (Some (a, x), Some (b, y)) \<Rightarrow>
           if a \<noteq> b \<or> x < y then Inl Out_Of_Bounds
           else bindE (ended (sendfile_loop r rd (nat (x - y)) (sint cnt) 0 w)) (\<lambda>(w1, res). case res of
               None \<Rightarrow> Inr (w1, - 1)
             | Some total_w \<Rightarrow> bindE (count_exchanged r (word_of_int total_w) w1) (\<lambda>w2. Inr (w2, total_w)))
       | _ \<Rightarrow> Inl Null_Deref))"

text \<open>\<open>re->write\<close>.\<close>

definition rec_write :: "addr \<Rightarrow> bufptr \<Rightarrow> u64 \<Rightarrow> world \<Rightarrow> (world \<times> int) outcome" where
  "rec_write r start cnt w = bindE (get_rec r w) (\<lambda>c. case re_writer c of
       Def_Writer \<Rightarrow> def_write r start cnt w
     | Writev_Writer \<Rightarrow> writev_write r start cnt w
     | Dummy_Writer \<Rightarrow> dummy_write r start cnt w
     | Sendfile_Writer \<Rightarrow> sendfile_write r start cnt w)"

section \<open>Opening and closing files\<close>

definition def_get_w_fflags :: u32 where "def_get_w_fflags = O_WRONLY OR O_DIRECT OR O_NOATIME OR O_SYNC"
definition def_get_r_fflags :: u32 where "def_get_r_fflags = O_DIRECT OR O_NOATIME OR O_SYNC"
definition writev_get_w_fflags :: u32 where "writev_get_w_fflags = O_WRONLY OR O_NOATIME OR O_SYNC"
definition writev_get_r_fflags :: u32 where "writev_get_r_fflags = O_NOATIME OR O_SYNC"
definition dummy_get_w_fflags :: u32 where "dummy_get_w_fflags = 0"
definition dummy_get_r_fflags :: u32 where "dummy_get_r_fflags = 0"
definition sfwrite_get_w_fflags :: u32 where "sfwrite_get_w_fflags = O_WRONLY OR O_NOATIME"
definition sfwrite_get_r_fflags :: u32 where "sfwrite_get_r_fflags = O_NOATIME"

fun get_w_flags :: "writer \<Rightarrow> u32" where
  "get_w_flags Def_Writer = def_get_w_fflags"
| "get_w_flags Writev_Writer = writev_get_w_fflags"
| "get_w_flags Dummy_Writer = dummy_get_w_fflags"
| "get_w_flags Sendfile_Writer = sfwrite_get_w_fflags"

fun get_r_flags :: "writer \<Rightarrow> u32" where
  "get_r_flags Def_Writer = def_get_r_fflags"
| "get_r_flags Writev_Writer = writev_get_r_fflags"
| "get_r_flags Dummy_Writer = dummy_get_r_fflags"
| "get_r_flags Sendfile_Writer = sfwrite_get_r_fflags"

text \<open>The result is the return value and the descriptor, \<open>None\<close> when \<open>*fd\<close> is not assigned.\<close>

definition common_open_file :: "u32 \<Rightarrow> string \<Rightarrow> nat \<Rightarrow> os \<Rightarrow> os \<times> int \<times> int option" where
  "common_open_file flags filename fallosize s =
     (let (s1, st) = sys_stat filename s;
          missing = (st = None \<and> os_errno s1 = ENOENT)
      in if missing \<and> \<not> has flags (O_WRONLY OR O_RDWR) then (s1, EACCES, None)
         else if st = None \<and> \<not> missing \<and> os_errno s1 = ENOTDIR then (s1, ENOTDIR, None)
         else if st = None \<and> \<not> missing then (s1, - 1, None)
         else let (s2, fd) = sys_open filename (if missing then flags OR O_CREAT else flags) s1 in
           if fd < 0 then (s2, fd, Some fd)
           else if 0 < fallosize
           then (let (s3, err) = sys_fallocate fd fallosize s2 in
                 (s3, if err < 0 \<and> os_errno s3 \<noteq> EOPNOTSUPP then err else 0, Some fd))
           else (s2, 0, Some fd))"

definition init_directory :: "addr \<Rightarrow> world \<Rightarrow> (world \<times> int) outcome" where
  "init_directory r w =
     bindE (get_rec r w) (\<lambda>ioi.
     bindE (get_opt (ci_opt ioi) w) (\<lambda>opt.
     case opt_filename opt of None \<Rightarrow> Inl Null_Deref | Some name \<Rightarrow>
       let dirname = dir_name (ci_id ioi) name in
       if has (opt_optbits opt) READMODE
       then (let (w1, st) = call_os (sys_stat dirname) w in
             Inr (w1, case st of None \<Rightarrow> - 1 | Some Is_Dir \<Rightarrow> 0 | Some (Is_File _) \<Rightarrow> - 1))
       else (let (w1, err) = call_os (sys_mkdir dirname) w in
             Inr (w1, if err \<noteq> 0 \<and> os_errno (wd_os w1) \<noteq> EEXIST then os_errno (wd_os w1) else 0))))"

definition open_into :: "addr \<Rightarrow> u32 \<Rightarrow> world \<Rightarrow> (world \<times> int) outcome" where
  "open_into r flags w =
     bindE (get_rec r w) (\<lambda>ioi.
       let (w1, err, fd) = call_os (common_open_file flags (ci_curfilename ioi) 0) w in
       bindE (case fd of None \<Rightarrow> Inr w1 | Some d \<Rightarrow> put_rec r (\<lambda>c. c\<lparr>ci_fd := d\<rparr>) w1) (\<lambda>w2. Inr (w2, err)))"

text \<open>The test \<open>err & (ENOTDIR | ENOENT)\<close> is bitwise on the return value.\<close>

definition open_or_create :: "addr \<Rightarrow> u32 \<Rightarrow> bool \<Rightarrow> world \<Rightarrow> (world \<times> int) outcome" where
  "open_or_create r flags rd w =
     bindE (open_into r flags w) (\<lambda>(w1, err).
       if err = 0 then Inr (w1, 0)
       else if has (word_of_int err :: u32) (word_of_int ENOTDIR OR word_of_int ENOENT) \<and> \<not> rd
       then bindE (init_directory r w1) (\<lambda>(w2, err2).
              if err2 \<noteq> 0 then Inr (w2, err2) else open_into r flags w2)
       else Inr (w1, err))"

definition set_new_filesize :: "addr \<Rightarrow> opt_s \<Rightarrow> world \<Rightarrow> (world \<times> int) outcome" where
  "set_new_filesize r opt w =
     bindE (get_rec r w) (\<lambda>ioi.
       if has (opt_optbits opt) WRITE_TO_SINGLE_FILE
       then bindE (put_opt (ci_opt ioi) (\<lambda>o1. o1\<lparr>opt_singlefile_fd := ci_fd ioi\<rparr>) w) (\<lambda>w1.
            bindE (put_rec r (\<lambda>c. c\<lparr>ci_filesize := ucast (opt_buf_num_elems opt) *
                     (opt_packet_size opt - word_of_int (if has (opt_optbits opt) READMODE
                        then opt_offset_onwrite opt else opt_offset opt))\<rparr>) w1) (\<lambda>w2. Inr (w2, 0)))
       else if has (opt_optbits opt) READMODE
       then (let (w1, st) = call_os (sys_stat (ci_curfilename ioi)) w in
             case st of None \<Rightarrow> Inr (w1, - 1)
             | Some sb \<Rightarrow> bindE (put_rec r (\<lambda>c. c\<lparr>ci_filesize :=
                   (case sb of Is_File n \<Rightarrow> of_nat n | Is_Dir \<Rightarrow> 0)\<rparr>) w1) (\<lambda>w2. Inr (w2, 0)))
       else Inr (w, 0))"

definition common_open_new_file :: "addr \<Rightarrow> addr \<Rightarrow> u64 option \<Rightarrow> world \<Rightarrow> (world \<times> int) outcome" where
  "common_open_new_file r opti acq w0 =
     bindE (put_rec r (\<lambda>c. c\<lparr>ci_opt := Some opti,
              ci_file_seqnum := (case acq of None \<Rightarrow> ci_file_seqnum c | Some q \<Rightarrow> q)\<rparr>) w0) (\<lambda>w.
     bindE (get_rec r w) (\<lambda>ioi.
     bindE (get_opt (Some opti) w) (\<lambda>opt.
     case opt_filename opt of None \<Rightarrow> Inl Null_Deref | Some name \<Rightarrow>
       let single = has (opt_optbits opt) WRITE_TO_SINGLE_FILE;
           rd = has (opt_optbits opt) READMODE;
           flags = (if rd then get_r_flags (re_writer ioi) else get_w_flags (re_writer ioi)) in
       bindE (put_rec r (\<lambda>c. c\<lparr>ci_curfilename := (if single then single_file_name (ci_id c) name
                else data_file_name (ci_id c) name (ci_file_seqnum c))\<rparr>) w) (\<lambda>w1.
       bindE (if single \<and> opt_singlefile_fd opt \<noteq> 0
              then bindE (put_rec r (\<lambda>c. c\<lparr>ci_fd := opt_singlefile_fd opt\<rparr>) w1) (\<lambda>w2. Inr (w2, 0))
              else bindE (open_or_create r flags rd w1) (\<lambda>(w2, err).
                     if err \<noteq> 0 then Inr (w2, err) else set_new_filesize r opt w2)) (\<lambda>(w3, err).
         if err \<noteq> 0 then Inr (w3, err)
         else bindE (put_rec r (\<lambda>c. c\<lparr>ci_offset := (if single
                  then unat (CALC_BUFSIZE_FROM_OPT opt * ci_file_seqnum c) else 0)\<rparr>) w3) (\<lambda>w4. Inr (w4, 0)))))))"

definition common_finish_file :: "addr \<Rightarrow> world \<Rightarrow> (world \<times> int) outcome" where
  "common_finish_file r w =
     bindE (get_rec r w) (\<lambda>ioi.
     bindE (get_opt (ci_opt ioi) w) (\<lambda>opt.
     bindE (if has (opt_optbits opt) WRITE_TO_SINGLE_FILE
            then bindE (put_opt (ci_opt ioi)
                   (\<lambda>o1. o1\<lparr>opt_next_fd_id_to_write := opt_next_fd_id_to_write o1 + 1\<rparr>) w) (\<lambda>w1. Inr (w1, 0))
            else Inr (call_os (sys_close (ci_fd ioi)) w)) (\<lambda>(w1, ret).
       let w2 = (if has (opt_optbits opt) USE_HUGEPAGE
                 then w1\<lparr>wd_os := sys_rewind (ci_shmid ioi) (wd_os w1)\<rparr> else w1) in
       bindE (put_rec r (\<lambda>c. c\<lparr>ci_curfilename := [], ci_opt := None\<rparr>) w2) (\<lambda>w3. Inr (w3, ret)))))"

definition dummy_acquire :: "addr \<Rightarrow> addr \<Rightarrow> u64 option \<Rightarrow> world \<Rightarrow> (world \<times> int) outcome" where
  "dummy_acquire r opti acq w = (case acq of None \<Rightarrow> Inl Null_Deref | Some q \<Rightarrow>
     bindE (get_opt (Some opti) w) (\<lambda>opt.
     case opt_filename opt of None \<Rightarrow> Inl Null_Deref | Some name \<Rightarrow>
     bindE (put_rec r (\<lambda>c. c\<lparr>ci_opt := Some opti, ci_file_seqnum := q,
              ci_curfilename := data_file_name (ci_id c) name q,
              ci_filesize := ucast (opt_buf_num_elems opt) * opt_packet_size opt\<rparr>) w) (\<lambda>w1. Inr (w1, 0))))"

definition dummy_release :: "addr \<Rightarrow> world \<Rightarrow> (world \<times> int) outcome" where
  "dummy_release r w = bindE (put_rec r (\<lambda>c. c\<lparr>ci_curfilename := [], ci_opt := None\<rparr>) w) (\<lambda>w1. Inr (w1, 0))"

section \<open>The other functions of the table\<close>

definition common_getid :: "addr \<Rightarrow> world \<Rightarrow> int outcome" where
  "common_getid r w = bindE (get_rec r w) (\<lambda>ioi. Inr (ci_id ioi))"

definition common_getfilesize :: "addr \<Rightarrow> world \<Rightarrow> u64 outcome" where
  "common_getfilesize r w = bindE (get_rec r w) (\<lambda>ioi. Inr (ci_filesize ioi))"

definition dummy_getfilesize :: "addr \<Rightarrow> world \<Rightarrow> u64 outcome" where
  "dummy_getfilesize r w = bindE (get_rec r w) (\<lambda>ioi.
     bindE (get_opt (ci_opt ioi) w) (\<lambda>opt. Inr (CALC_BUFSIZE_FROM_OPT opt)))"

definition get_filesize :: "addr \<Rightarrow> world \<Rightarrow> u64 outcome" where
  "get_filesize r w = bindE (get_rec r w) (\<lambda>c.
     if re_writer c = Dummy_Writer then dummy_getfilesize r w else common_getfilesize r w)"

definition common_setshmid :: "addr \<Rightarrow> int \<Rightarrow> bufptr \<Rightarrow> world \<Rightarrow> world outcome" where
  "common_setshmid r shmid bufstart w = put_rec r (\<lambda>c. c\<lparr>ci_shmid := shmid, ci_bufstart := bufstart\<rparr>) w"

definition get_io_stats :: "addr \<Rightarrow> world \<Rightarrow> stats \<Rightarrow> stats outcome" where
  "get_io_stats r w st = bindE (get_rec r w) (\<lambda>ioi.
     Inr (st\<lparr>s_total_written := s_total_written st + word_of_int (ci_bytes_exchanged ioi)\<rparr>))"

text \<open>\<open>common_close\<close> frees the \<open>struct common_io_info\<close>; the \<open>struct recording_entity\<close> has no state of
  its own.\<close>

definition common_close :: "addr \<Rightarrow> stats option \<Rightarrow> world \<Rightarrow> (world \<times> stats option \<times> int) outcome" where
  "common_close r st w =
     bindE (case st of None \<Rightarrow> Inr None | Some x \<Rightarrow> bindE (get_io_stats r w x) (\<lambda>y. Inr (Some y))) (\<lambda>st1.
     bindE (get_rec r w) (\<lambda>_. Inr (w\<lparr>wd_rec := (wd_rec w)(r := None)\<rparr>, st1, 0)))"

definition check_if_suitable :: "addr \<Rightarrow> addr \<Rightarrow> world \<Rightarrow> int outcome" where
  "check_if_suitable r other w =
     bindE (get_rec r w) (\<lambda>ioi.
       if has (ci_status ioi) RECSTATUS_ERROR then Inr (- 1)
       else bindE (get_opt (Some other) w) (\<lambda>opt.
         Inr (if \<not> has (opt_optbits opt) READMODE \<and> has (ci_status ioi) RECSTATUS_FULL then - 1 else 0)))"

definition common_identify :: "addr \<Rightarrow> iden \<Rightarrow> world \<Rightarrow> bool outcome" where
  "common_identify r q w =
     bindE (get_rec r w) (\<lambda>ioi. case q of
         CHECK_BY_SEQ val1 _ \<Rightarrow> Inr (ci_id ioi = to_int32 (uint val1))
       | CHECK_BY_OPTPOINTER val1 \<Rightarrow> Inr (ci_opt ioi = Some val1)
       | CHECK_BY_NAME _ \<Rightarrow> (case ci_opt ioi of None \<Rightarrow> Inl Null_Deref
           | Some p \<Rightarrow> bindE (get_opt (Some p) w) (\<lambda>opt. iden_from_opt p opt q))
       | _ \<Rightarrow> Inr False)"

section \<open>Looking for the files of a recording\<close>

fun atoi_go :: "nat \<Rightarrow> string \<Rightarrow> nat" where
  "atoi_go n [] = n"
| "atoi_go n (c # cs) = (if c \<in> set ''0123456789'' then atoi_go (10 * n + (of_char c - 48)) cs else n)"

fun atoi :: "string \<Rightarrow> int" where
  "atoi [] = 0"
| "atoi (c # cs) = (if c \<in> {CHR '' '', CHR 0x09, CHR 0x0A, CHR 0x0B, CHR 0x0C, CHR 0x0D} then atoi cs
     else if c = CHR ''-'' then - int (atoi_go 0 cs)
     else if c = CHR ''+'' then int (atoi_go 0 cs)
     else int (atoi_go 0 (c # cs)))"

definition INDEXING_LENGTH :: nat where "INDEXING_LENGTH = 8"

definition regstring :: "string \<Rightarrow> string" where
  "regstring name = ''^'' @ name @ ''.'' @ concat (replicate 8 ''[0-9]'')"

definition check_one_file :: "(string \<Rightarrow> bool) \<Rightarrow> addr \<Rightarrow> addr \<Rightarrow> string \<Rightarrow> world \<Rightarrow> world outcome" where
  "check_one_file matches r optp d_name w =
     (if \<not> matches d_name then Inr w
      else if length d_name < INDEXING_LENGTH then Inl Out_Of_Bounds
      else let temp = atoi (drop (length d_name - INDEXING_LENGTH) d_name) in
        bindE (get_rec r w) (\<lambda>ioi.
        bindE (get_opt (Some optp) w) (\<lambda>opt.
        case opt_fi opt of None \<Rightarrow> Inl Null_Deref | Some fi \<Rightarrow>
        bindE (afi_get_n_files fi (wd_fi w)) (\<lambda>n_files.
          if n_files \<le> word_of_int temp then Inr w
          else bindE (afi_set_found fi (word_of_int temp) (ci_id ioi) (wd_fi w)) (\<lambda>(fis, _).
            put_opt (Some optp) (\<lambda>o1. o1\<lparr>opt_cumul_found := opt_cumul_found o1 + 1\<rparr>) (w\<lparr>wd_fi := fis\<rparr>))))))"

primrec check_each :: "(string \<Rightarrow> bool) \<Rightarrow> addr \<Rightarrow> addr \<Rightarrow> string list \<Rightarrow> world \<Rightarrow> world outcome" where
  "check_each matches r optp [] w = Inr w"
| "check_each matches r optp (d # ds) w = bindE (check_one_file matches r optp d w) (check_each matches r optp ds)"

text \<open>\<open>regcomp\<close> gives the matching function of a pattern, \<open>None\<close> being an error, and \<open>scandir\<close> the names
  in a directory. \<open>EXIT_FAILURE\<close> is 1.\<close>

definition common_check_files :: "(string \<Rightarrow> (string \<Rightarrow> bool) option) \<Rightarrow> (string \<Rightarrow> string list option) \<Rightarrow>
    addr \<Rightarrow> addr \<Rightarrow> world \<Rightarrow> (world \<times> int) outcome" where
  "common_check_files regcomp scandir r optp w =
     bindE (get_rec r w) (\<lambda>ioi.
     bindE (get_opt (Some optp) w) (\<lambda>opt.
     case opt_filename opt of None \<Rightarrow> Inl Null_Deref | Some name \<Rightarrow>
       if has (opt_optbits opt) WRITE_TO_SINGLE_FILE
       then (let (w1, st) = call_os (sys_stat (single_file_name (ci_id ioi) name)) w in
             if st = None then Inr (w1, - 1)
             else case opt_fi opt of None \<Rightarrow> Inl Null_Deref | Some fi \<Rightarrow>
               bindE (afi_single_all_found fi (ci_id ioi) (wd_fi w1)) (\<lambda>(fis, _).
               bindE (afi_get_n_files fi fis) (\<lambda>n.
               bindE (put_opt (Some optp) (\<lambda>o1. o1\<lparr>opt_cumul := n\<rparr>) (w1\<lparr>wd_fi := fis\<rparr>)) (\<lambda>w2. Inr (w2, 0)))))
       else (case regcomp (regstring name) of
           None \<Rightarrow> Inr (w, - 1)
         | Some matches \<Rightarrow>
            (case scandir (dir_name (ci_id ioi) name @ ''/'') of
               None \<Rightarrow> Inr (w, 1)
             | Some names \<Rightarrow> bindE (check_each matches r optp names w) (\<lambda>w1. Inr (w1, 0))))))"

end
