(* ===== verification/SimpleBuf.thy ===== *)
theory SimpleBuf
  imports Writers ResourceTree
begin

text \<open>
  The buffer of \<open>src/simplebuffer.c\<close> and its writer thread, over the two resource branches and the
  writers, with the operations of \<open>src/common_wrt.c\<close> that change a branch.

  A \<open>system\<close> is the world with the disk branch and the memory branch; the world of the callbacks of
  both branches is \<open>sy_world\<close>. A call that may sleep takes what the other threads do (\<open>others\<close>); its
  result is \<open>None\<close> when the caller is still asleep after that.
\<close>

section \<open>The system\<close>

record system =
  sy_world :: world
  sy_disk :: "world entity_list_branch"
  sy_mem :: "world entity_list_branch"

definition on_world :: "(world \<Rightarrow> (world \<times> 'a) outcome) \<Rightarrow> system \<Rightarrow> (system \<times> 'a) outcome" where
  "on_world f s = bindE (f (sy_world s)) (\<lambda>(w, r). Inr (s\<lparr>sy_world := w\<rparr>, r))"

definition upd_world :: "(world \<Rightarrow> world outcome) \<Rightarrow> system \<Rightarrow> system outcome" where
  "upd_world f s = bindE (f (sy_world s)) (\<lambda>w. Inr (s\<lparr>sy_world := w\<rparr>))"

definition on_disk :: "(world entity_list_branch \<Rightarrow> (world entity_list_branch \<times> 'a) outcome) \<Rightarrow> system \<Rightarrow>
    (system \<times> 'a) outcome" where
  "on_disk f s = bindE (f ((sy_disk s)\<lparr>br_world := sy_world s\<rparr>)) (\<lambda>(b, r).
     Inr (s\<lparr>sy_disk := b, sy_world := br_world b\<rparr>, r))"

definition upd_disk :: "(world entity_list_branch \<Rightarrow> world entity_list_branch outcome) \<Rightarrow> system \<Rightarrow> system outcome" where
  "upd_disk f s = bindE (f ((sy_disk s)\<lparr>br_world := sy_world s\<rparr>)) (\<lambda>b.
     Inr (s\<lparr>sy_disk := b, sy_world := br_world b\<rparr>))"

definition upd_mem :: "(world entity_list_branch \<Rightarrow> world entity_list_branch outcome) \<Rightarrow> system \<Rightarrow> system outcome" where
  "upd_mem f s = bindE (f ((sy_mem s)\<lparr>br_world := sy_world s\<rparr>)) (\<lambda>b.
     Inr (s\<lparr>sy_mem := b, sy_world := br_world b\<rparr>))"

definition the_buf :: "addr \<Rightarrow> system \<Rightarrow> buffer_entity outcome" where
  "the_buf b s = get_buf b (sy_world s)"

definition the_opt :: "addr option \<Rightarrow> system \<Rightarrow> opt_s outcome" where
  "the_opt p s = get_opt p (sy_world s)"

definition set_buf :: "addr \<Rightarrow> (buffer_entity \<Rightarrow> buffer_entity) \<Rightarrow> system \<Rightarrow> system outcome" where
  "set_buf b f = upd_world (put_buf b f)"

definition init_branches :: "world \<Rightarrow> system" where
  "init_branches w = (let br = \<lparr>br_lists = (\<lambda>_. None), br_heap = (\<lambda>_. None), br_world = w\<rparr>
     in \<lparr>sy_world = w, sy_disk = br, sy_mem = br\<rparr>)"

section \<open>Recording points in the disk branch (common_wrt.c)\<close>

text \<open>Destroying the lock and the condition variable of the list entry has no effect on the state.\<close>

definition common_close_and_free :: "addr \<Rightarrow> world \<Rightarrow> (world \<times> int) outcome" where
  "common_close_and_free r w = Inr (w, 0)"

text \<open>The callbacks of a list entry return no fault: a recording point whose record is gone identifies
  as nothing and is not suitable.\<close>

definition no_fault :: "'a \<Rightarrow> 'a outcome \<Rightarrow> 'a" where
  "no_fault d m = (case m of Inl _ \<Rightarrow> d | Inr x \<Rightarrow> x)"

definition rec_check :: "addr \<Rightarrow> addr \<Rightarrow> world \<Rightarrow> int" where
  "rec_check r opt w = no_fault (- 1) (check_if_suitable r opt w)"

definition rec_identify :: "addr \<Rightarrow> iden \<Rightarrow> world \<Rightarrow> bool" where
  "rec_identify r q w = no_fault False (common_identify r q w)"

definition rec_entry :: "writer \<Rightarrow> addr \<Rightarrow> world listed_entity" where
  "rec_entry wr r = \<lparr>le_child = None, le_father = None, le_current_branch = Freelist,
     le_acquire = Some (if wr = Dummy_Writer then dummy_acquire else common_open_new_file),
     le_check = Some rec_check,
     le_identify = rec_identify,
     le_close = common_close_and_free,
     le_release = Some (if wr = Dummy_Writer then dummy_release else common_finish_file),
     le_waiters_head = 0, le_waiters_bottom = 0, le_entity = r\<rparr>"

definition add_entry :: "addr \<Rightarrow> world listed_entity \<Rightarrow> world entity_list_branch \<Rightarrow> world entity_list_branch outcome" where
  "add_entry le n s = add_to_entlist le (put_le le n s)"

text \<open>\<open>common_w_init\<close> for a recording point \<open>r\<close> with the list entry \<open>le\<close>, both from \<open>malloc\<close>.\<close>

definition common_w_init :: "writer \<Rightarrow> addr \<Rightarrow> addr \<Rightarrow> addr \<Rightarrow> system \<Rightarrow> (system \<times> int) outcome" where
  "common_w_init wr optp r le s =
     bindE (the_opt (Some optp) s) (\<lambda>opt.
       let c = \<lparr>re_writer = wr, re_self = le, ci_id = opt_diskids opt, ci_status = RECSTATUS_OK,
                ci_curfilename = [], ci_fd = 0, ci_offset = 0, ci_bytes_exchanged = 0, ci_filesize = 0,
                ci_opt = Some optp, ci_file_seqnum = 0, ci_shmid = 0, ci_bufstart = None\<rparr> in
     bindE (upd_world (\<lambda>w. put_opt (Some optp) (\<lambda>o1. o1\<lparr>opt_diskids := opt_diskids o1 + 1\<rparr>)
              (w\<lparr>wd_rec := (wd_rec w)(r \<mapsto> c)\<rparr>)) s) (\<lambda>s1.
     bindE (upd_disk (add_entry le (rec_entry wr r)) s1) (\<lambda>s2. Inr (s2, 0))))"

definition def_init_def :: "addr \<Rightarrow> addr \<Rightarrow> addr \<Rightarrow> system \<Rightarrow> (system \<times> int) outcome" where
  "def_init_def = common_w_init Def_Writer"

definition writev_init_rec_entity :: "addr \<Rightarrow> addr \<Rightarrow> addr \<Rightarrow> system \<Rightarrow> (system \<times> int) outcome" where
  "writev_init_rec_entity = common_w_init Writev_Writer"

definition init_sendfile_writer :: "addr \<Rightarrow> addr \<Rightarrow> addr \<Rightarrow> system \<Rightarrow> (system \<times> int) outcome" where
  "init_sendfile_writer = common_w_init Sendfile_Writer"

text \<open>\<open>dummy_init_dummy\<close> replaces two callbacks of the entry \<open>common_w_init\<close> adds; \<open>rec_entry\<close> has them
  from the start.\<close>

definition dummy_init_dummy :: "addr \<Rightarrow> addr \<Rightarrow> addr \<Rightarrow> system \<Rightarrow> (system \<times> int) outcome" where
  "dummy_init_dummy optp r le s = bindE (common_w_init Dummy_Writer optp r le s) (\<lambda>(s1, _). Inr (s1, 0))"

definition handle_error :: "addr \<Rightarrow> int \<Rightarrow> system \<Rightarrow> (system \<times> int) outcome" where
  "handle_error r errornum s =
     bindE (get_rec r (sy_world s)) (\<lambda>ioi.
       if errornum = ENOSPC
       then bindE (upd_world (put_rec r (\<lambda>c. c\<lparr>ci_status := RECSTATUS_FULL\<rparr>)) s) (\<lambda>s1.
            if ci_opt ioi = None then Inl Null_Deref
            else bindE (upd_disk (set_free (re_self ioi)) s1) (\<lambda>s2. Inr (s2, 0)))
       else bindE (the_opt (ci_opt ioi) s) (\<lambda>opt.
            bindE (upd_world (put_opt (ci_opt ioi) (\<lambda>o1. o1\<lparr>opt_hd_failures := opt_hd_failures o1 + 1\<rparr>)) s) (\<lambda>s1.
            bindE (if has (opt_optbits opt) READMODE
                   then (case opt_filename opt of None \<Rightarrow> Inl Null_Deref
                     | Some name \<Rightarrow> upd_world (\<lambda>w. bindE (afi_mark_recid_missing name (ci_id ioi) (wd_fi w))
                                      (\<lambda>(fis, _). Inr (w\<lparr>wd_fi := fis\<rparr>))) s1)
                   else Inr s1) (\<lambda>s2.
            bindE (upd_disk (remove_from_branch (re_self ioi)) s2) (\<lambda>s3.
              on_world (\<lambda>w. bindE (common_close r None w) (\<lambda>(w1, _, e). Inr (w1, e))) s3)))))"

section \<open>Callbacks of a buffer\<close>

text \<open>\<open>acq\<close> points to the file number. With an RX ring it points to a \<open>struct rxring_request\<close>, which
  holds two pointers: the first word is then still taken as the file number, and the second word,
  \<open>bufnum\<close> of the first, as the number of the buffer in the ring \<open>ring\<close> of the option record.\<close>

definition sbuf_acquire :: "(addr \<Rightarrow> bufptr) \<Rightarrow> (u64 \<Rightarrow> u64) \<Rightarrow> addr \<Rightarrow> addr \<Rightarrow> u64 option \<Rightarrow> world \<Rightarrow>
    (world \<times> int) outcome" where
  "sbuf_acquire ring bufnum b opti acq w =
     bindE (get_opt (Some opti) w) (\<lambda>opt.
     case acq of None \<Rightarrow> Inl Null_Deref | Some q \<Rightarrow>
     bindE (put_buf b (\<lambda>be. let buf = (if has (opt_optbits opt) USE_RX_RING
                then shift_ptr (ring opti) (uint (CALC_BUFSIZE_FROM_OPT opt * bufnum q)) else be_buffer be)
              in be\<lparr>sb_opt := Some opti, be_buffer := buf, sb_bufoffset := buf, sb_fi := opt_fi opt,
                    sb_fileid := q, sb_diff := 0\<rparr>) w) (\<lambda>w1. Inr (w1, 0)))"

definition sbuf_release :: "addr \<Rightarrow> world \<Rightarrow> (world \<times> int) outcome" where
  "sbuf_release b w =
     bindE (get_buf b w) (\<lambda>be.
     bindE (case sb_opt be of None \<Rightarrow> Inr False
            | Some p \<Rightarrow> bindE (get_opt (Some p) w) (\<lambda>opt. Inr (has (opt_optbits opt) USE_RX_RING))) (\<lambda>rx.
     bindE (put_buf b (\<lambda>be. be\<lparr>be_buffer := (if rx then None else be_buffer be), sb_opt := None, sb_diff := 0\<rparr>) w)
       (\<lambda>w1. Inr (w1, 0))))"

definition sbuf_identify :: "addr \<Rightarrow> iden \<Rightarrow> world \<Rightarrow> bool outcome" where
  "sbuf_identify b q w =
     bindE (get_buf b w) (\<lambda>be. case q of
         CHECK_BY_SEQ val1 val2 \<Rightarrow> Inr (sb_opt be = Some val2 \<and> sb_fileid be = val1)
       | CHECK_BY_OLDSEQ val1 val2 \<Rightarrow> bindE (get_opt (Some val2) w) (\<lambda>opt.
           Inr (sb_fi be = opt_fi opt \<and> sb_fileid be = val1))
       | CHECK_BY_OPTPOINTER val1 \<Rightarrow> Inr (sb_opt be = Some val1)
       | CHECK_BY_NAME _ \<Rightarrow> (case sb_opt be of None \<Rightarrow> Inl Null_Deref
           | Some p \<Rightarrow> bindE (get_opt (Some p) w) (\<lambda>opt. iden_from_opt p opt q))
       | _ \<Rightarrow> Inr False)"

definition sbuf_free :: "addr \<Rightarrow> world \<Rightarrow> (world \<times> int) outcome" where
  "sbuf_free b w = Inr (w, 0)"

definition buf_identify :: "addr \<Rightarrow> iden \<Rightarrow> world \<Rightarrow> bool" where
  "buf_identify b q w = no_fault False (sbuf_identify b q w)"

definition sbuf_entry :: "(addr \<Rightarrow> bufptr) \<Rightarrow> (u64 \<Rightarrow> u64) \<Rightarrow> addr \<Rightarrow> world listed_entity" where
  "sbuf_entry ring bufnum b = \<lparr>le_child = None, le_father = None, le_current_branch = Freelist,
     le_acquire = Some (sbuf_acquire ring bufnum), le_check = None,
     le_identify = buf_identify,
     le_close = sbuf_free, le_release = Some sbuf_release,
     le_waiters_head = 0, le_waiters_bottom = 0, le_entity = b\<rparr>"

text \<open>The memory of a new buffer: a block \<open>mem\<close> of \<open>filesize\<close> zero bytes, or for huge pages one of the
  shared memory object \<open>shm\<close>; \<open>None\<close> is a failed allocation. With an RX ring there is no block. The
  record \<open>b\<close>, its list entry \<open>le\<close> and the block come from the allocator.\<close>

definition sbuf_init :: "(addr \<Rightarrow> bufptr) \<Rightarrow> (u64 \<Rightarrow> u64) \<Rightarrow> addr \<Rightarrow> addr \<Rightarrow> addr \<Rightarrow> int \<Rightarrow> addr option \<Rightarrow>
    system \<Rightarrow> (system \<times> int) outcome" where
  "sbuf_init ring bufnum optp b le shm mem s =
     bindE (the_opt (Some optp) s) (\<lambda>opt.
       let huge = (\<not> has (opt_optbits opt) USE_RX_RING \<and> has (opt_optbits opt) USE_HUGEPAGE);
           be = \<lparr>be_recer = None, be_self = le, be_buffer = None, be_locked = False, sb_opt = Some optp,
                 sb_diff = 0, sb_optbits = opt_optbits opt, sb_asyncdiff = 0, sb_running = False,
                 sb_shmid = (if huge then shm else 0), sb_fileid = - 1, sb_fi = None, sb_ready_to_act = False,
                 sb_bufnum = opt_bufculum opt, sb_bufoffset = None, sb_opt_default = optp\<rparr> in
     bindE (upd_world (\<lambda>w. put_opt (Some optp) (\<lambda>o1. o1\<lparr>opt_bufculum := opt_bufculum o1 + 1\<rparr>)
              (w\<lparr>wd_buf := (wd_buf w)(b \<mapsto> be)\<rparr>)) s) (\<lambda>s1.
     bindE (upd_mem (add_entry le (sbuf_entry ring bufnum b)) s1) (\<lambda>s2.
       if has (opt_optbits opt) USE_RX_RING then Inr (s2, 0)
       else if huge \<and> shm < 0 then Inr (s2, - 1)
       else case mem of None \<Rightarrow> if huge then Inr (s2, - 1) else Inl Null_Deref
         | Some m \<Rightarrow> bindE (upd_world (\<lambda>w. put_buf b (\<lambda>be. be\<lparr>be_buffer := Some (m, 0)\<rparr>)
               (w\<lparr>wd_mem := (wd_mem w)(m \<mapsto> replicate (unat (opt_filesize opt)) 0)\<rparr>)) s2) (\<lambda>s3. Inr (s3, 0)))))"

definition sbuf_close :: "addr \<Rightarrow> world \<Rightarrow> (world \<times> int) outcome" where
  "sbuf_close b w =
     bindE (get_buf b w) (\<lambda>be.
       Inr (w\<lparr>wd_mem := (if has (sb_optbits be) USE_RX_RING then wd_mem w
                         else case be_buffer be of None \<Rightarrow> wd_mem w | Some (m, _) \<Rightarrow> (wd_mem w)(m := None)),
              wd_buf := (wd_buf w)(b := None)\<rparr>, 0))"

text \<open>The buffer and the counter behind the pointer \<open>simple_get_writebuf\<close> hands out.\<close>

definition sbuf_getbuf :: "addr \<Rightarrow> world \<Rightarrow> (bufptr \<times> u64) outcome" where
  "sbuf_getbuf b w = bindE (get_buf b w) (\<lambda>be. Inr (be_buffer be, sb_diff be))"

section \<open>The head lock\<close>

text \<open>A thread that takes a lock it already holds waits forever: \<open>None\<close>.\<close>

definition lock_head :: "addr \<Rightarrow> system \<Rightarrow> system option outcome" where
  "lock_head b s = bindE (the_buf b s) (\<lambda>be.
     if be_locked be then Inr None
     else bindE (set_buf b (\<lambda>be. be\<lparr>be_locked := True\<rparr>) s) (\<lambda>s1. Inr (Some s1)))"

definition unlock_head :: "addr \<Rightarrow> system \<Rightarrow> system outcome" where
  "unlock_head b = set_buf b (\<lambda>be. be\<lparr>be_locked := False\<rparr>)"

definition clear_ready :: "addr \<Rightarrow> system \<Rightarrow> system option outcome" where
  "clear_ready b s = bindE (lock_head b s) (\<lambda>r. case r of None \<Rightarrow> Inr None
     | Some s1 \<Rightarrow> bindE (set_buf b (\<lambda>be. be\<lparr>sb_ready_to_act := False\<rparr>) s1) (\<lambda>s2.
                  bindE (unlock_head b s2) (\<lambda>s3. Inr (Some s3))))"

definition free_self :: "addr \<Rightarrow> system \<Rightarrow> system outcome" where
  "free_self b s = bindE (the_buf b s) (\<lambda>be.
     if sb_opt be = None then Inl Null_Deref else upd_mem (set_free (be_self be)) s)"

definition sbuf_cancel_writebuf :: "addr \<Rightarrow> system \<Rightarrow> system option outcome" where
  "sbuf_cancel_writebuf b s = bindE (clear_ready b s) (\<lambda>r. case r of None \<Rightarrow> Inr None
     | Some s1 \<Rightarrow> bindE (free_self b s1) (\<lambda>s2. Inr (Some s2)))"

text \<open>The calls by which other threads stop the writer thread and hand a buffer to it; they take and
  release the lock, except that \<open>mutex_free\<close> leaves it alone.\<close>

definition sbuf_stop_running :: "addr \<Rightarrow> world \<Rightarrow> world outcome" where
  "sbuf_stop_running b = put_buf b (\<lambda>be. be\<lparr>sb_running := False\<rparr>)"

definition sbuf_set_ready :: "addr \<Rightarrow> world \<Rightarrow> world outcome" where
  "sbuf_set_ready b = put_buf b (\<lambda>be. be\<lparr>sb_ready_to_act := True\<rparr>)"

definition sbuf_set_ready_and_signal :: "addr \<Rightarrow> world \<Rightarrow> world outcome" where
  "sbuf_set_ready_and_signal b = put_buf b (\<lambda>be. be\<lparr>sb_ready_to_act := True\<rparr>)"

section \<open>Writing\<close>

definition close_recer :: "addr \<Rightarrow> int \<Rightarrow> system \<Rightarrow> system option outcome" where
  "close_recer b errornum s =
     bindE (the_buf b s) (\<lambda>be.
     case be_recer be of None \<Rightarrow> Inl Null_Deref | Some r \<Rightarrow>
     bindE (handle_error r errornum s) (\<lambda>(s1, _).
     bindE (the_opt (sb_opt be) s1) (\<lambda>opt.
     bindE (if has (opt_optbits opt) READMODE
            then bindE (free_self b s1) (clear_ready b) else Inr (Some s1)) (\<lambda>res. case res of
         None \<Rightarrow> Inr None
       | Some s2 \<Rightarrow> bindE (set_buf b (\<lambda>be. be\<lparr>be_recer := None\<rparr>) s2) (\<lambda>s3. Inr (Some s3))))))"

text \<open>\<open>be->recer->write(be->recer, sbuf->bufoffset, count)\<close>.\<close>

definition write_out :: "addr \<Rightarrow> u64 \<Rightarrow> system \<Rightarrow> (system \<times> int) outcome" where
  "write_out b cnt s = bindE (the_buf b s) (\<lambda>be. case be_recer be of None \<Rightarrow> Inl Null_Deref
     | Some r \<Rightarrow> on_world (rec_write r (sb_bufoffset be) cnt) s)"

definition advance :: "addr \<Rightarrow> u64 \<Rightarrow> system \<Rightarrow> system outcome" where
  "advance b n = set_buf b (\<lambda>be. be\<lparr>sb_diff := sb_diff be - n, sb_bufoffset := shift_ptr (sb_bufoffset be) (uint n)\<rparr>)"

text \<open>What both write functions do with the result \<open>ret\<close> of a write of \<open>count\<close> bytes, of which \<open>real\<close>
  are data.\<close>

definition after_write :: "addr \<Rightarrow> int \<Rightarrow> u64 \<Rightarrow> u64 \<Rightarrow> system \<Rightarrow> (system \<times> int) option outcome" where
  "after_write b ret cnt real s =
     (if ret = EOF then bindE (set_buf b (\<lambda>be. be\<lparr>sb_diff := 0\<rparr>) s) (\<lambda>s1. Inr (Some (s1, 0)))
      else if ret < 0 then bindE (close_recer b ret s) (\<lambda>res. Inr (map_option (\<lambda>s1. (s1, - 1)) res))
      else if ret = 0 then Inr (Some (s, 0))
      else bindE (advance b (if word_of_int ret \<noteq> cnt then word_of_int ret else real) s) (\<lambda>s1. Inr (Some (s1, 0))))"

text \<open>How many bytes fill up the last block.\<close>

definition extra_bytes :: "u64 \<Rightarrow> u64" where
  "extra_bytes n = (if n mod BLOCK_ALIGN \<noteq> 0 then BLOCK_ALIGN - n mod BLOCK_ALIGN else 0)"

definition simple_end_transaction :: "addr \<Rightarrow> system \<Rightarrow> (system \<times> int) option outcome" where
  "simple_end_transaction b s =
     bindE (the_buf b s) (\<lambda>be.
     bindE (the_opt (sb_opt be) s) (\<lambda>opt.
       let origcount = sb_diff be;
           wrote_extra = extra_bytes origcount;
           cnt = origcount + wrote_extra in
     bindE (check_assert (has (opt_optbits opt) WRITE_TO_SINGLE_FILE \<and> \<not> has (opt_optbits opt) READMODE \<longrightarrow>
              wrote_extra = 0 \<or> opt_status opt \<noteq> STATUS_RUNNING)) (\<lambda>_.
     bindE (write_out b cnt s) (\<lambda>(s1, ret). after_write b ret cnt origcount s1))))"

definition write_limit :: "opt_s \<Rightarrow> u64 outcome" where
  "write_limit opt = (if WRITEND_DOESNT_SUPPORTS_LIMIT opt
     then (if opt_packet_size opt = 0 then Inl Div_By_Zero
           else Inr (opt_do_w_stuff_every opt div opt_packet_size opt * opt_packet_size opt))
     else Inr (opt_do_w_stuff_every opt))"

definition simple_write_bytes :: "addr \<Rightarrow> system \<Rightarrow> (system \<times> int) option outcome" where
  "simple_write_bytes b s =
     bindE (the_buf b s) (\<lambda>be.
     bindE (the_opt (sb_opt be) s) (\<lambda>opt.
     bindE (write_limit opt) (\<lambda>limit.
     bindE (check_assert (sb_diff be \<noteq> 0)) (\<lambda>_.
       let cnt = min (sb_diff be) limit in
       if limit \<noteq> cnt \<and> WRITEND_USES_DIRECTIO opt then simple_end_transaction b s
       else bindE (write_out b cnt s) (\<lambda>(s1, ret). after_write b ret cnt cnt s1)))))"

partial_function (option) sync_loop :: "addr \<Rightarrow> system \<Rightarrow> (system \<times> int) option outcome option" where
  "sync_loop b s = (case the_buf b s of Inl e \<Rightarrow> Some (Inl e)
     | Inr be \<Rightarrow>
        if sb_diff be = 0 then Some (Inr (Some (s, 0)))
        else (case simple_write_bytes b s of Inl e \<Rightarrow> Some (Inl e)
            | Inr None \<Rightarrow> Some (Inr None)
            | Inr (Some (s1, err)) \<Rightarrow> if err \<noteq> 0 then Some (Inr (Some (s1, - 1))) else sync_loop b s1))"

declare sync_loop.simps [code]

definition sbuf_sync_loop :: "addr \<Rightarrow> system \<Rightarrow> (system \<times> int) option outcome" where
  "sbuf_sync_loop b s = ended (sync_loop b s)"

text \<open>\<open>check\<close> is \<open>re->check\<close>, which only the AIO writer has: the bytes of the writes that are complete,
  0 for none, \<open>AIO_END_OF_FILE\<close>, or another negative number for an error.\<close>

definition AIO_END_OF_FILE :: int where "AIO_END_OF_FILE = - 323"

definition sbuf_check :: "(addr \<Rightarrow> world \<Rightarrow> (world \<times> int) outcome) \<Rightarrow> addr \<Rightarrow> system \<Rightarrow> (system \<times> int) outcome" where
  "sbuf_check check b s =
     bindE (the_buf b s) (\<lambda>be. case be_recer be of None \<Rightarrow> Inl Null_Deref | Some r \<Rightarrow>
     bindE (on_world (check r) s) (\<lambda>(s1, ret).
       if 0 < ret
       then bindE (set_buf b (\<lambda>be. be\<lparr>sb_asyncdiff := sb_asyncdiff be - word_of_int ret\<rparr>) s1) (\<lambda>s2. Inr (s2, 0))
       else if ret = AIO_END_OF_FILE
       then bindE (set_buf b (\<lambda>be. be\<lparr>sb_asyncdiff := 0\<rparr>) s1) (\<lambda>s2. Inr (s2, 0))
       else if ret = 0 then Inr (s1, 0)
       else Inr (s1, - 1)))"

partial_function (option) async_loop :: "(addr \<Rightarrow> world \<Rightarrow> (world \<times> int) outcome) \<Rightarrow> addr \<Rightarrow> system \<Rightarrow>
    (system \<times> int) option outcome option" where
  "async_loop check b s = (case the_buf b s of Inl e \<Rightarrow> Some (Inl e)
     | Inr be \<Rightarrow>
        if sb_asyncdiff be = 0 then Some (Inr (Some (s, 0)))
        else if sb_diff be = 0 \<and> be_recer be = None then Some (Inr (Some (s, - 1)))
        else (case (if sb_diff be = 0 then Inr (Some (s, 0)) else simple_write_bytes b s) of Inl e \<Rightarrow> Some (Inl e)
            | Inr None \<Rightarrow> Some (Inr None)
            | Inr (Some (s1, err)) \<Rightarrow>
               if err \<noteq> 0 then Some (Inr (Some (s1, - 1)))
               else (case sbuf_check check b s1 of Inl e \<Rightarrow> Some (Inl e)
                   | Inr (s2, err) \<Rightarrow> if err \<noteq> 0 then Some (Inr (Some (s2, - 1))) else async_loop check b s2)))"

declare async_loop.simps [code]

definition sbuf_async_loop :: "(addr \<Rightarrow> world \<Rightarrow> (world \<times> int) outcome) \<Rightarrow> addr \<Rightarrow> system \<Rightarrow>
    (system \<times> int) option outcome" where
  "sbuf_async_loop check b s =
     bindE (set_buf b (\<lambda>be. be\<lparr>sb_asyncdiff := sb_diff be\<rparr>) s) (\<lambda>s1. ended (async_loop check b s1))"

section \<open>The writer thread\<close>

text \<open>What the rest of the program contributes to one call of \<open>write_buffer\<close>: what other threads do at
  each wake-up of the three waits, the results of the allocator, and \<open>re->check\<close>.\<close>

record others =
  ev_queue :: "(world \<Rightarrow> world) list"
  ev_fi :: "(afi \<Rightarrow> afi) list"
  ev_disk :: "(world entity_list_branch \<Rightarrow> world entity_list_branch) list"
  ev_realloc :: bool
  ev_garbage :: fileholder
  ev_malloc :: "nat \<Rightarrow> u8 list option"
  ev_check :: "addr \<Rightarrow> world \<Rightarrow> (world \<times> int) outcome"

text \<open>Waiting until the files before this one are written to the single file.\<close>

fun wait_queue :: "(world \<Rightarrow> world) list \<Rightarrow> addr option \<Rightarrow> u64 \<Rightarrow> world \<Rightarrow> world option outcome" where
  "wait_queue env optp fileid w = bindE (get_opt optp w) (\<lambda>opt.
     if fileid \<le> opt_next_fd_id_to_write opt then Inr (Some w)
     else (case env of [] \<Rightarrow> Inr None | e # es \<Rightarrow> wait_queue es optp fileid (e w)))"

declare wait_queue.simps [simp del]

definition set_shm :: "addr \<Rightarrow> addr \<Rightarrow> system \<Rightarrow> system outcome" where
  "set_shm b r s = bindE (the_buf b s) (\<lambda>be. upd_world (common_setshmid r (sb_shmid be) (be_buffer be)) s)"

text \<open>Getting the recording point that has the file, in read mode. As in \<open>get_free\<close>, the result is
  \<open>None\<close> when the thread sleeps, and the number is what \<open>write_buffer\<close> returns unless it is 0.\<close>

definition get_reader :: "others \<Rightarrow> addr \<Rightarrow> addr \<Rightarrow> opt_s \<Rightarrow> system \<Rightarrow> (system \<times> int) option outcome" where
  "get_reader ev b optp opt s =
     bindE (the_buf b s) (\<lambda>be.
     case (sb_fi be, opt_fi opt) of (Some fi, Some fi') \<Rightarrow>
     bindE (afi_wait_on_file (ev_fi ev) fi (sb_fileid be) (wd_fi (sy_world s))) (\<lambda>(fis, r). case r of
       None \<Rightarrow> Inr None
     | Some ret \<Rightarrow>
       let s1 = s\<lparr>sy_world := (sy_world s)\<lparr>wd_fi := fis\<rparr>\<rparr> in
       if ret \<noteq> 0 then Inr (Some (s1, - 1))
       else bindE (afi_get_disk_id fi' (sb_fileid be) fis) (\<lambda>disk_id.
       bindE (on_disk (get_specific (ev_disk ev) optp (sb_fileid be) (word_of_int disk_id)) s1) (\<lambda>(s2, res).
         case res of Blocked \<Rightarrow> Inr None
       | Done (p, ret2) \<Rightarrow>
         (case p of
             None \<Rightarrow> Inr (Some (s2, - 1))
           | Some le \<Rightarrow>
             bindE (deref (br_heap (sy_disk s2)) (Some le)) (\<lambda>n.
             bindE (set_buf b (\<lambda>be. be\<lparr>be_recer := Some (le_entity n)\<rparr>) s2) (\<lambda>s4.
             let r = le_entity n; code = (case ret2 of None \<Rightarrow> 0 | Some k \<Rightarrow> k) in
             if code \<noteq> 0 then bindE (close_recer b code s4) (\<lambda>res. Inr (map_option (\<lambda>s5. (s5, - 1)) res))
             else bindE (set_shm b r s4) (\<lambda>s5.
               if has (opt_optbits opt) WRITE_TO_SINGLE_FILE then Inr (Some (s5, 0))
               else bindE (get_filesize r (sy_world s5)) (\<lambda>n.
                 bindE (set_buf b (\<lambda>be. be\<lparr>sb_diff := n\<rparr>) s5) (\<lambda>s6. Inr (Some (s6, 0)))))))))))
     | _ \<Rightarrow> Inl Null_Deref)"

text \<open>\<open>check_and_fill\<close> on the buffer; its result is only logged.\<close>

definition fill_buffer :: "(nat \<Rightarrow> u8 list option) \<Rightarrow> addr \<Rightarrow> addr \<Rightarrow> opt_s \<Rightarrow> world \<Rightarrow> world outcome" where
  "fill_buffer mal b optp opt w =
     bindE (get_buf b w) (\<lambda>be. case be_buffer be of None \<Rightarrow> Inl Null_Deref
     | Some (m, off) \<Rightarrow>
       bindE (deref (wd_mem w) (Some m)) (\<lambda>bytes.
       bindE (case opt_fi opt of None \<Rightarrow> Inr 0 | Some fi \<Rightarrow> afi_get_n_packets fi (wd_fi w)) (\<lambda>n_packets.
       bindE (check_and_fill mal n_packets (drop (nat off) bytes) opt (wd_resq w optp) (sint (sb_fileid be)))
         (\<lambda>(buf, resq, _, _). Inr (w\<lparr>wd_mem := (wd_mem w)(m \<mapsto> take (nat off) bytes @ buf),
                                     wd_resq := (wd_resq w)(optp := resq)\<rparr>)))))"

text \<open>Getting any free recording point, in write mode.\<close>

definition get_writer :: "others \<Rightarrow> addr \<Rightarrow> addr \<Rightarrow> opt_s \<Rightarrow> system \<Rightarrow> (system \<times> int) option outcome" where
  "get_writer ev b optp opt s =
     bindE (the_buf b s) (\<lambda>be.
     bindE (on_disk (get_free (ev_disk ev) (\<lambda>_. True) optp (Some (sb_fileid be)) False) s) (\<lambda>(s1, res).
       case res of Blocked \<Rightarrow> Inr None
     | Done None \<Rightarrow>
       bindE (set_buf b (\<lambda>be. be\<lparr>sb_running := False\<rparr>) s1) (\<lambda>s2.
       bindE (upd_mem (remove_from_branch (be_self be)) s2) (\<lambda>s3. Inr (Some (s3, - 1))))
     | Done (Some (le, ret)) \<Rightarrow>
       bindE (deref (br_heap (sy_disk s1)) (Some le)) (\<lambda>n.
       bindE (set_buf b (\<lambda>be. be\<lparr>be_recer := Some (le_entity n)\<rparr>) s1) (\<lambda>s2.
       let r = le_entity n; code = (case ret of None \<Rightarrow> 0 | Some k \<Rightarrow> k) in
       if code \<noteq> 0 then bindE (close_recer b code s2) (\<lambda>res. Inr (map_option (\<lambda>s3. (s3, - 1)) res))
       else bindE (set_shm b r s2) (\<lambda>s3.
         case opt_fi opt of None \<Rightarrow> Inl Null_Deref | Some fi \<Rightarrow>
         bindE (common_getid r (sy_world s3)) (\<lambda>ident.
         bindE (on_world (\<lambda>w. bindE (afi_add_file (ev_realloc ev) (ev_garbage ev) fi (sb_fileid be) ident
                  (FH_INMEM OR FH_BUSY) (wd_fi w)) (\<lambda>(fis, k). Inr (w\<lparr>wd_fi := fis\<rparr>, k))) s3) (\<lambda>(s4, _).
         bindE (if has (opt_optbits opt) DATATYPE_UNKNOWN then Inr s4
                else upd_world (fill_buffer (ev_malloc ev) b optp opt) s4) (\<lambda>s5.
         bindE (check_assert (ident < opt_n_drives opt)) (\<lambda>_. Inr (Some (s5, 0)))))))))))"

definition get_recer :: "others \<Rightarrow> addr \<Rightarrow> system \<Rightarrow> (system \<times> int) option outcome" where
  "get_recer ev b s =
     bindE (the_buf b s) (\<lambda>be. case (be_recer be, sb_opt be) of
         (Some _, _) \<Rightarrow> Inr (Some (s, 0))
       | (None, None) \<Rightarrow> Inl Null_Deref
       | (None, Some optp) \<Rightarrow>
         bindE (the_opt (Some optp) s) (\<lambda>opt.
         bindE (if has (opt_optbits opt) WRITE_TO_SINGLE_FILE
                then wait_queue (ev_queue ev) (Some optp) (sb_fileid be) (sy_world s)
                else Inr (Some (sy_world s))) (\<lambda>res. case res of
             None \<Rightarrow> Inr None
           | Some w \<Rightarrow> let s1 = s\<lparr>sy_world := w\<rparr> in
              bindE (the_opt (Some optp) s1) (\<lambda>opt.
              if has (opt_optbits opt) READMODE then get_reader ev b optp opt s1
              else get_writer ev b optp opt s1))))"

definition free_recer :: "addr \<Rightarrow> system \<Rightarrow> system outcome" where
  "free_recer b s =
     bindE (the_buf b s) (\<lambda>be.
     bindE (case be_recer be of None \<Rightarrow> Inr s
            | Some r \<Rightarrow> bindE (get_rec r (sy_world s)) (\<lambda>ioi. upd_disk (set_free (re_self ioi)) s)) (\<lambda>s1.
       set_buf b (\<lambda>be. be\<lparr>be_recer := None\<rparr>) s1))"

definition write_buffer :: "others \<Rightarrow> addr \<Rightarrow> system \<Rightarrow> (system \<times> int) option outcome" where
  "write_buffer ev b s =
     bindE (get_recer ev b s) (\<lambda>res. case res of
       None \<Rightarrow> Inr None
     | Some (s1, ret) \<Rightarrow>
       if ret \<noteq> 0 then Inr (Some (s1, ret))
       else bindE (the_buf b s1) (\<lambda>be.
       bindE (the_opt (sb_opt be) s1) (\<lambda>opt.
       bindE (if has (opt_optbits opt) ASYNC_WRITE then sbuf_async_loop (ev_check ev) b s1
              else sbuf_sync_loop b s1) (\<lambda>res. case res of
           None \<Rightarrow> Inr None
         | Some (s2, ret2) \<Rightarrow>
           if ret2 \<noteq> 0
           then bindE (the_buf b s2) (\<lambda>be2.
                if be_recer be2 = None then Inr (Some (s2, - 1))
                else bindE (close_recer b ret2 s2) (\<lambda>res. Inr (map_option (\<lambda>s3. (s3, - 1)) res)))
           else bindE (free_recer b s2) (\<lambda>s3. Inr (Some (s3, 0)))))))"

text \<open>After a success: the status of the file, then, under the head lock, the buffer goes to the loaded
  or the free list and waits for the next order.\<close>

definition finish_cycle :: "addr \<Rightarrow> system \<Rightarrow> system option outcome" where
  "finish_cycle b s =
     bindE (the_buf b s) (\<lambda>be.
     bindE (the_opt (sb_opt be) s) (\<lambda>opt.
     case opt_fi opt of None \<Rightarrow> Inl Null_Deref | Some fi \<Rightarrow>
     let rd = has (opt_optbits opt) READMODE;
         upd = (\<lambda>st act. upd_world (\<lambda>w. bindE (afi_update_fh fi (sb_fileid be) st act (wd_fi w))
                  (\<lambda>(fis, _). Inr (w\<lparr>wd_fi := fis\<rparr>)))) in
     bindE (if rd then upd FH_INMEM AFI_ADD_TO_STATUS s
            else bindE (upd FH_BUSY AFI_DEL_FROM_STATUS s) (upd FH_ONDISK AFI_ADD_TO_STATUS)) (\<lambda>s1.
     bindE (lock_head b s1) (\<lambda>res. case res of
         None \<Rightarrow> Inr None
       | Some s2 \<Rightarrow>
         bindE (upd_mem (if rd then set_loaded (be_self be) else set_free (be_self be)) s2) (\<lambda>s3.
         bindE (set_buf b (\<lambda>be. be\<lparr>sb_ready_to_act := False\<rparr>) s3) (\<lambda>s4.
         bindE (unlock_head b s4) (\<lambda>s5. Inr (Some s5))))))))"

definition give_up_read :: "addr \<Rightarrow> system \<Rightarrow> system option outcome" where
  "give_up_read b s =
     bindE (clear_ready b s) (\<lambda>res. case res of
         None \<Rightarrow> Inr None
       | Some s1 \<Rightarrow> bindE (free_self b s1) (\<lambda>s2.
           bindE (set_buf b (\<lambda>be. be\<lparr>sb_diff := 0\<rparr>) s2) (\<lambda>s3. Inr (Some s3))))"

text \<open>The attempts to write one buffer, one element of \<open>evs\<close> each.\<close>

fun attempts :: "others list \<Rightarrow> addr \<Rightarrow> int \<Rightarrow> system \<Rightarrow> system option outcome" where
  "attempts [] b savedif s = Inr None"
| "attempts (ev # evs) b savedif s =
     bindE (write_buffer ev b s) (\<lambda>res. case res of
       None \<Rightarrow> Inr None
     | Some (s1, ret) \<Rightarrow>
       if ret = 0 then finish_cycle b s1
       else bindE (the_buf b s1) (\<lambda>be.
       bindE (the_opt (sb_opt be) s1) (\<lambda>opt.
       bindE (set_buf b (\<lambda>be. be\<lparr>sb_diff := word_of_int savedif, sb_bufoffset := be_buffer be\<rparr>) s1) (\<lambda>s2.
         if has (opt_optbits opt) READMODE then give_up_read b s2
         else if sb_running be then attempts evs b savedif s2
         else Inr (Some s2)))))"

text \<open>The wait for an order: the unlock is inside the loop, so that the lock is still held after it when
  the buffer was ready at once. A second wait happens without the lock, which is undefined.\<close>

definition wait_ready :: "(world \<Rightarrow> world) list \<Rightarrow> addr \<Rightarrow> system \<Rightarrow> system option outcome" where
  "wait_ready env b s =
     bindE (the_buf b s) (\<lambda>be.
       if sb_ready_to_act be \<or> \<not> sb_running be then Inr (Some s)
       else (case env of [] \<Rightarrow> Inr None
         | e # _ \<Rightarrow> bindE (unlock_head b (s\<lparr>sy_world := e (sy_world s)\<rparr>)) (\<lambda>s1.
             bindE (the_buf b s1) (\<lambda>be1.
               if sb_ready_to_act be1 \<or> \<not> sb_running be1 then Inr (Some s1) else Inl Undefined))))"

text \<open>One turn of \<open>sbuf_simple_write_loop\<close>; \<open>None\<close> is a thread that sleeps, or waits for its own lock.\<close>

definition write_turn :: "(world \<Rightarrow> world) list \<Rightarrow> others list \<Rightarrow> addr \<Rightarrow> system \<Rightarrow> system option outcome" where
  "write_turn env evs b s =
     bindE (lock_head b s) (\<lambda>res. case res of None \<Rightarrow> Inr None | Some s0 \<Rightarrow>
     bindE (wait_ready env b s0) (\<lambda>res. case res of None \<Rightarrow> Inr None | Some s1 \<Rightarrow>
     bindE (the_buf b s1) (\<lambda>be.
       if sb_diff be = 0 then Inr (Some s1)
       else bindE (the_opt (sb_opt be) s1) (\<lambda>opt.
         bindE (check_assert (uint (sb_diff be) mod 2 ^ 32 \<le> uint (CALC_BUFSIZE_FROM_OPT_NOOFFSET opt))) (\<lambda>_.
           if sb_running be then attempts evs b (to_int32 (uint (sb_diff be))) s1 else Inr (Some s1))))))"

text \<open>The loop over the orders, and the thread: it starts by setting \<open>running\<close>. \<open>turns\<close> gives what the
  other threads do in each turn; \<open>True\<close> is that the thread has ended.\<close>

fun write_turns :: "((world \<Rightarrow> world) list \<times> others list) list \<Rightarrow> addr \<Rightarrow> system \<Rightarrow> (system \<times> bool) outcome" where
  "write_turns turns b s =
     bindE (the_buf b s) (\<lambda>be.
       if \<not> sb_running be then Inr (s, True)
       else (case turns of [] \<Rightarrow> Inr (s, False)
         | (env, evs) # ts \<Rightarrow> bindE (write_turn env evs b s) (\<lambda>res. case res of
               None \<Rightarrow> Inr (s, False)
             | Some s1 \<Rightarrow> write_turns ts b s1)))"

declare write_turns.simps [simp del]

definition sbuf_simple_write_loop :: "((world \<Rightarrow> world) list \<times> others list) list \<Rightarrow> addr \<Rightarrow> system \<Rightarrow>
    (system \<times> bool) outcome" where
  "sbuf_simple_write_loop turns b s =
     bindE (set_buf b (\<lambda>be. be\<lparr>sb_running := True\<rparr>) s) (write_turns turns b)"

end
