(* ===== verification/Sender.thy ===== *)
theory Sender
  imports SimpleBuf SocketStream
begin

text \<open>
  The sending side: the file tracking of \<open>src/common_filehandling.c\<close>, the pacing and the sending loop of
  \<open>src/sockethandling.c\<close>, and the UDP send command of \<open>src/udp_stream.c\<close>.

  The state of a sender thread is the system with the file index and the memory branch, the recording
  it sends, its buffer, its socket options and its tracking record. What other threads do while it
  waits, the clock, and the results of \<open>sendto\<close> are arguments.
\<close>

definition ALL_DONE :: int where "ALL_DONE = 3123"
definition DONTRYLOADNOMORE :: int where "DONTRYLOADNOMORE = 4"
definition TOTAL_MAX_DRIVES_IN_USE :: int where "TOTAL_MAX_DRIVES_IN_USE = 20"
definition MBYTES_PER_DRIVE :: int where "MBYTES_PER_DRIVE = 93"
definition MILLION :: int where "MILLION = 1000000"

record sender_tracking =
  tr_allocated_to_load :: int
  tr_files_sent :: u64
  tr_files_skipped :: u64
  tr_files_loaded :: u64
  tr_packets_loaded :: u64
  tr_packets_sent :: u64
  tr_files_in_loading :: u64
  tr_n_packets_probed :: u64
  tr_n_files_probed :: u64
  tr_total_bytes_to_send :: u64
  tr_status_probed :: u32
  tr_packetcounter :: u64
  tr_inc :: u64
  tr_now :: timespec
  tr_minsleep :: u64
  tr_req :: timespec

record sender =
  sn_sys :: system
  sn_opt :: addr
  sn_be :: "addr option"
  sn_so :: socketopts
  sn_st :: sender_tracking

definition sn_world :: "sender \<Rightarrow> world" where
  "sn_world s = sy_world (sn_sys s)"

definition the_sopt :: "sender \<Rightarrow> opt_s outcome" where
  "the_sopt s = get_opt (Some (sn_opt s)) (sn_world s)"

definition the_sfi :: "sender \<Rightarrow> addr outcome" where
  "the_sfi s = bindE (the_sopt s) (\<lambda>opt. case opt_fi opt of None \<Rightarrow> Inl Null_Deref | Some a \<Rightarrow> Inr a)"

definition upd_track :: "(sender_tracking \<Rightarrow> sender_tracking) \<Rightarrow> sender \<Rightarrow> sender" where
  "upd_track f s = s\<lparr>sn_st := f (sn_st s)\<rparr>"

definition on_mem :: "(world entity_list_branch \<Rightarrow> (world entity_list_branch \<times> 'a) outcome) \<Rightarrow> sender \<Rightarrow>
    (sender \<times> 'a) outcome" where
  "on_mem f s = bindE (f ((sy_mem (sn_sys s))\<lparr>br_world := sn_world s\<rparr>)) (\<lambda>(b, r).
     Inr (s\<lparr>sn_sys := (sn_sys s)\<lparr>sy_mem := b, sy_world := br_world b\<rparr>\<rparr>, r))"

definition on_sys :: "(system \<Rightarrow> system outcome) \<Rightarrow> sender \<Rightarrow> sender outcome" where
  "on_sys f s = bindE (f (sn_sys s)) (\<lambda>y. Inr (s\<lparr>sn_sys := y\<rparr>))"

text \<open>What other threads do: at the waits for an update of the recording, for a free buffer and for a
  loading to become possible (by the number of the file to load), and for a loaded buffer (by the
  number of the file to send).\<close>

record send_env =
  se_updates :: "(system \<Rightarrow> system) list"
  se_free :: "u64 \<Rightarrow> (world entity_list_branch \<Rightarrow> world entity_list_branch) list"
  se_start :: "u64 \<Rightarrow> (afi \<Rightarrow> afi) list"
  se_loaded :: "u64 \<Rightarrow> (world entity_list_branch \<Rightarrow> world entity_list_branch) list"

section \<open>Tracking\<close>

definition min_long :: "u64 \<Rightarrow> u64 \<Rightarrow> u64" where
  "min_long a b = (if a < b then a else b)"

definition probe :: "sender \<Rightarrow> sender outcome" where
  "probe s = bindE (the_sfi s) (\<lambda>fi. bindE (afi_update_metadata fi (wd_fi (sn_world s))) (\<lambda>(nf, np, st).
     Inr (upd_track (\<lambda>t. t\<lparr>tr_n_files_probed := nf, tr_n_packets_probed := np, tr_status_probed := st\<rparr>) s)))"

definition zero_tracking :: sender_tracking where
  "zero_tracking = \<lparr>tr_allocated_to_load = 0, tr_files_sent = 0, tr_files_skipped = 0, tr_files_loaded = 0,
     tr_packets_loaded = 0, tr_packets_sent = 0, tr_files_in_loading = 0, tr_n_packets_probed = 0,
     tr_n_files_probed = 0, tr_total_bytes_to_send = 0, tr_status_probed = 0, tr_packetcounter = 0, tr_inc = 0,
     tr_now = ZEROTIME, tr_minsleep = 0, tr_req = ZEROTIME\<rparr>"

text \<open>The record is cleared; the field \<open>onenano\<close> is the constant of one nanosecond.\<close>

definition init_sender_tracking :: "sender \<Rightarrow> sender outcome" where
  "init_sender_tracking s = probe (s\<lparr>sn_st := zero_tracking\<rparr>)"

definition should_i_be_running :: "opt_s \<Rightarrow> sender_tracking \<Rightarrow> bool" where
  "should_i_be_running opt t \<longleftrightarrow> has (opt_status opt) STATUS_RUNNING \<and>
     (tr_packets_sent t < tr_n_packets_probed t \<or> tr_files_sent t \<noteq> tr_n_files_probed t)"

text \<open>\<open>BILLION / wait\<close> and the product are of the type \<open>long double\<close> until they are stored in a
  \<open>long\<close>: the quotient is not rounded to a whole number. Its relative rounding error, below \<open>2 ^ - 63\<close>,
  is left out. \<open>MIN\<close> of a \<open>long double\<close> and an \<open>int\<close> is
  stored in an \<open>int\<close>.\<close>

definition throttling_count :: "opt_s \<Rightarrow> sender_tracking \<Rightarrow> sender_tracking outcome" where
  "throttling_count opt t =
     (if opt_wait_nanoseconds opt = 0
      then Inr (t\<lparr>tr_allocated_to_load := min TOTAL_MAX_DRIVES_IN_USE (opt_n_threads opt)\<rparr>)
      else let rate_in_bytes = c_div (BILLION * uint (opt_packet_size opt)) (opt_wait_nanoseconds opt);
               n = (if rate_in_bytes \<ge> (TOTAL_MAX_DRIVES_IN_USE - 1) * (MBYTES_PER_DRIVE * MILLION)
                    then TOTAL_MAX_DRIVES_IN_USE
                    else c_div (rate_in_bytes + MBYTES_PER_DRIVE * MILLION) (MBYTES_PER_DRIVE * MILLION)) in
        Inr (t\<lparr>tr_allocated_to_load := max 5 n\<rparr>))"

text \<open>\<open>skip_missing\<close> for the file counter of loading (\<open>SKIP_LOADED\<close>) or sending (\<open>SKIP_SENT\<close>). The
  count of packets is taken from the number of files.\<close>

partial_function (option) skip_missing :: "bool \<Rightarrow> sender \<Rightarrow> sender outcome option" where
  "skip_missing loaded s =
     (let t = sn_st s; target = (if loaded then tr_files_loaded t else tr_files_sent t) in
      if \<not> target \<le> tr_n_files_probed t then Some (Inr s)
      else (case bindE (the_sfi s) (\<lambda>fi. bindE (the_sopt s) (\<lambda>opt.
              bindE (afi_is_missing fi target (wd_fi (sn_world s))) (\<lambda>m.
              if \<not> m then Inr None
              else bindE (afi_get_n_files fi (wd_fi (sn_world s))) (\<lambda>n.
                Inr (Some (min_long (n - tr_packets_loaded t) (ucast (opt_buf_num_elems opt)))))))) of
          Inl e \<Rightarrow> Some (Inl e)
        | Inr None \<Rightarrow> Some (Inr s)
        | Inr (Some nuf) \<Rightarrow> skip_missing loaded (upd_track (\<lambda>t.
            if loaded then t\<lparr>tr_files_loaded := tr_files_loaded t + 1, tr_packets_loaded := tr_packets_loaded t + nuf\<rparr>
            else t\<lparr>tr_files_skipped := tr_files_skipped t + 1, tr_files_sent := tr_files_sent t + 1,
                   tr_packets_sent := tr_packets_sent t + nuf\<rparr>) s)))"

declare skip_missing.simps [code]

section \<open>Loading and switching files\<close>

text \<open>The buffer to load into: the given one, acquired again for the next file, or a free one. \<open>None\<close> is
  asleep, \<open>Thread_Exit\<close> the exit for want of a buffer, and an \<open>Inl\<close> inside the result an early return.\<close>

definition pick_buffer :: "send_env \<Rightarrow> sender \<Rightarrow> (sender \<times> (int + addr) run) option outcome" where
  "pick_buffer ev s = (case sn_be s of
       Some b \<Rightarrow> bindE (the_sopt s) (\<lambda>opt.
         bindE (sbuf_acquire (\<lambda>_. None) id b (sn_opt s) (Some (tr_files_loaded (sn_st s))) (sn_world s)) (\<lambda>(w, _).
           Inr (Some (s\<lparr>sn_sys := (sn_sys s)\<lparr>sy_world := w\<rparr>\<rparr>, Return (Inr b)))))
     | None \<Rightarrow>
         if check_if_free (sy_mem (sn_sys s)) \<noteq> 0 \<and> tr_files_in_loading (sn_st s) \<noteq> 0
         then Inr (Some (s, Return (Inl DONTRYLOADNOMORE)))
         else bindE (on_mem (get_free (se_free ev (tr_files_loaded (sn_st s)))
                (\<lambda>w. case wd_opt w (sn_opt s) of None \<Rightarrow> False | Some o1 \<Rightarrow> has (opt_status o1) STATUS_RUNNING)
                (sn_opt s) (Some (tr_files_loaded (sn_st s))) True) s) (\<lambda>(s1, res). case res of
             Blocked \<Rightarrow> Inr None
           | Done None \<Rightarrow> Inr (Some (s1, Thread_Exit))
           | Done (Some (le, _)) \<Rightarrow> bindE (deref (br_heap (sy_mem (sn_sys s1))) (Some le)) (\<lambda>n.
               Inr (Some (upd_track (\<lambda>t. t\<lparr>tr_allocated_to_load := tr_allocated_to_load t - 1\<rparr>) s1,
                          Return (Inr (le_entity n)))))))"

definition start_loading :: "send_env \<Rightarrow> sender \<Rightarrow> (sender \<times> int run) option outcome" where
  "start_loading ev s0 =
     bindE (ended (skip_missing True s0)) (\<lambda>s.
     if tr_files_loaded (sn_st s) = tr_n_files_probed (sn_st s) then Inr (Some (s, Return DONTRYLOADNOMORE))
     else bindE (the_sfi s) (\<lambda>fi.
     bindE (afi_start_loading (se_start ev (tr_files_loaded (sn_st s))) fi (tr_files_loaded (sn_st s))
              (0 < tr_files_in_loading (sn_st s)) (wd_fi (sn_world s))) (\<lambda>(fis, r).
     let s1 = s\<lparr>sn_sys := (sn_sys s)\<lparr>sy_world := (sn_world s)\<lparr>wd_fi := fis\<rparr>\<rparr>\<rparr> in
     case r of None \<Rightarrow> Inr None
     | Some err \<Rightarrow>
       if err = 1 then Inr (Some (s1, Return DONTRYLOADNOMORE))
       else if err \<noteq> 0 then Inr (Some (s1, Return err))
       else bindE (probe s1) (\<lambda>s2.
       bindE (the_sopt s2) (\<lambda>opt.
       let t = sn_st s2;
           nuf = min_long (tr_n_packets_probed t - tr_packets_loaded t) (ucast (opt_buf_num_elems opt)) in
       if nuf = 0 then Inr (Some (s2, Return DONTRYLOADNOMORE))
       else bindE (pick_buffer ev s2) (\<lambda>res. case res of
           None \<Rightarrow> Inr None
         | Some (s3, Thread_Exit) \<Rightarrow> Inr (Some (s3, Thread_Exit))
         | Some (s3, Return (Inl code)) \<Rightarrow> Inr (Some (s3, Return code))
         | Some (s3, Return (Inr b)) \<Rightarrow>
             bindE (on_sys (set_buf b (\<lambda>be. be\<lparr>sb_diff := nuf * opt_packet_size opt, sb_ready_to_act := True\<rparr>)) s3) (\<lambda>s4.
               Inr (Some (upd_track (\<lambda>t. t\<lparr>tr_files_in_loading := tr_files_in_loading t + 1,
                            tr_packets_loaded := tr_packets_loaded t + nuf,
                            tr_files_loaded := tr_files_loaded t + 1\<rparr>) s4, Return 0)))))))))"

text \<open>The block at the start of \<open>jump_to_next_file\<close> stands alone, without a condition: it gives back the
  buffer \<open>se->be\<close> also when there is none.\<close>

definition release_sent :: "sender \<Rightarrow> sender outcome" where
  "release_sent s = (case sn_be s of None \<Rightarrow> Inl Null_Deref
     | Some b \<Rightarrow> bindE (get_buf b (sn_world s)) (\<lambda>be.
         bindE (on_sys (upd_mem (set_free (be_self be)))
           (upd_track (\<lambda>t. t\<lparr>tr_files_sent := tr_files_sent t + 1\<rparr>) s)) (\<lambda>s1.
         Inr (upd_track (\<lambda>t. t\<lparr>tr_allocated_to_load := tr_allocated_to_load t + 1\<rparr>) (s1\<lparr>sn_be := None\<rparr>)))))"

definition set_total :: "sender \<Rightarrow> sender outcome" where
  "set_total s = bindE (the_sopt s) (\<lambda>opt.
     Inr (upd_track (\<lambda>t. t\<lparr>tr_total_bytes_to_send := tr_n_packets_probed t * opt_packet_size opt\<rparr>) s))"

text \<open>The wait of \<open>afi_wait_on_update\<close>: -1 when nothing is recorded any more.\<close>

definition wait_update :: "(system \<Rightarrow> system) list \<Rightarrow> sender \<Rightarrow> (sender \<times> int \<times> (system \<Rightarrow> system) list) option outcome" where
  "wait_update env s = bindE (the_sfi s) (\<lambda>fi. bindE (afi_get_status fi (wd_fi (sn_world s))) (\<lambda>st.
     if \<not> has st AFI_RECORD then Inr (Some (s, - 1, env))
     else (case env of [] \<Rightarrow> Inr None | e # es \<Rightarrow> Inr (Some (s\<lparr>sn_sys := e (sn_sys s)\<rparr>, 0, es)))))"

text \<open>The loop that waits for more files while everything is sent but the recording goes on; 0 means
  there is something to send.\<close>

fun wait_for_files :: "(system \<Rightarrow> system) list \<Rightarrow> sender \<Rightarrow> (sender \<times> int \<times> (system \<Rightarrow> system) list) option outcome" where
  "wait_for_files env s =
     (if tr_files_sent (sn_st s) \<noteq> tr_n_files_probed (sn_st s) then Inr (Some (s, 0, env))
      else bindE (the_sfi s) (\<lambda>fi. bindE (afi_get_status fi (wd_fi (sn_world s))) (\<lambda>st.
        let s1 = upd_track (\<lambda>t. t\<lparr>tr_status_probed := st\<rparr>) s in
        if \<not> has st AFI_RECORD then Inr (Some (s1, ALL_DONE, env))
        else (case env of [] \<Rightarrow> Inr None
          | e # es \<Rightarrow> bindE (probe (s1\<lparr>sn_sys := e (sn_sys s1)\<rparr>)) (\<lambda>s2. bindE (set_total s2) (\<lambda>s3.
              wait_for_files es s3))))))"

declare wait_for_files.simps [simp del]

text \<open>The loop that loads ahead: at most \<open>fuel\<close> calls, each of which takes an allocated buffer or
  advances the file to load.\<close>

fun load_ahead :: "nat \<Rightarrow> send_env \<Rightarrow> sender \<Rightarrow> (sender \<times> int run) option outcome" where
  "load_ahead 0 ev s = Inl Diverges"
| "load_ahead (Suc fuel) ev s =
     (if \<not> (tr_files_loaded (sn_st s) < tr_n_files_probed (sn_st s) \<and> 0 < tr_allocated_to_load (sn_st s))
      then Inr (Some (s, Return 0))
      else bindE (start_loading ev s) (\<lambda>res. case res of
          None \<Rightarrow> Inr None
        | Some (s1, Thread_Exit) \<Rightarrow> Inr (Some (s1, Thread_Exit))
        | Some (s1, Return err) \<Rightarrow>
           if err = DONTRYLOADNOMORE then Inr (Some (s1, Return 0))
           else if err \<noteq> 0 then Inr (Some (s1, Return err))
           else load_ahead fuel ev s1))"

definition get_next_loaded :: "send_env \<Rightarrow> sender \<Rightarrow> (sender \<times> int) option outcome" where
  "get_next_loaded ev s0 =
     bindE (ended (skip_missing False s0)) (\<lambda>s.
     if \<not> 0 < tr_files_in_loading (sn_st s) then Inr (Some (s, - 1))
     else bindE (on_mem (get_loaded (se_loaded ev (tr_files_sent (sn_st s))) (tr_files_sent (sn_st s)) (sn_opt s)) s)
       (\<lambda>(s1, res). case res of
           Blocked \<Rightarrow> Inr None
         | Done None \<Rightarrow> Inr (Some (s1, - 1))
         | Done (Some le) \<Rightarrow> bindE (deref (br_heap (sy_mem (sn_sys s1))) (Some le)) (\<lambda>n.
             Inr (Some (upd_track (\<lambda>t. t\<lparr>tr_files_in_loading := tr_files_in_loading t - 1\<rparr>)
                          (s1\<lparr>sn_be := Some (le_entity n)\<rparr>), 0)))))"

text \<open>\<open>jump_to_next_file\<close>, with at most \<open>fuel\<close> calls of itself and rounds of the loading loop. The result
  is the return value.\<close>

fun jump_to_next_file :: "nat \<Rightarrow> send_env \<Rightarrow> sender \<Rightarrow> (sender \<times> int run) option outcome" where
  "jump_to_next_file 0 ev s = Inl Diverges"
| "jump_to_next_file (Suc fuel) ev s =
     bindE (probe s) (\<lambda>s1. bindE (set_total s1) (\<lambda>s2. bindE (release_sent s2) (\<lambda>s3.
     bindE (wait_for_files (se_updates ev) s3) (\<lambda>res. case res of
         None \<Rightarrow> Inr None
       | Some (s4, code, env) \<Rightarrow>
         if code \<noteq> 0 then Inr (Some (s4, Return code))
         else bindE (load_ahead (Suc fuel) ev s4) (\<lambda>res. case res of
             None \<Rightarrow> Inr None
           | Some (s5, Thread_Exit) \<Rightarrow> Inr (Some (s5, Thread_Exit))
           | Some (s5, Return err) \<Rightarrow>
             if err \<noteq> 0 then Inr (Some (s5, Return err))
             else if tr_files_in_loading (sn_st s5) = 0
             then bindE (wait_update env s5) (\<lambda>res. case res of
                   None \<Rightarrow> Inr None
                 | Some (s6, err, env1) \<Rightarrow>
                   if err \<noteq> 0 then Inr (Some (s6, Return err))
                   else jump_to_next_file fuel (ev\<lparr>se_updates := env1\<rparr>) s6)
             else bindE (get_next_loaded ev s5) (\<lambda>res. case res of
                   None \<Rightarrow> Inr None
                 | Some (s6, code) \<Rightarrow> Inr (Some (s6, Return code))))))))"

section \<open>Pacing\<close>

text \<open>\<open>get_min_sleeptime\<close> sets \<open>minsleep\<close>. The sleeps of one nanosecond are counted off in steps of
  \<open>minsleep\<close>, which never ends when it is 0.\<close>

partial_function (option) sleep_off :: "u64 \<Rightarrow> int \<Rightarrow> int option" where
  "sleep_off minsleep nanos = (if minsleep < word_of_int nanos then sleep_off minsleep (nanos - uint minsleep) else Some nanos)"

declare sleep_off.simps [code]

text \<open>The busy wait reads the clock until the interval is over: the first reading that is late enough.\<close>

primrec spin :: "timespec \<Rightarrow> int \<Rightarrow> timespec list \<Rightarrow> (timespec \<times> timespec list) option" where
  "spin since wait [] = None"
| "spin since wait (c # cs) = (if nanodiff since c < wait then spin since wait cs else Some (c, cs))"

definition udps_wait_function :: "timespec list \<Rightarrow> opt_s \<Rightarrow> sender_tracking \<Rightarrow>
    (opt_s \<times> sender_tracking \<times> timespec list) option outcome" where
  "udps_wait_function clock opt t =
     (if \<not> 0 < opt_wait_nanoseconds opt then Inr (Some (opt, t, clock))
      else case clock of [] \<Rightarrow> Inr None
      | now # clock1 \<Rightarrow>
        let nanos = opt_wait_nanoseconds opt - nanodiff (opt_wait_last_sent opt) now in
        if 0 < nanos
        then (case sleep_off (tr_minsleep t) nanos of None \<Rightarrow> Inl Diverges
            | Some rest \<Rightarrow> (case spin (opt_wait_last_sent opt) (opt_wait_nanoseconds opt) clock1 of
                None \<Rightarrow> Inr None
              | Some (now2, clock2) \<Rightarrow>
                Inr (Some (opt\<lparr>opt_wait_last_sent := nanoadd (opt_wait_last_sent opt) (word_of_int (opt_wait_nanoseconds opt))\<rparr>,
                           t\<lparr>tr_now := now2, tr_req := \<lparr>tv_sec = 0, tv_nsec = rest\<rparr>\<rparr>, clock2))))
        else Inr (Some (opt\<lparr>opt_wait_last_sent := now\<rparr>, t\<lparr>tr_now := now, tr_req := \<lparr>tv_sec = 0, tv_nsec = nanos\<rparr>\<rparr>, clock1)))"

section \<open>Sending\<close>

definition bboundary_bytenum :: "opt_s \<Rightarrow> socketopts \<Rightarrow> sender_tracking \<Rightarrow> sender_tracking" where
  "bboundary_bytenum opt so t = t\<lparr>tr_packetcounter :=
     min_long (tr_total_bytes_to_send t - so_total_transacted_bytes so) (ucast (opt_buf_num_elems opt) * opt_packet_size opt)\<rparr>"

definition bboundary_packetnum :: "opt_s \<Rightarrow> sender_tracking \<Rightarrow> sender_tracking" where
  "bboundary_packetnum opt t = t\<lparr>tr_packetcounter :=
     min_long (tr_n_packets_probed t - tr_packets_sent t) (ucast (opt_buf_num_elems opt))\<rparr>"

text \<open>\<open>sent\<close> is the result of \<open>sendto\<close> for the bytes given, an \<open>int\<close> that is compared as unsigned. The
  bytes are the result besides the return value.\<close>

definition udp_sender_sendcmd :: "(u8 list \<Rightarrow> int) \<Rightarrow> sender \<Rightarrow> (sender \<times> u8 list \<times> int) outcome" where
  "udp_sender_sendcmd sent s =
     bindE (the_sopt s) (\<lambda>opt.
     case sn_be s of None \<Rightarrow> Inl Null_Deref | Some b \<Rightarrow>
     bindE (get_buf b (sn_world s)) (\<lambda>be.
     bindE (load_bytes (shift_ptr (be_buffer be) (uint (tr_inc (sn_st s)) + opt_offset opt))
              (unat (opt_packet_size opt - word_of_int (opt_offset opt))) (sn_world s)) (\<lambda>bytes.
       let err = sent bytes in
       if err < 0 then Inr (s\<lparr>sn_so := (sn_so s)\<lparr>so_fd := 0\<rparr>\<rparr>, bytes, - 1)
       else if ucast (word_of_int err :: u32) \<noteq> opt_packet_size opt then Inr (s, bytes, 0)
       else Inr (s\<lparr>sn_so := (sn_so s)\<lparr>so_total_transacted_bytes := so_total_transacted_bytes (sn_so s) + word_of_int err\<rparr>,
                   sn_st := (sn_st s)\<lparr>tr_packets_sent := tr_packets_sent (sn_st s) + 1,
                     tr_inc := tr_inc (sn_st s) + opt_packet_size opt,
                     tr_packetcounter := tr_packetcounter (sn_st s) - 1\<rparr>\<rparr>, bytes, 0))))"

text \<open>A send command gets the results of the socket for the bytes given to it; its result has the bytes that were sent.\<close>

type_synonym send_cmd = "(u8 list \<Rightarrow> int) \<Rightarrow> sender \<Rightarrow> (sender \<times> u8 list \<times> int) outcome"

text \<open>The inner loop of \<open>generic_sendloop\<close>, for at most \<open>fuel\<close> packets: \<open>net i\<close> is the result of the
  \<open>i\<close>-th \<open>sendto\<close>. The result is \<open>None\<close> when the loop is still running, otherwise whether it ended
  without an error, with the clock that is left and the packets sent.\<close>

fun send_buffer :: "send_cmd \<Rightarrow> nat \<Rightarrow> bool \<Rightarrow> (nat \<Rightarrow> u8 list \<Rightarrow> int) \<Rightarrow> nat \<Rightarrow> timespec list \<Rightarrow> u8 list list \<Rightarrow> sender \<Rightarrow>
    (sender \<times> bool \<times> timespec list \<times> u8 list list) option outcome" where
  "send_buffer cmd 0 do_wait net i clock wire s = Inr None"
| "send_buffer cmd (Suc fuel) do_wait net i clock wire s =
     (if tr_packetcounter (sn_st s) = 0 then Inr (Some (s, True, clock, wire))
      else bindE (the_sopt s) (\<lambda>opt.
      bindE (if do_wait then udps_wait_function clock opt (sn_st s) else Inr (Some (opt, sn_st s, clock))) (\<lambda>res. case res of
          None \<Rightarrow> Inr None
        | Some (opt1, t, clock1) \<Rightarrow>
          let s1 = s\<lparr>sn_st := t, sn_sys := (sn_sys s)\<lparr>sy_world := (sn_world s)
                       \<lparr>wd_opt := (wd_opt (sn_world s))(sn_opt s \<mapsto> opt1)\<rparr>\<rparr>\<rparr> in
          bindE (cmd (net i) s1) (\<lambda>(s2, bytes, err).
            if err \<noteq> 0 then Inr (Some (s2, False, clock1, wire @ [bytes]))
            else send_buffer cmd fuel do_wait net (Suc i) clock1 (wire @ [bytes]) s2))))"

definition set_sopt :: "(opt_s \<Rightarrow> opt_s) \<Rightarrow> sender \<Rightarrow> sender outcome" where
  "set_sopt f s = on_sys (upd_world (put_opt (Some (sn_opt s)) f)) s"

definition give_back :: "sender \<Rightarrow> sender outcome" where
  "give_back s = (case sn_be s of None \<Rightarrow> Inr s
     | Some b \<Rightarrow> bindE (get_buf b (sn_world s)) (\<lambda>be. on_sys (upd_mem (set_free (be_self be))) s))"

text \<open>\<open>UDPS_EXIT\<close> and \<open>UDPS_EXIT_ERROR\<close>, where \<open>se->stop\<close> is \<open>stop_streamer\<close>.\<close>

definition UDPS_EXIT :: "sender \<Rightarrow> (sender \<times> int) outcome" where
  "UDPS_EXIT s = bindE (set_sopt (\<lambda>o1. o1\<lparr>opt_total_packets := tr_n_packets_probed (sn_st s)\<rparr>) s) (\<lambda>s1.
     bindE (give_back s1) (\<lambda>s2.
     bindE (set_sopt (\<lambda>o1. set_status_for_opt o1 STATUS_STOPPED) s2) (\<lambda>s3.
       Inr (s3\<lparr>sn_so := (sn_so s3)\<lparr>so_fd := 0\<rparr>\<rparr>, 0))))"

definition UDPS_EXIT_ERROR :: "sender \<Rightarrow> (sender \<times> int) outcome" where
  "UDPS_EXIT_ERROR s = bindE (set_sopt (\<lambda>o1. o1\<lparr>opt_total_packets := tr_n_packets_probed (sn_st s)\<rparr>) s) (\<lambda>s1.
     bindE (give_back s1) (\<lambda>s2.
     bindE (set_sopt (\<lambda>o1. o1\<lparr>opt_status := STATUS_ERROR\<rparr>) s2) (\<lambda>s3. Inr (s3, - 1))))"

text \<open>The outer loop: one element of \<open>evs\<close> for each file. \<open>fuel\<close> bounds the loops inside one turn; the
  result is \<open>None\<close> when the thread has not ended by then.\<close>

fun send_files :: "send_cmd \<Rightarrow> nat \<Rightarrow> bool \<Rightarrow> (opt_s \<Rightarrow> socketopts \<Rightarrow> sender_tracking \<Rightarrow> sender_tracking) \<Rightarrow> (nat \<Rightarrow> u8 list \<Rightarrow> int) \<Rightarrow>
    send_env list \<Rightarrow> timespec list \<Rightarrow> u8 list list \<Rightarrow> sender \<Rightarrow> (sender \<times> u8 list list \<times> int run) option outcome" where
  "send_files cmd fuel do_wait boundary net evs clock wire s =
     bindE (the_sopt s) (\<lambda>opt.
     if \<not> should_i_be_running opt (sn_st s)
     then bindE (UDPS_EXIT s) (\<lambda>(s1, r). Inr (Some (s1, wire, Return r)))
     else (case evs of [] \<Rightarrow> Inr None
       | ev # evs' \<Rightarrow>
         bindE (jump_to_next_file fuel ev s) (\<lambda>res. case res of
             None \<Rightarrow> Inr None
           | Some (s1, Thread_Exit) \<Rightarrow> Inr (Some (s1, wire, Thread_Exit))
           | Some (s1, Return err) \<Rightarrow>
             if err = ALL_DONE then bindE (UDPS_EXIT s1) (\<lambda>(s2, r). Inr (Some (s2, wire, Return r)))
             else if err < 0 then bindE (UDPS_EXIT_ERROR s1) (\<lambda>(s2, r). Inr (Some (s2, wire, Return r)))
             else if sn_be s1 = None then Inr (Some (s1, wire, Thread_Exit))
             else bindE (the_sopt s1) (\<lambda>opt1.
               bindE (send_buffer cmd fuel do_wait net (length wire) clock wire
                        (upd_track (\<lambda>t. boundary opt1 (sn_so s1) (t\<lparr>tr_inc := 0\<rparr>)) s1)) (\<lambda>res. case res of
                   None \<Rightarrow> Inr None
                 | Some (s2, ok, clock1, wire1) \<Rightarrow>
                   if \<not> ok then bindE (UDPS_EXIT_ERROR s2) (\<lambda>(s3, r). Inr (Some (s3, wire1, Return r)))
                   else send_files cmd fuel do_wait boundary net evs' clock1 wire1 s2)))))"

declare send_files.simps [simp del]

definition generic_sendloop :: "send_cmd \<Rightarrow> nat \<Rightarrow> bool \<Rightarrow> (opt_s \<Rightarrow> socketopts \<Rightarrow> sender_tracking \<Rightarrow> sender_tracking) \<Rightarrow>
    (nat \<Rightarrow> u8 list \<Rightarrow> int) \<Rightarrow> send_env list \<Rightarrow> u64 \<Rightarrow> timespec list \<Rightarrow> sender \<Rightarrow> (sender \<times> u8 list list \<times> int run) option outcome" where
  "generic_sendloop cmd fuel do_wait boundary net evs minsleep clock s =
     bindE (init_sender_tracking s) (\<lambda>s1.
     bindE (the_sopt s1) (\<lambda>opt.
     bindE (throttling_count opt (sn_st s1)) (\<lambda>t.
     let s2 = s1\<lparr>sn_be := None, sn_st := (if do_wait then t\<lparr>tr_minsleep := minsleep\<rparr> else t),
                 sn_so := (sn_so s1)\<lparr>so_total_transacted_bytes := 0, so_out_of_order := 0, so_incomplete := 0,
                   so_missing := 0\<rparr>\<rparr> in
     if \<not> do_wait then send_files cmd fuel do_wait boundary net evs clock [] s2
     else (case clock of [] \<Rightarrow> Inr None
       | c # cs \<Rightarrow> bindE (set_sopt (\<lambda>o1. o1\<lparr>opt_wait_last_sent := c\<rparr>) s2) (\<lambda>s3.
           send_files cmd fuel do_wait boundary net evs cs [] s3)))))"

definition udp_sender :: "nat \<Rightarrow> (nat \<Rightarrow> u8 list \<Rightarrow> int) \<Rightarrow> send_env list \<Rightarrow> u64 \<Rightarrow> timespec list \<Rightarrow> sender \<Rightarrow>
    (sender \<times> u8 list list \<times> int run) option outcome" where
  "udp_sender fuel = generic_sendloop udp_sender_sendcmd fuel True (\<lambda>opt so. bboundary_packetnum opt)"

end
