(* ===== verification/BufferWriting.thy ===== *)
theory BufferWriting
  imports SimpleBuf
begin

text \<open>
  What the writer thread puts on disk: each writer keeps the contract \<open>write_backend\<close> when the system
  transfers everything it is asked to, the loop \<open>sbuf_sync_loop\<close> is the client loop of that contract,
  and what happens when the system does not.
\<close>

section \<open>The writers under a system that transfers everything\<close>

lemma load_bytes_length: "load_bytes p n w = Inr bs \<Longrightarrow> length bs = n"
  by (auto simp: load_bytes_def split: option.splits prod.splits if_splits elim!: bindE_InrE)

lemma load_bytes_slice:
  "wd_mem w m = Some bs \<Longrightarrow> off + n \<le> length bs \<Longrightarrow> load_bytes (Some (m, int off)) n w = Inr (slice bs off n)"
  by (simp add: load_bytes_def)

definition counted :: "addr \<Rightarrow> recording_entity \<Rightarrow> addr \<Rightarrow> opt_s \<Rightarrow> u64 \<Rightarrow> world \<Rightarrow> world" where
  "counted r c optp opt n w = w\<lparr>
     wd_rec := (wd_rec w)(r \<mapsto> c\<lparr>ci_bytes_exchanged := ci_bytes_exchanged c + uint n\<rparr>),
     wd_opt := (wd_opt w)(optp \<mapsto> opt\<lparr>opt_bytes_exchanged := opt_bytes_exchanged opt + n\<rparr>)\<rparr>"

lemma counted_simps [simp]:
  "wd_os (counted r c optp opt n w) = wd_os w" "wd_mem (counted r c optp opt n w) = wd_mem w"
  "wd_buf (counted r c optp opt n w) = wd_buf w" "wd_fi (counted r c optp opt n w) = wd_fi w"
  "wd_rec (counted r c optp opt n w) = (wd_rec w)(r \<mapsto> c\<lparr>ci_bytes_exchanged := ci_bytes_exchanged c + uint n\<rparr>)"
  "wd_opt (counted r c optp opt n w) = (wd_opt w)(optp \<mapsto> opt\<lparr>opt_bytes_exchanged := opt_bytes_exchanged opt + n\<rparr>)"
  by (simp_all add: counted_def)

lemma count_exchanged_eq:
  "wd_rec w r = Some c \<Longrightarrow> ci_opt c = Some optp \<Longrightarrow> wd_opt w optp = Some opt \<Longrightarrow>
   count_exchanged r n w = Inr (counted r c optp opt n w)"
  by (simp add: count_exchanged_def put_rec_def get_rec_def put_opt_def get_opt_def counted_def)

lemma def_transfer_all:
  assumes "wd_rec w r = Some c" and "ci_opt c = Some optp" and "wd_opt w optp = Some opt"
    and "\<not> has (opt_optbits opt) READMODE" and "os_script (wd_os w) = []"
    and "os_fds (wd_os w) (ci_fd c) = Some (p, off)" and "load_bytes start (unat n) w = Inr bs"
  shows "def_transfer r start n w =
    Inr (w\<lparr>wd_os := seek_fd (ci_fd c) p (off + unat n) (put_bytes p off bs (wd_os w))\<rparr>, uint n)"
  using assms load_bytes_length[OF assms(7)]
  by (simp add: def_transfer_def get_rec_def get_opt_def call_os_def sys_write_def)

lemma def_write_all:
  assumes "wd_rec w r = Some c" and "ci_opt c = Some optp" and "wd_opt w optp = Some opt"
    and "\<not> has (opt_optbits opt) READMODE" and "os_script (wd_os w) = []" and "ci_fd c \<noteq> 0"
    and "os_fds (wd_os w) (ci_fd c) = Some (p, off)" and "load_bytes start (unat n) w = Inr bs" and "0 < n"
  shows "def_write r start n w = Inr (counted r c optp opt n
    (w\<lparr>wd_os := seek_fd (ci_fd c) p (off + unat n) (put_bytes p off bs (wd_os w))\<rparr>), uint n)"
proof -
  have "0 < uint n" using assms(9) by (simp add: word_less_def)
  moreover have "n \<noteq> 0" using assms(9) by auto
  moreover have "def_write_loop r start 0 t w1 = Some (Inr (w1, t))" for t w1
    by (subst def_write_loop.simps) simp
  ultimately have "def_write_loop r start n 0 w = Some (Inr (counted r c optp opt n
    (w\<lparr>wd_os := seek_fd (ci_fd c) p (off + unat n) (put_bytes p off bs (wd_os w))\<rparr>), uint n))"
    using assms
    by (subst def_write_loop.simps)
      (simp add: def_transfer_all[OF assms(1-5,7,8)] count_exchanged_eq[where w = "w\<lparr>wd_os := o1\<rparr>" for o1] word_less_nat_alt)
  then show ?thesis using assms by (simp add: def_write_def get_rec_def)
qed

section \<open>The contract\<close>

definition full_write :: "addr \<Rightarrow> addr \<Rightarrow> nat \<Rightarrow> nat \<Rightarrow> world \<Rightarrow> world option" where
  "full_write r m off n w = (case rec_write r (Some (m, int off)) (of_nat n) w of
       Inr (w', k) \<Rightarrow> if k = int n then Some w' else None | Inl _ \<Rightarrow> None)"

definition note_written :: "addr \<Rightarrow> nat \<Rightarrow> world \<Rightarrow> world" where
  "note_written b n w = (case wd_buf w b of None \<Rightarrow> w
     | Some be \<Rightarrow> let k = min (of_nat n) (sb_diff be) in
        w\<lparr>wd_buf := (wd_buf w)(b \<mapsto> be\<lparr>sb_diff := sb_diff be - k, sb_bufoffset := shift_ptr (sb_bufoffset be) (uint k)\<rparr>)\<rparr>)"

definition buffer_of :: "addr \<Rightarrow> world \<Rightarrow> u8 list" where
  "buffer_of m w = (case wd_mem w m of None \<Rightarrow> [] | Some bs \<Rightarrow> bs)"

definition recorder :: "writer \<Rightarrow> addr \<Rightarrow> addr \<Rightarrow> addr \<Rightarrow> opt_s \<Rightarrow> world \<Rightarrow> bool" where
  "recorder wr r m optp opt w \<longleftrightarrow> (\<exists>c x bs. wd_rec w r = Some c \<and> re_writer c = wr \<and> ci_opt c = Some optp \<and>
     wd_opt w optp = Some (opt\<lparr>opt_bytes_exchanged := x\<rparr>) \<and> wd_mem w m = Some bs \<and> length bs < 2 ^ 63)"

definition open_recorder :: "addr \<Rightarrow> addr \<Rightarrow> addr \<Rightarrow> opt_s \<Rightarrow> world \<Rightarrow> bool" where
  "open_recorder r m optp opt w \<longleftrightarrow> recorder Def_Writer r m optp opt w \<and> \<not> has (opt_optbits opt) READMODE \<and>
     (\<exists>c p pos. wd_rec w r = Some c \<and> ci_fd c \<noteq> 0 \<and>
       os_fds (wd_os w) (ci_fd c) = Some (p, pos) \<and> pos \<le> length (the_file (wd_os w) p))"

definition def_ready :: "addr \<Rightarrow> addr \<Rightarrow> addr \<Rightarrow> opt_s \<Rightarrow> world \<Rightarrow> bool" where
  "def_ready r m optp opt w \<longleftrightarrow> open_recorder r m optp opt w \<and> os_script (wd_os w) = []"

text \<open>The bytes before the position of the open file.\<close>

definition stored :: "addr \<Rightarrow> world \<Rightarrow> u8 list" where
  "stored r w = (case wd_rec w r of None \<Rightarrow> [] | Some c \<Rightarrow>
     (case os_fds (wd_os w) (ci_fd c) of None \<Rightarrow> [] | Some (p, pos) \<Rightarrow> take pos (the_file (wd_os w) p)))"

lemma note_written_simps [simp]:
  "wd_os (note_written b n w) = wd_os w" "wd_rec (note_written b n w) = wd_rec w"
  "wd_opt (note_written b n w) = wd_opt w" "wd_mem (note_written b n w) = wd_mem w"
  by (simp_all add: note_written_def Let_def split: option.split)

lemma note_written_frame [simp]:
  "def_ready r m optp opt (note_written b n w) = def_ready r m optp opt w"
  "recorder wr r m optp opt (note_written b n w) = recorder wr r m optp opt w"
  "buffer_of m (note_written b n w) = buffer_of m w" "stored r (note_written b n w) = stored r w"
  by (simp_all add: def_ready_def open_recorder_def recorder_def buffer_of_def stored_def split: option.split)

lemma small_word:
  assumes "n < 2 ^ 63"
  shows "unat (of_nat n :: u64) = n" and "uint (of_nat n :: u64) = int n" and "sint (of_nat n :: u64) = int n"
proof -
  have "n < 2 ^ 64" using assms by simp
  then show u: "unat (of_nat n :: u64) = n" by (simp add: unat_of_nat)
  then show i: "uint (of_nat n :: u64) = int n" by (metis uint_nat)
  show "sint (of_nat n :: u64) = int n" using assms
    by (simp add: signed_of_nat signed_take_bit_int_eq_self)
qed

lemma def_full_write:
  assumes "def_ready r m optp opt w" and "0 < n" and "off + n \<le> length (buffer_of m w)"
  shows "\<exists>w'. full_write r m off n w = Some w' \<and> def_ready r m optp opt w' \<and> buffer_of m w' = buffer_of m w \<and>
    stored r w' = stored r w @ slice (buffer_of m w) off n \<and> wd_buf w' = wd_buf w"
proof -
  from assms(1) obtain c x bs p pos where w: "wd_rec w r = Some c" "re_writer c = Def_Writer" "ci_opt c = Some optp"
    "wd_opt w optp = Some (opt\<lparr>opt_bytes_exchanged := x\<rparr>)" "wd_mem w m = Some bs" "length bs < 2 ^ 63"
    "\<not> has (opt_optbits opt) READMODE" "os_script (wd_os w) = []" "ci_fd c \<noteq> 0"
    "os_fds (wd_os w) (ci_fd c) = Some (p, pos)" "pos \<le> length (the_file (wd_os w) p)"
    by (auto simp: def_ready_def open_recorder_def recorder_def)
  have n: "n < 2 ^ 63" using assms(3) w(5,6) by (simp add: buffer_of_def)
  have "load_bytes (Some (m, int off)) (unat (of_nat n :: u64)) w = Inr (slice bs off n)"
    using assms(3) w(5) by (simp add: small_word[OF n] load_bytes_slice buffer_of_def)
  note wr = def_write_all[OF w(1,3,4) _ w(8,9,10) this, simplified small_word[OF n]]
  have "0 < (of_nat n :: u64)" using assms(2) by (simp add: word_less_nat_alt small_word[OF n])
  with wr w have "full_write r m off n w = Some (counted r c optp (opt\<lparr>opt_bytes_exchanged := x\<rparr>) (of_nat n)
      (w\<lparr>wd_os := seek_fd (ci_fd c) p (pos + n) (put_bytes p pos (slice bs off n) (wd_os w))\<rparr>))"
    by (simp add: full_write_def rec_write_def get_rec_def)
  moreover have "slice bs off n \<noteq> []" "length (slice bs off n) = n"
    using assms(2,3) w(5) by (auto simp: buffer_of_def slice_def)
  ultimately show ?thesis using w
    by (auto simp: def_ready_def open_recorder_def recorder_def buffer_of_def stored_def write_at_def)
qed

interpretation def_backend: write_backend "full_write r m" "note_written b" "def_ready r m optp opt" "buffer_of m"
    "stored r" "\<lambda>x. x" 1 for r m b optp opt
proof unfold_locales
  fix w n off
  assume "def_ready r m optp opt w" and "0 < n" and "off + n \<le> length (buffer_of m w)"
  from def_full_write[OF this] show "\<exists>s'. full_write r m off n w = Some s' \<and> def_ready r m optp opt s' \<and>
      buffer_of m s' = buffer_of m w \<and> stored r s' = stored r w @ slice (buffer_of m w) off n" by blast
qed simp_all

section \<open>The loop is the client of the contract\<close>

definition roundup :: "nat \<Rightarrow> nat" where
  "roundup d = d + (if d mod 4096 = 0 then 0 else 4096 - d mod 4096)"

lemma roundup_bounds: "d \<le> roundup d" "roundup d < d + 4096"
  by (auto simp: roundup_def)

lemma roundup_dvd: "4096 dvd roundup d"
proof (cases "d mod 4096 = 0")
  case False
  have "d mod 4096 < 4096" by simp
  moreover have "d = 4096 * q + t \<Longrightarrow> t < 4096 \<Longrightarrow> d + (4096 - t) = 4096 * q + 4096" for q t :: nat by linarith
  ultimately have "d + (4096 - d mod 4096) = 4096 * (d div 4096) + 4096"
    using mult_div_mod_eq[of 4096 d, symmetric] by blast
  then have "roundup d = 4096 * (d div 4096) + 4096"
    using False by (simp only: roundup_def if_False)
  then show ?thesis by simp
qed (auto simp: roundup_def)

lemma roundup_le:
  assumes "4096 dvd L" and "d \<le> L"
  shows "roundup d \<le> L"
proof -
  obtain j where "roundup d = 4096 * j" using roundup_dvd[of d] by (auto elim!: dvdE)
  moreover obtain k where "L = 4096 * k" using assms(1) by (auto elim!: dvdE)
  ultimately show ?thesis using roundup_bounds(2)[of d] assms(2) by simp
qed

lemma roundup_diff:
  assumes "4096 dvd L" and "L \<le> d"
  shows "roundup d - L = roundup (d - L)"
proof -
  obtain k where k: "L = 4096 * k" using assms(1) by (auto elim!: dvdE)
  have "d mod 4096 = (d - L) mod 4096"
    using assms(2) mod_mult_self4[of 4096 k "d - L"] by (simp add: k)
  then show ?thesis using assms(2) unfolding roundup_def by simp
qed

lemma roundup_0 [simp]: "roundup d = 0 \<longleftrightarrow> d = 0" "roundup 0 = 0"
  using roundup_bounds(1)[of d] by (auto simp: roundup_def)

definition wants :: "addr \<Rightarrow> addr \<Rightarrow> addr \<Rightarrow> addr \<Rightarrow> nat \<Rightarrow> nat \<Rightarrow> world \<Rightarrow> bool" where
  "wants b r optp m off d w \<longleftrightarrow> (\<exists>be. wd_buf w b = Some be \<and> be_recer be = Some r \<and> sb_opt be = Some optp \<and>
     sb_diff be = of_nat d \<and> (0 < d \<longrightarrow> sb_bufoffset be = Some (m, int off)))"

lemma on_world_full:
  assumes "full_write r m off n w = Some w1"
  shows "on_world (rec_write r (Some (m, int off)) (of_nat n)) (s\<lparr>sy_world := w\<rparr>) = Inr (s\<lparr>sy_world := w1\<rparr>, int n)"
  using assms by (auto simp: full_write_def on_world_def split: sum.splits prod.splits if_splits)

lemma after_full_write:
  assumes "wd_buf w1 b = Some be" and "0 < n" and "real = min (of_nat n) (sb_diff be)"
  shows "after_write b (int n) (of_nat n) real (s\<lparr>sy_world := w1\<rparr>) = Inr (Some (s\<lparr>sy_world := note_written b n w1\<rparr>, 0))"
  using assms
  by (simp add: after_write_def EOF_def advance_def set_buf_def upd_world_def put_buf_def get_buf_def
      note_written_def Let_def)

lemma word_roundup:
  assumes "d < 2 ^ 62"
  shows "(of_nat d :: u64) + extra_bytes (of_nat d) = of_nat (roundup d)"
proof -
  have u: "unat (of_nat d :: u64) = d" by (rule small_word) (use assms in simp)
  have t: "d mod 4096 < 4096" by simp
  have s: "unat (of_nat (d mod 4096) :: u64) = d mod 4096" by (rule small_word) (rule less_trans[OF t], simp)
  have m: "(of_nat d :: u64) mod BLOCK_ALIGN = of_nat (d mod 4096)"
  proof -
    have "unat ((of_nat d :: u64) mod BLOCK_ALIGN) = d mod 4096"
      unfolding unat_mod u by (simp add: BLOCK_ALIGN_def)
    with s show ?thesis by (simp only: word_unat_eq_iff)
  qed
  have z: "((of_nat (d mod 4096) :: u64) \<noteq> 0) = (d mod 4096 \<noteq> 0)"
    by (simp only: word_unat_eq_iff s unat_0)
  have c: "(4096 :: u64) - of_nat (d mod 4096) = of_nat (4096 - d mod 4096)"
    using t by (simp only: of_nat_diff less_imp_le of_nat_numeral)
  have "(if d mod 4096 \<noteq> 0 then of_nat (4096 - d mod 4096) else 0) =
      (of_nat (if d mod 4096 = 0 then 0 else 4096 - d mod 4096) :: u64)"
    by (simp only: if_not_P if_P of_nat_0 split: if_splits) simp
  then show ?thesis
    unfolding extra_bytes_def m unfolding z BLOCK_ALIGN_def unfolding c roundup_def of_nat_add by (rule arg_cong)
qed

lemma sync_loop_done:
  "wd_buf (sy_world s) b = Some be \<Longrightarrow> sb_diff be = 0 \<Longrightarrow> sync_loop b s = Some (Inr (Some (s, 0)))"
  by (subst sync_loop.simps) (simp add: the_buf_def get_buf_def)

lemma sync_loop_step:
  assumes "wd_buf (sy_world s) b = Some be" and "sb_diff be \<noteq> 0"
    and "simple_write_bytes b s = Inr (Some (s1, 0))"
  shows "sync_loop b s = sync_loop b s1"
  using assms by (subst sync_loop.simps) (simp add: the_buf_def get_buf_def)

text \<open>One write of the loop with direct input and output: a full chunk, or the rest rounded up to whole
  blocks.\<close>

lemma write_bytes_direct:
  assumes be: "wd_buf w b = Some be" "be_recer be = Some r" "sb_opt be = Some optp" "sb_diff be = of_nat d"
      "sb_bufoffset be = Some (m, int off)"
    and opt: "wd_opt w optp = Some opt" "WRITEND_USES_DIRECTIO opt" "\<not> WRITEND_DOESNT_SUPPORTS_LIMIT opt"
      "\<not> has (opt_optbits opt) WRITE_TO_SINGLE_FILE"
    and d: "0 < d" "d < 2 ^ 62" and L: "L = unat (opt_do_w_stuff_every opt)" "4096 dvd L" "0 < L"
    and wr: "full_write r m off (min (roundup d) L) w = Some w1" and frame: "wd_buf w1 = wd_buf w"
  shows "simple_write_bytes b (s\<lparr>sy_world := w\<rparr>) =
    Inr (Some (s\<lparr>sy_world := note_written b (min (roundup d) L) w1\<rparr>, 0))"
proof -
  let ?D = "of_nat d :: u64" and ?L = "opt_do_w_stuff_every opt"
  have u: "unat ?D = d" by (rule small_word) (use d in simp)
  have Dn: "?D \<noteq> 0" using u d(1) by (auto simp: word_unat_eq_iff)
  have pos: "0 < min (roundup d) L" using d(1) L(3) roundup_bounds(1)[of d] by simp
  have full: "write_out b (of_nat (min (roundup d) L)) (s\<lparr>sy_world := w\<rparr>) =
      Inr (s\<lparr>sy_world := w1\<rparr>, int (min (roundup d) L))"
    using be on_world_full[OF wr, of s] by (simp add: write_out_def the_buf_def get_buf_def)
  show ?thesis
  proof (cases "d < L")
    case True
    then have min1: "min ?D ?L = ?D" and ne: "?L \<noteq> ?D"
      using u L(1) by (auto simp: min_def word_le_nat_alt)
    have c: "min (roundup d) L = roundup d" using roundup_le[OF L(2)] True by simp
    have "?D = min (of_nat (roundup d)) ?D"
    proof -
      have "unat (of_nat (roundup d) :: u64) = roundup d"
        by (rule small_word) (use roundup_bounds(2)[of d] d(2) in simp)
      then show ?thesis using roundup_bounds(1)[of d] u by (simp add: min_def word_le_nat_alt)
    qed
    then have aw: "after_write b (int (roundup d)) (of_nat (roundup d)) ?D (s\<lparr>sy_world := w1\<rparr>) =
        Inr (Some (s\<lparr>sy_world := note_written b (roundup d) w1\<rparr>, 0))"
      using after_full_write[of w1 b be "roundup d" ?D s] frame be(1,4) pos c by simp
    have "simple_end_transaction b (s\<lparr>sy_world := w\<rparr>) =
        Inr (Some (s\<lparr>sy_world := note_written b (roundup d) w1\<rparr>, 0))"
      using be opt full[unfolded c] word_roundup[OF d(2)] aw
      by (simp add: simple_end_transaction_def the_buf_def get_buf_def the_opt_def get_opt_def Let_def c)
    with be opt min1 ne c Dn show ?thesis
      by (simp add: simple_write_bytes_def the_buf_def get_buf_def the_opt_def get_opt_def write_limit_def Let_def)
  next
    case False
    then have min1: "min ?D ?L = ?L" using u L(1) by (auto simp: min_def word_le_nat_alt)
    have c: "min (roundup d) L = L" using roundup_bounds(1)[of d] False by simp
    have Lw: "?L = of_nat L" by (simp add: L(1))
    have "(of_nat L :: u64) = min (of_nat L) ?D" using min1 Lw by (simp add: min.commute)
    then have aw: "after_write b (int L) (of_nat L) (of_nat L) (s\<lparr>sy_world := w1\<rparr>) =
        Inr (Some (s\<lparr>sy_world := note_written b L w1\<rparr>, 0))"
      using after_full_write[of w1 b be L "of_nat L" s] frame be(1,4) pos c by simp
    show ?thesis
      using be opt(1-3) full[unfolded c] aw min1[unfolded Lw] Dn
      by (simp add: simple_write_bytes_def the_buf_def get_buf_def the_opt_def get_opt_def write_limit_def c Lw)
  qed
qed

definition direct_limit :: "opt_s \<Rightarrow> nat \<Rightarrow> bool" where
  "direct_limit opt L \<longleftrightarrow> WRITEND_USES_DIRECTIO opt \<and> \<not> WRITEND_DOESNT_SUPPORTS_LIMIT opt \<and>
     \<not> has (opt_optbits opt) WRITE_TO_SINGLE_FILE \<and> L = unat (opt_do_w_stuff_every opt) \<and> 4096 dvd L \<and> 0 < L"

lemma direct_limit_bytes [simp]: "direct_limit (opt\<lparr>opt_bytes_exchanged := x\<rparr>) L = direct_limit opt L"
  by (simp add: direct_limit_def WRITEND_USES_DIRECTIO_def WRITEND_DOESNT_SUPPORTS_LIMIT_def)

lemma wants_note:
  assumes "wants b r optp m off d w" and "0 < d" and "d < 2 ^ 62" and "min (roundup d) L = c"
    and "4096 dvd L" and "0 < L"
  shows "wants b r optp m (off + c) (d - min c d) (note_written b c w)"
proof -
  from assms(1,2) obtain be where be: "wd_buf w b = Some be" "be_recer be = Some r" "sb_opt be = Some optp"
    "sb_diff be = of_nat d" "sb_bufoffset be = Some (m, int off)" by (auto simp: wants_def)
  have c: "c < 2 ^ 63" using assms(3,4) roundup_bounds(2)[of d] by simp
  have d: "d < 2 ^ 63" using assms(3) by simp
  define j where "j = min c d"
  have k: "min (of_nat c) (of_nat d :: u64) = of_nat j"
    using small_word(1)[OF c] small_word(1)[OF d] by (simp add: j_def min_def word_le_nat_alt)
  have sub: "(of_nat d :: u64) - of_nat j = of_nat (d - j)" by (simp add: of_nat_diff j_def)
  have u: "uint (of_nat j :: u64) = int j" by (rule small_word(2)) (use d in \<open>simp add: j_def\<close>)
  have le: "0 < d - j \<Longrightarrow> j = c" by (simp add: j_def)
  have "wants b r optp m (off + c) (d - j) (note_written b c w)"
    unfolding wants_def note_written_def be(1) option.case Let_def be(4) k sub
    using be(2,3,5) le by (auto simp: u simp del: of_nat_diff)
  then show ?thesis by (simp add: j_def)
qed

lemma sync_loop_sends:
  assumes opt: "direct_limit opt L"
  shows "send_all (full_write r m) (note_written b) L off (roundup d) w = Some w' \<Longrightarrow>
    def_ready r m optp opt w \<Longrightarrow> wants b r optp m off d w \<Longrightarrow> d < 2 ^ 62 \<Longrightarrow> off + roundup d \<le> length (buffer_of m w) \<Longrightarrow>
    sync_loop b (s\<lparr>sy_world := w\<rparr>) = Some (Inr (Some (s\<lparr>sy_world := w'\<rparr>, 0))) \<and>
    (\<exists>be. wd_buf w' b = Some be \<and> sb_diff be = 0 \<and> be_recer be = Some r)"
proof (induction d arbitrary: off w rule: less_induct)
  case (less d)
  from less.prems(3) obtain be where be: "wd_buf w b = Some be" "be_recer be = Some r" "sb_opt be = Some optp"
    "sb_diff be = of_nat d" "0 < d \<Longrightarrow> sb_bufoffset be = Some (m, int off)" by (auto simp: wants_def)
  show ?case
  proof (cases "d = 0")
    case True
    with less.prems(1) be show ?thesis by (simp add: send_all.simps sync_loop_done)
  next
    case False
    let ?c = "min (roundup d) L"
    have L: "4096 dvd L" "0 < L" using opt by (auto simp: direct_limit_def)
    have c: "0 < ?c" "off + ?c \<le> length (buffer_of m w)" using False L(2) less.prems(5) roundup_bounds(1)[of d] by auto
    from def_full_write[OF less.prems(2) c] obtain w1 where w1: "full_write r m off ?c w = Some w1"
      "def_ready r m optp opt w1" "buffer_of m w1 = buffer_of m w" "wd_buf w1 = wd_buf w" by blast
    from less.prems(2) obtain x where x: "wd_opt w optp = Some (opt\<lparr>opt_bytes_exchanged := x\<rparr>)"
      by (auto simp: def_ready_def open_recorder_def recorder_def)
    have "direct_limit (opt\<lparr>opt_bytes_exchanged := x\<rparr>) L" using opt by simp
    with write_bytes_direct[OF be(1-4) be(5) x _ _ _ _ less.prems(4) _ _ _ w1(1,4), of s] False
    have "simple_write_bytes b (s\<lparr>sy_world := w\<rparr>) = Inr (Some (s\<lparr>sy_world := note_written b ?c w1\<rparr>, 0))"
      by (auto simp: direct_limit_def)
    moreover have "sb_diff be \<noteq> 0"
      using False less.prems(4) be(4) small_word(1)[of d] by (auto simp: word_unat_eq_iff)
    ultimately have step: "sync_loop b (s\<lparr>sy_world := w\<rparr>) = sync_loop b (s\<lparr>sy_world := note_written b ?c w1\<rparr>)"
      by (intro sync_loop_step) (simp_all add: be(1))
    have rest: "roundup d - ?c = roundup (d - min ?c d)"
    proof (cases "d \<le> L")
      case True
      then show ?thesis using roundup_le[OF L(1) True] roundup_bounds(1)[of d] by (simp add: min_def)
    next
      case False
      then show ?thesis using roundup_diff[OF L(1)] roundup_bounds(1)[of d] by (simp add: min_def)
    qed
    have wants1: "wants b r optp m off d w1" using less.prems(3) w1(4) by (simp add: wants_def)
    have send: "send_all (full_write r m) (note_written b) L (off + ?c) (roundup (d - min ?c d)) (note_written b ?c w1) = Some w'"
      using less.prems(1) w1(1) False L(2) rest by (subst (asm) send_all.simps) simp
    have "off + ?c + roundup (d - min ?c d) \<le> length (buffer_of m (note_written b ?c w1))"
      using less.prems(5) w1(3) unfolding rest[symmetric] by simp
    from less.IH[OF _ send _ wants_note[OF wants1 _ less.prems(4) refl L] _ this] step w1(2) less.prems(4) False c(1)
    show ?thesis by simp
  qed
qed

text \<open>C1: The writer of a buffer stores the buffer: with direct input and output, and a system that
  transfers what it is asked to, the loop ends, the bytes of the buffer, rounded up to whole blocks, are
  appended to the open file, and the buffer has nothing left to write.\<close>

theorem sync_loop_stores_buffer:
  assumes "direct_limit opt L" and "def_ready r m optp opt (sy_world s)" and "wants b r optp m off d (sy_world s)"
    and "d < 2 ^ 62" and "off + roundup d \<le> length (buffer_of m (sy_world s))"
  shows "\<exists>w. sbuf_sync_loop b s = Inr (Some (s\<lparr>sy_world := w\<rparr>, 0)) \<and>
    stored r w = stored r (sy_world s) @ slice (buffer_of m (sy_world s)) off (roundup d) \<and>
    (\<exists>be. wd_buf w b = Some be \<and> sb_diff be = 0 \<and> be_recer be = Some r)"
proof -
  have L: "1 dvd L" "0 < L" "1 dvd roundup d" using assms(1) by (auto simp: direct_limit_def)
  from def_backend.send_all_stores[OF L(1,2) assms(2) L(3) assms(5), of b] obtain w where
    w: "send_all (full_write r m) (note_written b) L off (roundup d) (sy_world s) = Some w"
      "stored r w = stored r (sy_world s) @ slice (buffer_of m (sy_world s)) off (roundup d)" by blast
  from sync_loop_sends[OF assms(1) w(1) assms(2-5), of s] w(2) show ?thesis
    by (auto simp: sbuf_sync_loop_def)
qed

definition example_opt :: opt_s where
  "example_opt = zero_opt\<lparr>opt_filename := Some ''exp'', opt_optbits := REC_DEF OR DATATYPE_UNKNOWN,
     opt_do_w_stuff_every := 4096, opt_packet_size := 1000, opt_buf_num_elems := 8, opt_filesize := 8192,
     opt_n_drives := 1, opt_fi := Some 5, opt_status := STATUS_RUNNING\<rparr>"

definition example_rec :: recording_entity where
  "example_rec = \<lparr>re_writer = Def_Writer, re_self = 11, ci_id = 0, ci_status = RECSTATUS_OK,
     ci_curfilename = ''f'', ci_fd = 3, ci_offset = 0, ci_bytes_exchanged = 0, ci_filesize = 0, ci_opt = Some 1,
     ci_file_seqnum = 0, ci_shmid = 0, ci_bufstart = None\<rparr>"

definition example_buf :: buffer_entity where
  "example_buf = \<lparr>be_recer = Some 10, be_self = 21, be_buffer = Some (30, 0), be_locked = False, sb_opt = Some 1,
     sb_diff = 5000, sb_optbits = 0, sb_asyncdiff = 0, sb_running = True, sb_shmid = 0, sb_fileid = 0, sb_fi = None,
     sb_ready_to_act = True, sb_bufnum = 0, sb_bufoffset = Some (30, 0), sb_opt_default = 1\<rparr>"

definition example_os :: "reply list \<Rightarrow> os" where
  "example_os rs = \<lparr>os_files = [''f'' \<mapsto> []], os_dirs = (\<lambda>p. p = ''/mnt/disk0''), os_fds = [3 \<mapsto> (''f'', 0)],
     os_next_fd = 4, os_errno = 0, os_script = rs\<rparr>"

definition example_world :: "reply list \<Rightarrow> world" where
  "example_world rs = \<lparr>wd_opt = [1 \<mapsto> example_opt], wd_rec = [10 \<mapsto> example_rec], wd_buf = [20 \<mapsto> example_buf],
     wd_mem = [30 \<mapsto> replicate 8192 7], wd_resq = (\<lambda>_. None), wd_fi = afi_empty, wd_os = example_os rs\<rparr>"

lemmas example_defs = example_opt_def example_rec_def example_buf_def example_os_def example_world_def

lemma example_limit: "direct_limit example_opt 4096"
  by (simp add: direct_limit_def WRITEND_USES_DIRECTIO_def WRITEND_DOESNT_SUPPORTS_LIMIT_def example_opt_def
      has_def flag_defs flag_def)

lemma example_wants: "wants 20 10 1 30 0 5000 (example_world rs)"
  by (simp add: wants_def example_world_def example_buf_def)

lemma example_recorder: "recorder Def_Writer 10 30 1 example_opt (example_world rs)"
  by (simp add: recorder_def example_world_def example_rec_def example_opt_def zero_opt_def)

lemma sync_loop_stores_buffer_witness:
  "\<exists>w. sbuf_sync_loop 20 (init_branches (example_world [])) =
      Inr (Some ((init_branches (example_world []))\<lparr>sy_world := w\<rparr>, 0)) \<and> stored 10 w = replicate 8192 7"
proof -
  have r: "roundup 5000 = 8192" by (simp add: roundup_def)
  have w: "sy_world (init_branches (example_world [])) = example_world []" by (simp add: init_branches_def Let_def)
  have mem: "buffer_of 30 (example_world []) = replicate 8192 7"
    by (simp add: buffer_of_def example_world_def del: replicate.simps)
  have "def_ready 10 30 1 example_opt (example_world [])"
    using example_recorder
    by (simp add: def_ready_def open_recorder_def example_defs has_def flag_defs flag_def the_file_def)
  note ready = this
  have st: "stored 10 (example_world []) = []"
    by (simp add: stored_def example_world_def example_rec_def example_os_def)
  have sl: "slice (replicate 8192 (7 :: u8)) 0 8192 = replicate 8192 7"
    by (simp add: slice_def del: replicate.simps)
  have "0 + roundup 5000 \<le> length (buffer_of 30 (example_world []))" by (simp only: r mem) simp
  with sync_loop_stores_buffer[OF example_limit, of 10 30 1 "init_branches (example_world [])" 20 0 5000]
    ready example_wants[of "[]"]
  have "\<exists>w. sbuf_sync_loop 20 (init_branches (example_world [])) =
      Inr (Some ((init_branches (example_world []))\<lparr>sy_world := w\<rparr>, 0)) \<and>
      stored 10 w = stored 10 (example_world []) @ slice (buffer_of 30 (example_world [])) 0 (roundup 5000)"
    unfolding w by auto
  then show ?thesis unfolding st mem r sl by simp
qed

section \<open>Termination of \<open>def_write\<close>\<close>

lemma def_transfer_bounds:
  assumes "def_transfer r start n w = Inr (w1, ret)"
  shows "ret \<le> uint n"
proof -
  from assms obtain ioi opt where ro: "wd_rec w r = Some ioi" "get_opt (ci_opt ioi) w = Inr opt"
    by (auto simp: def_transfer_def get_rec_def)
  show ?thesis
  proof (cases "has (opt_optbits opt) READMODE")
    case True
    obtain o1 k bs where rd: "sys_read (ci_fd ioi) (unat n) (wd_os w) = (o1, k, bs)" by (metis prod_cases3)
    with sys_read_bounds(1)[OF rd] assms ro True show ?thesis
      by (auto simp: def_transfer_def get_rec_def call_os_def split: if_splits elim!: bindE_InrE)
  next
    case False
    with assms ro obtain bs where bs: "load_bytes start (unat n) w = Inr bs"
      and wr: "call_os (sys_write (ci_fd ioi) bs) w = (w1, ret)"
      by (auto simp: def_transfer_def get_rec_def)
    obtain o1 k where "sys_write (ci_fd ioi) bs (wd_os w) = (o1, k)" by fastforce
    with sys_write_bounds(1)[OF this] wr load_bytes_length[OF bs] show ?thesis by (auto simp: call_os_def)
  qed
qed

lemma bindE_eq_Inl: "bindE m f = Inl e \<longleftrightarrow> m = Inl e \<or> (\<exists>x. m = Inr x \<and> f x = Inl e)"
  by (cases m) auto

lemma world_ops_end [simp]:
  "get_rec r w \<noteq> Inl Diverges" "get_opt p w \<noteq> Inl Diverges" "put_rec r f w \<noteq> Inl Diverges"
  "put_opt p g w \<noteq> Inl Diverges" "load_bytes q n w \<noteq> Inl Diverges" "store_bytes q bs w \<noteq> Inl Diverges"
  by (auto simp: get_rec_def get_opt_def put_rec_def put_opt_def load_bytes_def store_bytes_def deref_def
      mem_read_def memcpy_at_def bindE_eq_Inl split: option.splits if_splits)

lemma count_exchanged_ends [simp]: "count_exchanged r n w \<noteq> Inl Diverges"
  by (auto simp: count_exchanged_def bindE_eq_Inl)

lemma in_readmode_ends [simp]: "in_readmode r w \<noteq> Inl Diverges"
  by (auto simp: in_readmode_def bindE_eq_Inl)

lemma def_transfer_ends [simp]: "def_transfer r start n w \<noteq> Inl Diverges"
  by (auto simp: def_transfer_def Let_def bindE_eq_Inl split: prod.splits if_splits)

lemma def_write_loop_ends: "\<exists>res. def_write_loop r start n t w = Some res \<and> res \<noteq> Inl Diverges"
proof (induction "unat n" arbitrary: n t w rule: less_induct)
  case less
  have step: "\<exists>res. def_write_loop r start (n - word_of_int ret) t' w' = Some res \<and> res \<noteq> Inl Diverges"
    if "def_transfer r start n w = Inr (w1, ret)" and "0 < ret" for w1 ret t' w'
  proof -
    have b: "0 \<le> ret" "ret \<le> uint n" using that def_transfer_bounds by auto
    then have u: "uint (word_of_int ret :: u64) = ret"
      using uint_lt2p[of n] by (simp add: uint_word_of_int_eq take_bit_int_eq_self order.strict_trans1)
    have "(word_of_int ret :: u64) \<le> n" unfolding Word.word_le_def u by (rule b(2))
    moreover have "0 < (word_of_int ret :: u64)" unfolding word_less_def u using that(2) by simp
    ultimately have "unat (n - word_of_int ret) < unat n"
      by (simp add: unat_sub word_less_nat_alt word_le_nat_alt)
    from less[OF this] show ?thesis by blast
  qed
  show ?case
  proof (cases "n = 0")
    case True
    then show ?thesis by (subst def_write_loop.simps) simp
  next
    case False
    show ?thesis
    proof (cases "def_transfer r start n w")
      case (Inl e)
      then show ?thesis using False def_transfer_ends[of r start n w]
        by (subst def_write_loop.simps) simp
    next
      case (Inr x)
      obtain w1 ret where x: "x = (w1, ret)" by fastforce
      show ?thesis
      proof (cases "ret \<le> 0")
        case True
        then show ?thesis using False Inr x in_readmode_ends[of r w1]
          by (subst def_write_loop.simps) (auto simp: bindE_eq_Inl split: sum.split)
      next
        case pos: False
        then show ?thesis using False Inr x count_exchanged_ends[of r "word_of_int ret" w1]
            step[of w1 ret]
          by (subst def_write_loop.simps) (auto split: sum.split)
      qed
    qed
  qed
qed

text \<open>C18: \<open>def_write\<close> returns, whatever the system answers: no sequence of short transfers, refusals or
  ends of file keeps it in its loop.\<close>

theorem def_write_terminates: "def_write r start n w \<noteq> Inl Diverges"
proof -
  obtain res where "def_write_loop r start n 0 w = Some res" "res \<noteq> Inl Diverges"
    using def_write_loop_ends by blast
  then show ?thesis by (auto simp: def_write_def bindE_eq_Inl split: if_splits)
qed

section \<open>What goes wrong when the system does not transfer everything\<close>

lemma refused_write:
  assumes "open_recorder r m optp opt w" and "os_script (wd_os w) = Refuse e # rest" and "0 < n"
    and "unat n + off \<le> length (buffer_of m w)"
  shows "\<exists>o1. rec_write r (Some (m, int off)) n w = Inr (w\<lparr>wd_os := o1\<rparr>, - 1) \<and> os_files o1 = os_files (wd_os w)"
proof -
  from assms(1) obtain c x bs p pos where w: "wd_rec w r = Some c" "re_writer c = Def_Writer" "ci_opt c = Some optp"
    "wd_opt w optp = Some (opt\<lparr>opt_bytes_exchanged := x\<rparr>)" "wd_mem w m = Some bs"
    "\<not> has (opt_optbits opt) READMODE" "ci_fd c \<noteq> 0" "os_fds (wd_os w) (ci_fd c) = Some (p, pos)"
    by (auto simp: open_recorder_def recorder_def)
  have ld: "load_bytes (Some (m, int off)) (unat n) w = Inr (slice bs off (unat n))"
    using assms(4) w(5) by (simp add: load_bytes_slice buffer_of_def add.commute)
  have n: "n \<noteq> 0" using assms(3) by auto
  let ?o = "refuse e ((wd_os w)\<lparr>os_script := rest\<rparr>)"
  have tr: "def_transfer r (Some (m, int off)) n w = Inr (w\<lparr>wd_os := ?o\<rparr>, - 1)"
    using w ld assms(2) by (simp add: def_transfer_def get_rec_def get_opt_def call_os_def sys_write_def granted_def)
  have "def_write_loop r (Some (m, int off)) n 0 w = Some (Inr (w\<lparr>wd_os := ?o\<rparr>, - 1))"
    using w n by (subst def_write_loop.simps) (simp add: tr in_readmode_def get_rec_def get_opt_def)
  with w show ?thesis by (auto simp: rec_write_def def_write_def get_rec_def)
qed

text \<open>A write the system refuses, for want of space or for a broken disk, is taken for the end of a
  file: the buffer counts as written although nothing was stored, and no other recording point is tried.\<close>

theorem failed_write_counts_as_written:
  assumes "direct_limit opt L" and "open_recorder r m optp opt (sy_world s)"
    and "os_script (wd_os (sy_world s)) = Refuse e # rest"
    and "wants b r optp m off d (sy_world s)" and "0 < d" and "d < 2 ^ 62"
    and "off + roundup d \<le> length (buffer_of m (sy_world s))"
  shows "\<exists>w. sbuf_sync_loop b s = Inr (Some (s\<lparr>sy_world := w\<rparr>, 0)) \<and>
    os_files (wd_os w) = os_files (wd_os (sy_world s)) \<and> (\<exists>be. wd_buf w b = Some be \<and> sb_diff be = 0)"
proof -
  let ?w = "sy_world s" and ?L = "opt_do_w_stuff_every opt"
  from assms(4,5) obtain be where be: "wd_buf ?w b = Some be" "be_recer be = Some r" "sb_opt be = Some optp"
    "sb_diff be = of_nat d" "sb_bufoffset be = Some (m, int off)" by (auto simp: wants_def)
  from assms(2) obtain x where x: "wd_opt ?w optp = Some (opt\<lparr>opt_bytes_exchanged := x\<rparr>)"
    by (auto simp: open_recorder_def recorder_def)
  have o1: "direct_limit (opt\<lparr>opt_bytes_exchanged := x\<rparr>) L" using assms(1) by simp
  have u: "unat (of_nat d :: u64) = d" by (rule small_word) (use assms(6) in simp)
  then have d0: "(of_nat d :: u64) \<noteq> 0" using assms(5) by (auto simp: word_unat_eq_iff)
  have ru: "unat (of_nat (roundup d) :: u64) = roundup d"
    by (rule small_word) (use roundup_bounds(2)[of d] assms(6) in simp)
  let ?result = "\<lambda>res. \<exists>o1. res = Inr (Some (s\<lparr>sy_world := ?w\<lparr>wd_os := o1,
      wd_buf := (wd_buf ?w)(b \<mapsto> be\<lparr>sb_diff := 0\<rparr>)\<rparr>\<rparr>, 0 :: int)) \<and> os_files o1 = os_files (wd_os ?w)"
  have fail: "?result (bindE (write_out b n s) (\<lambda>(s1, ret). after_write b ret n real s1))"
    if "0 < n" "unat n + off \<le> length (buffer_of m ?w)" for n real
    using refused_write[OF assms(2,3) that] be
    by (auto simp: write_out_def the_buf_def get_buf_def on_world_def after_write_def EOF_def set_buf_def
        upd_world_def put_buf_def)
  have "?result (simple_write_bytes b s)"
  proof (cases "d < L")
    case True
    then have "min (of_nat d) ?L = of_nat d" "?L \<noteq> of_nat d"
      using u assms(1) by (auto simp: min_def word_le_nat_alt direct_limit_def)
    moreover have "?result (simple_end_transaction b s)"
      using be x o1 word_roundup[OF assms(6)] fail[of "of_nat (roundup d)" "of_nat d"] assms(5,7) ru roundup_bounds(1)[of d]
      by (simp add: simple_end_transaction_def the_buf_def get_buf_def the_opt_def get_opt_def Let_def
          direct_limit_def word_less_nat_alt add.commute)
    ultimately show ?thesis using be x o1 d0
      by (simp add: simple_write_bytes_def the_buf_def get_buf_def the_opt_def get_opt_def write_limit_def
          direct_limit_def)
  next
    case False
    then have "min (of_nat d) ?L = ?L" and "unat ?L \<le> d" and "0 < ?L"
      using u assms(1) by (auto simp: min_def word_le_nat_alt direct_limit_def word_less_nat_alt)
    with be x o1 d0 fail[of ?L ?L] assms(7) roundup_bounds(1)[of d] show ?thesis
      by (simp add: simple_write_bytes_def the_buf_def get_buf_def the_opt_def get_opt_def write_limit_def
          direct_limit_def Let_def)
  qed
  then obtain o2 where o2: "simple_write_bytes b s = Inr (Some (s\<lparr>sy_world := ?w\<lparr>wd_os := o2,
      wd_buf := (wd_buf ?w)(b \<mapsto> be\<lparr>sb_diff := 0\<rparr>)\<rparr>\<rparr>, 0))" "os_files o2 = os_files (wd_os ?w)" by blast
  have "sync_loop b s = Some (Inr (Some (s\<lparr>sy_world := ?w\<lparr>wd_os := o2,
      wd_buf := (wd_buf ?w)(b \<mapsto> be\<lparr>sb_diff := 0\<rparr>)\<rparr>\<rparr>, 0)))"
    using sync_loop_step[OF be(1) _ o2(1)] d0 be(4) by (simp add: sync_loop_done)
  with o2(2) show ?thesis by (auto simp: sbuf_sync_loop_def)
qed

lemma failed_write_counts_as_written_witness:
  "\<exists>w. sbuf_sync_loop 20 (init_branches (example_world [Refuse ENOSPC])) =
      Inr (Some ((init_branches (example_world [Refuse ENOSPC]))\<lparr>sy_world := w\<rparr>, 0)) \<and>
      os_files (wd_os w) ''f'' = Some []"
proof -
  let ?w = "example_world [Refuse ENOSPC]"
  have w: "sy_world (init_branches ?w) = ?w" by (simp add: init_branches_def Let_def)
  have "buffer_of 30 ?w = replicate 8192 7" by (simp add: buffer_of_def example_world_def del: replicate.simps)
  then have "0 + roundup 5000 \<le> length (buffer_of 30 ?w)" by (simp add: roundup_def)
  moreover have "open_recorder 10 30 1 example_opt ?w"
    using example_recorder by (simp add: open_recorder_def example_defs has_def flag_defs flag_def the_file_def)
  moreover have "os_script (wd_os ?w) = Refuse ENOSPC # []" "os_files (wd_os ?w) ''f'' = Some []"
    by (simp_all add: example_world_def example_os_def)
  ultimately show ?thesis
    using failed_write_counts_as_written[OF example_limit, of 10 30 1 "init_branches ?w" ENOSPC "[]" 20 0 5000]
      example_wants[of "[Refuse ENOSPC]"]
    unfolding w by auto
qed

lemma short_write_rel:
  assumes "open_recorder r m optp opt w" and "os_script (wd_os w) = [Upto k]" and "0 < k" and "k < n" and "n < 2 ^ 63"
    and "off + n \<le> length (buffer_of m w)"
  shows "\<exists>w'. rec_write r (Some (m, int off)) (of_nat n) w = Inr (w', int n) \<and>
    stored r w' = stored r w @ slice (buffer_of m w) off k @ slice (buffer_of m w) off (n - k)"
proof -
  from assms(1) obtain c x bs p pos where w: "wd_rec w r = Some c" "re_writer c = Def_Writer" "ci_opt c = Some optp"
    "wd_opt w optp = Some (opt\<lparr>opt_bytes_exchanged := x\<rparr>)" "wd_mem w m = Some bs"
    "\<not> has (opt_optbits opt) READMODE" "ci_fd c \<noteq> 0" "os_fds (wd_os w) (ci_fd c) = Some (p, pos)"
    "pos \<le> length (the_file (wd_os w) p)"
    by (auto simp: open_recorder_def recorder_def)
  have bs: "buffer_of m w = bs" "off + n \<le> length bs" using w(5) assms(6) by (simp_all add: buffer_of_def)
  note sn = small_word[OF assms(5)]
  have k: "k < 2 ^ 63" "n - k < 2 ^ 63" using assms(4,5) by simp_all
  let ?p = "Some (m, int off)" and ?o1 = "(wd_os w)\<lparr>os_script := []\<rparr>"
  let ?o2 = "seek_fd (ci_fd c) p (pos + k) (put_bytes p pos (slice bs off k) ?o1)"
  let ?w1 = "counted r c optp (opt\<lparr>opt_bytes_exchanged := x\<rparr>) (of_nat k) (w\<lparr>wd_os := ?o2\<rparr>)"
  have sl: "take k (slice bs off n) = slice bs off k" using assms(4) by (simp add: slice_def min_def)
  have ld: "load_bytes ?p n w = Inr (slice bs off n)"
    using bs(2) w(5) by (simp add: load_bytes_slice)
  have "def_transfer r ?p (of_nat n) w = Inr (w\<lparr>wd_os := ?o2\<rparr>, int k)"
    using w assms(2,4) bs(2)
    by (simp add: def_transfer_def get_rec_def get_opt_def sn ld call_os_def sys_write_def granted_def sl min_def)
  moreover have "count_exchanged r (of_nat k) (w\<lparr>wd_os := ?o2\<rparr>) = Inr ?w1"
    by (rule count_exchanged_eq) (use w in simp_all)
  moreover have "(of_nat n :: u64) \<noteq> 0" using sn(1) assms(4) by (metis not_less_zero unat_0)
  moreover have "(of_nat n :: u64) - of_nat k = of_nat (n - k)" using assms(4) by (simp add: of_nat_diff)
  ultimately have first: "def_write_loop r ?p (of_nat n) 0 w = def_write_loop r ?p (of_nat (n - k)) (int k) ?w1"
    using assms(3) by (subst def_write_loop.simps) simp
  let ?o3 = "seek_fd (ci_fd c) p (pos + k + (n - k)) (put_bytes p (pos + k) (slice bs off (n - k)) ?o2)"
  have ld2: "load_bytes ?p (unat (of_nat (n - k) :: u64)) ?w1 = Inr (slice bs off (n - k))"
    using bs(2) w(5) assms(4) unfolding small_word(1)[OF k(2)] by (intro load_bytes_slice) simp_all
  have "def_transfer r ?p (of_nat (n - k)) ?w1 = Inr (?w1\<lparr>wd_os := ?o3\<rparr>, int (n - k))"
    using def_transfer_all[of ?w1 r _ optp _ p "pos + k", OF _ _ _ _ _ _ ld2] w small_word[OF k(2)] by simp
  moreover obtain w3 where w3: "count_exchanged r (of_nat (n - k)) (?w1\<lparr>wd_os := ?o3\<rparr>) = Inr w3" "wd_os w3 = ?o3"
    "\<exists>c'. wd_rec w3 r = Some c' \<and> ci_fd c' = ci_fd c"
    using count_exchanged_eq[of "?w1\<lparr>wd_os := ?o3\<rparr>" r _ optp _ "of_nat (n - k)"] w by fastforce
  moreover have "(of_nat (n - k) :: u64) \<noteq> 0"
    using small_word(1)[OF k(2)] assms(4) by (metis unat_0 zero_less_diff less_irrefl)
  moreover have "def_write_loop r ?p 0 t w3 = Some (Inr (w3, t))" for t by (subst def_write_loop.simps) simp
  ultimately have "def_write_loop r ?p (of_nat (n - k)) (int k) ?w1 = Some (Inr (w3, int n))"
    using assms(4) by (subst def_write_loop.simps) simp
  with first w have "rec_write r ?p (of_nat n) w = Inr (w3, int n)"
    by (simp add: rec_write_def def_write_def get_rec_def)
  moreover have "stored r w3 = stored r w @ slice bs off k @ slice bs off (n - k)"
  proof -
    have f: "write_at (write_at (the_file (wd_os w) p) pos (slice bs off k)) (pos + k) (slice bs off (n - k)) =
        write_at (the_file (wd_os w) p) pos (slice bs off k @ slice bs off (n - k))"
      using write_at_append[of "the_file (wd_os w) p" pos "slice bs off k" "slice bs off (n - k)"] bs(2) assms(4)
      by simp
    have "the_file ?o1 p = the_file (wd_os w) p" by (simp add: the_file_def)
    then have "the_file ?o3 p = write_at (the_file (wd_os w) p) pos (slice bs off k @ slice bs off (n - k))"
      by (simp add: f)
    with w w3 show ?thesis
      using bs(2) assms(3,4) by (auto simp: stored_def write_at_def slice_def)
  qed
  ultimately show ?thesis using bs(1) by blast
qed

text \<open>After a short write \<open>def_write\<close> starts again from the beginning of the buffer: it reports the
  full length, and the file holds the first bytes twice and misses as many at the end.\<close>

theorem short_write_repeats_the_beginning:
  assumes "open_recorder r m optp opt w" and "os_script (wd_os w) = [Upto k]" and "0 < k" and "k < n" and "n < 2 ^ 63"
    and "off + n \<le> length (buffer_of m w)"
  shows "\<exists>w'. rec_write r (Some (m, int off)) (of_nat n) w = Inr (w', int n) \<and>
    stored r w' = stored r w @ slice (buffer_of m w) off k @ slice (buffer_of m w) off (n - k)"
  by (rule short_write_rel[OF assms])

lemma short_write_repeats_the_beginning_witness:
  "\<exists>w'. rec_write 10 (Some (30, 0)) 3 ((example_world [Upto 1])\<lparr>wd_mem := [30 \<mapsto> [1, 2, 3, 4]]\<rparr>) = Inr (w', 3) \<and>
    stored 10 w' = [1, 1, 2]"
proof -
  let ?w = "(example_world [Upto 1])\<lparr>wd_mem := [30 \<mapsto> [1, 2, 3, 4]]\<rparr>"
  have "open_recorder 10 30 1 example_opt ?w"
    by (simp add: open_recorder_def recorder_def example_defs zero_opt_def has_def flag_defs flag_def the_file_def)
  moreover have "os_script (wd_os ?w) = [Upto 1]" "buffer_of 30 ?w = [1, 2, 3, 4]" "stored 10 ?w = []"
    by (simp_all add: example_defs buffer_of_def stored_def)
  ultimately show ?thesis
    using short_write_repeats_the_beginning[of 10 30 1 example_opt ?w 1 3 0] by (simp add: slice_def)
qed

section \<open>A turn of the writer thread\<close>

text \<open>A small system in the middle of a recording: the writer thread of buffer 20 (list entry 21) holds the
  recording point 10 (list entry 11), and the buffer has 8 bytes left to write.\<close>

definition tiny_opt :: opt_s where
  "tiny_opt = zero_opt\<lparr>opt_filename := Some ''x'', opt_optbits := 0x100000020, opt_do_w_stuff_every := 8,
     opt_packet_size := 4, opt_buf_num_elems := 2, opt_filesize := 8, opt_n_drives := 1, opt_fi := Some 5\<rparr>"

definition tiny_fi :: afi where
  "tiny_fi = \<lparr>afi_files = Some 5, afi_heap = [5 \<mapsto> (new_index ''x'' 0 AFI_RECORD 4)
     \<lparr>fi_files := [\<lparr>fh_diskid = 0, fh_status = 7\<rparr>], fi_allocated_files := 1\<rparr>]\<rparr>"

definition tiny_world :: "bool \<Rightarrow> world" where
  "tiny_world rdy = \<lparr>wd_opt = [1 \<mapsto> tiny_opt], wd_rec = [10 \<mapsto> example_rec\<lparr>re_writer := Dummy_Writer\<rparr>],
     wd_buf = [20 \<mapsto> example_buf\<lparr>sb_diff := 8, sb_ready_to_act := rdy\<rparr>],
     wd_mem = [30 \<mapsto> [1, 2, 3, 4, 5, 6, 7, 8]], wd_resq = (\<lambda>_. None), wd_fi = tiny_fi, wd_os = example_os []\<rparr>"

definition one_busy :: "world listed_entity \<Rightarrow> addr \<Rightarrow> world \<Rightarrow> world entity_list_branch" where
  "one_busy n le w = \<lparr>br_lists = (\<lambda>b. if b = Busylist then Some le else None),
     br_heap = [le \<mapsto> n\<lparr>le_current_branch := Busylist\<rparr>], br_world = w\<rparr>"

definition tiny_system :: "bool \<Rightarrow> system" where
  "tiny_system rdy = \<lparr>sy_world = tiny_world rdy, sy_disk = one_busy (rec_entry Dummy_Writer 10) 11 (tiny_world rdy),
     sy_mem = one_busy (sbuf_entry (\<lambda>_. None) id 20) 21 (tiny_world rdy)\<rparr>"

definition quiet :: others where
  "quiet = \<lparr>ev_queue = [], ev_fi = [], ev_disk = [], ev_realloc = True,
     ev_garbage = \<lparr>fh_diskid = 0, fh_status = 0\<rparr>, ev_malloc = (\<lambda>_. None), ev_check = (\<lambda>_ w. Inr (w, 0))\<rparr>"

text \<open>What the receiver does to hand over the buffer while the writer sleeps.\<close>

definition order :: "world \<Rightarrow> world" where
  "order w = (case sbuf_set_ready_and_signal 20 w of Inl _ \<Rightarrow> w | Inr w' \<Rightarrow> w')"

definition file_status :: "system \<Rightarrow> u32 option" where
  "file_status s = (case afi_heap (wd_fi (sy_world s)) 5 of None \<Rightarrow> None
     | Some fi \<Rightarrow> (case fi_files fi of [] \<Rightarrow> None | f # _ \<Rightarrow> Some (fh_status f)))"

lemma early_turn: "case write_turn [] [quiet] 20 (tiny_system True) of Inr None \<Rightarrow> True | _ \<Rightarrow> False"
  by code_simp

lemma late_turn: "case write_turn [order] [quiet] 20 (tiny_system False) of
     Inr (Some s) \<Rightarrow> file_status s = Some 3 \<and> br_lists (sy_mem s) Freelist = Some 21 \<and> br_lists (sy_disk s) Freelist = Some 11
   | _ \<Rightarrow> False"
  by code_simp

text \<open>A buffer handed to the writer thread before the thread waits for it stops the thread for good: it
  keeps the head lock, writes the buffer, and then waits for the lock it holds itself. The same buffer
  handed over while the thread waits is written and marked as on disk, and the buffer and the recording
  point go back to their free lists.\<close>

theorem early_order_deadlocks:
  "write_turn [] [quiet] 20 (tiny_system True) = Inr None \<and>
   (\<exists>s. write_turn [order] [quiet] 20 (tiny_system False) = Inr (Some s) \<and> file_status s = Some (FH_INMEM OR FH_ONDISK) \<and>
     br_lists (sy_mem s) Freelist = Some 21 \<and> br_lists (sy_disk s) Freelist = Some 11)"
  using early_turn late_turn by (auto simp: fh_defs split: sum.splits option.splits)

section \<open>The vector writer\<close>

text \<open>What it stores of a run of packets of \<open>P\<close> bytes: each without its first \<open>F\<close> bytes.\<close>

definition strip :: "nat \<Rightarrow> nat \<Rightarrow> u8 list \<Rightarrow> u8 list" where
  "strip P F bs = concat (map (\<lambda>j. slice bs (j * P + F) (P - F)) [0..<length bs div P])"

definition packets :: "u8 list \<Rightarrow> nat \<Rightarrow> nat \<Rightarrow> nat \<Rightarrow> nat \<Rightarrow> nat \<Rightarrow> u8 list list" where
  "packets bs off P F from i = map (\<lambda>j. slice bs (off + j * P + F) (P - F)) [from..<from + i]"

lemma packets_Suc: "packets bs off P F from (Suc i) = slice bs (off + from * P + F) (P - F) # packets bs off P F (Suc from) i"
  unfolding packets_def by (subst upt_conv_Cons) simp_all

lemma packets_append: "packets bs off P F from (i + j) = packets bs off P F from i @ packets bs off P F (from + i) j"
  using upt_add_eq_append[of "from" "from + i" j] by (simp only: packets_def add.assoc[symmetric] map_append le_add1)

lemma gather_packets:
  assumes "wd_mem w m = Some bs" and "F \<le> unat psize"
  shows "off + (from + i) * unat psize \<le> length bs \<Longrightarrow>
    gather (Some (m, int off)) psize (int F) from i w = Inr (packets bs off (unat psize) F from i)"
proof (induction i arbitrary: "from")
  case (Suc i)
  have "unat psize < 2 ^ 64" using unsigned_less[of psize] by simp
  then have "F < 2 ^ 64" using assms(2) by simp
  then have "unat (of_nat F :: u64) = F" by (simp add: unat_of_nat)
  then have len: "unat (psize - word_of_int (int F)) = unat psize - F"
    using assms(2) by (simp add: unat_sub word_le_nat_alt)
  have "from * unat psize + unat psize \<le> (from + Suc i) * unat psize" by (simp add: algebra_simps)
  then have "off + from * unat psize + F + (unat psize - F) \<le> length bs" using Suc.prems assms(2) by linarith
  moreover have "int off + (int from * uint psize + int F) = int (off + from * unat psize + F)" by simp
  ultimately have "load_bytes (Some (m, int off + (int from * uint psize + int F))) (unat psize - F) w =
      Inr (slice bs (off + from * unat psize + F) (unat psize - F))"
    by (simp only: load_bytes_slice[OF assms(1)])
  with Suc len show ?case by (simp add: packets_Suc)
qed (simp add: packets_def)

definition writev_ready :: "addr \<Rightarrow> addr \<Rightarrow> addr \<Rightarrow> opt_s \<Rightarrow> nat \<Rightarrow> world \<Rightarrow> bool" where
  "writev_ready r m optp opt F w \<longleftrightarrow> recorder Writev_Writer r m optp opt w \<and> \<not> has (opt_optbits opt) READMODE \<and>
     opt_offset opt = int F \<and> F \<le> unat (opt_packet_size opt) \<and> 0 < opt_packet_size opt \<and> os_script (wd_os w) = [] \<and>
     (\<exists>c p pos. wd_rec w r = Some c \<and> os_fds (wd_os w) (ci_fd c) = Some (p, pos) \<and>
        ci_offset c \<le> length (the_file (wd_os w) p))"

definition vstored :: "addr \<Rightarrow> world \<Rightarrow> u8 list" where
  "vstored r w = (case wd_rec w r of None \<Rightarrow> [] | Some c \<Rightarrow>
     (case os_fds (wd_os w) (ci_fd c) of None \<Rightarrow> [] | Some (p, pos) \<Rightarrow> take (ci_offset c) (the_file (wd_os w) p)))"

text \<open>\<open>appended c p w w' data\<close>: the writer has appended \<open>data\<close> and changed nothing else but its offset.\<close>

definition appended :: "addr \<Rightarrow> recording_entity \<Rightarrow> string \<Rightarrow> world \<Rightarrow> world \<Rightarrow> u8 list \<Rightarrow> bool" where
  "appended r c p w w' data \<longleftrightarrow> wd_rec w' = (wd_rec w)(r \<mapsto> c\<lparr>ci_offset := ci_offset c + length data\<rparr>) \<and>
     the_file (wd_os w') p = write_at (the_file (wd_os w) p) (ci_offset c) data \<and> os_script (wd_os w') = [] \<and>
     os_fds (wd_os w') = os_fds (wd_os w) \<and> wd_mem w' = wd_mem w \<and> wd_opt w' = wd_opt w \<and> wd_buf w' = wd_buf w"

lemma appended_trans:
  assumes "appended r c p w w1 d" and "appended r (c\<lparr>ci_offset := ci_offset c + length d\<rparr>) p w1 w2 e"
  shows "appended r c p w w2 (d @ e)"
  using assms by (simp add: appended_def write_at_append add.assoc)

lemma length_packets:
  assumes "off + (from + i) * P \<le> length bs" and "F \<le> P"
  shows "length (concat (packets bs off P F from i)) = i * (P - F)"
  using assms(1)
proof (induction i arbitrary: "from")
  case (Suc i)
  have "from * P + P \<le> (from + Suc i) * P" by (simp add: algebra_simps)
  then have "off + from * P + F + (P - F) \<le> length bs" using Suc.prems assms(2) by linarith
  with Suc show ?case by (simp add: packets_Suc)
qed (simp add: packets_def)

lemma writev_loop_all:
  assumes opt: "opt_offset opt = int F" "F \<le> unat (opt_packet_size opt)"
    and mem: "off + n_vecs * unat (opt_packet_size opt) \<le> length bs"
  shows "total_i \<le> n_vecs \<Longrightarrow> wd_rec w r = Some c \<Longrightarrow> os_fds (wd_os w) (ci_fd c) = Some (p, pos) \<Longrightarrow>
    os_script (wd_os w) = [] \<Longrightarrow> wd_mem w m = Some bs \<Longrightarrow>
    \<exists>w'. writev_loop r (Some (m, int off)) opt total_i n_vecs w = Inr (w', True) \<and>
      appended r c p w w' (concat (packets bs off (unat (opt_packet_size opt)) F total_i (n_vecs - total_i)))"
proof (induction "n_vecs - total_i" arbitrary: total_i w c rule: less_induct)
  case less
  let ?P = "unat (opt_packet_size opt)" and ?i = "min IOV_MAX (n_vecs - total_i)"
  let ?data = "\<lambda>i. concat (packets bs off ?P F total_i i)"
  show ?case
  proof (cases "n_vecs \<le> total_i")
    case True
    moreover have "(wd_rec w)(r \<mapsto> c) = wd_rec w" using less.prems(2) by (simp add: fun_upd_idem)
    ultimately show ?thesis using less.prems
      by (subst writev_loop.simps) (simp add: appended_def packets_def write_at_def)
  next
    case False
    have i: "0 < ?i" "total_i + ?i \<le> n_vecs" using False by (auto simp: IOV_MAX_def)
    then have "(total_i + ?i) * ?P \<le> n_vecs * ?P" by (intro mult_le_mono1)
    with mem have bound: "off + (total_i + ?i) * ?P \<le> length bs" by linarith
    note gather = gather_packets[OF less.prems(5) opt(2) bound]
    note len = length_packets[OF bound opt(2)]
    have "?P < 2 ^ 64" using unsigned_less[of "opt_packet_size opt"] by simp
    then have "F < 2 ^ 64" using opt(2) by simp
    then have "unat (of_nat F :: u64) = F" by (simp add: unat_of_nat)
    then have lenw: "unat (opt_packet_size opt - word_of_int (opt_offset opt)) = ?P - F"
      using opt by (simp add: unat_sub word_le_nat_alt)
    let ?c1 = "c\<lparr>ci_offset := ci_offset c + length (?data ?i)\<rparr>"
    let ?w1 = "w\<lparr>wd_os := put_bytes p (ci_offset c) (?data ?i) (wd_os w), wd_rec := (wd_rec w)(r \<mapsto> ?c1)\<rparr>"
    have step: "writev_loop r (Some (m, int off)) opt total_i n_vecs w =
        writev_loop r (Some (m, int off)) opt (total_i + ?i) n_vecs ?w1"
      using False less.prems gather len lenw
      by (subst writev_loop.simps)
        (simp add: get_rec_def opt(1) call_os_def sys_pwritev_def put_rec_def Let_def)
    have app: "appended r c p w ?w1 (?data ?i)" using less.prems by (simp add: appended_def)
    have lt: "n_vecs - (total_i + ?i) < n_vecs - total_i" using i by linarith
    have f: "wd_rec ?w1 r = Some ?c1" "os_fds (wd_os ?w1) (ci_fd ?c1) = Some (p, pos)" "os_script (wd_os ?w1) = []"
      "wd_mem ?w1 m = Some bs"
      using less.prems by simp_all
    from less.hyps[OF lt i(2) f] obtain w' where
      w': "writev_loop r (Some (m, int off)) opt (total_i + ?i) n_vecs ?w1 = Inr (w', True)"
      "appended r ?c1 p ?w1 w' (concat (packets bs off ?P F (total_i + ?i) (n_vecs - (total_i + ?i))))"
      by blast
    have "?i \<le> n_vecs - total_i" by (rule min.cobounded2)
    then have "n_vecs - total_i = ?i + (n_vecs - (total_i + ?i))"
      unfolding diff_diff_left[symmetric] by (rule le_add_diff_inverse[symmetric])
    then have "?data (n_vecs - total_i) = ?data ?i @ concat (packets bs off ?P F (total_i + ?i) (n_vecs - (total_i + ?i)))"
      using packets_append[of bs off ?P F total_i ?i "n_vecs - (total_i + ?i)"] by simp
    with appended_trans[OF app w'(2)] step w'(1) show ?thesis by auto
  qed
qed

lemma slice_slice: "i + k \<le> n \<Longrightarrow> slice (slice bs off n) i k = slice bs (off + i) k"
  by (simp add: slice_def min_def drop_take add.commute)

lemma strip_packets:
  assumes "n = q * P" and "off + n \<le> length bs" and "F \<le> P" and "0 < P"
  shows "strip P F (slice bs off n) = concat (packets bs off P F 0 q)"
proof -
  have "slice (slice bs off n) (j * P + F) (P - F) = slice bs (off + j * P + F) (P - F)" if "j < q" for j
  proof -
    have "Suc j * P \<le> q * P" using that by (intro mult_le_mono1) simp
    then have "j * P + F + (P - F) \<le> n" using assms(1,3) by simp
    from slice_slice[OF this] show ?thesis by (simp add: add.assoc)
  qed
  then have "map (\<lambda>j. slice (slice bs off n) (j * P + F) (P - F)) [0..<q] =
      map (\<lambda>j. slice bs (off + j * P + F) (P - F)) [0..<q]"
    by (intro map_cong) simp_all
  moreover have "length (slice bs off n) div P = q" using assms(1,2,4) by simp
  ultimately show ?thesis by (simp only: strip_def packets_def add_0)
qed

lemma strip_append:
  assumes "P dvd length a" and "P dvd length b" and "F \<le> P" and "0 < P"
  shows "strip P F (a @ b) = strip P F a @ strip P F b"
proof -
  obtain i where "length a = i * P" using assms(1) by (metis dvd_def mult.commute)
  moreover obtain j where "length b = j * P" using assms(2) by (metis dvd_def mult.commute)
  ultimately have l: "length a = i * P" "length b = j * P" by simp_all
  have s: "slice (a @ b) 0 (length a + length b) = a @ b" "slice (a @ b) 0 (length a) = a"
    "slice (a @ b) (length a) (length b) = b" by (simp_all add: slice_def)
  have "strip P F (a @ b) = concat (packets (a @ b) 0 P F 0 (i + j))"
    using strip_packets[of "length a + length b" "i + j" P 0 "a @ b" F] l assms(3,4) s(1) by (simp add: add_mult_distrib)
  moreover have "strip P F a = concat (packets (a @ b) 0 P F 0 i)"
    using strip_packets[of "length a" i P 0 "a @ b" F] l assms(3,4) s(2) by simp
  moreover have "strip P F b = concat (packets (a @ b) (length a) P F 0 j)"
    using strip_packets[of "length b" j P "length a" "a @ b" F] l assms(3,4) s(3) by simp
  moreover have "packets (a @ b) (length a) P F 0 j = packets (a @ b) 0 P F i j"
  proof -
    have "packets (a @ b) 0 P F i j = map (\<lambda>k. slice (a @ b) ((i + k) * P + F) (P - F)) [0..<j]"
      unfolding packets_def add.commute[of i j] map_add_upt[of i j, symmetric] by (simp add: o_def add.commute)
    then show ?thesis by (simp add: packets_def l(1) add_mult_distrib add.assoc)
  qed
  ultimately show ?thesis using packets_append[of "a @ b" 0 P F 0 i j] by simp
qed

lemma writev_full_write:
  assumes ready: "writev_ready r m optp opt F w" and n: "unat (opt_packet_size opt) dvd n" "0 < n"
    and len: "off + n \<le> length (buffer_of m w)"
  shows "\<exists>w'. full_write r m off n w = Some w' \<and> writev_ready r m optp opt F w' \<and> buffer_of m w' = buffer_of m w \<and>
    vstored r w' = vstored r w @ strip (unat (opt_packet_size opt)) F (slice (buffer_of m w) off n) \<and> wd_buf w' = wd_buf w"
proof -
  let ?P = "unat (opt_packet_size opt)"
  from ready obtain c x bs p pos where w: "wd_rec w r = Some c" "re_writer c = Writev_Writer" "ci_opt c = Some optp"
    "wd_opt w optp = Some (opt\<lparr>opt_bytes_exchanged := x\<rparr>)" "wd_mem w m = Some bs" "length bs < 2 ^ 63"
    "\<not> has (opt_optbits opt) READMODE" "os_script (wd_os w) = []" "os_fds (wd_os w) (ci_fd c) = Some (p, pos)"
    "ci_offset c \<le> length (the_file (wd_os w) p)" "opt_offset opt = int F" "F \<le> ?P" "0 < opt_packet_size opt"
    by (auto simp: writev_ready_def recorder_def)
  have P: "0 < ?P" using w(13) by (simp add: word_less_nat_alt)
  obtain q where q: "n = q * ?P" using n(1) by (metis dvd_def mult.commute)
  have bs: "buffer_of m w = bs" "off + q * ?P \<le> length bs" using w(5) len q by (simp_all add: buffer_of_def)
  have "n < 2 ^ 63" using bs w(6) q by simp
  note sn = small_word[OF this]
  have div: "unat (of_nat n div opt_packet_size opt) = q"
    unfolding unat_div sn using P q by simp
  let ?o = "opt\<lparr>opt_bytes_exchanged := x\<rparr>" and ?data = "concat (packets bs off ?P F 0 q)"
  from writev_loop_all[of ?o F off q bs 0 w r c p pos m] w bs obtain w1 where
    w1: "writev_loop r (Some (m, int off)) ?o 0 q w = Inr (w1, True)" "appended r c p w w1 ?data" by auto
  let ?c1 = "c\<lparr>ci_offset := ci_offset c + length ?data\<rparr>" and ?k = "of_nat q * (opt_packet_size opt - word_of_int (int F))"
  have "count_exchanged r ?k w1 = Inr (counted r ?c1 optp ?o ?k w1)"
    by (rule count_exchanged_eq) (use w w1(2) in \<open>simp_all add: appended_def\<close>)
  moreover have "get_rec r w = Inr c" "get_opt (ci_opt c) w = Inr ?o" using w by (simp_all add: get_rec_def get_opt_def)
  moreover have "opt_packet_size opt \<noteq> 0" using w(13) by auto
  ultimately have "rec_write r (Some (m, int off)) (of_nat n) w = Inr (counted r ?c1 optp ?o ?k w1, int n)"
    using w(2,7,11) w1(1) by (simp add: rec_write_def writev_write_def div sn(3))
  then have full: "full_write r m off n w = Some (counted r ?c1 optp ?o ?k w1)"
    by (simp add: full_write_def)
  have strip: "strip ?P F (slice bs off n) = ?data" using strip_packets[OF q _ w(12) P] bs(2) q by simp
  define D where "D = ?data"
  define w2 where "w2 = counted r ?c1 optp ?o ?k w1"
  define c2 where "c2 = ?c1\<lparr>ci_bytes_exchanged := ci_bytes_exchanged c + uint ?k\<rparr>"
  have c2: "wd_rec w2 r = Some c2" "re_writer c2 = Writev_Writer" "ci_opt c2 = Some optp" "ci_fd c2 = ci_fd c"
    "ci_offset c2 = ci_offset c + length D"
    using w(2,3) by (simp_all add: w2_def c2_def D_def)
  have w2: "wd_opt w2 optp = Some (opt\<lparr>opt_bytes_exchanged := x + ?k\<rparr>)" "wd_mem w2 m = Some bs" "os_script (wd_os w2) = []"
    "os_fds (wd_os w2) (ci_fd c) = Some (p, pos)" "wd_buf w2 = wd_buf w"
    "the_file (wd_os w2) p = write_at (the_file (wd_os w) p) (ci_offset c) D"
    using w(5,8,9) w1(2) by (simp_all add: w2_def D_def appended_def)
  have content: "take (ci_offset c + length D) (the_file (wd_os w2) p) = take (ci_offset c) (the_file (wd_os w) p) @ D"
    "ci_offset c + length D \<le> length (the_file (wd_os w2) p)"
    using w(10) by (simp_all add: w2(6) write_at_def)
  have "writev_ready r m optp opt F w2"
  proof -
    have "recorder Writev_Writer r m optp opt w2"
      unfolding recorder_def by (intro exI conjI) (rule c2(1) c2(2) c2(3) w2(1) w2(2) w(6))+
    moreover have "os_fds (wd_os w2) (ci_fd c2) = Some (p, pos)" "ci_offset c2 \<le> length (the_file (wd_os w2) p)"
      using c2(4,5) w2(4) content(2) by simp_all
    ultimately show ?thesis
      unfolding writev_ready_def by (intro exI conjI) (assumption | rule c2(1) w2(3) w(7) w(11) w(12) w(13))+
  qed
  moreover have "vstored r w2 = vstored r w @ D"
    using c2 w2(4) content(1) w(1,9) by (simp add: vstored_def)
  moreover have "buffer_of m w2 = bs" using w2(2) by (simp add: buffer_of_def)
  moreover have "full_write r m off n w = Some w2" using full by (simp only: w2_def)
  moreover have "strip ?P F (slice bs off n) = D" using strip by (simp only: D_def)
  ultimately show ?thesis using w2(5) by (intro exI[of _ w2]) (simp add: bs(1))
qed

lemma writev_note [simp]:
  "writev_ready r m optp opt F (note_written b n w) = writev_ready r m optp opt F w"
  "vstored r (note_written b n w) = vstored r w"
  by (simp_all add: writev_ready_def vstored_def split: option.split)

interpretation writev_backend: write_backend "full_write r m" "note_written b" "writev_ready r m optp opt F"
    "buffer_of m" "vstored r" "\<lambda>x. if F \<le> unat (opt_packet_size opt) \<and> 0 < opt_packet_size opt
        then strip (unat (opt_packet_size opt)) F x else []" "unat (opt_packet_size opt)" for r m b optp opt F
proof unfold_locales
  fix w n off
  assume ready: "writev_ready r m optp opt F w" and "unat (opt_packet_size opt) dvd n" and "0 < n"
    and "off + n \<le> length (buffer_of m w)"
  from writev_full_write[OF this] ready
  show "\<exists>s'. full_write r m off n w = Some s' \<and> writev_ready r m optp opt F s' \<and> buffer_of m s' = buffer_of m w \<and>
      vstored r s' = vstored r w @ (if F \<le> unat (opt_packet_size opt) \<and> 0 < opt_packet_size opt
        then strip (unat (opt_packet_size opt)) F (slice (buffer_of m w) off n) else [])"
    by (auto simp: writev_ready_def)
next
  fix x y :: "u8 list"
  assume "unat (opt_packet_size opt) dvd length x" and "unat (opt_packet_size opt) dvd length y"
  then show "(if F \<le> unat (opt_packet_size opt) \<and> 0 < opt_packet_size opt
        then strip (unat (opt_packet_size opt)) F (x @ y) else []) =
      (if F \<le> unat (opt_packet_size opt) \<and> 0 < opt_packet_size opt then strip (unat (opt_packet_size opt)) F x else []) @
      (if F \<le> unat (opt_packet_size opt) \<and> 0 < opt_packet_size opt then strip (unat (opt_packet_size opt)) F y else [])"
    using strip_append by (simp add: word_less_nat_alt)
qed (auto simp: strip_def)

text \<open>C17: The vector writer stores a run of whole packets without the first \<open>offset\<close> bytes of each, in order,
  whatever number of \<open>pwritev\<close> calls it needs, and reports the length of the run.\<close>

theorem vector_writer_strips_headers:
  assumes "writev_ready r m optp opt F w" and "unat (opt_packet_size opt) dvd n" and "0 < n"
    and "off + n \<le> length (buffer_of m w)"
  shows "\<exists>w'. rec_write r (Some (m, int off)) (of_nat n) w = Inr (w', int n) \<and>
    vstored r w' = vstored r w @ strip (unat (opt_packet_size opt)) F (slice (buffer_of m w) off n)"
  using writev_full_write[OF assms] by (auto simp: full_write_def split: sum.splits prod.splits if_splits)

definition vector_world :: world where
  "vector_world = (example_world [])\<lparr>wd_opt := [1 \<mapsto> example_opt\<lparr>opt_packet_size := 4, opt_offset := 1\<rparr>],
     wd_rec := [10 \<mapsto> example_rec\<lparr>re_writer := Writev_Writer\<rparr>], wd_mem := [30 \<mapsto> [1, 2, 3, 4, 5, 6, 7, 8]]\<rparr>"

lemma vector_writer_strips_headers_witness:
  "\<exists>w'. rec_write 10 (Some (30, 0)) 8 vector_world = Inr (w', 8) \<and> vstored 10 w' = [2, 3, 4, 6, 7, 8]"
proof -
  have "writev_ready 10 30 1 (example_opt\<lparr>opt_packet_size := 4, opt_offset := 1\<rparr>) 1 vector_world"
    by (simp add: writev_ready_def recorder_def vector_world_def example_defs zero_opt_def has_def flag_defs flag_def
        the_file_def)
  moreover have "buffer_of 30 vector_world = [1, 2, 3, 4, 5, 6, 7, 8]" "vstored 10 vector_world = []"
    by (simp_all add: buffer_of_def vstored_def vector_world_def example_defs)
  ultimately show ?thesis
    using vector_writer_strips_headers[of 10 30 1 "example_opt\<lparr>opt_packet_size := 4, opt_offset := 1\<rparr>" 1 vector_world 8 0]
    by (simp add: strip_def slice_def upt_rec)
qed

end
