(* ===== verification/Sending.thy ===== *)
theory Sending
  imports Sender BufferWriting
begin

text \<open>
  What the sending side promises (\<open>generic_sendloop\<close> and the UDP send command): the packets of a loaded
  buffer go out in order, one datagram each; the pacing never sends a packet before its time; and the
  two states in which nothing is sent, a sender that starts and a stream with a packet offset.
\<close>

section \<open>The packets of one buffer\<close>

text \<open>\<open>loaded s b m\<close>: the thread sends buffer \<open>b\<close>, whose bytes are the memory block \<open>m\<close>.\<close>

definition loaded :: "sender \<Rightarrow> opt_s \<Rightarrow> addr \<Rightarrow> addr \<Rightarrow> u8 list \<Rightarrow> bool" where
  "loaded s opt b m bs \<longleftrightarrow> wd_opt (sn_world s) (sn_opt s) = Some opt \<and> sn_be s = Some b \<and>
     (\<exists>be. wd_buf (sn_world s) b = Some be \<and> be_buffer be = Some (m, 0)) \<and> wd_mem (sn_world s) m = Some bs"

definition all_sent :: "nat \<Rightarrow> u8 list \<Rightarrow> int" where
  "all_sent i bytes = int (length bytes)"

lemma load_packet:
  assumes "loaded s opt b m bs" and "opt_offset opt = 0" and "tr_inc (sn_st s) = of_nat k"
    and "k + unat (opt_packet_size opt) \<le> length bs" and "length bs < 2 ^ 31"
  obtains be where "get_buf b (sn_world s) = Inr be"
    "load_bytes (shift_ptr (be_buffer be) (uint (tr_inc (sn_st s)) + opt_offset opt))
       (unat (opt_packet_size opt - word_of_int (opt_offset opt))) (sn_world s) = Inr (slice bs k (unat (opt_packet_size opt)))"
proof -
  from assms(1) obtain be where be: "wd_buf (sn_world s) b = Some be" "be_buffer be = Some (m, 0)"
    "wd_mem (sn_world s) m = Some bs" by (auto simp: loaded_def)
  have "k < 2 ^ 64" using assms(4,5) by simp
  then have "uint (of_nat k :: u64) = int k" by (simp add: unsigned_of_nat take_bit_nat_eq_self)
  with be assms show ?thesis
    by (intro that[of be]) (simp_all add: get_buf_def load_bytes_def)
qed

lemma sendcmd_sends:
  assumes ld: "loaded s opt b m bs" and off: "opt_offset opt = 0" and k: "tr_inc (sn_st s) = of_nat k"
    and P: "k + unat (opt_packet_size opt) \<le> length bs" "length bs < 2 ^ 31"
  shows "udp_sender_sendcmd (all_sent i) s =
    Inr (s\<lparr>sn_so := (sn_so s)\<lparr>so_total_transacted_bytes := so_total_transacted_bytes (sn_so s) + opt_packet_size opt\<rparr>,
           sn_st := (sn_st s)\<lparr>tr_packets_sent := tr_packets_sent (sn_st s) + 1,
             tr_inc := tr_inc (sn_st s) + opt_packet_size opt, tr_packetcounter := tr_packetcounter (sn_st s) - 1\<rparr>\<rparr>,
         slice bs k (unat (opt_packet_size opt)), 0)"
proof -
  let ?P = "unat (opt_packet_size opt)"
  obtain be where be: "get_buf b (sn_world s) = Inr be"
    "load_bytes (shift_ptr (be_buffer be) (uint (tr_inc (sn_st s)) + opt_offset opt))
       (unat (opt_packet_size opt - word_of_int (opt_offset opt))) (sn_world s) = Inr (slice bs k ?P)"
    using load_packet[OF ld off k P] .
  have len: "all_sent i (slice bs k ?P) = int ?P" using P(1) by (simp add: all_sent_def)
  have small: "?P < 2 ^ 32" using P by simp
  then have "unat (ucast (of_nat ?P :: u32) :: u64) = ?P"
    by (simp add: unsigned_ucast_eq unsigned_of_nat unsigned_take_bit_eq take_bit_nat_eq_self del: unat_of_nat)
  then have "ucast (of_nat ?P :: u32) = opt_packet_size opt" by (simp only: word_unat_eq_iff)
  with ld be len show ?thesis
    by (auto simp: udp_sender_sendcmd_def the_sopt_def get_opt_def loaded_def Let_def)
qed

text \<open>Packet by packet, at the offsets that are multiples of the packet size.\<close>

definition packets :: "nat \<Rightarrow> u8 list \<Rightarrow> nat \<Rightarrow> nat \<Rightarrow> u8 list list" where
  "packets P bs k n = List.map (\<lambda>j. slice bs (k + j * P) P) [0..<n]"

lemma packets_simps:
  "packets P bs k 0 = []"
  "packets P bs k (Suc n) = slice bs k P # packets P bs (k + P) n"
  by (simp_all add: packets_def upt_conv_Cons algebra_simps flip: map_Suc_upt del: upt_Suc)

lemma loaded_same_opt:
  assumes "loaded s opt b m bs"
  shows "s\<lparr>sn_st := sn_st s, sn_sys := (sn_sys s)\<lparr>sy_world := (sn_world s)
      \<lparr>wd_opt := (wd_opt (sn_world s))(sn_opt s \<mapsto> opt)\<rparr>\<rparr>\<rparr> = s"
  using assms by (simp add: loaded_def sn_world_def fun_upd_idem)

lemma send_buffer_sends:
  assumes "loaded s opt b m bs" and "opt_offset opt = 0" and "tr_inc (sn_st s) = of_nat k"
    and "k + n * unat (opt_packet_size opt) \<le> length bs" and "length bs < 2 ^ 31"
    and "tr_packetcounter (sn_st s) = of_nat n" and "n < 2 ^ 64" and "n < fuel"
    and "opt_wait_nanoseconds opt = 0"
  shows "\<exists>s'. send_buffer udp_sender_sendcmd fuel do_wait all_sent i clock wire s =
      Inr (Some (s', True, clock, wire @ packets (unat (opt_packet_size opt)) bs k n)) \<and>
      tr_packets_sent (sn_st s') = tr_packets_sent (sn_st s) + of_nat n \<and> tr_packetcounter (sn_st s') = 0 \<and>
      so_total_transacted_bytes (sn_so s') = so_total_transacted_bytes (sn_so s) + of_nat n * opt_packet_size opt"
  using assms
proof (induction n arbitrary: s k fuel i wire)
  case 0
  then show ?case by (cases fuel) (auto simp: packets_simps)
next
  case (Suc n)
  let ?P = "unat (opt_packet_size opt)"
  obtain fuel' where f: "fuel = Suc fuel'" using Suc.prems(8) by (cases fuel) auto
  let ?s = "s\<lparr>sn_so := (sn_so s)\<lparr>so_total_transacted_bytes := so_total_transacted_bytes (sn_so s) + opt_packet_size opt\<rparr>,
     sn_st := (sn_st s)\<lparr>tr_packets_sent := tr_packets_sent (sn_st s) + 1,
       tr_inc := tr_inc (sn_st s) + opt_packet_size opt, tr_packetcounter := tr_packetcounter (sn_st s) - 1\<rparr>\<rparr>"
  have ne: "tr_packetcounter (sn_st s) \<noteq> 0"
    using Suc.prems(6,7) word_of_nat_eq_0_iff[where 'a=64, of "Suc n"] by (auto dest!: dvd_imp_le)
  have P: "k + ?P \<le> length bs" using Suc.prems(4) by simp
  have "\<exists>s'. send_buffer udp_sender_sendcmd fuel' do_wait all_sent (Suc i) clock (wire @ [slice bs k ?P]) ?s =
      Inr (Some (s', True, clock, (wire @ [slice bs k ?P]) @ packets ?P bs (k + ?P) n)) \<and>
      tr_packets_sent (sn_st s') = tr_packets_sent (sn_st ?s) + of_nat n \<and> tr_packetcounter (sn_st s') = 0 \<and>
      so_total_transacted_bytes (sn_so s') = so_total_transacted_bytes (sn_so ?s) + of_nat n * opt_packet_size opt"
    using Suc.prems f by (intro Suc.IH) (simp_all add: loaded_def sn_world_def)
  moreover have "send_buffer udp_sender_sendcmd fuel do_wait all_sent i clock wire s =
      send_buffer udp_sender_sendcmd fuel' do_wait all_sent (Suc i) clock (wire @ [slice bs k ?P]) ?s"
    using Suc.prems(1,9) ne sendcmd_sends[OF Suc.prems(1-3) P Suc.prems(5), of i] loaded_same_opt[OF Suc.prems(1)]
    by (simp add: f the_sopt_def get_opt_def loaded_def Let_def udps_wait_function_def)
  ultimately show ?case by (auto simp: packets_simps algebra_simps)
qed


section \<open>Pacing\<close>

lemma nanodiff_trans: "nanodiff a c = nanodiff a b + nanodiff b c"
  by (simp add: nanodiff_def algebra_simps)

lemma spin_result:
  "spin since w clock = Some (now, rest) \<Longrightarrow> now \<in> set clock \<and> set rest \<subseteq> set clock \<and> w \<le> nanodiff since now"
  by (induction clock) (auto split: if_splits)

text \<open>One wait: it lasts until the interval since the last nominal time of sending is over, and moves the
  nominal time on by at least the interval.\<close>

lemma wait_paces:
  assumes "udps_wait_function clock opt t = Inr (Some (opt1, t1, clock1))"
    and w: "0 < opt_wait_nanoseconds opt" "opt_wait_nanoseconds opt \<le> BILLION"
    and v: "valid_time (opt_wait_last_sent opt)" "\<forall>c \<in> set clock. valid_time c"
  shows "opt_wait_nanoseconds opt \<le> nanodiff (opt_wait_last_sent opt) (tr_now t1)"
    and "opt_wait_nanoseconds opt \<le> nanodiff (opt_wait_last_sent opt) (opt_wait_last_sent opt1)"
    and "opt_wait_nanoseconds opt1 = opt_wait_nanoseconds opt" and "valid_time (opt_wait_last_sent opt1)"
    and "\<forall>c \<in> set clock1. valid_time c"
proof -
  have u: "uint (word_of_int (opt_wait_nanoseconds opt) :: u64) = opt_wait_nanoseconds opt"
    using w by (simp add: uint_word_of_int BILLION_def)
  have add: "nanodiff (opt_wait_last_sent opt) (nanoadd (opt_wait_last_sent opt) (word_of_int (opt_wait_nanoseconds opt)))
      = opt_wait_nanoseconds opt"
    "valid_time (nanoadd (opt_wait_last_sent opt) (word_of_int (opt_wait_nanoseconds opt)))"
    using nanoadd_sum_uint nanoadd_cases[of "opt_wait_last_sent opt" "word_of_int (opt_wait_nanoseconds opt)"] v(1) w u
    by (auto simp: nanodiff_def valid_time_def BILLION_def algebra_simps)
  have "opt_wait_nanoseconds opt \<le> nanodiff (opt_wait_last_sent opt) (tr_now t1) \<and>
     opt_wait_nanoseconds opt \<le> nanodiff (opt_wait_last_sent opt) (opt_wait_last_sent opt1) \<and>
     opt_wait_nanoseconds opt1 = opt_wait_nanoseconds opt \<and> valid_time (opt_wait_last_sent opt1) \<and>
     (\<forall>c \<in> set clock1. valid_time c)"
    using assms(1) w v add
    by (auto simp: udps_wait_function_def Let_def not_less dest!: spin_result split: list.splits if_splits option.splits)
  then show "opt_wait_nanoseconds opt \<le> nanodiff (opt_wait_last_sent opt) (tr_now t1)"
    and "opt_wait_nanoseconds opt \<le> nanodiff (opt_wait_last_sent opt) (opt_wait_last_sent opt1)"
    and "opt_wait_nanoseconds opt1 = opt_wait_nanoseconds opt" and "valid_time (opt_wait_last_sent opt1)"
    and "\<forall>c \<in> set clock1. valid_time c" by blast+
qed

lemma sendcmd_frame:
  "udp_sender_sendcmd sent s = Inr (s', bytes, e) \<Longrightarrow>
    sn_sys s' = sn_sys s \<and> sn_opt s' = sn_opt s \<and> tr_now (sn_st s') = tr_now (sn_st s)"
  by (auto simp: udp_sender_sendcmd_def Let_def bindE_eq_Inr split: option.splits if_splits)

lemma send_buffer_paced:
  assumes "send_buffer udp_sender_sendcmd fuel True net i clock wire s = Inr (Some (s', ok, rest, wire'))"
    and "wd_opt (sn_world s) (sn_opt s) = Some opt"
    and "0 < opt_wait_nanoseconds opt" and "opt_wait_nanoseconds opt \<le> BILLION"
    and "valid_time (opt_wait_last_sent opt)" and "\<forall>c \<in> set clock. valid_time c"
  shows "\<exists>sent. wire' = wire @ sent \<and>
    (if sent = [] then tr_now (sn_st s') = tr_now (sn_st s)
     else int (length sent) * opt_wait_nanoseconds opt \<le> nanodiff (opt_wait_last_sent opt) (tr_now (sn_st s')))"
  using assms
proof (induction fuel arbitrary: i clock wire s opt)
  case 0
  then show ?case by simp
next
  case (Suc fuel)
  let ?w = "opt_wait_nanoseconds opt"
  show ?case
  proof (cases "tr_packetcounter (sn_st s) = 0")
    case True
    with Suc.prems(1) show ?thesis by auto
  next
    case False
    define upd where "upd opt1 t = s\<lparr>sn_st := t, sn_sys := (sn_sys s)\<lparr>sy_world := (sn_world s)
        \<lparr>wd_opt := (wd_opt (sn_world s))(sn_opt s \<mapsto> opt1)\<rparr>\<rparr>\<rparr>" for opt1 t
    obtain opt1 t clock1 s2 bytes err where
      wt: "udps_wait_function clock opt (sn_st s) = Inr (Some (opt1, t, clock1))" and
      sd: "udp_sender_sendcmd (net i) (upd opt1 t) = Inr (s2, bytes, err)" and
      go: "(if err \<noteq> 0 then Inr (Some (s2, False, clock1, wire @ [bytes]))
           else send_buffer udp_sender_sendcmd fuel True net (Suc i) clock1 (wire @ [bytes]) s2) = Inr (Some (s', ok, rest, wire'))"
      using Suc.prems(1,2) False
      by (auto simp: the_sopt_def get_opt_def upd_def Let_def bindE_eq_Inr split: option.splits prod.splits)
    note p = wait_paces[OF wt Suc.prems(3-6)]
    have fr: "sn_world s2 = (sn_world s)\<lparr>wd_opt := (wd_opt (sn_world s))(sn_opt s \<mapsto> opt1)\<rparr>"
      "sn_opt s2 = sn_opt s" "tr_now (sn_st s2) = tr_now t"
      using sendcmd_frame[OF sd] by (simp_all add: upd_def sn_world_def)
    show ?thesis
    proof (cases "err = 0")
      case False
      with go have "wire' = wire @ [bytes]" "s' = s2" by simp_all
      with p(1) fr(3) show ?thesis by (intro exI[of _ "[bytes]"]) simp
    next
      case True
      with go have rec: "send_buffer udp_sender_sendcmd fuel True net (Suc i) clock1 (wire @ [bytes]) s2 = Inr (Some (s', ok, rest, wire'))"
        by simp
      have o1: "wd_opt (sn_world s2) (sn_opt s2) = Some opt1" using fr(1,2) by simp
      have w1: "0 < opt_wait_nanoseconds opt1" and w2: "opt_wait_nanoseconds opt1 \<le> BILLION"
        using p(3) Suc.prems(3,4) by simp_all
      obtain xs where xs: "wire' = (wire @ [bytes]) @ xs"
        "if xs = [] then tr_now (sn_st s') = tr_now (sn_st s2)
         else int (length xs) * opt_wait_nanoseconds opt1 \<le> nanodiff (opt_wait_last_sent opt1) (tr_now (sn_st s'))"
        by (rule exE[OF Suc.IH[OF rec o1 w1 w2 p(4,5)]]) blast
      have "int (length (bytes # xs)) * ?w \<le> nanodiff (opt_wait_last_sent opt) (tr_now (sn_st s'))"
        using xs(2) p(1,2,3) fr(3) nanodiff_trans[of "opt_wait_last_sent opt" "tr_now (sn_st s')" "opt_wait_last_sent opt1"]
        by (auto simp: algebra_simps split: if_splits)
      with xs(1) show ?thesis by (intro exI[of _ "bytes # xs"]) simp
    qed
  qed
qed

section \<open>Streams with an offset\<close>

text \<open>With a packet offset the datagram is shorter than the packet, so its length never equals
  \<open>packet_size\<close>, and nothing is counted.\<close>

lemma widened: "0 \<le> x \<Longrightarrow> x < 2 ^ 32 \<Longrightarrow> uint (ucast (word_of_int x :: u32) :: u64) = x"
  by (simp add: unsigned_ucast_eq uint_word_of_int take_bit_int_eq_self)

lemma sendcmd_stuck:
  assumes "loaded s opt b m bs" and "0 < opt_offset opt" and "opt_offset opt \<le> uint (opt_packet_size opt)"
    and "uint (tr_inc (sn_st s)) + uint (opt_packet_size opt) \<le> int (length bs)" and "length bs < 2 ^ 31"
  shows "\<exists>bytes. udp_sender_sendcmd (all_sent i) s = Inr (s, bytes, 0)"
proof -
  let ?P = "opt_packet_size opt" and ?k = "uint (tr_inc (sn_st s))"
  from assms(1) obtain be where be: "wd_buf (sn_world s) b = Some be" "be_buffer be = Some (m, 0)"
    "wd_mem (sn_world s) m = Some bs" by (auto simp: loaded_def)
  have "0 \<le> uint (tr_inc (sn_st s))" by simp
  moreover have "int (length bs) < 2 ^ 31" using assms(5) by simp
  ultimately have small_packet: "uint ?P < 2 ^ 31" using assms(4) by linarith
  with assms(3) have small: "opt_offset opt < 2 ^ 31" by linarith
  have o: "uint (word_of_int (opt_offset opt) :: u64) = opt_offset opt"
    using small assms(2) by (simp add: uint_word_of_int)
  have n: "uint (?P - word_of_int (opt_offset opt)) = uint ?P - opt_offset opt"
    using assms(2,3) uint_sub_if'[of ?P "word_of_int (opt_offset opt)"] by (simp add: o)
  then have nn: "int (unat (?P - word_of_int (opt_offset opt))) = uint ?P - opt_offset opt" by simp
  have in_block: "0 \<le> ?k + opt_offset opt"
    "nat (?k + opt_offset opt) + unat (?P - word_of_int (opt_offset opt)) \<le> length bs"
    using assms(2,4) nn uint_nonnegative[of "tr_inc (sn_st s)"] by linarith+
  have ld: "load_bytes (shift_ptr (be_buffer be) (?k + opt_offset opt)) (unat (?P - word_of_int (opt_offset opt))) (sn_world s)
      = Inr (slice bs (nat (?k + opt_offset opt)) (unat (?P - word_of_int (opt_offset opt))))"
    using be in_block by (simp add: load_bytes_def)
  define bytes where "bytes = slice bs (nat (?k + opt_offset opt)) (unat (?P - word_of_int (opt_offset opt)))"
  have len: "all_sent i bytes = uint ?P - opt_offset opt"
    using length_slice[OF in_block(2)] nn by (simp add: all_sent_def bytes_def)
  have "uint (ucast (word_of_int (all_sent i bytes) :: u32) :: u64) = uint ?P - opt_offset opt"
    unfolding len by (rule widened) (use assms(2,3) small_packet in simp_all)
  then have "ucast (word_of_int (all_sent i bytes) :: u32) \<noteq> ?P" using assms(2) by auto
  moreover have "0 \<le> all_sent i bytes" by (simp add: all_sent_def)
  ultimately show ?thesis
    using assms(1) be(1) ld
    by (simp add: udp_sender_sendcmd_def the_sopt_def get_opt_def loaded_def get_buf_def Let_def flip: bytes_def)
qed

lemma send_buffer_stuck:
  assumes "loaded s opt b m bs" and "0 < opt_offset opt" and "opt_offset opt \<le> uint (opt_packet_size opt)"
    and "uint (tr_inc (sn_st s)) + uint (opt_packet_size opt) \<le> int (length bs)" and "length bs < 2 ^ 31"
    and "opt_wait_nanoseconds opt = 0" and "tr_packetcounter (sn_st s) \<noteq> 0"
  shows "send_buffer udp_sender_sendcmd fuel do_wait all_sent i clock wire s = Inr None"
proof (induction fuel arbitrary: i wire)
  case (Suc fuel)
  obtain bytes where "udp_sender_sendcmd (all_sent i) s = Inr (s, bytes, 0)"
    using sendcmd_stuck[OF assms(1-5)] by blast
  with Suc assms(1,6,7) loaded_same_opt[OF assms(1)] show ?case
    by (cases do_wait) (simp_all add: the_sopt_def get_opt_def loaded_def Let_def udps_wait_function_def)
qed simp

section \<open>Properties\<close>

text \<open>What the helpers of the loop read and write.\<close>

lemma sender_reads:
  "the_sopt s = get_opt (Some (sn_opt s)) (sn_world s)"
  "get_opt (Some o1) w = (case wd_opt w o1 of None \<Rightarrow> Inl Null_Deref | Some opt \<Rightarrow> Inr opt)"
  by (simp_all add: the_sopt_def get_opt_def deref_def split: option.splits)

definition t_probed :: "file_index \<Rightarrow> sender_tracking \<Rightarrow> sender_tracking" where
  "t_probed fi t = t\<lparr>tr_n_files_probed := fi_n_files fi, tr_n_packets_probed := fi_n_packets fi, tr_status_probed := fi_status fi\<rparr>"

lemma probe_ok:
  assumes "wd_opt (sn_world s) (sn_opt s) = Some opt" and "opt_fi opt = Some a" and "afi_heap (wd_fi (sn_world s)) a = Some fi"
  shows "probe s = Inr (upd_track (t_probed fi) s)"
  using assms by (simp add: probe_def the_sfi_def sender_reads afi_update_metadata_def t_probed_def[abs_def])

lemma throttling_ok: "\<exists>x. throttling_count opt t = Inr (t\<lparr>tr_allocated_to_load := x\<rparr>)"
  by (auto simp: throttling_count_def Let_def)

lemma jump_faults:
  assumes "wd_opt (sn_world s) (sn_opt s) = Some opt" and "opt_fi opt = Some a" and "afi_heap (wd_fi (sn_world s)) a = Some fi"
    and "sn_be s = None"
  shows "jump_to_next_file (Suc fuel) ev s = Inl Null_Deref"
  using assms by (simp add: probe_ok set_total_def sender_reads upd_track_def sn_world_def release_sent_def)

text \<open>C19: Sending a loaded buffer of \<open>n\<close> packets, with no offset and no rate limit, over a socket that
  takes every datagram whole: the sender puts exactly the \<open>n\<close> packets of the buffer on the wire, in order,
  and counts \<open>n\<close> packets and their bytes.\<close>

theorem send_buffer_in_order:
  assumes "loaded s opt b m bs" and "opt_offset opt = 0" and "opt_wait_nanoseconds opt = 0"
    and "tr_inc (sn_st s) = 0" and "n * unat (opt_packet_size opt) \<le> length bs" and "length bs < 2 ^ 31"
    and "tr_packetcounter (sn_st s) = of_nat n" and "n < 2 ^ 64" and "n < fuel"
  shows "\<exists>s'. send_buffer udp_sender_sendcmd fuel do_wait all_sent i clock wire s =
      Inr (Some (s', True, clock, wire @ packets (unat (opt_packet_size opt)) bs 0 n)) \<and>
      tr_packets_sent (sn_st s') = tr_packets_sent (sn_st s) + of_nat n \<and> tr_packetcounter (sn_st s') = 0 \<and>
      so_total_transacted_bytes (sn_so s') = so_total_transacted_bytes (sn_so s) + of_nat n * opt_packet_size opt"
  using assms by (intro send_buffer_sends) simp_all

definition sending_opt :: opt_s where
  "sending_opt = zero_opt\<lparr>opt_packet_size := 4, opt_buf_num_elems := 2, opt_status := STATUS_RUNNING, opt_fi := Some 5\<rparr>"

definition sending_world :: world where
  "sending_world = (tiny_world True)\<lparr>wd_opt := [1 \<mapsto> sending_opt], wd_fi := tiny_fi\<lparr>afi_heap :=
     [5 \<mapsto> (new_index ''x'' 1 AFI_RECORD 4)\<lparr>fi_n_packets := 2\<rparr>]\<rparr>\<rparr>"

definition sending :: sender where
  "sending = \<lparr>sn_sys = (tiny_system True)\<lparr>sy_world := sending_world\<rparr>, sn_opt = 1, sn_be = Some 20,
     sn_so = \<lparr>so_fd = 3, so_fd_send = 0, so_wrongsizeerrors = 0, so_missing = 0, so_total_transacted_bytes = 0,
       so_incomplete = 0, so_files_sent = 0, so_out_of_order = 0\<rparr>,
     sn_st = zero_tracking\<lparr>tr_packetcounter := 2\<rparr>\<rparr>"

lemmas sending_defs = sending_def sending_world_def sending_opt_def tiny_world_def tiny_system_def zero_tracking_def
  sn_world_def example_buf_def zero_opt_def

lemma sending_loaded: "loaded sending sending_opt 20 30 [1, 2, 3, 4, 5, 6, 7, 8]"
  by (simp add: loaded_def sending_defs)

lemma send_buffer_in_order_witness:
  "\<exists>s'. send_buffer udp_sender_sendcmd 3 True all_sent 0 [] [] sending = Inr (Some (s', True, [], [[1, 2, 3, 4], [5, 6, 7, 8]])) \<and>
     tr_packets_sent (sn_st s') = 2"
  using send_buffer_in_order[OF sending_loaded, where n = 2 and fuel = 3 and do_wait = True and i = 0 and clock = "[]" and wire = "[]"]
  by (auto simp: packets_def slice_def upt_rec sending_opt_def zero_opt_def sending_def zero_tracking_def)

text \<open>C20: With a rate limit no \<open>n\<close> packets are sent faster than \<open>n\<close> intervals after the nominal time of the
  last one, whatever the socket answers and however late the sender runs: the clock at the last attempt
  is at least \<open>n\<close> intervals further.\<close>

theorem sending_is_paced:
  assumes "send_buffer udp_sender_sendcmd fuel True net i clock [] s = Inr (Some (s', ok, rest, wire))" and "wire \<noteq> []"
    and "wd_opt (sn_world s) (sn_opt s) = Some opt"
    and "0 < opt_wait_nanoseconds opt" and "opt_wait_nanoseconds opt \<le> BILLION"
    and "valid_time (opt_wait_last_sent opt)" and "\<forall>c \<in> set clock. valid_time c"
  shows "int (length wire) * opt_wait_nanoseconds opt \<le> nanodiff (opt_wait_last_sent opt) (tr_now (sn_st s'))"
  using send_buffer_paced[OF assms(1,3-7)] assms(2) by auto

definition tick :: "int \<Rightarrow> timespec" where
  "tick n = \<lparr>tv_sec = 7, tv_nsec = n\<rparr>"

definition paced :: sender where
  "paced = sending\<lparr>sn_sys := (tiny_system True)\<lparr>sy_world := sending_world\<lparr>wd_opt :=
     [1 \<mapsto> sending_opt\<lparr>opt_wait_nanoseconds := 10, opt_wait_last_sent := tick 0\<rparr>]\<rparr>\<rparr>,
     sn_st := zero_tracking\<lparr>tr_packetcounter := 2, tr_minsleep := 100\<rparr>\<rparr>"

lemma paced_run: "case send_buffer udp_sender_sendcmd 3 True all_sent 0 [tick 3, tick 7, tick 11, tick 30] [] paced of
    Inr (Some (s, ok, rest, wire)) \<Rightarrow> wire = [[1, 2, 3, 4], [5, 6, 7, 8]] \<and> tr_now (sn_st s) = tick 30 | _ \<Rightarrow> False"
  by code_simp

lemma sending_is_paced_witness: "\<exists>s' ok rest wire.
   send_buffer udp_sender_sendcmd 3 True all_sent 0 [tick 3, tick 7, tick 11, tick 30] [] paced = Inr (Some (s', ok, rest, wire)) \<and>
   2 * 10 \<le> nanodiff (tick 0) (tr_now (sn_st s'))"
proof -
  obtain s' ok rest wire where
    r: "send_buffer udp_sender_sendcmd 3 True all_sent 0 [tick 3, tick 7, tick 11, tick 30] [] paced = Inr (Some (s', ok, rest, wire))"
      "wire = [[1, 2, 3, 4], [5, 6, 7, 8]]"
    using paced_run by (auto split: sum.splits option.splits)
  show ?thesis
    using sending_is_paced[OF r(1), of "sending_opt\<lparr>opt_wait_nanoseconds := 10, opt_wait_last_sent := tick 0\<rparr>"] r
    by (auto simp: paced_def sending_def sn_world_def tick_def valid_time_def BILLION_def)
qed

text \<open>A sender never gets to its first file: it starts without a buffer, and \<open>jump_to_next_file\<close> first
  gives the sent buffer back, which dereferences the buffer pointer whatever the recording holds.\<close>

theorem sender_faults_at_start:
  assumes "wd_opt (sn_world s) (sn_opt s) = Some opt" and "opt_fi opt = Some a"
    and "afi_heap (wd_fi (sn_world s)) a = Some fi" and "fi_n_files fi \<noteq> 0" and "has (opt_status opt) STATUS_RUNNING"
  shows "udp_sender (Suc fuel) net (ev # evs) minsleep (c # clock) s = Inl Null_Deref"
proof -
  obtain x where x: "throttling_count opt (t_probed fi zero_tracking) = Inr ((t_probed fi zero_tracking)\<lparr>tr_allocated_to_load := x\<rparr>)"
    using throttling_ok by blast
  define s2 where "s2 = s\<lparr>sn_be := None, sn_st := (t_probed fi zero_tracking)\<lparr>tr_allocated_to_load := x, tr_minsleep := minsleep\<rparr>,
     sn_so := (sn_so s)\<lparr>so_total_transacted_bytes := 0, so_out_of_order := 0, so_incomplete := 0, so_missing := 0\<rparr>\<rparr>"
  define s3 where "s3 = s2\<lparr>sn_sys := (sn_sys s)\<lparr>sy_world := (sn_world s)\<lparr>wd_opt := (wd_opt (sn_world s))
     (sn_opt s \<mapsto> opt\<lparr>opt_wait_last_sent := c\<rparr>)\<rparr>\<rparr>\<rparr>"
  have "udp_sender (Suc fuel) net (ev # evs) minsleep (c # clock) s =
     send_files udp_sender_sendcmd (Suc fuel) True (\<lambda>opt so. bboundary_packetnum opt) net (ev # evs) clock [] s3"
    using assms(1-3) x
    by (simp add: udp_sender_def generic_sendloop_def init_sender_tracking_def probe_ok sender_reads s2_def s3_def
        set_sopt_def on_sys_def upd_world_def put_opt_def sn_world_def upd_track_def Let_def)
  also have "\<dots> = Inl Null_Deref"
  proof -
    have r: "wd_opt (sn_world s3) (sn_opt s3) = Some (opt\<lparr>opt_wait_last_sent := c\<rparr>)" "sn_be s3 = None"
      "afi_heap (wd_fi (sn_world s3)) a = Some fi"
      using assms(3) by (simp_all add: s3_def s2_def sn_world_def)
    have "should_i_be_running (opt\<lparr>opt_wait_last_sent := c\<rparr>) (sn_st s3)"
      using assms(4,5) by (simp add: should_i_be_running_def s3_def s2_def zero_tracking_def t_probed_def)
    with jump_faults[OF r(1) _ r(3) r(2), of fuel ev] assms(2) r(1) show ?thesis
      by (simp add: send_files.simps[of _ _ _ _ _ "_ # _"] sender_reads)
  qed
  finally show ?thesis .
qed

lemma sender_faults_at_start_witness:
  "udp_sender 1 all_sent [\<lparr>se_updates = [], se_free = (\<lambda>_. []), se_start = (\<lambda>_. []), se_loaded = (\<lambda>_. [])\<rparr>] 100
     [tick 3] sending = Inl Null_Deref"
proof -
  have fi: "afi_heap (wd_fi (sn_world sending)) 5 = Some ((new_index ''x'' 1 AFI_RECORD 4)\<lparr>fi_n_packets := 2\<rparr>)"
    by (simp add: sending_defs tiny_fi_def)
  have opt: "wd_opt (sn_world sending) (sn_opt sending) = Some sending_opt" by (simp add: sending_defs)
  show ?thesis
    using sender_faults_at_start[OF opt _ fi, of 0]
    by (simp add: sending_opt_def has_def STATUS_RUNNING_def flag_def new_index_def)
qed

end
