(* ===== verification/Sockets.thy ===== *)
theory Sockets
  imports Options
begin

text \<open>
  Setting up sockets (\<open>src/sockethandling.c\<close>). The answers of the system for one address of the list
  \<open>getaddrinfo\<close> returns are a \<open>candidate\<close>: the descriptor of \<open>socket\<close>, and the results of
  \<open>setsockopt\<close>, \<open>connect\<close> and \<open>bind\<close>.
\<close>

record candidate =
  ca_socket :: int
  ca_reuse :: int
  ca_connect :: int
  ca_bind :: int

text \<open>The loop of \<open>create_socket\<close>: \<open>err\<close>, \<open>*fd\<close>, the descriptors that were closed, the index of the
  address used, and \<open>CHECK_ERR\<close> as an early return. The result is the return value, \<open>*fd\<close>, the closed
  descriptors and \<open>*used\<close>.\<close>

fun socket_loop :: "u64 \<Rightarrow> candidate list \<Rightarrow> nat \<Rightarrow> int \<Rightarrow> int \<Rightarrow> int list \<Rightarrow>
    int option \<times> int \<times> int \<times> int list \<times> nat option" where
  "socket_loop optbits [] i err fd closed = (None, err, fd, closed, None)"
| "socket_loop optbits (c # cs) i err fd closed =
     (if ca_socket c \<le> 0 then socket_loop optbits cs (Suc i) err (ca_socket c) closed
      else let err1 = (if has optbits SO_REUSEIT then ca_reuse c else err) in
        if has optbits SO_REUSEIT \<and> ca_reuse c \<noteq> 0 then (Some (ca_reuse c), err1, ca_socket c, closed, None)
        else if has optbits READMODE
        then (if has optbits CONNECT_BEFORE_SENDING \<and> ca_connect c < 0
              then socket_loop optbits cs (Suc i) err1 (ca_socket c) (closed @ [ca_socket c])
              else (None, 0, ca_socket c, closed, Some i))
        else if ca_bind c \<noteq> 0 then socket_loop optbits cs (Suc i) err1 (- 1) (closed @ [ca_socket c])
        else (None, 0, ca_socket c, closed, Some i))"

record socket_result =
  sr_ret :: int
  sr_fd :: int
  sr_closed :: "int list"
  sr_used :: "nat option"

text \<open>\<open>None\<close> is an error of \<open>getaddrinfo\<close>, which leaves \<open>*fd\<close> as it is.\<close>

definition create_socket :: "u64 \<Rightarrow> int \<Rightarrow> candidate list option \<Rightarrow> socket_result" where
  "create_socket optbits fd0 addrs = (case addrs of
       None \<Rightarrow> \<lparr>sr_ret = - 1, sr_fd = fd0, sr_closed = [], sr_used = None\<rparr>
     | Some cs \<Rightarrow> (let (ret, err, fd, closed, used) = socket_loop optbits cs 0 (- 1) (- 1) [] in
         \<lparr>sr_ret = (case ret of Some e \<Rightarrow> e | None \<Rightarrow> if err \<noteq> 0 \<or> fd \<le> 0 then - 1 else 0),
          sr_fd = fd, sr_closed = closed, sr_used = used\<rparr>))"

text \<open>\<open>bind_port\<close> on the results of \<open>bind\<close> or \<open>connect\<close> for the addresses of the list.\<close>

fun first_ok :: "int \<Rightarrow> int list \<Rightarrow> int" where
  "first_ok err [] = err"
| "first_ok err (e # es) = (if e \<noteq> 0 then first_ok e es else 0)"

definition bind_port :: "bool \<Rightarrow> bool \<Rightarrow> int list \<Rightarrow> int list \<Rightarrow> int" where
  "bind_port readmode do_connect binds connects =
     (if \<not> readmode then (if first_ok 0 binds \<noteq> 0 then - 1 else 0)
      else if do_connect then (if first_ok 0 connects \<noteq> 0 then - 1 else 0) else 0)"

text \<open>The doubling loop of \<open>socket_common_init_stuff\<close>, the same for both buffers: \<open>set n\<close> is the result of
  \<open>setsockopt\<close>, \<open>get n\<close> the result of \<open>getsockopt\<close> after it with the effective size, for which an
  honoured request shows twice the size asked for. \<open>def\<close> is an \<open>int\<close>; a shift beyond 31 bits is
  undefined.\<close>

partial_function (option) grow_sockbuf :: "(int \<Rightarrow> int \<times> int) \<Rightarrow> int \<Rightarrow> int outcome option" where
  "grow_sockbuf get def =
     (let def1 = 2 * def in
      if def < 0 \<or> 2 ^ 31 \<le> def1 then Some (Inl Undefined)
      else let (err, defcheck) = get def1 in
        if 2 ^ 31 \<le> 2 * def1 then Some (Inl Undefined)
        else if defcheck \<noteq> 2 * def1 then Some (Inr defcheck)
        else if err = 0 then grow_sockbuf get def1 else Some (Inr defcheck))"

declare grow_sockbuf.simps [code]

text \<open>\<open>mode\<close> is an \<open>int\<close>: with -1 (\<open>MODE_FROM_OPTS\<close>) it takes the low 32 bits of the options, and
  the tests on it extend its sign. The answers for \<open>SO_SNDBUF\<close> and \<open>SO_RCVBUF\<close>, and the result of
  switching the checksums of a sending socket off (\<open>SO_NO_CHECK\<close>), are arguments.\<close>

definition mode_bits :: "int \<Rightarrow> opt_s \<Rightarrow> u64" where
  "mode_bits mode opt = (if mode = - 1 then scast (ucast (opt_optbits opt) :: u32) else word_of_int mode)"

definition socket_common_init_stuff :: "(int \<Rightarrow> int \<times> int) \<Rightarrow> (int \<Rightarrow> int \<times> int) \<Rightarrow> int \<Rightarrow> int \<Rightarrow> opt_s \<Rightarrow> int outcome" where
  "socket_common_init_stuff sndbuf rcvbuf nocheck mode opt =
     (let sending = has (mode_bits mode opt) READMODE in
      bindE (ended (grow_sockbuf (if sending then sndbuf else rcvbuf) (sint (ucast (opt_packet_size opt) :: u32)))) (\<lambda>_.
        Inr (if sending then nocheck else 0)))"

lemma readmode_bit: "bit READMODE n \<Longrightarrow> n = 47"
  unfolding READMODE_def flag_def bit_push_bit_iff bit_1_iff by auto

lemma mode_loses_readmode:
  assumes "\<not> bit (opt_optbits opt) 31"
  shows "\<not> has (mode_bits (- 1) opt) READMODE"
proof -
  have "mode_bits (- 1) opt AND READMODE = 0"
  proof (rule bit_word_eqI)
    fix n assume "n < LENGTH(64)"
    show "bit (mode_bits (- 1) opt AND READMODE) n = bit (0 :: u64) n"
      using assms readmode_bit[of n] by (auto simp: mode_bits_def bit_and_iff bit_signed_iff bit_unsigned_iff min_def)
  qed
  then show ?thesis by (simp add: has_def)
qed

definition stale :: "u64 \<Rightarrow> int \<Rightarrow> int \<Rightarrow> int list \<Rightarrow> bool" where
  "stale optbits err fd closed \<longleftrightarrow> (err = 0 \<and> 0 < fd \<longrightarrow> fd \<in> set closed \<and> has optbits SO_REUSEIT \<and>
     has optbits READMODE \<and> has optbits CONNECT_BEFORE_SENDING)"

lemma socket_loop_unused:
  "socket_loop optbits cs i err fd closed = (None, err', fd', closed', None) \<Longrightarrow> stale optbits err fd closed \<Longrightarrow>
   err \<noteq> 0 \<or> has optbits SO_REUSEIT \<Longrightarrow> stale optbits err' fd' closed'"
proof (induction cs arbitrary: i err fd closed)
  case (Cons c cs)
  show ?case
  proof (cases "ca_socket c \<le> 0")
    case True
    with Cons.prems Cons.IH[of "Suc i" err "ca_socket c" closed] show ?thesis by (auto simp: stale_def)
  next
    case False
    have ok: "\<not> (has optbits SO_REUSEIT \<and> ca_reuse c \<noteq> 0)"
    proof
      assume "has optbits SO_REUSEIT \<and> ca_reuse c \<noteq> 0"
      with False Cons.prems(1) show False by (simp add: Let_def)
    qed
    let ?e = "if has optbits SO_REUSEIT then ca_reuse c else err"
    show ?thesis
    proof (cases "has optbits READMODE")
      case rd: True
      with False ok Cons.prems(1) have cf: "has optbits CONNECT_BEFORE_SENDING" "ca_connect c < 0"
        and rest: "socket_loop optbits cs (Suc i) ?e (ca_socket c) (closed @ [ca_socket c]) = (None, err', fd', closed', None)"
        by (auto simp: Let_def split: if_splits)
      show ?thesis by (rule Cons.IH[OF rest]) (use rd cf Cons.prems(3) in \<open>auto simp: stale_def\<close>)
    next
      case wr: False
      with False ok Cons.prems(1)
      have rest: "socket_loop optbits cs (Suc i) ?e (- 1) (closed @ [ca_socket c]) = (None, err', fd', closed', None)"
        by (auto simp: Let_def split: if_splits)
      show ?thesis by (rule Cons.IH[OF rest]) (use Cons.prems(3) in \<open>auto simp: stale_def\<close>)
    qed
  qed
qed simp

lemma socket_loop_early: "socket_loop optbits cs i err fd closed = (Some e, err', fd', closed', used) \<Longrightarrow> e \<noteq> 0"
  by (induction optbits cs i err fd closed rule: socket_loop.induct) (auto simp: Let_def split: if_splits)

text \<open>A success without a socket in use can only be the one of a sender that is to reuse its address and
  connect first: it is then handed a descriptor that was closed.\<close>

theorem socket_success:
  assumes "sr_ret (create_socket optbits fd0 addrs) = 0" and "sr_used (create_socket optbits fd0 addrs) = None"
  shows "sr_fd (create_socket optbits fd0 addrs) \<in> set (sr_closed (create_socket optbits fd0 addrs)) \<and>
    has optbits SO_REUSEIT \<and> has optbits READMODE \<and> has optbits CONNECT_BEFORE_SENDING"
proof (cases addrs)
  case (Some cs)
  obtain ret err fd closed used where l: "socket_loop optbits cs 0 (- 1) (- 1) [] = (ret, err, fd, closed, used)"
    by (metis prod_cases5)
  have "ret = None" using assms(1) Some l socket_loop_early[of optbits cs 0 "- 1" "- 1" "[]"]
    by (cases ret) (auto simp: create_socket_def)
  with assms Some l socket_loop_unused[of optbits cs 0 "- 1" "- 1" "[]" err fd closed] show ?thesis
    by (auto simp: create_socket_def stale_def split: if_splits)
qed (use assms in \<open>simp add: create_socket_def\<close>)

lemma socket_success_closed:
  "create_socket (SO_REUSEIT OR READMODE OR CONNECT_BEFORE_SENDING) 0
     (Some [\<lparr>ca_socket = 5, ca_reuse = 0, ca_connect = - 1, ca_bind = 0\<rparr>]) =
   \<lparr>sr_ret = 0, sr_fd = 5, sr_closed = [5], sr_used = None\<rparr>"
  by (simp add: create_socket_def has_def flag_defs flag_def)

lemma grow_sockbuf_ends:
  assumes "\<And>n. snd (get n) \<le> M" and "M < 2 ^ 30"
  shows "0 < def \<Longrightarrow> def < 2 ^ 28 \<Longrightarrow> \<exists>k. grow_sockbuf get def = Some (Inr k) \<and> k \<le> M"
proof (induction "nat (2 ^ 30 - def)" arbitrary: def rule: less_induct)
  case less
  obtain err k where g: "get (2 * def) = (err, k)" by fastforce
  have kM: "k \<le> M" using assms(1)[of "2 * def"] g by simp
  show ?case
  proof (cases "k = 2 * (2 * def) \<and> err = 0")
    case True
    then have "2 * (2 * def) < 2 ^ 30" using kM assms(2) by simp
    then have "2 * def < 2 ^ 28 \<or> 2 * def = 2 ^ 28 \<or> 2 * def > 2 ^ 28" "2 * def < 2 ^ 29" by auto
    show ?thesis
    proof (cases "2 * def < 2 ^ 28")
      case small: True
      from less.hyps[of "2 * def"] small less.prems obtain k' where "grow_sockbuf get (2 * def) = Some (Inr k')" "k' \<le> M"
        by auto
      with True g small less.prems show ?thesis by (subst grow_sockbuf.simps) simp
    next
      case large: False
      obtain err2 k2 where g2: "get (2 * (2 * def)) = (err2, k2)" by fastforce
      have "k2 \<le> M" using assms(1)[of "2 * (2 * def)"] g2 by simp
      moreover from this large assms(2) have "k2 \<noteq> 2 * (2 * (2 * def))" by simp
      moreover have "\<not> 2 * def < 0" "\<not> 2 ^ 31 \<le> 2 * (2 * def)" "\<not> 2 ^ 31 \<le> 2 * (2 * (2 * def))" using less.prems by simp_all
      ultimately have "grow_sockbuf get (2 * def) = Some (Inr k2)"
        using g2 by (subst grow_sockbuf.simps) (simp only: Let_def prod.case if_False if_True simp_thms)
      with True g less.prems \<open>k2 \<le> M\<close> show ?thesis by (subst grow_sockbuf.simps) simp
    qed
  next
    case False
    with g less.prems kM show ?thesis by (subst grow_sockbuf.simps) auto
  qed
qed

text \<open>With \<open>MODE_FROM_OPTS\<close> a socket is set up as a receiving one for every option record without bit 31
  (\<open>WAIT_START_ON_METADATA\<close>), also for a sender: \<open>READMODE\<close>, bit 47, is lost in the \<open>int\<close>. The answers for
  the send buffer and the switch for the checksums play no part.\<close>

theorem sender_socket_set_up_as_receiver:
  assumes "\<not> bit (opt_optbits opt) 31"
  shows "socket_common_init_stuff sndbuf rcvbuf nocheck (- 1) opt =
    bindE (ended (grow_sockbuf rcvbuf (sint (ucast (opt_packet_size opt) :: u32)))) (\<lambda>_. Inr 0)"
  using mode_loses_readmode[OF assms] by (simp add: socket_common_init_stuff_def)

lemma sender_socket_set_up_as_receiver_witness:
  "has (READMODE OR CAPTURE_W_UDPSTREAM) READMODE \<and>
   socket_common_init_stuff (\<lambda>n. (0, 2 * n)) (\<lambda>n. (0, 212992)) 1 (- 1)
     (zero_opt\<lparr>opt_optbits := READMODE OR CAPTURE_W_UDPSTREAM, opt_packet_size := 1000\<rparr>) = Inr 0"
proof -
  have "\<not> bit (READMODE OR CAPTURE_W_UDPSTREAM) 31"
    by (simp add: flag_defs flag_def bit_or_iff)
  moreover have "grow_sockbuf (\<lambda>n. (0, 212992)) 1000 = Some (Inr 212992)" by (subst grow_sockbuf.simps) simp
  ultimately show ?thesis
    using sender_socket_set_up_as_receiver[of "zero_opt\<lparr>opt_optbits := READMODE OR CAPTURE_W_UDPSTREAM, opt_packet_size := 1000\<rparr>"]
    by (simp add: has_def flag_defs flag_def)
qed

end
