(* ===== verification/Config.thy ===== *)
theory Config
  imports Writers BufferSizes
begin

text \<open>
  Configuration files (\<open>src/confighelper.c\<close>, with the macros of \<open>src/configcommon.h\<close>): reading a list of
  settings into the options, checking the options against it, or writing them to it.

  A configuration group is the list of its settings, each with its name and its value of one of the
  types of libconfig. What libconfig does when a value is set or a setting added is the argument
  \<open>cfglib\<close>; \<open>cfglib_ok\<close> states its documented behaviour.
\<close>

section \<open>Settings\<close>

datatype cval = C_Int int | C_Int64 int | C_Str "string option" | C_Other

type_synonym setting = "string \<times> cval"

record cfglib =
  cl_set_int :: "cval \<Rightarrow> int \<Rightarrow> cval option"
  cl_set_int64 :: "cval \<Rightarrow> int \<Rightarrow> cval option"
  cl_set_string :: "cval \<Rightarrow> string option \<Rightarrow> cval option"
  cl_add :: "setting list \<Rightarrow> string \<Rightarrow> cval \<Rightarrow> setting list option"

text \<open>Setting a value of the type of the setting succeeds, and a 64-bit setter on an \<open>int\<close> setting
  stores a value that fits; a new setting with a fresh name is added at the end.\<close>

definition cfglib_ok :: "cfglib \<Rightarrow> bool" where
  "cfglib_ok L \<longleftrightarrow> (\<forall>i j. cl_set_int L (C_Int i) j = Some (C_Int j)) \<and>
     (\<forall>i j. cl_set_int64 L (C_Int64 i) j = Some (C_Int64 j)) \<and>
     (\<forall>i j. - (2 ^ 31) \<le> j \<and> j < 2 ^ 31 \<longrightarrow> cl_set_int64 L (C_Int i) j = Some (C_Int j)) \<and>
     (\<forall>t u. cl_set_string L (C_Str t) u = Some (C_Str u)) \<and>
     (\<forall>ss n v. n \<notin> fst ` set ss \<longrightarrow> cl_add L ss n v = Some (ss @ [(n, v)]))"

text \<open>A library with this behaviour.\<close>

definition lib_set_int :: "cval \<Rightarrow> int \<Rightarrow> cval option" where
  "lib_set_int v j = (case v of C_Int _ \<Rightarrow> Some (C_Int j) | _ \<Rightarrow> None)"

definition lib_set_int64 :: "cval \<Rightarrow> int \<Rightarrow> cval option" where
  "lib_set_int64 v j = (case v of C_Int64 _ \<Rightarrow> Some (C_Int64 j)
     | C_Int _ \<Rightarrow> if - (2 ^ 31) \<le> j \<and> j < 2 ^ 31 then Some (C_Int j) else None | _ \<Rightarrow> None)"

definition lib_set_string :: "cval \<Rightarrow> string option \<Rightarrow> cval option" where
  "lib_set_string v u = (case v of C_Str _ \<Rightarrow> Some (C_Str u) | _ \<Rightarrow> None)"

definition lib_add :: "setting list \<Rightarrow> string \<Rightarrow> cval \<Rightarrow> setting list option" where
  "lib_add ss n v = (if n \<in> fst ` set ss then None else Some (ss @ [(n, v)]))"

definition std_lib :: cfglib where
  "std_lib = \<lparr>cl_set_int = lib_set_int, cl_set_int64 = lib_set_int64, cl_set_string = lib_set_string, cl_add = lib_add\<rparr>"

lemma std_lib_ok: "cfglib_ok std_lib"
  by (simp add: cfglib_ok_def std_lib_def lib_set_int_def lib_set_int64_def lib_set_string_def lib_add_def)

text \<open>The modes of \<open>set_from_root\<close>: \<open>check\<close> and \<open>write\<close> are given by the callers as (0, 0), (1, 0) and
  (0, 1). The other arguments are whether a log file can be opened, and how many characters the
  memory of a string of the options has room for.\<close>

record cfg_env =
  ce_lib :: cfglib
  ce_check :: bool
  ce_write :: bool
  ce_log :: "string \<Rightarrow> bool"
  ce_room :: nat

record cfg_state =
  cs_opt :: opt_s
  cs_filesize :: u64
  cs_found :: bool

text \<open>The result of one setting: the state, the value of the setting, and whether the function goes on;
  otherwise it returns -1.\<close>

type_synonym handled = "(cfg_state \<times> cval \<times> bool) outcome"

definition refused :: "cfg_state \<Rightarrow> cval \<Rightarrow> handled" where
  "refused s v = Inr (s, v, False)"

definition accepted :: "cfg_state \<Rightarrow> cval \<Rightarrow> handled" where
  "accepted s v = Inr (s, v, True)"

definition set_result :: "cfg_state \<Rightarrow> cval \<Rightarrow> cval option \<Rightarrow> handled" where
  "set_result s v r = (case r of None \<Rightarrow> refused s v | Some v' \<Rightarrow> accepted s v')"

lemmas handled_defs = refused_def accepted_def set_result_def

definition upd_opt :: "(opt_s \<Rightarrow> opt_s) \<Rightarrow> cfg_state \<Rightarrow> cfg_state" where
  "upd_opt f s = s\<lparr>cs_opt := f (cs_opt s)\<rparr>"

section \<open>The macros\<close>

definition CFG_FULL_UINT64 :: "cfg_env \<Rightarrow> (opt_s \<Rightarrow> u64) \<Rightarrow> ((u64 \<Rightarrow> u64) \<Rightarrow> opt_s \<Rightarrow> opt_s) \<Rightarrow> cval \<Rightarrow> cfg_state \<Rightarrow> handled" where
  "CFG_FULL_UINT64 E get upd v s = (case v of
       C_Int64 i \<Rightarrow>
         if ce_check E then (if word_of_int i \<noteq> get (cs_opt s) then refused s v else accepted s v)
         else if ce_write E then set_result s v (cl_set_int64 (ce_lib E) v (sint (get (cs_opt s))))
         else accepted (upd_opt (upd (\<lambda>_. word_of_int i)) s) v
     | _ \<Rightarrow> refused s v)"

definition CFG_FULL_INT :: "cfg_env \<Rightarrow> (opt_s \<Rightarrow> int) \<Rightarrow> ((int \<Rightarrow> int) \<Rightarrow> opt_s \<Rightarrow> opt_s) \<Rightarrow> cval \<Rightarrow> cfg_state \<Rightarrow> handled" where
  "CFG_FULL_INT E get upd v s = (case v of
       C_Int i \<Rightarrow>
         if ce_check E then (if i \<noteq> get (cs_opt s) then refused s v else accepted s v)
         else if ce_write E then set_result s v (cl_set_int (ce_lib E) v (get (cs_opt s)))
         else accepted (upd_opt (upd (\<lambda>_. i)) s) v
     | _ \<Rightarrow> refused s v)"

text \<open>The check of a boolean refuses a setting that agrees with the options.\<close>

definition CFG_FULL_BOOLEAN :: "cfg_env \<Rightarrow> u64 \<Rightarrow> cval \<Rightarrow> cfg_state \<Rightarrow> handled" where
  "CFG_FULL_BOOLEAN E x v s = (case v of
       C_Int i \<Rightarrow>
         let set_now = has (opt_optbits (cs_opt s)) x in
         if ce_check E then (if i = 1 \<and> set_now \<or> i = 0 \<and> \<not> set_now then refused s v else accepted s v)
         else if ce_write E then set_result s v (cl_set_int (ce_lib E) v (if set_now then 1 else 0))
         else accepted (upd_opt (opt_optbits_update (\<lambda>b. if i = 1 then b OR x else b AND NOT x)) s) v
     | _ \<Rightarrow> refused s v)"

text \<open>A string is copied over the one it replaces.\<close>

definition CFG_FULL_STR :: "cfg_env \<Rightarrow> (opt_s \<Rightarrow> string option) \<Rightarrow> ((string option \<Rightarrow> string option) \<Rightarrow> opt_s \<Rightarrow> opt_s) \<Rightarrow>
    cval \<Rightarrow> cfg_state \<Rightarrow> handled" where
  "CFG_FULL_STR E get upd v s = (case v of
       C_Str t \<Rightarrow>
         if ce_check E then (case (t, get (cs_opt s)) of
             (Some a, Some b) \<Rightarrow> if a \<noteq> b then refused s v else accepted s v
           | _ \<Rightarrow> Inl Null_Deref)
         else if ce_write E then set_result s v (cl_set_string (ce_lib E) v (get (cs_opt s)))
         else (case t of None \<Rightarrow> refused s v
           | Some a \<Rightarrow> if get (cs_opt s) \<noteq> None \<and> ce_room E < length a then Inl Out_Of_Bounds
               else accepted (upd_opt (upd (\<lambda>_. Some a)) s) v)
     | _ \<Rightarrow> refused s v)"

section \<open>The settings by name\<close>

definition bool_settings :: "(string \<times> u64) list" where
  "bool_settings = [(''use_largest_transac'', USE_LARGEST_TRANSAC), (''use_hugepage'', USE_HUGEPAGE),
     (''use_rx_ring'', USE_RX_RING), (''verbose'', VERBOSE), (''wait_start_on_metadata'', WAIT_START_ON_METADATA),
     (''force_socket_reacquire'', FORCE_SOCKET_REACQUIRE), (''use_tcp_socket'', USE_TCP_SOCKET),
     (''connect_before_sending'', CONNECT_BEFORE_SENDING), (''write_to_single_file'', WRITE_TO_SINGLE_FILE)]"

definition u64_settings :: "(string \<times> (opt_s \<Rightarrow> u64) \<times> ((u64 \<Rightarrow> u64) \<Rightarrow> opt_s \<Rightarrow> opt_s)) list" where
  "u64_settings = [(''buf_elem_size'', opt_packet_size, opt_packet_size_update),
     (''cumul'', opt_cumul, opt_cumul_update), (''optbits'', opt_optbits, opt_optbits_update),
     (''last_packet'', opt_last_packet, opt_last_packet_update), (''time'', opt_time, opt_time_update),
     (''minmem'', opt_minmem, opt_minmem_update), (''maxmem'', opt_maxmem, opt_maxmem_update),
     (''do_w_stuff_every'', opt_do_w_stuff_every, opt_do_w_stuff_every_update),
     (''packet_size'', opt_packet_size, opt_packet_size_update),
     (''total_packets'', opt_total_packets, opt_total_packets_update)]"

definition int_settings :: "(string \<times> (opt_s \<Rightarrow> int) \<times> ((int \<Rightarrow> int) \<Rightarrow> opt_s \<Rightarrow> opt_s)) list" where
  "int_settings = [(''port'', opt_port, opt_port_update), (''stream_multiply'', opt_stream_multiply, opt_stream_multiply_update),
     (''n_threads'', opt_n_threads, opt_n_threads_update), (''n_drives'', opt_n_drives, opt_n_drives_update),
     (''offset'', opt_offset, opt_offset_update), (''rate'', opt_rate, opt_rate_update),
     (''wait_nanoseconds'', opt_wait_nanoseconds, opt_wait_nanoseconds_update),
     (''buf_division'', opt_buf_division, opt_buf_division_update)]"

definition str_settings :: "(string \<times> (opt_s \<Rightarrow> string option) \<times> ((string option \<Rightarrow> string option) \<Rightarrow> opt_s \<Rightarrow> opt_s)) list" where
  "str_settings = [(''filename'', opt_filename, opt_filename_update),
     (''address_to_bind_to'', opt_address_to_bind_to, opt_address_to_bind_to_update),
     (''disk2fileoutput'', opt_disk2fileoutput, opt_disk2fileoutput_update), (''hostname'', opt_hostname, opt_hostname_update)]"

text \<open>The words for the writer, the capture mode and the data type, in the order of the \<open>switch\<close>es.\<close>

definition writer_names :: "(u64 \<times> string) list" where
  "writer_names = [(REC_DEF, ''def''), (REC_AIO, ''aio''), (REC_WRITEV, ''writev''), (REC_SPLICER, ''splice''),
     (REC_DUMMY, ''dummy''), (REC_SENDFILE, ''sendfile'')]"

definition capture_names :: "(u64 \<times> string) list" where
  "capture_names = [(CAPTURE_W_FANOUT, ''fanout''), (CAPTURE_W_UDPSTREAM, ''udpstream''),
     (CAPTURE_W_DISK2FILE, ''disk2file''), (CAPTURE_W_DUMMY, ''dummy''), (CAPTURE_W_TCPSTREAM, ''tcpstream''),
     (CAPTURE_W_MULTISTREAM, ''multistream''), (CAPTURE_W_TCPSPLICE, ''tcpsplice'')]"

definition datatype_names :: "(u64 \<times> string) list" where
  "datatype_names = [(DATATYPE_UNKNOWN, ''unknown''), (DATATYPE_VDIF, ''vdif''), (DATATYPE_MARK5B, ''mark5b''),
     (DATATYPE_UDPMON, ''udpmon''), (DATATYPE_MARK5BNET, ''mark5bnet'')]"

definition read_writer :: "string \<Rightarrow> u64 \<Rightarrow> u64 option" where
  "read_writer t b =
     (if t = ''def'' then Some ((b OR REC_DEF) AND NOT ASYNC_WRITE)
      else if t = ''aio'' then Some (b OR (REC_AIO OR ASYNC_WRITE))
      else if t = ''splice'' then Some (((b OR REC_SPLICER) AND NOT ASYNC_WRITE) OR CAN_STRIP_BYTES)
      else if t = ''dummy'' then Some ((b OR (REC_DUMMY OR WRITER_DUMMY)) AND NOT ASYNC_WRITE)
      else if t = ''writev'' then Some (((b OR REC_WRITEV) AND NOT ASYNC_WRITE) OR CAN_STRIP_BYTES)
      else if t = ''sendfile'' then Some ((b OR REC_SENDFILE) AND NOT ASYNC_WRITE)
      else None)"

definition read_capture :: "string \<Rightarrow> u64 \<Rightarrow> u64 option" where
  "read_capture t b =
     (if t = ''fanout'' then Some (b OR CAPTURE_W_FANOUT)
      else if t = ''udpstream'' then Some (b OR CAPTURE_W_UDPSTREAM)
      else if t = ''disk2file'' then Some ((b OR CAPTURE_W_DISK2FILE) OR READMODE)
      else if t = ''dummy'' then Some (b OR CAPTURE_W_DUMMY)
      else if t = ''tcpstream'' then Some (b OR CAPTURE_W_TCPSTREAM)
      else if t = ''multistream'' then Some (b OR CAPTURE_W_MULTISTREAM)
      else if t = ''tcpsplice'' then Some (b OR CAPTURE_W_TCPSPLICE)
      else None)"

definition read_datatype :: "string \<Rightarrow> u64 \<Rightarrow> u64 option" where
  "read_datatype t b =
     (if t = ''unknown'' then Some (b OR DATATYPE_UNKNOWN)
      else if t = ''vdif'' then Some (b OR DATATYPE_VDIF)
      else if t = ''mark5bnet'' then Some (b OR DATATYPE_MARK5BNET)
      else if t = ''mark5b'' then Some (b OR DATATYPE_MARK5B)
      else if t = ''udpmon'' then Some (b OR DATATYPE_UDPMON)
      else None)"

text \<open>A choice is cleared before the word is looked at, and stays cleared when it is unknown. The check
  of a choice does nothing.\<close>

definition CFG_choice :: "cfg_env \<Rightarrow> u64 \<Rightarrow> (u64 \<times> string) list \<Rightarrow> (string \<Rightarrow> u64 \<Rightarrow> u64 option) \<Rightarrow> cval \<Rightarrow> cfg_state \<Rightarrow> handled" where
  "CFG_choice E locker names rd v s = (case v of
       C_Str t \<Rightarrow>
         if ce_check E then accepted s v
         else if ce_write E then (case map_of names (opt_optbits (cs_opt s) AND locker) of
             None \<Rightarrow> refused s v
           | Some w \<Rightarrow> set_result s v (cl_set_string (ce_lib E) v (Some w)))
         else let s1 = upd_opt (opt_optbits_update (\<lambda>b. b AND NOT locker)) s in
           (case t of None \<Rightarrow> Inl Null_Deref
            | Some w \<Rightarrow> (case rd w (opt_optbits (cs_opt s1)) of None \<Rightarrow> refused s1 v
              | Some b \<Rightarrow> accepted (upd_opt (opt_optbits_update (\<lambda>_. b)) s1) v))
     | _ \<Rightarrow> refused s v)"

definition whole_size :: "opt_s \<Rightarrow> u64" where
  "whole_size opt = opt_packet_size opt * ucast (opt_buf_num_elems opt)"

text \<open>In check mode \<open>filesize\<close> always returns -1.\<close>

definition CFG_filesize :: "cfg_env \<Rightarrow> cval \<Rightarrow> cfg_state \<Rightarrow> handled" where
  "CFG_filesize E v s = (case v of
       C_Int64 i \<Rightarrow>
         if ce_check E then refused s v
         else if ce_write E
         then set_result (s\<lparr>cs_filesize := whole_size (cs_opt s)\<rparr>) v (cl_set_int64 (ce_lib E) v (sint (whole_size (cs_opt s))))
         else accepted (s\<lparr>cs_found := True, cs_filesize := word_of_int i\<rparr>) v
     | _ \<Rightarrow> refused s v)"

definition CFG_filesizemb :: "cfg_env \<Rightarrow> cval \<Rightarrow> cfg_state \<Rightarrow> handled" where
  "CFG_filesizemb E v s = (case v of
       C_Int i \<Rightarrow>
         if ce_write E
         then set_result s v (cl_set_int (ce_lib E) v (sint (ucast (whole_size (cs_opt s) div MEG) :: u32)))
         else accepted (upd_opt (opt_filesize_update (\<lambda>_. word_of_int i * MEG)) s) v
     | _ \<Rightarrow> refused s v)"

definition CFG_record :: "cfg_env \<Rightarrow> cval \<Rightarrow> cfg_state \<Rightarrow> handled" where
  "CFG_record E v s = (case v of
       C_Int i \<Rightarrow>
         let reading = has (opt_optbits (cs_opt s)) READMODE in
         if ce_check E then (if i \<noteq> 0 \<and> reading \<or> i = 0 \<and> \<not> reading then refused s v else accepted s v)
         else if ce_write E then set_result s v (cl_set_int (ce_lib E) v (if reading then 0 else 1))
         else accepted (upd_opt (opt_optbits_update (\<lambda>b. if i = 1 then b AND NOT READMODE else b OR READMODE)) s) v
     | _ \<Rightarrow> refused s v)"

definition CFG_starting_time :: "cfg_env \<Rightarrow> cval \<Rightarrow> cfg_state \<Rightarrow> handled" where
  "CFG_starting_time E v s = (case v of
       C_Int64 i \<Rightarrow>
         if ce_write E then set_result s v (cl_set_int64 (ce_lib E) v (tv_sec (opt_starting_time (cs_opt s))))
         else accepted (upd_opt (opt_starting_time_update (\<lambda>t. t\<lparr>tv_sec := i\<rparr>)) s) v
     | _ \<Rightarrow> refused s v)"

definition CFG_logfile :: "cfg_env \<Rightarrow> cval \<Rightarrow> cfg_state \<Rightarrow> handled" where
  "CFG_logfile E v s = (case v of
       C_Str (Some t) \<Rightarrow> if ce_log E t then accepted s v else refused s v
     | _ \<Rightarrow> refused s v)"

text \<open>\<open>buf_num_elems\<close> is an \<open>unsigned int\<close> handled as an \<open>int\<close>.\<close>

definition CFG_buf_num_elems :: "cfg_env \<Rightarrow> cval \<Rightarrow> cfg_state \<Rightarrow> handled" where
  "CFG_buf_num_elems E v s = (case v of
       C_Int i \<Rightarrow>
         if ce_check E then (if i \<noteq> sint (opt_buf_num_elems (cs_opt s)) then refused s v else accepted s v)
         else if ce_write E then set_result s v (cl_set_int (ce_lib E) v (sint (opt_buf_num_elems (cs_opt s))))
         else accepted (upd_opt (opt_buf_num_elems_update (\<lambda>_. word_of_int i)) s) v
     | _ \<Rightarrow> refused s v)"

definition apply_setting :: "cfg_env \<Rightarrow> string \<Rightarrow> cval \<Rightarrow> cfg_state \<Rightarrow> handled" where
  "apply_setting E name v s =
     (if name = ''logfile'' then CFG_logfile E v s
      else if name = ''filesize'' then CFG_filesize E v s
      else if name = ''filesizemb'' then CFG_filesizemb E v s
      else if name = ''record'' then CFG_record E v s
      else if name = ''starting_time'' then CFG_starting_time E v s
      else if name = ''writer'' then CFG_choice E LOCKER_REC writer_names read_writer v s
      else if name = ''capture'' then CFG_choice E LOCKER_CAPTURE capture_names read_capture v s
      else if name = ''datatype'' then CFG_choice E LOCKER_DATATYPE datatype_names read_datatype v s
      else if name = ''buf_num_elems'' then CFG_buf_num_elems E v s
      else (case map_of bool_settings name of Some x \<Rightarrow> CFG_FULL_BOOLEAN E x v s
      | None \<Rightarrow> (case map_of u64_settings name of Some (get, upd) \<Rightarrow> CFG_FULL_UINT64 E get upd v s
      | None \<Rightarrow> (case map_of int_settings name of Some (get, upd) \<Rightarrow> CFG_FULL_INT E get upd v s
      | None \<Rightarrow> (case map_of str_settings name of Some (get, upd) \<Rightarrow> CFG_FULL_STR E get upd v s
      | None \<Rightarrow> accepted s v)))))"

fun apply_settings :: "cfg_env \<Rightarrow> setting list \<Rightarrow> cfg_state \<Rightarrow> (cfg_state \<times> setting list \<times> bool) outcome" where
  "apply_settings E [] s = Inr (s, [], True)"
| "apply_settings E ((name, v) # rest) s =
     bindE (apply_setting E name v s) (\<lambda>(s1, v1, ok).
       if \<not> ok then Inr (s1, (name, v1) # rest, False)
       else bindE (apply_settings E rest s1) (\<lambda>(s2, rest1, ok). Inr (s2, (name, v1) # rest1, ok)))"

text \<open>The result is the options, the settings and the return value. A file size from the settings is used
  at the end only, because it needs the packet size.\<close>

definition set_from_root :: "cfg_env \<Rightarrow> setting list \<Rightarrow> opt_s \<Rightarrow> (opt_s \<times> setting list \<times> int) outcome" where
  "set_from_root E root opt =
     bindE (apply_settings E root \<lparr>cs_opt = opt, cs_filesize = 0, cs_found = False\<rparr>) (\<lambda>(s, root1, ok).
       if \<not> ok then Inr (cs_opt s, root1, - 1)
       else if \<not> cs_found s then Inr (cs_opt s, root1, 0)
       else if opt_packet_size (cs_opt s) = 0 \<or> opt_buf_division (cs_opt s) = 0 then Inl Div_By_Zero
       else Inr ((cs_opt s)\<lparr>opt_buf_num_elems := ucast (cs_filesize s div opt_packet_size (cs_opt s)),
              opt_do_w_stuff_every := cs_filesize s div word_of_int (opt_buf_division (cs_opt s))\<rparr>, root1, 0))"

definition to_read :: "cfglib \<Rightarrow> cfg_env" where
  "to_read L = \<lparr>ce_lib = L, ce_check = False, ce_write = False, ce_log = (\<lambda>_. True), ce_room = 4095\<rparr>"

definition to_check :: "cfglib \<Rightarrow> cfg_env" where
  "to_check L = (to_read L)\<lparr>ce_check := True\<rparr>"

definition to_write :: "cfglib \<Rightarrow> cfg_env" where
  "to_write L = (to_read L)\<lparr>ce_write := True\<rparr>"

section \<open>Writing the settings of a recording\<close>

text \<open>Adding and setting in sequence: the first failure returns -1, and what was added before stays.\<close>

fun run_acts :: "(setting list \<Rightarrow> setting list \<times> bool) list \<Rightarrow> setting list \<Rightarrow> setting list \<times> int" where
  "run_acts [] ss = (ss, 0)"
| "run_acts (a # as) ss = (let (ss1, ok) = a ss in if ok then run_acts as ss1 else (ss1, - 1))"

definition add_act :: "cfglib \<Rightarrow> string \<Rightarrow> cval \<Rightarrow> setting list \<Rightarrow> setting list \<times> bool" where
  "add_act L name v ss = (case cl_add L ss name v of None \<Rightarrow> (ss, False) | Some ss' \<Rightarrow> (ss', True))"

definition set_act :: "(cval \<Rightarrow> int \<Rightarrow> cval option) \<Rightarrow> string \<Rightarrow> int \<Rightarrow> setting list \<Rightarrow> setting list \<times> bool" where
  "set_act setter name x ss = (case map_of ss name of None \<Rightarrow> (ss, False)
     | Some v \<Rightarrow> (case setter v x of None \<Rightarrow> (ss, False)
        | Some v' \<Rightarrow> (List.map (\<lambda>(n, u). if n = name then (n, v') else (n, u)) ss, True)))"

definition stub_rec_cfg :: "cfglib \<Rightarrow> opt_s option \<Rightarrow> setting list \<Rightarrow> setting list \<times> int" where
  "stub_rec_cfg L p = run_acts (
     [add_act L ''packet_size'' (C_Int64 0)] @
     (case p of None \<Rightarrow> [] | Some opt \<Rightarrow>
        if has (opt_optbits opt) CAN_STRIP_BYTES
        then [set_act (cl_set_int64 L) ''packet_size'' (sint (opt_packet_size opt - word_of_int (opt_offset opt))),
              add_act L ''offset_onwrite'' (C_Int 0), set_act (cl_set_int L) ''offset_onwrite'' (opt_offset opt)]
        else [set_act (cl_set_int64 L) ''packet_size'' (sint (opt_packet_size opt))]) @
     [add_act L ''cumul'' (C_Int64 0)] @
     (case p of None \<Rightarrow> [] | Some opt \<Rightarrow> [set_act (cl_set_int64 L) ''cumul'' (sint (opt_cumul opt))]) @
     [add_act L ''total_packets'' (C_Int64 0)] @
     (case p of None \<Rightarrow> [] | Some opt \<Rightarrow> [set_act (cl_set_int64 L) ''total_packets'' (sint (opt_total_packets opt))]) @
     [add_act L ''buf_division'' (C_Int 0)] @
     (case p of None \<Rightarrow> [] | Some opt \<Rightarrow> [set_act (cl_set_int64 L) ''buf_division'' (opt_buf_division opt)]))"

definition stub_full_cfg :: "cfglib \<Rightarrow> setting list \<Rightarrow> setting list \<times> int" where
  "stub_full_cfg L = run_acts
     [add_act L ''packet_size'' (C_Int64 0), add_act L ''optbits'' (C_Int64 0), add_act L ''address_to_bind_to'' (C_Str None),
      add_act L ''time'' (C_Int64 0), add_act L ''port'' (C_Int 0), add_act L ''minmem'' (C_Int64 0), add_act L ''maxmem'' (C_Int64 0),
      add_act L ''n_threads'' (C_Int 0), add_act L ''n_drives'' (C_Int 0), add_act L ''rate'' (C_Int 0),
      add_act L ''do_w_stuff_every'' (C_Int64 0), add_act L ''wait_nanoseconds'' (C_Int64 0), add_act L ''hostname'' (C_Str None),
      add_act L ''serverip'' (C_Int64 0)]"

definition stub_full_log_cfg :: "cfglib \<Rightarrow> setting list \<Rightarrow> setting list \<times> int" where
  "stub_full_log_cfg L root = (fst (stub_full_cfg L (fst (stub_rec_cfg L None root))), 0)"

text \<open>The group named after the recording, in a configuration that was just initialised.\<close>

definition write_full_cfg :: "cfglib \<Rightarrow> opt_s \<Rightarrow> (setting list \<times> int) outcome" where
  "write_full_cfg L opt =
     (let (group, err) = stub_full_cfg L [] in
      if err \<noteq> 0 then Inr (group, err)
      else bindE (set_from_root (to_write L) group opt) (\<lambda>(_, group1, err). Inr (group1, err)))"

section \<open>The configuration files of a recording\<close>

text \<open>\<open>files\<close> holds what libconfig reads from a path; \<open>ok\<close> is the result of writing the file. The result of
  \<open>stub_rec_cfg\<close> is not looked at.\<close>

definition cfg_name :: "int \<Rightarrow> string \<Rightarrow> string" where
  "cfg_name ident name = dir_name ident name @ ''/'' @ name @ ''.cfg''"

type_synonym cfg_files = "string \<Rightarrow> setting list option"

definition write_cfg_for_rec :: "cfglib \<Rightarrow> bool \<Rightarrow> opt_s \<Rightarrow> string \<Rightarrow> cfg_files \<Rightarrow> cfg_files \<times> int" where
  "write_cfg_for_rec L ok opt file_name files =
     (if ok then (files(file_name \<mapsto> fst (stub_rec_cfg L (Some opt) [])), 0) else (files, - 1))"

definition common_writecfg :: "cfglib \<Rightarrow> (string \<Rightarrow> bool) \<Rightarrow> bool \<Rightarrow> int \<Rightarrow> opt_s \<Rightarrow> cfg_files \<Rightarrow> (cfg_files \<times> int) outcome" where
  "common_writecfg L dirs ok ident opt files = (case opt_filename opt of None \<Rightarrow> Inl Undefined
     | Some name \<Rightarrow> Inr (if \<not> dirs (dir_name ident name) then (files, 0)
         else write_cfg_for_rec L ok opt (cfg_name ident name) files))"

definition read_cfg :: "string \<Rightarrow> cfg_files \<Rightarrow> setting list option" where
  "read_cfg file_name files = files file_name"

definition common_readcfg :: "int \<Rightarrow> opt_s \<Rightarrow> cfg_files \<Rightarrow> (setting list option) outcome" where
  "common_readcfg ident opt files = (case opt_filename opt of None \<Rightarrow> Inl Undefined
     | Some name \<Rightarrow> Inr (read_cfg (cfg_name ident name) files))"

definition read_full_cfg :: "cfg_env \<Rightarrow> opt_s \<Rightarrow> cfg_files \<Rightarrow> (opt_s \<times> int) outcome" where
  "read_full_cfg E opt files = (case opt_cfgfile opt of None \<Rightarrow> Inr (opt, - 1)
     | Some file_name \<Rightarrow> (case read_cfg file_name files of None \<Rightarrow> Inr (opt, - 1)
        | Some root \<Rightarrow> bindE (set_from_root E root opt) (\<lambda>(opt1, _, err). Inr (opt1, err))))"

text \<open>\<open>write_cfgs_to_disks\<close> on the recording points of the disk branch, in its order: a recording writes its
  settings to each, and a sender reads each. Errors are not passed on.\<close>

fun write_cfgs_to_disks :: "cfglib \<Rightarrow> (string \<Rightarrow> bool) \<Rightarrow> (string \<Rightarrow> bool) \<Rightarrow> int list \<Rightarrow> opt_s \<Rightarrow> cfg_files \<Rightarrow> cfg_files outcome" where
  "write_cfgs_to_disks L dirs ok [] opt files = Inr files"
| "write_cfgs_to_disks L dirs ok (i # is) opt files =
     (if has (opt_optbits opt) READMODE
      then bindE (common_readcfg i opt files) (\<lambda>_. write_cfgs_to_disks L dirs ok is opt files)
      else bindE (common_writecfg L dirs (case opt_filename opt of None \<Rightarrow> False | Some name \<Rightarrow> ok (cfg_name i name)) i opt files)
        (\<lambda>(files1, _). write_cfgs_to_disks L dirs ok is opt files1))"

text \<open>The end of a stream: the options are written to the settings they came from and the settings of the
  recording to the drives. The sockets and the memory that are given back are left out.\<close>

definition close_streamer_opts :: "cfglib \<Rightarrow> (string \<Rightarrow> bool) \<Rightarrow> (string \<Rightarrow> bool) \<Rightarrow> int list \<Rightarrow> setting list \<Rightarrow> opt_s \<Rightarrow>
    cfg_files \<Rightarrow> (cfg_files \<times> int) outcome" where
  "close_streamer_opts L dirs ok is root opt files =
     (if has (opt_optbits opt) READMODE then Inr (files, 0)
      else bindE (set_from_root (to_write L) root opt) (\<lambda>(_, _, err).
        if err \<noteq> 0 then Inr (files, err)
        else bindE (write_cfgs_to_disks L dirs ok is opt files) (\<lambda>files1. Inr (files1, 0))))"

section \<open>The start of a recording\<close>

text \<open>The loop over the drives: the first configuration found sets the options and adds the recording to
  the file index; the others, up to the number of drives the options then have, are compared with them,
  and a difference is only logged. The flag says whether one was found; a failure of the file index
  ends the loop.\<close>

fun check_drives :: "cfglib \<Rightarrow> cfg_files \<Rightarrow> string \<Rightarrow> int list \<Rightarrow> opt_s \<Rightarrow> opt_s outcome" where
  "check_drives L files name [] opt = Inr opt"
| "check_drives L files name (i # is) opt = (case files (cfg_name i name) of
       None \<Rightarrow> check_drives L files name is opt
     | Some root \<Rightarrow> bindE (set_from_root (to_check L) root opt) (\<lambda>(opt1, _, _). check_drives L files name is opt1))"

fun read_drives :: "cfglib \<Rightarrow> allocs \<Rightarrow> cfg_files \<Rightarrow> string \<Rightarrow> int list \<Rightarrow> opt_s \<Rightarrow> afi \<Rightarrow>
    (opt_s \<times> afi \<times> bool \<times> int) outcome" where
  "read_drives L al files name [] opt fis = Inr (opt, fis, False, 0)"
| "read_drives L al files name (i # is) opt fis = (case files (cfg_name i name) of
       None \<Rightarrow> read_drives L al files name is opt fis
     | Some root \<Rightarrow>
         bindE (set_from_root (to_read L) root opt) (\<lambda>(opt1, _, _).
           case opt_filename opt1 of None \<Rightarrow> Inl Undefined | Some name1 \<Rightarrow>
           bindE (afi_add al name1 (opt_cumul opt1) AFI_SEND 0 fis) (\<lambda>(fis1, p). case p of
               None \<Rightarrow> Inr (opt1\<lparr>opt_fi := None\<rparr>, fis1, True, - 1)
             | Some a \<Rightarrow> bindE (afi_add_to_packets a (opt_total_packets opt1) fis1) (\<lambda>(fis2, _).
                 if opt_packet_size opt1 = 0 then Inl Div_By_Zero
                 else bindE (check_drives L files name1 [i + 1..opt_n_drives opt1 - 1]
                   (opt1\<lparr>opt_fi := Some a, opt_buf_num_elems := ucast (opt_filesize opt1 div opt_packet_size opt1)\<rparr>)) (\<lambda>opt2.
                   Inr (opt2, fis2, True, 0))))))"

text \<open>The number of elements is lowered until the buffer is a multiple of the block size.\<close>

primrec lower_elems :: "opt_s \<Rightarrow> nat \<Rightarrow> nat" where
  "lower_elems opt 0 = 0"
| "lower_elems opt (Suc k) = (if CALC_BUFSIZE_FROM_OPT (opt\<lparr>opt_buf_num_elems := of_nat (Suc k)\<rparr>) mod BLOCK_ALIGN \<noteq> 0
     then lower_elems opt k else Suc k)"

definition align_single_file :: "opt_s \<Rightarrow> (opt_s \<times> int) outcome" where
  "align_single_file opt =
     (let size = opt_packet_size opt - word_of_int (opt_offset opt) in
      if size = 0 then Inl Div_By_Zero
      else let elems = ucast (opt_filesize opt div size) :: u32;
               n = lower_elems opt (unat elems);
               opt1 = opt\<lparr>opt_buf_num_elems := of_nat n\<rparr> in
        if n = 0 then Inr (opt1, - 1)
        else Inr (opt1\<lparr>opt_filesize := CALC_BUFSIZE_FROM_OPT opt1\<rparr>, 0))"

definition init_cfg :: "cfglib \<Rightarrow> allocs \<Rightarrow> cfg_files \<Rightarrow> opt_s \<Rightarrow> afi \<Rightarrow> (opt_s \<times> afi \<times> int) outcome" where
  "init_cfg L al files opt fis = (case opt_filename opt of None \<Rightarrow> Inl Undefined | Some name \<Rightarrow>
     bindE (if has (opt_optbits opt) READMODE
            then bindE (read_drives L al files name [0..opt_n_drives opt - 1] opt fis) (\<lambda>(opt1, fis1, found, ret).
                   if found then Inr (opt1, fis1, ret)
                   else bindE (afi_get name True fis1) (\<lambda>(fis2, p). case p of
                       None \<Rightarrow> Inr (opt1\<lparr>opt_fi := None\<rparr>, fis2, - 1)
                     | Some a \<Rightarrow> bindE (afi_get_packet_size a fis2) (\<lambda>ps.
                         Inr (opt1\<lparr>opt_fi := Some a, opt_packet_size := ps\<rparr>, fis2, 0))))
            else bindE (afi_add al name 0 AFI_RECORD (opt_packet_size opt) fis) (\<lambda>(fis1, p).
                   Inr (opt\<lparr>opt_fi := p\<rparr>, fis1, if p = None then - 1 else 0)))
       (\<lambda>(opt1, fis1, ret).
          if has (opt_optbits opt1) WRITE_TO_SINGLE_FILE \<and> WRITEND_USES_DIRECTIO opt1
          then bindE (align_single_file opt1) (\<lambda>(opt2, err). Inr (opt2, fis1, if err \<noteq> 0 then err else ret))
          else Inr (opt1, fis1, ret)))"

end
