(* ===== verification/Server.thy ===== *)
theory Server
  imports Config ResourceTree
begin

text \<open>
  The daemon (\<open>src/server.c\<close>): recordings and sendings are scheduled events, entities of a resource branch
  whose free list holds the events that wait for their time and whose busy list holds the running
  ones. The schedule file is a configuration with one group for each event.

  The world of the branch are the events, their options, the file index and the files. What the daemon does not
  do itself is the argument \<open>sched_env\<close>: the rest of a streamer thread until it is joined, the results of system
  calls, the addresses of allocations and the contents of memory that is not initialised.
\<close>

definition SECS_TO_START_IN_ADVANCE :: int where "SECS_TO_START_IN_ADVANCE = 1"
definition IDSTRING_LENGTH :: nat where "IDSTRING_LENGTH = 24"

record scheduled_event =
  ev_opt :: addr
  ev_stats :: bool
  ev_idstring :: "string option"
  ev_socketnumber :: int
  ev_pt :: bool
  ev_found :: bool

text \<open>\<open>sw_streamer\<close>: the options whose \<open>streamer_ent\<close> is set with a \<open>stop\<close>. \<open>sw_locked\<close>: the lock of the
  schedule is held.\<close>

record sworld =
  sw_ev :: "addr \<Rightarrow> scheduled_event option"
  sw_opt :: "addr \<Rightarrow> opt_s option"
  sw_streamer :: "addr \<Rightarrow> bool"
  sw_fi :: afi
  sw_files :: cfg_files
  sw_state :: "(string \<times> setting list) list"
  sw_locked :: bool
  sw_running :: bool

record schedule =
  sc_br :: "sworld entity_list_branch"
  sc_default_opt :: opt_s
  sc_lasttick :: timespec
  sc_n_scheduled :: int
  sc_n_running :: int

record sched_env =
  se_thread :: "addr \<Rightarrow> sworld \<Rightarrow> sworld"
  se_join :: int
  se_create :: int
  se_write :: bool
  se_lib :: cfglib
  se_al :: allocs
  se_dirs :: "string \<Rightarrow> bool"
  se_ok :: "string \<Rightarrow> bool"
  se_disks :: "int list"
  se_new :: "schedule \<Rightarrow> addr \<times> addr \<times> addr"
  se_garbage :: string

definition get_ev :: "addr \<Rightarrow> sworld \<Rightarrow> scheduled_event outcome" where
  "get_ev e w = deref (sw_ev w) (Some e)"

definition get_sopt :: "addr \<Rightarrow> sworld \<Rightarrow> opt_s outcome" where
  "get_sopt o1 w = deref (sw_opt w) (Some o1)"

definition put_ev :: "addr \<Rightarrow> scheduled_event \<Rightarrow> sworld \<Rightarrow> sworld" where
  "put_ev e ev w = w\<lparr>sw_ev := (sw_ev w)(e \<mapsto> ev)\<rparr>"

definition put_sopt :: "addr \<Rightarrow> opt_s \<Rightarrow> sworld \<Rightarrow> sworld" where
  "put_sopt o1 opt w = w\<lparr>sw_opt := (sw_opt w)(o1 \<mapsto> opt)\<rparr>"

definition zero_schedevnt :: "addr \<Rightarrow> scheduled_event" where
  "zero_schedevnt opt = \<lparr>ev_opt = opt, ev_stats = False, ev_idstring = None, ev_socketnumber = 0, ev_pt = False, ev_found = False\<rparr>"

definition zero_sched :: "opt_s \<Rightarrow> sworld \<Rightarrow> schedule" where
  "zero_sched default_opt w = \<lparr>sc_br = \<lparr>br_lists = (\<lambda>_. None), br_heap = (\<lambda>_. None), br_world = w\<rparr>,
     sc_default_opt = default_opt, sc_lasttick = ZEROTIME, sc_n_scheduled = 0, sc_n_running = 0\<rparr>"

section \<open>The end of an event\<close>

text \<open>When the event is not in the file any more the lock is kept.\<close>

definition remove_from_cfgsched :: "sched_env \<Rightarrow> scheduled_event \<Rightarrow> sworld \<Rightarrow> (sworld \<times> int) outcome" where
  "remove_from_cfgsched E ev w = (case ev_idstring ev of None \<Rightarrow> Inl Undefined
     | Some idstring \<Rightarrow>
         if idstring \<notin> fst ` set (sw_state w) then Inr (w\<lparr>sw_locked := True\<rparr>, 0)
         else if \<not> se_write E then Inr (w\<lparr>sw_locked := True\<rparr>, - 1)
         else Inr (w\<lparr>sw_state := filter (\<lambda>p. fst p \<noteq> idstring) (sw_state w), sw_locked := False\<rparr>, 0))"

definition shutdown_thread :: "addr \<Rightarrow> sworld \<Rightarrow> sworld outcome" where
  "shutdown_thread o1 w = bindE (get_sopt o1 w) (\<lambda>opt.
     Inr (if sw_streamer w o1 then put_sopt o1 (set_status_for_opt opt STATUS_STOPPED) w else w))"

text \<open>The configuration of a stream that was started is the one \<open>config_init\<close> left, with no settings.\<close>

definition close_streamer :: "sched_env \<Rightarrow> addr \<Rightarrow> sworld \<Rightarrow> sworld outcome" where
  "close_streamer E o1 w = bindE (get_sopt o1 w) (\<lambda>opt.
     if \<not> sw_streamer w o1 then Inr w
     else bindE (close_streamer_opts (se_lib E) (se_dirs E) (se_ok E) (se_disks E) [] opt (sw_files w)) (\<lambda>(files, _).
       Inr (w\<lparr>sw_files := files\<rparr>)))"

definition close_opts :: "addr \<Rightarrow> sworld \<Rightarrow> sworld" where
  "close_opts o1 w = w\<lparr>sw_opt := (sw_opt w)(o1 := None), sw_streamer := (sw_streamer w)(o1 := False)\<rparr>"

definition free_and_close :: "sched_env \<Rightarrow> addr \<Rightarrow> sworld \<Rightarrow> (sworld \<times> int) outcome" where
  "free_and_close E e w =
     bindE (get_ev e w) (\<lambda>ev.
     bindE (get_sopt (ev_opt ev) w) (\<lambda>opt.
     bindE (if opt_status opt = STATUS_FINISHED \<or> opt_status opt = STATUS_ERROR \<or> opt_status opt = STATUS_STOPPED then Inr w
            else shutdown_thread (ev_opt ev) w) (\<lambda>w1.
     if ev_pt ev \<and> se_join E \<noteq> 0 then Inr (se_thread E (ev_opt ev) w1, se_join E)
     else bindE (if ev_pt ev then close_streamer E (ev_opt ev) (se_thread E (ev_opt ev) w1) else Inr w1) (\<lambda>w2.
     bindE (if ev_socketnumber ev = 0 then bindE (remove_from_cfgsched E ev w2) (\<lambda>(w3, _). Inr w3) else Inr w2) (\<lambda>w3.
     bindE (get_sopt (ev_opt ev) w3) (\<lambda>opt1.
     bindE (case opt_fi opt1 of None \<Rightarrow> Inl Assert_Failed
            | Some a \<Rightarrow> afi_disassociate a (if has (opt_optbits opt1) READMODE then AFI_SEND else AFI_RECORD) (sw_fi w3)) (\<lambda>(fis, _).
       let w4 = close_opts (ev_opt ev) (w3\<lparr>sw_fi := fis\<rparr>) in
       Inr (w4\<lparr>sw_ev := (sw_ev w4)(e := None)\<rparr>, 0))))))))"

section \<open>Starting events\<close>

definition num_elems :: "opt_s \<Rightarrow> opt_s outcome" where
  "num_elems opt =
     (let size = (if has (opt_optbits opt) READMODE \<and> opt_offset_onwrite opt \<noteq> 0
                  then opt_packet_size opt + word_of_int (opt_offset_onwrite opt) else opt_packet_size opt) in
      if size = 0 then Inl Div_By_Zero else Inr (opt\<lparr>opt_buf_num_elems := ucast (opt_filesize opt div size)\<rparr>))"

definition start_event :: "sched_env \<Rightarrow> addr \<Rightarrow> sworld \<Rightarrow> (sworld \<times> int) outcome" where
  "start_event E e w =
     bindE (get_ev e w) (\<lambda>ev.
     bindE (get_sopt (ev_opt ev) w) (\<lambda>opt.
     bindE (if has (opt_optbits opt) CAPTURE_W_LOCALSOCKET then Inr (opt, sw_fi w, 0)
            else init_cfg (se_lib E) (se_al E) (sw_files w) opt (sw_fi w)) (\<lambda>(opt1, fis, err).
     let w1 = (put_sopt (ev_opt ev) opt1 w)\<lparr>sw_fi := fis\<rparr> in
     if err \<noteq> 0 then Inr (w1, - 1)
     else bindE (num_elems opt1) (\<lambda>opt2.
       let opt3 = opt2\<lparr>opt_status := STATUS_RUNNING\<rparr>;
           ev1 = (if has (opt_optbits opt3) VERBOSE then ev\<lparr>ev_stats := True\<rparr> else ev);
           w2 = put_sopt (ev_opt ev) opt3 w1 in
       Inr (put_ev e (if se_create E \<noteq> 0 then ev1 else ev1\<lparr>ev_pt := True\<rparr>) w2, se_create E)))))"

definition on_br :: "(sworld entity_list_branch \<Rightarrow> sworld entity_list_branch outcome) \<Rightarrow> schedule \<Rightarrow> schedule outcome" where
  "on_br f s = bindE (f (sc_br s)) (\<lambda>b. Inr (s\<lparr>sc_br := b\<rparr>))"

definition sc_world :: "schedule \<Rightarrow> sworld" where
  "sc_world s = br_world (sc_br s)"

definition set_sworld :: "sworld \<Rightarrow> schedule \<Rightarrow> schedule" where
  "set_sworld w s = s\<lparr>sc_br := (sc_br s)\<lparr>br_world := w\<rparr>\<rparr>"

text \<open>The recording that should have ended before now.\<close>

definition too_old :: "opt_s \<Rightarrow> int \<Rightarrow> bool" where
  "too_old opt tdif \<longleftrightarrow> tv_sec (opt_starting_time opt) \<noteq> 0 \<and> \<not> has (opt_optbits opt) READMODE \<and> tdif < - sint (opt_time opt)"

text \<open>Starting the event of node \<open>le\<close>; \<open>tick\<close> is a reading of the clock.\<close>

definition start_node :: "sched_env \<Rightarrow> timespec \<Rightarrow> timespec \<Rightarrow> addr \<Rightarrow> schedule \<Rightarrow> schedule outcome" where
  "start_node E time_now tick le s =
     bindE (deref (br_heap (sc_br s)) (Some le)) (\<lambda>n.
     bindE (get_ev (le_entity n) (sc_world s)) (\<lambda>ev.
     bindE (get_sopt (ev_opt ev) (sc_world s)) (\<lambda>opt.
     let opt1 = (if tv_sec (opt_starting_time opt) = 0
                 then opt\<lparr>opt_starting_time := (opt_starting_time opt)\<lparr>tv_sec := tv_sec time_now\<rparr>\<rparr> else opt);
         s1 = (set_sworld (put_sopt (ev_opt ev) opt1 (sc_world s)) s)
                \<lparr>sc_lasttick := (if tv_sec (sc_lasttick s) = 0 then tick else sc_lasttick s),
                 sc_n_scheduled := sc_n_scheduled s - 1\<rparr> in
     bindE (start_event E (le_entity n) (sc_world s1)) (\<lambda>(w, err).
     let s2 = set_sworld w s1 in
     if err \<noteq> 0 then on_br (remove_from_branch le) s2
     else bindE (on_br (mutex_free_change_branch Busylist le) s2) (\<lambda>s3.
       Inr (s3\<lparr>sc_n_running := sc_n_running s3 + 1\<rparr>))))))"

text \<open>The walk over the free list, which begins again after each start.\<close>

partial_function (option) start_from :: "sched_env \<Rightarrow> timespec \<Rightarrow> timespec \<Rightarrow> addr option \<Rightarrow> schedule \<Rightarrow> schedule outcome option" where
  "start_from E time_now tick le s = (case le of
       None \<Rightarrow> Some (Inr s)
     | Some a \<Rightarrow>
       (case bindE (deref (br_heap (sc_br s)) (Some a)) (\<lambda>n. bindE (get_ev (le_entity n) (sc_world s)) (\<lambda>ev.
               bindE (get_sopt (ev_opt ev) (sc_world s)) (\<lambda>opt. Inr (n, opt)))) of
          Inl e \<Rightarrow> Some (Inl e)
        | Inr (n, opt) \<Rightarrow>
          let tdif = get_sec_diff time_now (opt_starting_time opt) in
          if \<not> (tv_sec (opt_starting_time opt) = 0 \<or> tdif \<le> SECS_TO_START_IN_ADVANCE)
          then start_from E time_now tick (le_child n) s
          else if too_old opt tdif
          then (case on_br (remove_from_branch a) s of
                  Inl e \<Rightarrow> Some (Inl e) | Inr s1 \<Rightarrow> start_from E time_now tick (le_child n) s1)
          else (case start_node E time_now tick a s of
                  Inl e \<Rightarrow> Some (Inl e) | Inr s1 \<Rightarrow> start_from E time_now tick (br_lists (sc_br s1) Freelist) s1)))"

declare start_from.simps [code]

definition start_scheduled :: "sched_env \<Rightarrow> timespec \<Rightarrow> timespec \<Rightarrow> schedule \<Rightarrow> schedule outcome" where
  "start_scheduled E time_now tick s = ended (start_from E time_now tick (br_lists (sc_br s) Freelist) s)"

section \<open>The schedule\<close>

definition sched_identify :: "addr \<Rightarrow> iden \<Rightarrow> sworld \<Rightarrow> bool outcome" where
  "sched_identify e q w = bindE (get_ev e w) (\<lambda>ev. case q of
       CHECK_BY_IDSTRING name \<Rightarrow> (case ev_idstring ev of None \<Rightarrow> Inl Undefined | Some i \<Rightarrow> Inr (name = i))
     | CHECK_BY_NOTFOUND \<Rightarrow> Inr (\<not> ev_found ev)
     | CHECK_BY_SOCKETNUM n \<Rightarrow> Inr (ev_socketnumber ev = n)
     | _ \<Rightarrow> bindE (get_sopt (ev_opt ev) w) (\<lambda>opt. iden_from_opt (ev_opt ev) opt q))"

text \<open>As the callback of a node, where a fault of the comparison is no match.\<close>

definition ev_identify :: "addr \<Rightarrow> iden \<Rightarrow> sworld \<Rightarrow> bool" where
  "ev_identify e q w = (case sched_identify e q w of Inl _ \<Rightarrow> False | Inr b \<Rightarrow> b)"

definition sched_entry :: "sched_env \<Rightarrow> addr \<Rightarrow> sworld listed_entity" where
  "sched_entry E e = \<lparr>le_child = None, le_father = None, le_current_branch = Freelist, le_acquire = None, le_check = None,
     le_identify = ev_identify, le_close = free_and_close E, le_release = None, le_waiters_head = 0, le_waiters_bottom = 0,
     le_entity = e\<rparr>"

text \<open>The command \<open>shutdown\<close>: it is taken out of the file and ends the main loop.\<close>

definition take_shutdown :: "sched_env \<Rightarrow> sworld \<Rightarrow> sworld \<times> int" where
  "take_shutdown E w =
     (if ''shutdown'' \<notin> fst ` set (sw_state w) \<or> \<not> se_write E then (w, - 1)
      else (w\<lparr>sw_state := filter (\<lambda>p. fst p \<noteq> ''shutdown'') (sw_state w), sw_running := False\<rparr>, 0))"

text \<open>The options of a new event: the default ones without their strings, with memory for the names.\<close>

definition new_event_opt :: "sched_env \<Rightarrow> int \<Rightarrow> opt_s \<Rightarrow> opt_s" where
  "new_event_opt E socketinterface default_opt =
     (let opt = default_opt\<lparr>opt_address_to_bind_to := None, opt_hostname := None, opt_cfgfile := None,
                  opt_filename := Some (se_garbage E), opt_disk2fileoutput := Some (se_garbage E)\<rparr> in
      if socketinterface \<noteq> 0
      then opt\<lparr>opt_optbits := ((opt_optbits opt AND NOT LOCKER_CAPTURE) OR CAPTURE_W_LOCALSOCKET) OR READMODE\<rparr> else opt)"

text \<open>Putting a prepared event into the branch; a local socket is started at once.\<close>

definition enter_event :: "sched_env \<Rightarrow> addr \<Rightarrow> addr \<Rightarrow> opt_s \<Rightarrow> schedule \<Rightarrow> (schedule \<times> int) outcome" where
  "enter_event E le e opt s =
     bindE (on_br (\<lambda>b. add_to_entlist le (put_le le (sched_entry E e) b)) s) (\<lambda>s1.
     if \<not> has (opt_optbits opt) CAPTURE_W_LOCALSOCKET then Inr (s1\<lparr>sc_n_scheduled := sc_n_scheduled s1 + 1\<rparr>, 0)
     else bindE (start_event E e (sc_world s1)) (\<lambda>(w, err).
       let s2 = set_sworld w s1 in
       if err \<noteq> 0 then bindE (on_br (remove_from_branch le) s2) (\<lambda>s3. Inr (s3, 0))
       else bindE (on_br (mutex_free_change_branch Busylist le) s2) (\<lambda>s3. Inr (s3\<lparr>sc_n_running := sc_n_running s3 + 1\<rparr>, 0))))"

definition add_recording :: "sched_env \<Rightarrow> (string \<times> setting list) option \<Rightarrow> int \<Rightarrow> schedule \<Rightarrow> (schedule \<times> int) outcome" where
  "add_recording E root socketinterface s =
     (if (case root of Some (name, _) \<Rightarrow> name = ''shutdown'' | None \<Rightarrow> False)
      then (let (w, r) = take_shutdown E (sc_world s) in Inr (set_sworld w s, r))
      else
        let (le, e, o1) = se_new E s;
            opt = new_event_opt E socketinterface (sc_default_opt s);
            ev = (zero_schedevnt o1)\<lparr>ev_found := True\<rparr>;
            put = (\<lambda>ev opt. set_sworld (put_ev e ev (put_sopt o1 opt (sc_world s))) s);
            strip = (\<lambda>opt. if has (opt_optbits opt) CAPTURE_W_DISK2FILE then opt else opt\<lparr>opt_disk2fileoutput := None\<rparr>) in
        if has (opt_optbits opt) CAPTURE_W_LOCALSOCKET then enter_event E le e (strip opt) (put ev (strip opt))
        else (case root of None \<Rightarrow> Inr (put ev opt, - 1)
          | Some (name, settings) \<Rightarrow>
            if IDSTRING_LENGTH \<le> length name then Inl Out_Of_Bounds
            else let ev1 = ev\<lparr>ev_idstring := Some name\<rparr> in
              bindE (set_from_root (to_read (se_lib E)) settings opt) (\<lambda>(opt1, _, err).
                if err \<noteq> 0
                then bindE (free_and_close E e (sc_world (put ev1 opt1))) (\<lambda>(w, _). Inr (set_sworld w s, 0))
                else enter_event E le e (strip opt1) (put ev1 (strip opt1)))))"

text \<open>The nodes of a list.\<close>

partial_function (option) walk_nodes :: "sworld le_heap \<Rightarrow> addr option \<Rightarrow> addr list \<Rightarrow> addr list outcome option" where
  "walk_nodes h p es = (case p of None \<Rightarrow> Some (Inr es)
     | Some a \<Rightarrow> (case deref h (Some a) of Inl e \<Rightarrow> Some (Inl e)
        | Inr n \<Rightarrow> walk_nodes h (le_child n) (es @ [le_entity n])))"

declare walk_nodes.simps [code]

definition clear_found :: "addr list \<Rightarrow> sworld \<Rightarrow> sworld" where
  "clear_found es w = w\<lparr>sw_ev := (\<lambda>e. if e \<in> set es then map_option (\<lambda>ev. ev\<lparr>ev_found := False\<rparr>) (sw_ev w e) else sw_ev w e)\<rparr>"

definition zerofound :: "schedule \<Rightarrow> schedule outcome" where
  "zerofound s =
     bindE (ended (walk_nodes (br_heap (sc_br s)) (br_lists (sc_br s) Freelist) [])) (\<lambda>es.
     bindE (ended (walk_nodes (br_heap (sc_br s)) (br_lists (sc_br s) Busylist) es)) (\<lambda>fs.
       Inr (set_sworld (clear_found fs (sc_world s)) s)))"

text \<open>The events of the file that was read: known ones are marked, new ones are added, and an error of
  adding is only logged.\<close>

fun check_settings :: "sched_env \<Rightarrow> (string \<times> setting list) list \<Rightarrow> schedule \<Rightarrow> schedule outcome" where
  "check_settings E [] s = Inr s"
| "check_settings E ((name, settings) # rest) s =
     bindE (get_from_all (CHECK_BY_IDSTRING name) (sc_br s)) (\<lambda>r. case r of
         None \<Rightarrow> bindE (add_recording E (Some (name, settings)) 0 s) (\<lambda>(s1, _). check_settings E rest s1)
       | Some (le, _) \<Rightarrow> bindE (deref (br_heap (sc_br s)) (Some le)) (\<lambda>n. bindE (get_ev (le_entity n) (sc_world s)) (\<lambda>ev.
           check_settings E rest (set_sworld (put_ev (le_entity n) (ev\<lparr>ev_found := True\<rparr>) (sc_world s)) s))))"

definition drop_event :: "addr \<Rightarrow> schedule \<Rightarrow> schedule outcome" where
  "drop_event le s =
     bindE (deref (br_heap (sc_br s)) (Some le)) (\<lambda>n.
     bindE (get_ev (le_entity n) (sc_world s)) (\<lambda>ev.
     bindE (get_sopt (ev_opt ev) (sc_world s)) (\<lambda>opt.
       on_br (remove_from_branch le)
         (if opt_status opt = STATUS_RUNNING
          then set_sworld (put_sopt (ev_opt ev) (opt\<lparr>opt_status := STATUS_CANCELLED\<rparr>) (sc_world s)) (s\<lparr>sc_n_running := sc_n_running s - 1\<rparr>)
          else s\<lparr>sc_n_scheduled := sc_n_scheduled s - 1\<rparr>))))"

partial_function (option) drop_missing :: "schedule \<Rightarrow> schedule outcome option" where
  "drop_missing s = (case get_from_all CHECK_BY_NOTFOUND (sc_br s) of
       Inl e \<Rightarrow> Some (Inl e)
     | Inr None \<Rightarrow> Some (Inr s)
     | Inr (Some (le, _)) \<Rightarrow> (case drop_event le s of Inl e \<Rightarrow> Some (Inl e) | Inr s1 \<Rightarrow> drop_missing s1))"

declare drop_missing.simps [code]

definition check_schedule :: "sched_env \<Rightarrow> int \<Rightarrow> schedule \<Rightarrow> (schedule \<times> int) outcome" where
  "check_schedule E opened s =
     (if opened < 0 then Inr (s, - 1)
      else
        bindE (check_settings E (sw_state (sc_world s)) (set_sworld ((sc_world s)\<lparr>sw_locked := True\<rparr>) s)) (\<lambda>s1.
        bindE (ended (drop_missing s1)) (\<lambda>s2.
        bindE (zerofound s2) (\<lambda>s3. Inr (set_sworld ((sc_world s3)\<lparr>sw_locked := False\<rparr>) s3, 0)))))"

definition handle_localsocket :: "sched_env \<Rightarrow> int \<Rightarrow> schedule \<Rightarrow> (schedule \<times> int) outcome" where
  "handle_localsocket E clisocket s =
     (if \<not> 0 < clisocket then Inr (s, - 1)
      else bindE (add_recording E None clisocket s) (\<lambda>(s1, err). Inr (s1, if err \<noteq> 0 then - 1 else 0)))"

definition check_default_options_for_nonlogicals :: "opt_s \<Rightarrow> int" where
  "check_default_options_for_nonlogicals opt =
     (if has (opt_optbits opt) WRITE_TO_SINGLE_FILE \<and> WRITEND_USES_DIRECTIO opt then - 1 else 0)"

partial_function (option) finish_from :: "addr option \<Rightarrow> schedule \<Rightarrow> schedule outcome option" where
  "finish_from le s = (case le of None \<Rightarrow> Some (Inr s)
     | Some a \<Rightarrow>
       (case bindE (deref (br_heap (sc_br s)) (Some a)) (\<lambda>n. bindE (get_ev (le_entity n) (sc_world s)) (\<lambda>ev.
               bindE (get_sopt (ev_opt ev) (sc_world s)) (\<lambda>opt. Inr (n, opt)))) of
          Inl e \<Rightarrow> Some (Inl e)
        | Inr (n, opt) \<Rightarrow>
          if has (opt_status opt) (STATUS_FINISHED OR STATUS_ERROR OR STATUS_CANCELLED OR STATUS_STOPPED)
          then (case on_br (remove_from_branch a) s of Inl e \<Rightarrow> Some (Inl e)
             | Inr s1 \<Rightarrow> finish_from (le_child n) (s1\<lparr>sc_n_running := sc_n_running s1 - 1,
                 sc_lasttick := (if sc_n_running s1 - 1 = 0 then ZEROTIME else sc_lasttick s1)\<rparr>))
          else finish_from (le_child n) s))"

declare finish_from.simps [code]

definition check_finished :: "schedule \<Rightarrow> schedule outcome" where
  "check_finished s = ended (finish_from (br_lists (sc_br s) Busylist) s)"

section \<open>The main loop\<close>

text \<open>One turn: what the threads did before it, the clock, the result of \<open>poll\<close> with the events on the schedule
  file and the local socket, and whether the memory branch is alive. Printing the statistics is left out.\<close>

record turn =
  tn_threads :: "sworld \<Rightarrow> sworld"
  tn_now :: timespec
  tn_tick :: timespec
  tn_poll :: int
  tn_file :: bool
  tn_file_error :: bool
  tn_edit :: "(string \<times> setting list) list \<Rightarrow> (string \<times> setting list) list"
  tn_opened :: int
  tn_socket :: bool
  tn_client :: int
  tn_alive :: bool

definition stop_running :: "schedule \<Rightarrow> schedule" where
  "stop_running s = set_sworld ((sc_world s)\<lparr>sw_running := False\<rparr>) s"

definition react_to_file :: "sched_env \<Rightarrow> turn \<Rightarrow> schedule \<Rightarrow> schedule outcome" where
  "react_to_file E t s =
     (if \<not> 0 < tn_poll t then Inr (if tn_poll t < 0 then stop_running s else s)
      else if tn_file t
      then bindE (check_schedule E (tn_opened t) (set_sworld ((sc_world s)\<lparr>sw_state := tn_edit t (sw_state (sc_world s))\<rparr>) s))
             (\<lambda>(s1, err). Inr (if err \<noteq> 0 then stop_running s1 else s1))
      else Inr (if tn_file_error t then stop_running s else s))"

definition react_to_socket :: "sched_env \<Rightarrow> turn \<Rightarrow> schedule \<Rightarrow> schedule outcome" where
  "react_to_socket E t s =
     (if 0 < tn_poll t \<and> tn_socket t then bindE (handle_localsocket E (tn_client t) s) (\<lambda>(s1, _). Inr s1) else Inr s)"

definition server_turn :: "sched_env \<Rightarrow> turn \<Rightarrow> schedule \<Rightarrow> schedule outcome" where
  "server_turn E t s =
     bindE (start_scheduled E (tn_now t) (tn_tick t) (set_sworld (tn_threads t (sc_world s)) s)) (\<lambda>s1.
     bindE (react_to_file E t s1) (\<lambda>s2.
     bindE (react_to_socket E t s2) (\<lambda>s3.
     bindE (check_finished s3) (\<lambda>s4. Inr (if tn_alive t then s4 else stop_running s4)))))"

fun server_loop :: "sched_env \<Rightarrow> turn list \<Rightarrow> schedule \<Rightarrow> schedule outcome" where
  "server_loop E [] s = Inr s"
| "server_loop E (t # ts) s = (if \<not> sw_running (sc_world s) then Inr s else bindE (server_turn E t s) (server_loop E ts))"

text \<open>The end of \<open>main\<close>: every running event is removed.\<close>

partial_function (option) end_events :: "addr option \<Rightarrow> schedule \<Rightarrow> schedule outcome option" where
  "end_events p s = (case p of None \<Rightarrow> Some (Inr s)
     | Some a \<Rightarrow> (case deref (br_heap (sc_br s)) (Some a) of Inl e \<Rightarrow> Some (Inl e)
        | Inr n \<Rightarrow> (case on_br (remove_from_branch a) s of Inl e \<Rightarrow> Some (Inl e) | Inr s1 \<Rightarrow> end_events (le_child n) s1)))"

declare end_events.simps [code]

definition server_main :: "sched_env \<Rightarrow> int \<Rightarrow> turn list \<Rightarrow> opt_s \<Rightarrow> sworld \<Rightarrow> (schedule \<times> int) outcome" where
  "server_main E opened turns default_opt w =
     (if check_default_options_for_nonlogicals default_opt \<noteq> 0
      then Inr (zero_sched default_opt w, check_default_options_for_nonlogicals default_opt)
      else bindE (check_schedule E opened (zero_sched default_opt (w\<lparr>sw_running := True\<rparr>))) (\<lambda>(s, err).
        if err \<noteq> 0 then Inr (s, err)
        else bindE (server_loop E turns s) (\<lambda>s1.
          bindE (ended (end_events (br_lists (sc_br s1) Busylist) s1)) (\<lambda>s2. Inr (s2, 0)))))"

end
