(* ===== verification/ConfigFiles.thy ===== *)
theory ConfigFiles
  imports Config
begin

text \<open>
  What the configuration files promise: writing keeps the names and types of the settings and the
  options; checking numeric settings is the same question as whether reading them would change anything;
  a recording that is written and opened again has the size, the files and the packets it had. The check of a boolean
  setting does the opposite.
\<close>

section \<open>The tables of settings\<close>

lemma u64_lens:
  assumes "map_of u64_settings n = Some (get, upd)"
  shows "get (upd f opt) = f (get opt)" and "upd (\<lambda>_. x) opt = opt \<longleftrightarrow> x = get opt"
  using assms by (cases opt; force simp: u64_settings_def split: if_splits)+

lemma int_lens:
  assumes "map_of int_settings n = Some (get, upd)"
  shows "get (upd f opt) = f (get opt)" and "upd (\<lambda>_. x) opt = opt \<longleftrightarrow> x = get opt"
  using assms by (cases opt; force simp: int_settings_def split: if_splits)+

lemma u64_u64_independent:
  assumes "map_of u64_settings n = Some (get, upd)" and "map_of u64_settings m = Some (get', upd')" and "n \<noteq> m"
    and "n \<noteq> ''buf_elem_size''" and "m \<noteq> ''buf_elem_size''"
  shows "get (upd' f opt) = get opt"
  using assms by (auto simp: u64_settings_def split: if_splits)

lemma int_int_independent:
  assumes "map_of int_settings n = Some (get, upd)" and "map_of int_settings m = Some (get', upd')" and "n \<noteq> m"
  shows "get (upd' f opt) = get opt"
  using assms by (auto simp: int_settings_def split: if_splits)

lemma u64_int_independent:
  assumes "map_of u64_settings n = Some (get, upd)" and "map_of int_settings m = Some (get', upd')"
  shows "get (upd' f opt) = get opt" and "get' (upd g opt) = get' opt"
  using assms by (auto simp: u64_settings_def int_settings_def split: if_splits)

lemma apply_u64:
  "map_of u64_settings n = Some (get, upd) \<Longrightarrow> apply_setting E n v s = CFG_FULL_UINT64 E get upd v s"
  by (auto simp: u64_settings_def bool_settings_def apply_setting_def split: if_splits)

lemma apply_int:
  "map_of int_settings n = Some (get, upd) \<Longrightarrow> apply_setting E n v s = CFG_FULL_INT E get upd v s"
  by (auto simp: int_settings_def u64_settings_def bool_settings_def apply_setting_def split: if_splits)

lemma apply_bool:
  "map_of bool_settings n = Some x \<Longrightarrow> apply_setting E n v s = CFG_FULL_BOOLEAN E x v s"
  by (auto simp: bool_settings_def apply_setting_def split: if_splits)

section \<open>Checking and reading\<close>

text \<open>\<open>holds opt n v\<close>: the options have the value of the setting. \<open>assign\<close> gives it to them.\<close>

definition holds :: "opt_s \<Rightarrow> string \<Rightarrow> cval \<Rightarrow> bool" where
  "holds opt n v = (case v of
       C_Int64 i \<Rightarrow> (case map_of u64_settings n of Some (get, upd) \<Rightarrow> word_of_int i = get opt | None \<Rightarrow> False)
     | C_Int i \<Rightarrow> (case map_of int_settings n of Some (get, upd) \<Rightarrow> i = get opt | None \<Rightarrow> False)
     | _ \<Rightarrow> False)"

definition assign :: "string \<Rightarrow> cval \<Rightarrow> opt_s \<Rightarrow> opt_s" where
  "assign n v opt = (case v of
       C_Int64 i \<Rightarrow> (case map_of u64_settings n of Some (get, upd) \<Rightarrow> upd (\<lambda>_. word_of_int i) opt | None \<Rightarrow> opt)
     | C_Int i \<Rightarrow> (case map_of int_settings n of Some (get, upd) \<Rightarrow> upd (\<lambda>_. i) opt | None \<Rightarrow> opt)
     | _ \<Rightarrow> opt)"

text \<open>A numeric setting of the type the options give it.\<close>

definition numeric :: "string \<times> cval \<Rightarrow> bool" where
  "numeric p = (case snd p of
       C_Int64 i \<Rightarrow> fst p \<in> fst ` set u64_settings \<and> fst p \<noteq> ''buf_elem_size''
     | C_Int i \<Rightarrow> fst p \<in> fst ` set int_settings
     | _ \<Rightarrow> False)"

lemma numeric_cases:
  assumes "numeric (n, v)"
  obtains (u64) i get upd where "v = C_Int64 i" "map_of u64_settings n = Some (get, upd)" "n \<noteq> ''buf_elem_size''"
  | (int) i get upd where "v = C_Int i" "map_of int_settings n = Some (get, upd)"
  using assms by (cases v) (auto simp: numeric_def map_of_eq_None_iff[symmetric] split: option.splits
      dest!: weak_map_of_SomeI[of n])

lemma holds_assign:
  assumes "numeric (n, v)"
  shows "holds (assign n v opt) n v" and "assign n v opt = opt \<longleftrightarrow> holds opt n v"
  using assms by (cases rule: numeric_cases; simp add: holds_def assign_def u64_lens int_lens)+

lemma holds_assign_other:
  assumes "numeric (n, v)" and "numeric (m, w)" and "n \<noteq> m"
  shows "holds (assign n v opt) m w = holds opt m w"
  using assms(1)
proof (cases rule: numeric_cases)
  case u64
  with assms(2,3) show ?thesis
    by (cases rule: numeric_cases[OF assms(2)])
       (simp_all add: holds_def assign_def u64_u64_independent u64_int_independent)
next
  case int
  with assms(2,3) show ?thesis
    by (cases rule: numeric_cases[OF assms(2)])
       (simp_all add: holds_def assign_def int_int_independent u64_int_independent)
qed

lemma check_numeric:
  "numeric (n, v) \<Longrightarrow> apply_setting (to_check L) n v s = (if holds (cs_opt s) n v then accepted s v else refused s v)"
  by (erule numeric_cases) (simp_all add: apply_u64 apply_int CFG_FULL_UINT64_def CFG_FULL_INT_def holds_def to_check_def)

lemma read_numeric:
  "numeric (n, v) \<Longrightarrow> apply_setting (to_read L) n v s = accepted (upd_opt (assign n v) s) v"
  by (erule numeric_cases) (simp_all add: apply_u64 apply_int CFG_FULL_UINT64_def CFG_FULL_INT_def assign_def to_read_def upd_opt_def)

lemma check_settings:
  "\<forall>p \<in> set ss. numeric p \<Longrightarrow> \<exists>ok. apply_settings (to_check L) ss s = Inr (s, ss, ok) \<and>
     (ok \<longleftrightarrow> (\<forall>p \<in> set ss. holds (cs_opt s) (fst p) (snd p)))"
  by (induction ss) (auto simp: check_numeric handled_defs)

fun assign_all :: "setting list \<Rightarrow> opt_s \<Rightarrow> opt_s" where
  "assign_all [] opt = opt"
| "assign_all ((n, v) # ss) opt = assign_all ss (assign n v opt)"

lemma read_settings:
  "\<forall>p \<in> set ss. numeric p \<Longrightarrow> apply_settings (to_read L) ss s = Inr (upd_opt (assign_all ss) s, ss, True)"
  by (induction ss arbitrary: s) (auto simp: read_numeric handled_defs upd_opt_def)

lemma holds_assign_all:
  assumes "\<forall>p \<in> set ss. numeric p" and "numeric (n, v)" and "n \<notin> fst ` set ss"
  shows "holds (assign_all ss opt) n v = holds opt n v"
  using assms
proof (induction ss arbitrary: opt)
  case (Cons p ss)
  then show ?case by (cases p) (auto simp: holds_assign_other)
qed simp

lemma assign_all_same:
  assumes "\<forall>p \<in> set ss. numeric p" and "distinct (List.map fst ss)"
  shows "assign_all ss opt = opt \<longleftrightarrow> (\<forall>p \<in> set ss. holds opt (fst p) (snd p))"
  using assms
proof (induction ss arbitrary: opt)
  case (Cons p ss)
  obtain n v where p: "p = (n, v)" by (cases p)
  have num: "numeric (n, v)" "\<forall>q \<in> set ss. numeric q" "n \<notin> fst ` set ss" "distinct (List.map fst ss)"
    using Cons.prems p by auto
  show ?case
  proof
    assume "assign_all (p # ss) opt = opt"
    then have eq: "assign_all ss (assign n v opt) = opt" using p by simp
    have "holds opt n v" using holds_assign_all[OF num(2,1,3), of "assign n v opt"] holds_assign(1)[OF num(1)] eq by simp
    moreover from this have "assign_all ss opt = opt" using eq holds_assign(2)[OF num(1), of opt] by simp
    ultimately show "\<forall>q \<in> set (p # ss). holds opt (fst q) (snd q)"
      using Cons.IH[OF num(2,4), of opt] by (simp add: p)
  next
    assume h: "\<forall>q \<in> set (p # ss). holds opt (fst q) (snd q)"
    then have "assign n v opt = opt" using holds_assign(2)[OF num(1)] p by simp
    with h Cons.IH[OF num(2,4), of opt] show "assign_all (p # ss) opt = opt" by (simp add: p)
  qed
qed simp



text \<open>The check of a boolean setting is the wrong way round: with the check mode a recording whose
  setting agrees with the options is refused, and one that differs passes.\<close>

theorem boolean_check_inverted:
  assumes "map_of bool_settings n = Some x" and "b \<in> {0, 1}"
  shows "\<exists>r. set_from_root (to_check L) [(n, C_Int b)] opt = Inr (opt, [(n, C_Int b)], r) \<and>
    (r = 0 \<longleftrightarrow> (b = 1) \<noteq> has (opt_optbits opt) x)"
  using assms apply_bool[OF assms(1), of "to_check L" "C_Int b"]
  by (auto simp: set_from_root_def CFG_FULL_BOOLEAN_def handled_defs to_check_def to_read_def Let_def)

lemma boolean_check_inverted_witness:
  "\<exists>r. set_from_root (to_check std_lib) [(''use_rx_ring'', C_Int 1)] clear_and_default =
     Inr (clear_and_default, [(''use_rx_ring'', C_Int 1)], r) \<and>
    (r = 0 \<longleftrightarrow> (1 = (1 :: int)) \<noteq> has (opt_optbits clear_and_default) USE_RX_RING)"
  by (rule boolean_check_inverted) (simp_all add: bool_settings_def)

section \<open>Types\<close>

text \<open>\<open>same_type\<close>: the values have the same type of libconfig.\<close>

definition same_type :: "cval \<Rightarrow> cval \<Rightarrow> bool" where
  "same_type u v = (case (u, v) of (C_Int _, C_Int _) \<Rightarrow> True | (C_Int64 _, C_Int64 _) \<Rightarrow> True
     | (C_Str _, C_Str _) \<Rightarrow> True | (C_Other, C_Other) \<Rightarrow> True | _ \<Rightarrow> False)"

lemma same_type_refl [simp]: "same_type v v"
  by (cases v) (simp_all add: same_type_def)

text \<open>What handling a setting keeps: its type, in read and check mode its value, and in write mode the
  options.\<close>

definition keeps :: "cfg_env \<Rightarrow> cval \<Rightarrow> cfg_state \<Rightarrow> handled \<Rightarrow> bool" where
  "keeps E v s h = (case h of Inl _ \<Rightarrow> True
     | Inr (s', v', ok) \<Rightarrow> same_type v v' \<and> (\<not> ce_write E \<longrightarrow> v' = v) \<and>
         (ce_write E \<and> \<not> ce_check E \<longrightarrow> cs_opt s' = cs_opt s \<and> cs_found s' = cs_found s))"

lemma keeps_cases:
  assumes "cfglib_ok (ce_lib E)"
  shows "keeps E v s (CFG_FULL_UINT64 E gu uu v s)" "keeps E v s (CFG_FULL_INT E gi ui v s)"
    "keeps E v s (CFG_FULL_STR E gs us v s)" "keeps E v s (CFG_FULL_BOOLEAN E x v s)"
    "keeps E v s (CFG_choice E locker names rd v s)" "keeps E v s (CFG_filesize E v s)" "keeps E v s (CFG_filesizemb E v s)"
    "keeps E v s (CFG_record E v s)" "keeps E v s (CFG_starting_time E v s)" "keeps E v s (CFG_logfile E v s)"
    "keeps E v s (CFG_buf_num_elems E v s)"
  using assms
  by (cases v; auto simp: keeps_def cfglib_ok_def same_type_def handled_defs upd_opt_def Let_def CFG_FULL_UINT64_def
      CFG_FULL_INT_def CFG_FULL_STR_def CFG_FULL_BOOLEAN_def CFG_choice_def CFG_filesize_def CFG_filesizemb_def
      CFG_record_def CFG_starting_time_def CFG_logfile_def CFG_buf_num_elems_def split: option.splits if_splits)+

lemma keeps_setting: "cfglib_ok (ce_lib E) \<Longrightarrow> keeps E v s (apply_setting E n v s)"
  by (auto simp: apply_setting_def keeps_cases handled_defs keeps_def[of E v s "Inr _"] split: option.splits)
lemma keeps_settings:
  assumes "cfglib_ok (ce_lib E)" and "apply_settings E ss s = Inr (s', ss', ok)"
  shows "list_all2 (\<lambda>p q. fst p = fst q \<and> same_type (snd p) (snd q)) ss ss' \<and> (\<not> ce_write E \<longrightarrow> ss' = ss) \<and>
    (ce_write E \<and> \<not> ce_check E \<longrightarrow> cs_opt s' = cs_opt s \<and> cs_found s' = cs_found s)"
  using assms(2)
proof (induction ss arbitrary: s s' ss' ok)
  case (Cons p ss)
  obtain n v where p: "p = (n, v)" by (cases p)
  obtain s1 v1 ok1 where h: "apply_setting E n v s = Inr (s1, v1, ok1)"
    using Cons.prems p by (auto split: prod.splits)
  have k: "same_type v v1" "\<not> ce_write E \<longrightarrow> v1 = v"
    "ce_write E \<and> \<not> ce_check E \<longrightarrow> cs_opt s1 = cs_opt s \<and> cs_found s1 = cs_found s"
    using keeps_setting[OF assms(1), of v s n] h by (simp_all add: keeps_def)
  show ?case
  proof (cases ok1)
    case True
    then obtain ss1 where "apply_settings E ss s1 = Inr (s', ss1, ok)" "ss' = (n, v1) # ss1"
      using Cons.prems p h by (auto split: prod.splits)
    with Cons.IH[of s1 s' ss1 ok] k p show ?thesis by auto
  next
    case False
    with Cons.prems p h k show ?thesis by (auto intro!: list_all2_refl)
  qed
qed simp

text \<open>C23: Whatever the mode, the settings keep their number, names and types; without the write mode they keep
  their values; and writing leaves the options as they are.\<close>

theorem set_from_root_keeps_types:
  assumes "cfglib_ok (ce_lib E)" and "set_from_root E root opt = Inr (opt', root', r)"
  shows "list_all2 (\<lambda>p q. fst p = fst q \<and> same_type (snd p) (snd q)) root root' \<and> (\<not> ce_write E \<longrightarrow> root' = root) \<and>
    (ce_write E \<and> \<not> ce_check E \<longrightarrow> opt' = opt)"
proof -
  obtain s' ok where a: "apply_settings E root \<lparr>cs_opt = opt, cs_filesize = 0, cs_found = False\<rparr> = Inr (s', root', ok)"
    and o: "\<not> cs_found s' \<Longrightarrow> opt' = cs_opt s'"
    using assms(2) by (auto simp: set_from_root_def split: if_splits)
  show ?thesis using keeps_settings[OF assms(1) a] o by auto
qed

lemma set_from_root_keeps_types_witness:
  "\<exists>opt' root'. set_from_root (to_write std_lib) [(''port'', C_Int 0), (''time'', C_Int64 7)] clear_and_default =
     Inr (opt', root', 0) \<and> opt' = clear_and_default \<and> List.map fst root' = [''port'', ''time'']"
proof -
  have "set_from_root (to_write std_lib) [(''port'', C_Int 0), (''time'', C_Int64 7)] clear_and_default =
     Inr (clear_and_default, [(''port'', C_Int 2222), (''time'', C_Int64 0)], 0)"
    by code_simp
  moreover have "cfglib_ok (ce_lib (to_write std_lib))" by (simp add: to_write_def to_read_def std_lib_ok)
  ultimately show ?thesis
    using set_from_root_keeps_types[of "to_write std_lib" "[(''port'', C_Int 0), (''time'', C_Int64 7)]" clear_and_default] by auto
qed

section \<open>Writing and reading a recording\<close>

lemma numeric_rec:
  "numeric (''packet_size'', C_Int64 i)" "numeric (''cumul'', C_Int64 i)" "numeric (''total_packets'', C_Int64 i)"
  "numeric (''buf_division'', C_Int i)"
  by (simp_all add: numeric_def u64_settings_def int_settings_def)

text \<open>The settings \<open>stub_rec_cfg\<close> writes.\<close>

definition rec_settings :: "opt_s \<Rightarrow> setting list" where
  "rec_settings opt =
     (if has (opt_optbits opt) CAN_STRIP_BYTES
      then [(''packet_size'', C_Int64 (sint (opt_packet_size opt - word_of_int (opt_offset opt)))), (''offset_onwrite'', C_Int (opt_offset opt))]
      else [(''packet_size'', C_Int64 (sint (opt_packet_size opt)))]) @
     [(''cumul'', C_Int64 (sint (opt_cumul opt))), (''total_packets'', C_Int64 (sint (opt_total_packets opt))),
      (''buf_division'', C_Int (opt_buf_division opt))]"

lemma stub_rec_settings:
  assumes "cfglib_ok L" and "- (2 ^ 31) \<le> opt_buf_division opt" and "opt_buf_division opt < 2 ^ 31"
  shows "stub_rec_cfg L (Some opt) [] = (rec_settings opt, 0)"
  using assms by (simp add: stub_rec_cfg_def add_act_def set_act_def cfglib_ok_def rec_settings_def)

text \<open>What reading them back gives to other options.\<close>

definition reopened :: "opt_s \<Rightarrow> opt_s \<Rightarrow> opt_s" where
  "reopened opt opt2 = opt2\<lparr>opt_packet_size := (if has (opt_optbits opt) CAN_STRIP_BYTES
       then opt_packet_size opt - word_of_int (opt_offset opt) else opt_packet_size opt),
     opt_cumul := opt_cumul opt, opt_total_packets := opt_total_packets opt, opt_buf_division := opt_buf_division opt\<rparr>"

lemma ignored_setting: "apply_setting E ''offset_onwrite'' v s = accepted s v"
  by (simp add: apply_setting_def bool_settings_def u64_settings_def int_settings_def str_settings_def)

lemma read_rec_settings: "set_from_root (to_read L) (rec_settings opt) opt2 = Inr (reopened opt opt2, rec_settings opt, 0)"
  by (auto simp: rec_settings_def set_from_root_def read_numeric numeric_rec ignored_setting accepted_def upd_opt_def assign_def
      u64_settings_def int_settings_def reopened_def)

lemma check_rec_settings:
  "set_from_root (to_check L) (rec_settings opt) ((reopened opt opt2)\<lparr>opt_fi := a, opt_buf_num_elems := k\<rparr>) =
     Inr ((reopened opt opt2)\<lparr>opt_fi := a, opt_buf_num_elems := k\<rparr>, rec_settings opt, 0)"
  by (auto simp: rec_settings_def set_from_root_def check_numeric numeric_rec ignored_setting accepted_def holds_def
      u64_settings_def int_settings_def reopened_def)

lemma afi_add_first:
  assumes "al_new al = Some a" "al_strdup al" "al_files al"
  shows "afi_add al name n st ps afi_empty = Inr (\<lparr>afi_files = Some a, afi_heap = [a \<mapsto> new_index name n st ps]\<rparr>, Some a)"
  using assms
  by (simp add: afi_add_def afi_get_def walk_name.simps[of _ _ None] afi_empty_def add_to_list_mutex_free_def new_index_def
      put_fi_def Let_def)

lemma add_packets_first:
  "fi_n_packets fi = 0 \<Longrightarrow> afi_add_to_packets a n \<lparr>afi_files = Some a, afi_heap = [a \<mapsto> fi]\<rparr> =
     Inr (\<lparr>afi_files = Some a, afi_heap = [a \<mapsto> fi\<lparr>fi_n_packets := n\<rparr>]\<rparr>, n)"
  by (simp add: afi_add_to_packets_def on_fi_def put_fi_def)

lemma new_index_no_packets: "fi_n_packets (new_index name n st ps) = 0"
  by (simp add: new_index_def Let_def)

text \<open>The files of a recording: each drive holds the settings of the recording or none.\<close>

definition holds_recording :: "opt_s \<Rightarrow> cfg_files \<Rightarrow> bool" where
  "holds_recording opt files \<longleftrightarrow> (\<forall>p. files p = None \<or> files p = Some (rec_settings opt))"

lemma write_cfgs_result:
  assumes "stub_rec_cfg L (Some opt) [] = (rec_settings opt, 0)" and "opt_filename opt = Some name"
    and "\<not> has (opt_optbits opt) READMODE" and "holds_recording opt files"
  shows "\<exists>files'. write_cfgs_to_disks L dirs (\<lambda>_. True) is opt files = Inr files' \<and> holds_recording opt files' \<and>
    (\<forall>p. files p \<noteq> None \<longrightarrow> files' p \<noteq> None) \<and> (\<forall>i \<in> set is. dirs (dir_name i name) \<longrightarrow> files' (cfg_name i name) \<noteq> None)"
  using assms(4)
proof (induction "is" arbitrary: files)
  case (Cons i "is")
  let ?f = "if dirs (dir_name i name) then files(cfg_name i name \<mapsto> rec_settings opt) else files"
  have "holds_recording opt ?f" using Cons.prems by (auto simp: holds_recording_def)
  from Cons.IH[OF this] obtain files' where
    "write_cfgs_to_disks L dirs (\<lambda>_. True) is opt ?f = Inr files'" "holds_recording opt files'"
    "\<forall>p. ?f p \<noteq> None \<longrightarrow> files' p \<noteq> None" "\<forall>i \<in> set is. dirs (dir_name i name) \<longrightarrow> files' (cfg_name i name) \<noteq> None"
    by blast
  with assms(1-3) show ?case
    by (intro exI[of _ files']) (auto simp: common_writecfg_def write_cfg_for_rec_def split: if_splits)
qed simp

lemma check_drives_same:
  assumes "holds_recording opt files" and "x = (reopened opt opt2)\<lparr>opt_fi := a, opt_buf_num_elems := k\<rparr>"
  shows "check_drives L files name is x = Inr x"
proof (induction "is")
  case (Cons i "is")
  with assms(1) check_rec_settings[where L = L and opt = opt and ?opt2.0 = opt2 and a = a and k = k] show ?case
    by (auto simp: assms(2) holds_recording_def dest!: spec[of _ "cfg_name i name"])
qed simp

lemma read_drives_finds:
  assumes "holds_recording opt files" and "opt_filename opt2 = Some name" and "opt_packet_size (reopened opt opt2) \<noteq> 0"
    and "al_new al = Some a" "al_strdup al" "al_files al" and "\<exists>i \<in> set is. files (cfg_name i name) \<noteq> None"
  shows "read_drives L al files name is opt2 afi_empty =
    Inr ((reopened opt opt2)\<lparr>opt_fi := Some a,
           opt_buf_num_elems := ucast (opt_filesize opt2 div opt_packet_size (reopened opt opt2))\<rparr>,
         \<lparr>afi_files = Some a, afi_heap = [a \<mapsto> (new_index name (opt_cumul opt) AFI_SEND 0)
            \<lparr>fi_n_packets := opt_total_packets opt\<rparr>]\<rparr>, True, 0)"
  using assms(7)
proof (induction "is")
  case (Cons i "is")
  show ?case
  proof (cases "files (cfg_name i name)")
    case None
    with Cons show ?thesis by simp
  next
    case (Some root)
    then have "root = rec_settings opt" using assms(1) by (auto simp: holds_recording_def dest: spec[of _ "cfg_name i name"])
    moreover have "opt_filename (reopened opt opt2) = Some name" "opt_cumul (reopened opt opt2) = opt_cumul opt"
      "opt_total_packets (reopened opt opt2) = opt_total_packets opt" "opt_filesize (reopened opt opt2) = opt_filesize opt2"
      using assms(2) by (simp_all add: reopened_def)
    ultimately show ?thesis
      using Some assms(3-6) check_drives_same[OF assms(1) refl]
      by (simp add: read_rec_settings afi_add_first add_packets_first new_index_no_packets) (simp add: fun_eq_iff)
  qed
qed simp

text \<open>C21: A recording that ends with its settings written to its drives can be opened for sending: the options get
  its packet size (less the stripped offset), its number of files and of packets, and the file index has
  an entry with as many files and packets.\<close>

theorem recording_reopened:
  assumes "cfglib_ok L" and "- (2 ^ 31) \<le> opt_buf_division opt" and "opt_buf_division opt < 2 ^ 31"
    and "opt_filename opt = Some name" and "\<not> has (opt_optbits opt) READMODE"
    and "i \<in> set ids" and "dirs (dir_name i name)" and "0 \<le> i" and "i < opt_n_drives opt2"
    and "opt_filename opt2 = Some name" and "has (opt_optbits opt2) READMODE"
    and "\<not> has (opt_optbits opt2) WRITE_TO_SINGLE_FILE" and "opt_packet_size (reopened opt opt2) \<noteq> 0"
    and "al_new al = Some a" "al_strdup al" "al_files al"
  shows "\<exists>files. write_cfgs_to_disks L dirs (\<lambda>_. True) ids opt (\<lambda>_. None) = Inr files \<and>
    init_cfg L al files opt2 afi_empty =
      Inr ((reopened opt opt2)\<lparr>opt_fi := Some a,
             opt_buf_num_elems := ucast (opt_filesize opt2 div opt_packet_size (reopened opt opt2))\<rparr>,
           \<lparr>afi_files = Some a, afi_heap = [a \<mapsto> (new_index name (opt_cumul opt) AFI_SEND 0)
              \<lparr>fi_n_packets := opt_total_packets opt\<rparr>]\<rparr>, 0)"
proof -
  have "holds_recording opt (\<lambda>_. None)" by (simp add: holds_recording_def)
  from write_cfgs_result[OF stub_rec_settings[OF assms(1-3)] assms(4,5) this, of dirs ids]
  obtain files where f: "write_cfgs_to_disks L dirs (\<lambda>_. True) ids opt (\<lambda>_. None) = Inr files" "holds_recording opt files"
    "files (cfg_name i name) \<noteq> None" using assms(6,7) by blast
  have "\<exists>j \<in> set [0..opt_n_drives opt2 - 1]. files (cfg_name j name) \<noteq> None"
    using f(3) assms(8,9) by (intro bexI[of _ i]) auto
  from read_drives_finds[OF f(2) assms(10,13-16) this] f(1) assms(10-12) show ?thesis
    by (auto simp: init_cfg_def reopened_def)
qed

definition recorded_opt :: opt_s where
  "recorded_opt = clear_and_default\<lparr>opt_filename := Some ''exp'', opt_packet_size := 5016, opt_offset := 16,
     opt_optbits := REC_WRITEV OR CAN_STRIP_BYTES, opt_cumul := 2, opt_total_packets := 12\<rparr>"

definition sending_again :: opt_s where
  "sending_again = clear_and_default\<lparr>opt_filename := Some ''exp'', opt_optbits := READMODE, opt_filesize := 50000\<rparr>"

lemma recording_reopened_witness:
  "\<exists>files opt fis. write_cfgs_to_disks std_lib (\<lambda>_. True) (\<lambda>_. True) [0] recorded_opt (\<lambda>_. None) = Inr files \<and>
    init_cfg std_lib \<lparr>al_new = Some 3, al_strdup = True, al_files = True\<rparr> files sending_again afi_empty = Inr (opt, fis, 0) \<and>
    opt_packet_size opt = 5000 \<and> opt_cumul opt = 2 \<and> opt_buf_num_elems opt = 10"
proof -
  have "opt_packet_size (reopened recorded_opt sending_again) = 5000"
    by (simp add: reopened_def recorded_opt_def has_def flag_defs flag_def)
  then show ?thesis
    using recording_reopened[OF std_lib_ok, of recorded_opt "''exp''" 0 "[0]" "\<lambda>_. True" sending_again
      "\<lparr>al_new = Some 3, al_strdup = True, al_files = True\<rparr>" 3]
    by (auto simp: recorded_opt_def sending_again_def clear_and_default_def zero_opt_def has_def flag_defs flag_def reopened_def)
qed

text \<open>The settings \<open>stub_full_cfg\<close> prepares cannot be written: \<open>wait_nanoseconds\<close> is added as a 64-bit integer and
  handled as an \<open>int\<close>.\<close>

lemma write_full_cfg_fails: "case write_full_cfg std_lib clear_and_default of Inr (_, r) \<Rightarrow> r = - 1 | _ \<Rightarrow> False"
  by code_simp

end
