(* ===== verification/Scheduling.thy ===== *)
theory Scheduling
  imports Server ConfigFiles
begin

text \<open>
  What the daemon does with its events: nothing is started before its time, a recording that is due
  runs afterwards and is known to the file index, and the two cases in which an event that never ran
  is removed, which ends the daemon by the assertion of the file index.
\<close>

lemma set_sworld_simps [simp]:
  "sc_world (set_sworld w s) = w" "set_sworld w (set_sworld v s) = set_sworld w s"
  "set_sworld w (s\<lparr>sc_lasttick := t\<rparr>) = (set_sworld w s)\<lparr>sc_lasttick := t\<rparr>"
  "set_sworld w (s\<lparr>sc_n_scheduled := k\<rparr>) = (set_sworld w s)\<lparr>sc_n_scheduled := k\<rparr>"
  "set_sworld w (s\<lparr>sc_n_running := k\<rparr>) = (set_sworld w s)\<lparr>sc_n_running := k\<rparr>"
  "sc_world (s\<lparr>sc_lasttick := t\<rparr>) = sc_world s" "sc_world (s\<lparr>sc_n_scheduled := k\<rparr>) = sc_world s"
  "sc_world (s\<lparr>sc_n_running := k\<rparr>) = sc_world s"
  "sc_lasttick (set_sworld w s) = sc_lasttick s" "sc_n_scheduled (set_sworld w s) = sc_n_scheduled s"
  "sc_n_running (set_sworld w s) = sc_n_running s" "br_heap (sc_br (set_sworld w s)) = br_heap (sc_br s)"
  "br_rel (sc_br (set_sworld w s)) F = br_rel (sc_br s) F" "cores (sc_br (set_sworld w s)) = cores (sc_br s)"
  by (cases s; simp add: set_sworld_def sc_world_def)+

section \<open>Walking the waiting events\<close>

text \<open>\<open>event s a n e ev opt\<close>: node \<open>a\<close> holds the event \<open>e\<close> with these options.\<close>

definition event :: "schedule \<Rightarrow> addr \<Rightarrow> sworld listed_entity \<Rightarrow> scheduled_event \<Rightarrow> opt_s \<Rightarrow> bool" where
  "event s a n ev opt \<longleftrightarrow> br_heap (sc_br s) a = Some n \<and> sw_ev (sc_world s) (le_entity n) = Some ev \<and>
     sw_opt (sc_world s) (ev_opt ev) = Some opt"

definition due :: "timespec \<Rightarrow> opt_s \<Rightarrow> bool" where
  "due now opt \<longleftrightarrow> tv_sec (opt_starting_time opt) = 0 \<or> get_sec_diff now (opt_starting_time opt) \<le> SECS_TO_START_IN_ADVANCE"

definition all_early :: "timespec \<Rightarrow> schedule \<Rightarrow> addr list \<Rightarrow> bool" where
  "all_early now s as \<longleftrightarrow> (\<forall>a \<in> set as. \<exists>n ev opt. event s a n ev opt \<and> \<not> due now opt)"

lemma event_reads:
  "event s a n ev opt \<Longrightarrow> bindE (deref (br_heap (sc_br s)) (Some a)) (\<lambda>n. bindE (get_ev (le_entity n) (sc_world s)) (\<lambda>ev.
     bindE (get_sopt (ev_opt ev) (sc_world s)) (\<lambda>opt. Inr (n, opt)))) = Inr (n, opt)"
  by (simp add: event_def get_ev_def get_sopt_def)

lemma start_from_skips:
  assumes "all_early now s as" and "dseg (br_heap (sc_br s)) f p as l q"
  shows "start_from E now tick p s = start_from E now tick q s"
  using assms
proof (induction as arbitrary: f p)
  case (Cons a as)
  then obtain n ev opt where ev: "event s a n ev opt" "\<not> due now opt" and p: "p = Some a"
    by (auto simp: all_early_def)
  then have n: "br_heap (sc_br s) a = Some n" by (simp add: event_def)
  with Cons.prems(2) have "dseg (br_heap (sc_br s)) (Some a) (le_child n) as l q" by auto
  with Cons.IH[of "Some a" "le_child n"] Cons.prems(1) have "start_from E now tick (le_child n) s = start_from E now tick q s"
    by (simp add: all_early_def)
  with p event_reads[OF ev(1)] ev(2) show ?case
    by (subst start_from.simps) (simp add: due_def Let_def)
qed simp

lemma start_from_None: "start_from E now tick None s = Some (Inr s)"
  by (subst start_from.simps) simp

lemma start_nothing:
  assumes "br_rel (sc_br s) F" and "all_early now s (F Freelist)"
  shows "start_scheduled E now tick s = Inr s"
proof -
  obtain l where "dseg (br_heap (sc_br s)) None (br_lists (sc_br s) Freelist) (F Freelist) l None"
    using assms(1) unfolding br_rel_def lists_rel_def by blast
  from start_from_skips[OF assms(2) this, of E tick] show ?thesis
    by (simp add: start_scheduled_def start_from_None)
qed

section \<open>Removing an event that never ran\<close>

text \<open>An event that was scheduled and never started: its thread does not exist and it has no entry in the
  file index.\<close>

definition never_ran :: "sched_env \<Rightarrow> schedule \<Rightarrow> addr \<Rightarrow> bool" where
  "never_ran E s a \<longleftrightarrow> (\<exists>n ev opt. event s a n ev opt \<and> le_close n = free_and_close E \<and> \<not> ev_pt ev \<and>
     ev_idstring ev \<noteq> None \<and> opt_fi opt = None)"

lemma close_never_ran:
  assumes "sw_ev w e = Some ev" and "sw_opt w (ev_opt ev) = Some opt" and "\<not> ev_pt ev"
    and "ev_idstring ev = Some i" and "opt_fi opt = None"
  shows "free_and_close E e w = Inl Assert_Failed"
proof -
  have "\<exists>w1 opt1. (if opt_status opt = STATUS_FINISHED \<or> opt_status opt = STATUS_ERROR \<or> opt_status opt = STATUS_STOPPED
      then Inr w else shutdown_thread (ev_opt ev) w) = Inr w1 \<and> sw_opt w1 (ev_opt ev) = Some opt1 \<and> opt_fi opt1 = None"
    using assms(2,5) by (simp add: shutdown_thread_def get_sopt_def put_sopt_def set_status_for_opt_def)
  then obtain w1 opt1 where w1: "(if opt_status opt = STATUS_FINISHED \<or> opt_status opt = STATUS_ERROR \<or> opt_status opt = STATUS_STOPPED
      then Inr w else shutdown_thread (ev_opt ev) w) = Inr w1" and o1: "sw_opt w1 (ev_opt ev) = Some opt1" "opt_fi opt1 = None"
    by blast
  have "\<exists>w2. (if ev_socketnumber ev = 0 then bindE (remove_from_cfgsched E ev w1) (\<lambda>(w3, _). Inr w3) else Inr w1) = Inr w2 \<and>
    sw_opt w2 = sw_opt w1"
    using assms(4) by (simp add: remove_from_cfgsched_def)
  then obtain w2 where "(if ev_socketnumber ev = 0 then bindE (remove_from_cfgsched E ev w1) (\<lambda>(w3, _). Inr w3) else Inr w1) = Inr w2"
    "sw_opt w2 = sw_opt w1"
    by blast
  with w1 o1 assms(1-3) show ?thesis
    by (simp add: free_and_close_def get_ev_def get_sopt_def)
qed

lemma remove_never_ran:
  assumes "br_rel (sc_br s) F" and "a \<in> set (F b)" and "never_ran E s a"
  shows "remove_from_branch a (sc_br s) = Inl Assert_Failed"
proof -
  obtain n ev opt i where n: "event s a n ev opt" "le_close n = free_and_close E" "\<not> ev_pt ev" "ev_idstring ev = Some i"
    "opt_fi opt = None"
    using assms(3) by (auto simp: never_ran_def)
  then have "le_close n (le_entity n) (br_world (sc_br s)) = Inl Assert_Failed"
    using close_never_ran[of "sc_world s" "le_entity n" ev opt i E] by (simp add: event_def sc_world_def)
  with remove_from_branch_eq[OF assms(1,2), of n] n(1) show ?thesis by (auto simp: event_def)
qed

text \<open>The first event that is due is reached.\<close>

lemma start_reaches:
  assumes "br_rel (sc_br s) F" and "F Freelist = as @ a # bs" and "all_early now s as"
  shows "start_scheduled E now tick s = ended (start_from E now tick (Some a) s)"
proof -
  obtain l where "dseg (br_heap (sc_br s)) None (br_lists (sc_br s) Freelist) (F Freelist) l None"
    using assms(1) unfolding br_rel_def lists_rel_def by blast
  then obtain m where "dseg (br_heap (sc_br s)) None (br_lists (sc_br s) Freelist) as m (Some a)"
    using assms(2) by (auto simp: dseg_append)
  from start_from_skips[OF assms(3) this, of E tick] show ?thesis by (simp add: start_scheduled_def)
qed

lemma start_due:
  assumes "event s a n ev opt" and "due now opt" and "\<not> too_old opt (get_sec_diff now (opt_starting_time opt))"
  shows "start_from E now tick (Some a) s = (case start_node E now tick a s of
    Inl e \<Rightarrow> Some (Inl e) | Inr s1 \<Rightarrow> start_from E now tick (br_lists (sc_br s1) Freelist) s1)"
  using event_reads[OF assms(1)] assms(2,3) by (subst start_from.simps) (auto simp: due_def Let_def)

text \<open>A recording whose whole interval has passed while it was waiting ends the daemon: it is removed
  without having run, and the file index asserts that it has an entry.\<close>

lemma late_recording_aborts:
  assumes "br_rel (sc_br s) F" and "F Freelist = as @ a # bs" and "all_early now s as"
    and "never_ran E s a" and "event s a n ev opt" and "due now opt"
    and "too_old opt (get_sec_diff now (opt_starting_time opt))"
  shows "start_scheduled E now tick s = Inl Assert_Failed"
proof -
  note skip = start_reaches[OF assms(1-3)]
  have "remove_from_branch a (sc_br s) = Inl Assert_Failed"
    using remove_never_ran[OF assms(1) _ assms(4), of Freelist] assms(2) by simp
  then have "start_from E now tick (Some a) s = Some (Inl Assert_Failed)"
    using event_reads[OF assms(5)] assms(6,7) by (subst start_from.simps) (auto simp: due_def on_br_def Let_def)
  then show ?thesis by (simp add: skip)
qed

section \<open>A daemon with one event\<close>

definition no_thread :: "addr \<Rightarrow> sworld \<Rightarrow> sworld" where "no_thread a w = w"
definition every_dir :: "string \<Rightarrow> bool" where "every_dir p = True"
definition fixed_new :: "schedule \<Rightarrow> addr \<times> addr \<times> addr" where "fixed_new s = (40, 50, 60)"

definition plain_env :: sched_env where
  "plain_env = \<lparr>se_thread = no_thread, se_join = 0, se_create = 0, se_write = True, se_lib = std_lib,
     se_al = \<lparr>al_new = Some 3, al_strdup = True, al_files = True\<rparr>, se_dirs = every_dir, se_ok = every_dir,
     se_disks = [0], se_new = fixed_new, se_garbage = []\<rparr>"

definition waiting_opt :: "u64 \<Rightarrow> opt_s" where
  "waiting_opt bits = clear_and_default\<lparr>opt_optbits := bits, opt_filename := Some ''exp'', opt_filesize := 100000,
     opt_packet_size := 1000, opt_time := 20, opt_starting_time := \<lparr>tv_sec = 100, tv_nsec = 0\<rparr>\<rparr>"

definition waiting_event :: scheduled_event where
  "waiting_event = (zero_schedevnt 30)\<lparr>ev_idstring := Some ''id1''\<rparr>"

definition waiting_world :: "u64 \<Rightarrow> sworld" where
  "waiting_world bits = \<lparr>sw_ev = [20 \<mapsto> waiting_event], sw_opt = [30 \<mapsto> waiting_opt bits], sw_streamer = (\<lambda>_. False),
     sw_fi = afi_empty, sw_files = (\<lambda>_. None), sw_state = [(''id1'', [])], sw_locked = False, sw_running = True\<rparr>"

definition one_waiting :: "u64 \<Rightarrow> schedule" where
  "one_waiting bits = (zero_sched clear_and_default (waiting_world bits))
     \<lparr>sc_br := \<lparr>br_lists = (\<lambda>b. if b = Freelist then Some 10 else None), br_heap = [10 \<mapsto> sched_entry plain_env 20],
        br_world = waiting_world bits\<rparr>, sc_n_scheduled := 1\<rparr>"

definition clock :: "int \<Rightarrow> timespec" where "clock n = \<lparr>tv_sec = n, tv_nsec = 0\<rparr>"

definition only_free :: "sel \<Rightarrow> addr list" where
  "only_free b = (if b = Freelist then [10] else [])"

lemma one_waiting_rel: "br_rel (sc_br (one_waiting bits)) only_free"
  by (auto simp: br_rel_def lists_rel_def one_waiting_def only_free_def members_def sched_entry_def)

lemma one_waiting_event: "event (one_waiting bits) 10 (sched_entry plain_env 20) waiting_event (waiting_opt bits)"
  by (simp add: event_def one_waiting_def sc_world_def sched_entry_def waiting_world_def waiting_event_def zero_schedevnt_def)

lemma waiting_sec_diff: "get_sec_diff (clock n) (opt_starting_time (waiting_opt bits)) = 100 - n"
  by (simp add: get_sec_diff_def clock_def waiting_opt_def BILLION_def c_div_def sgn_if abs_if)

lemma waiting_due: "due (clock n) (waiting_opt bits) \<longleftrightarrow> 99 \<le> n"
  unfolding due_def waiting_sec_diff by (auto simp: waiting_opt_def SECS_TO_START_IN_ADVANCE_def)

text \<open>The daemon starts nothing before its time: as long as no waiting event is due within a second,
  a turn of the start loop leaves the events, the options, the file index and the counters as they are.\<close>

theorem nothing_starts_early:
  assumes "br_rel (sc_br s) F" and "all_early now s (F Freelist)"
  shows "start_scheduled E now tick s = Inr s"
  by (rule start_nothing[OF assms])

lemma nothing_starts_early_witness:
  "start_scheduled plain_env (clock 98) (clock 98) (one_waiting CAPTURE_W_UDPSTREAM) = Inr (one_waiting CAPTURE_W_UDPSTREAM)"
proof -
  have "all_early (clock 98) (one_waiting CAPTURE_W_UDPSTREAM) (only_free Freelist)"
    using one_waiting_event[of CAPTURE_W_UDPSTREAM] waiting_due[of 98 CAPTURE_W_UDPSTREAM]
    by (auto simp: all_early_def only_free_def)
  then show ?thesis by (rule nothing_starts_early[OF one_waiting_rel])
qed

section \<open>Starting an event\<close>

text \<open>The options an event is started with: an open starting time is now.\<close>

definition timed :: "timespec \<Rightarrow> opt_s \<Rightarrow> opt_s" where
  "timed now opt = (if tv_sec (opt_starting_time opt) = 0
     then opt\<lparr>opt_starting_time := (opt_starting_time opt)\<lparr>tv_sec := tv_sec now\<rparr>\<rparr> else opt)"

lemma timed_simps [simp]:
  "opt_optbits (timed now opt) = opt_optbits opt" "opt_filename (timed now opt) = opt_filename opt"
  "opt_packet_size (timed now opt) = opt_packet_size opt" "opt_n_drives (timed now opt) = opt_n_drives opt"
  "opt_fi (timed now opt) = opt_fi opt" "opt_filesize (timed now opt) = opt_filesize opt"
  "opt_starting_time (timed now opt) = (if tv_sec (opt_starting_time opt) = 0
     then (opt_starting_time opt)\<lparr>tv_sec := tv_sec now\<rparr> else opt_starting_time opt)"
  by (simp_all add: timed_def)

lemma read_drives_none:
  "\<forall>i. files (cfg_name i name) = None \<Longrightarrow> read_drives L al files name is opt fis = Inr (opt, fis, False, 0)"
  by (induction "is") simp_all

lemma if_timed: "(if tv_sec (opt_starting_time opt) = 0 then opt\<lparr>opt_starting_time := (opt_starting_time opt)\<lparr>tv_sec := tv_sec now\<rparr>\<rparr>
     else opt) = timed now opt"
  by (simp add: timed_def)

text \<open>The world in which the event of \<open>start_node\<close> is started.\<close>

definition start_world :: "timespec \<Rightarrow> scheduled_event \<Rightarrow> opt_s \<Rightarrow> schedule \<Rightarrow> sworld" where
  "start_world now ev opt s = put_sopt (ev_opt ev) (timed now opt) (sc_world s)"

lemma start_node_event:
  assumes "event s a n ev opt"
  shows "start_node E now tick a s = bindE (start_event E (le_entity n) (start_world now ev opt s)) (\<lambda>(w, err).
     let s2 = (set_sworld w s)\<lparr>sc_lasttick := (if tv_sec (sc_lasttick s) = 0 then tick else sc_lasttick s),
                 sc_n_scheduled := sc_n_scheduled s - 1\<rparr> in
     if err \<noteq> 0 then on_br (remove_from_branch a) s2
     else bindE (on_br (mutex_free_change_branch Busylist a) s2) (\<lambda>s3. Inr (s3\<lparr>sc_n_running := sc_n_running s3 + 1\<rparr>)))"
  using assms
  by (simp add: start_node_def event_def get_ev_def get_sopt_def start_world_def if_timed Let_def cong: if_cong)

text \<open>Asking the daemon to send a recording that no drive and no entry of the file index knows ends the
  daemon: the start fails, the event is removed, and the file index asserts that it has an entry.\<close>

theorem unknown_recording_aborts:
  assumes "br_rel (sc_br s) F" and "F Freelist = as @ a # bs" and "all_early now s as"
    and "event s a n ev opt" and "le_close n = free_and_close E" and "\<not> ev_pt ev" and "ev_idstring ev = Some i"
    and "due now opt" and "has (opt_optbits opt) READMODE" and "\<not> has (opt_optbits opt) CAPTURE_W_LOCALSOCKET"
    and "\<not> has (opt_optbits opt) WRITE_TO_SINGLE_FILE" and "opt_filename opt = Some name"
    and "\<forall>i. sw_files (sc_world s) (cfg_name i name) = None" and "afi_get name True (sw_fi (sc_world s)) = Inr (fis, None)"
  shows "start_scheduled E now tick s = Inl Assert_Failed"
proof -
  let ?w = "start_world now ev opt s"
  let ?s2 = "(set_sworld ?w s)\<lparr>sc_lasttick := (if tv_sec (sc_lasttick s) = 0 then tick else sc_lasttick s),
                 sc_n_scheduled := sc_n_scheduled s - 1\<rparr>"
  have ev: "sw_ev (sc_world s) (le_entity n) = Some ev" "br_heap (sc_br s) a = Some n" using assms(4) by (simp_all add: event_def)
  let ?o = "(timed now opt)\<lparr>opt_fi := None\<rparr>" let ?w1 = "(put_sopt (ev_opt ev) ?o (sc_world s))\<lparr>sw_fi := fis\<rparr>"
  have "init_cfg (se_lib E) (se_al E) (sw_files ?w) (timed now opt) (sw_fi ?w) = Inr (?o, fis, - 1)"
    using assms(9,11-14) by (simp add: init_cfg_def read_drives_none start_world_def put_sopt_def)
  then have "start_event E (le_entity n) ?w = Inr (?w1, - 1)"
    using assms(10) ev by (simp add: start_event_def get_ev_def get_sopt_def start_world_def put_sopt_def Let_def)
  then have node: "start_node E now tick a s = on_br (remove_from_branch a)
      ((set_sworld ?w1 s)\<lparr>sc_lasttick := (if tv_sec (sc_lasttick s) = 0 then tick else sc_lasttick s),
        sc_n_scheduled := sc_n_scheduled s - 1\<rparr>)" (is "_ = on_br _ ?s3")
    by (simp add: start_node_event[OF assms(4)] Let_def)
  have "br_rel (sc_br ?s3) F" using assms(1) by (simp add: set_sworld_def)
  moreover have "never_ran E ?s3 a"
    using ev assms(5-7) by (auto simp: never_ran_def event_def set_sworld_def sc_world_def put_sopt_def)
  ultimately have "start_node E now tick a s = Inl Assert_Failed"
    using remove_never_ran[of ?s3 F a Freelist E] assms(2) by (simp add: node on_br_def)
  moreover have "\<not> too_old opt (get_sec_diff now (opt_starting_time opt))" using assms(9) by (simp add: too_old_def)
  ultimately show ?thesis
    using start_due[OF assms(4,8), of E tick] by (simp add: start_reaches[OF assms(1-3)])
qed

lemma unknown_recording_aborts_witness:
  "start_scheduled plain_env (clock 100) (clock 100) (one_waiting (CAPTURE_W_UDPSTREAM OR READMODE)) = Inl Assert_Failed"
proof -
  let ?b = "CAPTURE_W_UDPSTREAM OR READMODE" let ?s = "one_waiting ?b"
  have w: "sw_files (sc_world ?s) = (\<lambda>_. None)" "sw_fi (sc_world ?s) = afi_empty"
    by (simp_all add: one_waiting_def sc_world_def waiting_world_def)
  have afi: "afi_get ''exp'' True (sw_fi (sc_world ?s)) = Inr (afi_empty, None)"
    by (simp add: w afi_get_def walk_name.simps[of _ _ None] afi_empty_def)
  have "only_free Freelist = [] @ 10 # []" "all_early (clock 100) ?s []" "due (clock 100) (waiting_opt ?b)"
    "has (opt_optbits (waiting_opt ?b)) READMODE" "\<not> has (opt_optbits (waiting_opt ?b)) CAPTURE_W_LOCALSOCKET"
    "\<not> has (opt_optbits (waiting_opt ?b)) WRITE_TO_SINGLE_FILE" "opt_filename (waiting_opt ?b) = Some ''exp''"
    "\<forall>i. sw_files (sc_world ?s) (cfg_name i ''exp'') = None" "le_close (sched_entry plain_env 20) = free_and_close plain_env"
    "\<not> ev_pt waiting_event" "ev_idstring waiting_event = Some ''id1''"
    by (simp_all add: waiting_due w all_early_def only_free_def)
      (simp_all add: waiting_opt_def has_def flag_defs flag_def sched_entry_def waiting_event_def zero_schedevnt_def)
  from unknown_recording_aborts[OF one_waiting_rel this(1,2) one_waiting_event this(9,10,11,3-8) afi] show ?thesis .
qed

text \<open>C26: A waiting recording is started in one piece: its event moves to the running ones, the counters follow, its
  options are running with the entry of the file index, which is the one of a new recording, and the
  other events keep their order.\<close>

theorem due_recording_runs:
  assumes "br_rel (sc_br s) F" and "a \<in> set (F Freelist)" and "event s a n ev opt"
    and "\<not> has (opt_optbits opt) READMODE" and "\<not> has (opt_optbits opt) CAPTURE_W_LOCALSOCKET"
    and "\<not> has (opt_optbits opt) WRITE_TO_SINGLE_FILE" and "opt_filename opt = Some name" and "opt_packet_size opt \<noteq> 0"
    and "afi_add (se_al E) name 0 AFI_RECORD (opt_packet_size opt) (sw_fi (sc_world s)) = Inr (fis, Some k)"
    and "se_create E = 0"
  shows "\<exists>s' n' ev' opt'. start_node E now tick a s = Inr s' \<and> br_rel (sc_br s') (move Busylist a F) \<and>
    sc_n_running s' = sc_n_running s + 1 \<and> sc_n_scheduled s' = sc_n_scheduled s - 1 \<and> sw_fi (sc_world s') = fis \<and>
    event s' a n' ev' opt' \<and> ev_pt ev' \<and> opt_status opt' = STATUS_RUNNING \<and> opt_fi opt' = Some k"
proof -
  let ?w = "start_world now ev opt s"
  have ev: "sw_ev (sc_world s) (le_entity n) = Some ev" "br_heap (sc_br s) a = Some n" using assms(3) by (simp_all add: event_def)
  let ?o = "(timed now opt)\<lparr>opt_fi := Some k, opt_buf_num_elems := ucast (opt_filesize opt div opt_packet_size opt),
     opt_status := STATUS_RUNNING\<rparr>"
  obtain ev1 where ev1: "ev_pt ev1" "ev_opt ev1 = ev_opt ev" and
    st: "start_event E (le_entity n) ?w = Inr (put_ev (le_entity n) ev1 ((put_sopt (ev_opt ev) ?o (sc_world s))\<lparr>sw_fi := fis\<rparr>), 0)"
  proof -
    have "init_cfg (se_lib E) (se_al E) (sw_files ?w) (timed now opt) (sw_fi ?w) = Inr ((timed now opt)\<lparr>opt_fi := Some k\<rparr>, fis, 0)"
      using assms(4,6,7,9) by (simp add: init_cfg_def start_world_def put_sopt_def)
    then show ?thesis
      using assms(4,5,8,10) ev
      by (intro that[of "if has (opt_optbits opt) VERBOSE then ev\<lparr>ev_stats := True, ev_pt := True\<rparr> else ev\<lparr>ev_pt := True\<rparr>"])
         (simp_all add: start_event_def get_ev_def get_sopt_def start_world_def put_sopt_def put_ev_def num_elems_def Let_def)
  qed
  let ?s2 = "(set_sworld (put_ev (le_entity n) ev1 ((put_sopt (ev_opt ev) ?o (sc_world s))\<lparr>sw_fi := fis\<rparr>)) s)
      \<lparr>sc_lasttick := (if tv_sec (sc_lasttick s) = 0 then tick else sc_lasttick s), sc_n_scheduled := sc_n_scheduled s - 1\<rparr>"
  have "br_rel (sc_br ?s2) F" using assms(1) by simp
  moreover have "a \<in> members F" using assms(2) by (auto simp: members_def)
  ultimately obtain b1 where b1: "mutex_free_change_branch Busylist a (sc_br ?s2) = Inr b1" "br_rel b1 (move Busylist a F)"
    "cores b1 = cores (sc_br ?s2)" "br_world b1 = br_world (sc_br ?s2)"
    using change_branch_rel[of "sc_br ?s2" F a Busylist] by blast
  have "start_node E now tick a s = Inr (?s2\<lparr>sc_br := b1, sc_n_running := sc_n_running s + 1\<rparr>)"
    using st b1(1) by (simp add: start_node_event[OF assms(3)] on_br_def Let_def)
  moreover have "cores b1 a = Some (core n)" using b1(3) ev(2) by (simp add: cores_def)
  then obtain n' where "br_heap b1 a = Some n'" "le_entity n' = le_entity n"
    by (auto simp: cores_def) (metis core_fields(6))
  ultimately show ?thesis
    using b1(2,4) ev1
    by (intro exI[of _ "?s2\<lparr>sc_br := b1, sc_n_running := sc_n_running s + 1\<rparr>"] exI[of _ n'] exI[of _ ev1] exI[of _ ?o])
       (simp add: event_def sc_world_def set_sworld_def put_ev_def put_sopt_def)
qed

lemma due_recording_runs_witness:
  "\<exists>s' n' ev' opt'. start_node plain_env (clock 99) (clock 99) 10 (one_waiting CAPTURE_W_UDPSTREAM) = Inr s' \<and>
     br_rel (sc_br s') (move Busylist 10 only_free) \<and> sc_n_running s' = 1 \<and> sc_n_scheduled s' = 0 \<and>
     event s' 10 n' ev' opt' \<and> opt_status opt' = STATUS_RUNNING \<and> opt_fi opt' = Some 3"
proof -
  let ?b = "CAPTURE_W_UDPSTREAM" let ?s = "one_waiting ?b"
  have "\<exists>fis. afi_add (se_al plain_env) ''exp'' 0 AFI_RECORD (opt_packet_size (waiting_opt ?b)) (sw_fi (sc_world ?s)) = Inr (fis, Some 3)"
    by (simp add: one_waiting_def waiting_world_def sc_world_def plain_env_def afi_add_first)
  then obtain fis where fis: "afi_add (se_al plain_env) ''exp'' 0 AFI_RECORD (opt_packet_size (waiting_opt ?b)) (sw_fi (sc_world ?s)) =
      Inr (fis, Some 3)" by blast
  have n: "sc_n_running ?s = 0" "sc_n_scheduled ?s = 1" by (simp_all add: one_waiting_def zero_sched_def)
  have "\<not> has (opt_optbits (waiting_opt ?b)) READMODE" "\<not> has (opt_optbits (waiting_opt ?b)) CAPTURE_W_LOCALSOCKET"
    "\<not> has (opt_optbits (waiting_opt ?b)) WRITE_TO_SINGLE_FILE" "opt_filename (waiting_opt ?b) = Some ''exp''"
    "opt_packet_size (waiting_opt ?b) \<noteq> 0" "se_create plain_env = 0" "10 \<in> set (only_free Freelist)"
    by (simp_all add: waiting_opt_def has_def flag_defs flag_def plain_env_def only_free_def)
  from due_recording_runs[OF one_waiting_rel this(7) one_waiting_event this(1-5) fis this(6), of "clock 99" "clock 99"] n
  show ?thesis by auto
qed

end
