(* ===== verification/EventLists.thy ===== *)
theory EventLists
  imports Scheduling
begin

text \<open>
  The two lists of events of the daemon: every step of the main loop keeps them well formed, whatever the threads do and
  the schedule file holds, and the walks over them end.
\<close>

section \<open>The invariant\<close>

text \<open>The waiting and the running events form the two lists of the branch, nothing is loaded, and the two
  counters together are never below the number of events.\<close>

definition events_ok :: "schedule \<Rightarrow> bool" where
  "events_ok s \<longleftrightarrow> (\<exists>F. br_rel (sc_br s) F \<and> F Loadedlist = [] \<and>
     int (length (F Freelist) + length (F Busylist)) \<le> sc_n_scheduled s + sc_n_running s)"

lemma events_ok_world [simp]: "events_ok (set_sworld w s) = events_ok s"
  by (simp add: events_ok_def)

lemma events_ok_lasttick [simp]: "events_ok (s\<lparr>sc_lasttick := t\<rparr>) = events_ok s"
  by (simp add: events_ok_def)

lemma branch_of:
  assumes "br_rel b F" and "a \<in> set (F x)"
  obtains n where "br_heap b a = Some n" "le_current_branch n = x"
  using lists_rel_node[of b F a x] assms by (auto simp: br_rel_def)

lemma one_list:
  assumes "br_rel b F" and "a \<in> set (F x)" and "a \<in> set (F y)"
  shows "x = y"
  using branch_of[OF assms(1,2)] branch_of[OF assms(1,3)] by (metis option.inject)

lemma distinct_list: "br_rel b F \<Longrightarrow> distinct (F x)"
  unfolding br_rel_def lists_rel_def by blast

lemma member_lists:
  assumes "br_rel b F" and "F Loadedlist = []" and "br_heap b a = Some n"
  obtains "le_current_branch n = Freelist" "a \<in> set (F Freelist)" | "le_current_branch n = Busylist" "a \<in> set (F Busylist)"
proof -
  from assms(1,3) have "a \<in> members F" by (auto simp: br_rel_def)
  then obtain x where x: "a \<in> set (F x)" by (auto simp: members_def)
  from branch_of[OF assms(1) x] assms(3) have "le_current_branch n = x" by auto
  with x assms(2) that show ?thesis by (cases x) auto
qed

lemma length_removed: "br_rel b F \<Longrightarrow> a \<in> set (F x) \<Longrightarrow> Suc (length (removeAll a (F x))) = length (F x)"
  using distinct_remove1_removeAll[of "F x" a] distinct_list[of b F x] length_remove1[of a "F x"] length_pos_if_in_set[of a "F x"]
  by simp

lemma removed_rel:
  assumes "br_rel b F" and "a \<in> set (F x)" and "remove_from_branch a b = Inr b1"
  shows "br_rel b1 (F(x := removeAll a (F x)))"
proof -
  obtain n where n: "br_heap b a = Some n" using branch_of[OF assms(1,2)] .
  obtain s1 where "remove_from_branch a b = bindE (le_close n (le_entity n) (br_world b)) (\<lambda>(w, _).
      Inr (s1\<lparr>br_world := w, br_heap := (br_heap s1)(a := None)\<rparr>))"
    using remove_from_branch_eq[OF assms(1,2) n] .
  with assms(3) obtain w r where "le_close n (le_entity n) (br_world b) = Inr (w, r)" by (auto split: prod.splits)
  from remove_from_branch_rel[OF assms(1,2) n this] assms(3) show ?thesis by auto
qed

lemma events_ok_move:
  assumes "br_rel (sc_br s) F" and "F Loadedlist = []" and "a \<in> set (F Freelist)"
  shows "\<exists>b1. mutex_free_change_branch Busylist a (sc_br s) = Inr b1 \<and> br_rel b1 (move Busylist a F) \<and>
    move Busylist a F Loadedlist = [] \<and>
    length (move Busylist a F Freelist) + length (move Busylist a F Busylist) = length (F Freelist) + length (F Busylist)"
proof -
  have "a \<notin> set (F Busylist)" using one_list[OF assms(1,3), of Busylist] by auto
  moreover have "a \<in> members F" using assms(3) by (auto simp: members_def)
  ultimately show ?thesis
    using change_branch_rel[OF assms(1), of a Busylist] assms(2) length_removed[OF assms(1,3)] by (auto simp: move_def)
qed


text \<open>The pointer to the first node of a list of nodes.\<close>

definition first_of :: "addr list \<Rightarrow> addr option" where
  "first_of as = (case as of [] \<Rightarrow> None | a # _ \<Rightarrow> Some a)"

lemma first_of_simps [simp]: "first_of [] = None" "first_of (a # as) = Some a"
  by (simp_all add: first_of_def)

lemma dseg_first: "dseg h f p as l None \<Longrightarrow> p = first_of as"
  by (cases as) auto

lemma branch_seg:
  assumes "br_rel b F"
  obtains l where "dseg (br_heap b) None (br_lists b x) (F x) l None"
  using assms unfolding br_rel_def lists_rel_def by blast

lemma list_head: "br_rel b F \<Longrightarrow> br_lists b x = first_of (F x)"
  by (erule branch_seg[of b F x]) (rule dseg_first)

lemma list_next:
  assumes "br_rel b F" and "F x = as @ a # bs" and "br_heap b a = Some n"
  shows "le_child n = first_of bs"
proof -
  obtain l where "dseg (br_heap b) None (br_lists b x) (F x) l None" by (rule branch_seg[OF assms(1)])
  then obtain m p where "dseg (br_heap b) m p (a # bs) l None" using assms(2) by (auto simp: dseg_append)
  then have "dseg (br_heap b) (Some a) (le_child n) bs l None" using assms(3) by auto
  then show ?thesis by (rule dseg_first)
qed

lemma list_node:
  assumes "br_rel b F" and "F Loadedlist = []" and "br_heap b a = Some n"
  obtains x as bs where "F x = as @ a # bs"
  using assms
proof (cases rule: member_lists)
  case 1 then show ?thesis using that by (meson split_list)
next
  case 2 then show ?thesis using that by (meson split_list)
qed

text \<open>\<open>lists_ok s F\<close>: the lists of \<open>s\<close> are \<open>F\<close>.\<close>

definition lists_ok :: "schedule \<Rightarrow> (sel \<Rightarrow> addr list) \<Rightarrow> bool" where
  "lists_ok s F \<longleftrightarrow> br_rel (sc_br s) F \<and> F Loadedlist = [] \<and>
     int (length (F Freelist) + length (F Busylist)) \<le> sc_n_scheduled s + sc_n_running s"

lemma events_okI: "lists_ok s F \<Longrightarrow> events_ok s"
  by (auto simp: events_ok_def lists_ok_def)

lemma events_okE:
  assumes "events_ok s"
  obtains F where "lists_ok s F"
  using assms by (auto simp: events_ok_def lists_ok_def)

lemma lists_ok_world [simp]: "lists_ok (set_sworld w s) F = lists_ok s F" "lists_ok (s\<lparr>sc_lasttick := t\<rparr>) F = lists_ok s F"
  by (simp_all add: lists_ok_def)

text \<open>Removing an event takes it out of its list and leaves the counters.\<close>

lemma lists_remove:
  assumes "br_rel (sc_br s) F" and "F Loadedlist = []" and "F x = as @ a # bs"
    and "on_br (remove_from_branch a) s = Inr s1"
  shows "br_rel (sc_br s1) (F(x := as @ bs)) \<and> x \<noteq> Loadedlist \<and> sc_n_scheduled s1 = sc_n_scheduled s \<and> sc_n_running s1 = sc_n_running s"
proof -
  obtain b1 where b1: "remove_from_branch a (sc_br s) = Inr b1" "s1 = s\<lparr>sc_br := b1\<rparr>"
    using assms(4) by (auto simp: on_br_def)
  have "removeAll a (F x) = as @ bs" using distinct_list[OF assms(1), of x] assms(3) by simp
  with removed_rel[OF assms(1) _ b1(1), of x] assms(3) have "br_rel b1 (F(x := as @ bs))" by simp
  then show ?thesis using assms(2,3) b1(2) by auto
qed

lemma lists_ok_remove:
  assumes "lists_ok s F" and "F x = as @ a # bs" and "on_br (remove_from_branch a) s = Inr s1"
  shows "lists_ok s1 (F(x := as @ bs)) \<and> lists_ok (s1\<lparr>sc_n_running := sc_n_running s1 - 1\<rparr>) (F(x := as @ bs))"
  using assms lists_remove[of s F x as a bs s1] by (cases x) (auto simp: lists_ok_def)

section \<open>The walks end and keep the lists\<close>

lemma start_node_ok:
  assumes "lists_ok s F" and "F Freelist = as @ a # bs" and "start_node E now tick a s = Inr s1"
  obtains F1 where "lists_ok s1 F1" "length (F1 Freelist) < length (F Freelist)"
proof -
  obtain n ev opt where ev: "event s a n ev opt"
    using assms(3) by (auto simp: start_node_def event_def get_ev_def get_sopt_def deref_eq_Inr)
  let ?s2 = "\<lambda>w. (set_sworld w s)\<lparr>sc_lasttick := (if tv_sec (sc_lasttick s) = 0 then tick else sc_lasttick s),
                 sc_n_scheduled := sc_n_scheduled s - 1\<rparr>"
  obtain w err where st: "start_event E (le_entity n) (start_world now ev opt s) = Inr (w, err)"
    using assms(3) unfolding start_node_event[OF ev] by (elim bindE_InrE) force
  have r: "(if err \<noteq> 0 then on_br (remove_from_branch a) (?s2 w)
     else bindE (on_br (mutex_free_change_branch Busylist a) (?s2 w)) (\<lambda>s3. Inr (s3\<lparr>sc_n_running := sc_n_running s3 + 1\<rparr>))) = Inr s1"
    using assms(3) unfolding start_node_event[OF ev] st by (simp add: Let_def)
  have br: "br_rel (sc_br (?s2 w)) F" "F Loadedlist = []" using assms(1) by (simp_all add: lists_ok_def)
  show thesis
  proof (cases "err = 0")
    case True
    from events_ok_move[OF br, of a] assms(2) obtain b1 where b1: "mutex_free_change_branch Busylist a (sc_br (?s2 w)) = Inr b1"
      "br_rel b1 (move Busylist a F)" "move Busylist a F Loadedlist = []"
      "length (move Busylist a F Freelist) + length (move Busylist a F Busylist) = length (F Freelist) + length (F Busylist)" by auto
    have "s1 = (?s2 w)\<lparr>sc_br := b1, sc_n_running := sc_n_running s + 1\<rparr>" using r True b1(1) by (auto simp: on_br_def)
    then have "lists_ok s1 (move Busylist a F)" using b1(2-4) assms(1) by (simp add: lists_ok_def)
    moreover have "a \<notin> set (F Busylist)" using one_list[OF br(1), of a Freelist Busylist] assms(2) by auto
    then have "length (move Busylist a F Freelist) < length (F Freelist)"
      using length_removed[OF br(1), of a Freelist] assms(2) by (simp add: move_def)
    ultimately show thesis by (rule that)
  next
    case False
    with r have "on_br (remove_from_branch a) (?s2 w) = Inr s1" by simp
    from lists_remove[OF br assms(2) this] assms(1,2) show thesis
      by (intro that[of "F(Freelist := as @ bs)"]) (auto simp: lists_ok_def)
  qed
qed

lemma start_from_ends:
  assumes "lists_ok s F" and "F Freelist = as @ bs"
  shows "\<exists>r. start_from E now tick (first_of bs) s = Some r \<and> (\<forall>s1. r = Inr s1 \<longrightarrow> events_ok s1)"
  using assms
proof (induction "length (F Freelist)" arbitrary: F s as bs rule: less_induct)
  case less
  show ?case using less.prems
  proof (induction bs arbitrary: as)
    case Nil
    then show ?case by (auto simp: start_from_None intro: events_okI)
  next
    case (Cons a bs)
    note rest = Cons.IH[of "as @ [a]"]
    have br: "br_rel (sc_br s) F" using Cons.prems(1) by (simp add: lists_ok_def)
    show ?case
    proof (cases "bindE (deref (br_heap (sc_br s)) (Some a)) (\<lambda>n. bindE (get_ev (le_entity n) (sc_world s)) (\<lambda>ev.
               bindE (get_sopt (ev_opt ev) (sc_world s)) (\<lambda>opt. Inr (n, opt))))")
      case (Inl e)
      then show ?thesis by (subst start_from.simps) simp
    next
      case (Inr r)
      obtain n opt where r: "r = (n, opt)" by (cases r)
      from Inr r have n: "br_heap (sc_br s) a = Some n" by (auto simp: deref_eq_Inr)
      note child = list_next[OF br Cons.prems(2) n]
      note step = start_from.simps[of E now tick "Some a" s]
      consider "\<not> due now opt" | "due now opt" "too_old opt (get_sec_diff now (opt_starting_time opt))"
        | "due now opt" "\<not> too_old opt (get_sec_diff now (opt_starting_time opt))" by blast
      then show ?thesis
      proof cases
        case 1
        then have "start_from E now tick (Some a) s = start_from E now tick (first_of bs) s"
          unfolding step using Inr r child by (simp add: due_def Let_def)
        then show ?thesis using rest Cons.prems by simp
      next
        case 2
        then have e: "start_from E now tick (Some a) s = (case on_br (remove_from_branch a) s of
            Inl e \<Rightarrow> Some (Inl e) | Inr s1 \<Rightarrow> start_from E now tick (le_child n) s1)"
          unfolding step using Inr r by (auto simp add: due_def Let_def)
        show ?thesis
        proof (cases "on_br (remove_from_branch a) s")
          case (Inr s1)
          from lists_ok_remove[OF Cons.prems(1,2) this] have "lists_ok s1 (F(Freelist := as @ bs))" by blast
          from less.hyps[OF _ this, of as bs] Cons.prems(2) e Inr child show ?thesis by simp
        qed (simp add: e)
      next
        case 3
        then have e: "start_from E now tick (Some a) s = (case start_node E now tick a s of
            Inl e \<Rightarrow> Some (Inl e) | Inr s1 \<Rightarrow> start_from E now tick (br_lists (sc_br s1) Freelist) s1)"
          unfolding step using Inr r child by (auto simp add: due_def Let_def)
        show ?thesis
        proof (cases "start_node E now tick a s")
          case (Inr s1)
          from start_node_ok[OF Cons.prems(1,2) this] obtain F1 where F1: "lists_ok s1 F1" "length (F1 Freelist) < length (F Freelist)" .
          then have "br_lists (sc_br s1) Freelist = first_of (F1 Freelist)" using list_head by (auto simp: lists_ok_def)
          with less.hyps[OF F1(2,1), of "[]" "F1 Freelist"] e Inr show ?thesis by simp
        qed (simp add: e)
      qed
    qed
  qed
qed


lemma start_scheduled_ok:
  assumes "events_ok s"
  shows "\<exists>r. start_from E now tick (br_lists (sc_br s) Freelist) s = Some r"
    and "start_scheduled E now tick s = Inr s1 \<Longrightarrow> events_ok s1"
proof -
  obtain F where F: "lists_ok s F" by (rule events_okE[OF assms])
  then have "br_lists (sc_br s) Freelist = first_of (F Freelist)" using list_head by (auto simp: lists_ok_def)
  with start_from_ends[OF F, of "[]" "F Freelist" E now tick]
  obtain r where "start_from E now tick (br_lists (sc_br s) Freelist) s = Some r" "\<forall>s1. r = Inr s1 \<longrightarrow> events_ok s1" by auto
  then show "\<exists>r. start_from E now tick (br_lists (sc_br s) Freelist) s = Some r"
    and "start_scheduled E now tick s = Inr s1 \<Longrightarrow> events_ok s1"
    by (simp_all add: start_scheduled_def)
qed

lemma finish_from_None: "finish_from None s = Some (Inr s)"
  by (subst finish_from.simps) simp

lemma finish_from_ends:
  assumes "lists_ok s F" and "F Busylist = as @ bs"
  shows "\<exists>r. finish_from (first_of bs) s = Some r \<and> (\<forall>s1. r = Inr s1 \<longrightarrow> events_ok s1)"
  using assms
proof (induction bs arbitrary: s F as)
  case Nil
  then show ?case by (auto simp: finish_from_None intro: events_okI)
next
  case (Cons a bs)
  have br: "br_rel (sc_br s) F" using Cons.prems(1) by (simp add: lists_ok_def)
  show ?case
  proof (cases "bindE (deref (br_heap (sc_br s)) (Some a)) (\<lambda>n. bindE (get_ev (le_entity n) (sc_world s)) (\<lambda>ev.
             bindE (get_sopt (ev_opt ev) (sc_world s)) (\<lambda>opt. Inr (n, opt))))")
    case (Inl e)
    then show ?thesis by (subst finish_from.simps) simp
  next
    case (Inr r)
    obtain n opt where r: "r = (n, opt)" by (cases r)
    from Inr r have n: "br_heap (sc_br s) a = Some n" by (auto simp: deref_eq_Inr)
    note child = list_next[OF br Cons.prems(2) n]
    note step = finish_from.simps[of "Some a" s]
    show ?thesis
    proof (cases "has (opt_status opt) (STATUS_FINISHED OR STATUS_ERROR OR STATUS_CANCELLED OR STATUS_STOPPED)")
      case True
      show ?thesis
      proof (cases "on_br (remove_from_branch a) s")
        case e: (Inl e)
        then show ?thesis using Inr r True by (simp add: step del: deref_simps)
      next
        case s1: (Inr s1)
        let ?s1 = "s1\<lparr>sc_n_running := sc_n_running s1 - 1, sc_lasttick := (if sc_n_running s1 - 1 = 0 then ZEROTIME else sc_lasttick s1)\<rparr>"
        from lists_ok_remove[OF Cons.prems s1] have "lists_ok ?s1 (F(Busylist := as @ bs))" by simp
        from Cons.IH[OF this, of as] show ?thesis using Inr r True s1 child by (simp add: step)
      qed
    next
      case False
      with Cons.IH[OF Cons.prems(1), of "as @ [a]"] Cons.prems(2) show ?thesis using Inr r child by (simp add: step)
    qed
  qed
qed

lemma check_finished_ok:
  assumes "events_ok s"
  shows "\<exists>r. finish_from (br_lists (sc_br s) Busylist) s = Some r"
    and "check_finished s = Inr s1 \<Longrightarrow> events_ok s1"
proof -
  obtain F where F: "lists_ok s F" by (rule events_okE[OF assms])
  then have "br_lists (sc_br s) Busylist = first_of (F Busylist)" using list_head by (auto simp: lists_ok_def)
  with finish_from_ends[OF F, of "[]" "F Busylist"]
  obtain r where "finish_from (br_lists (sc_br s) Busylist) s = Some r" "\<forall>s1. r = Inr s1 \<longrightarrow> events_ok s1" by auto
  then show "\<exists>r. finish_from (br_lists (sc_br s) Busylist) s = Some r" and "check_finished s = Inr s1 \<Longrightarrow> events_ok s1"
    by (simp_all add: check_finished_def)
qed


lemma drop_event_ok:
  assumes "lists_ok s F" and "drop_event le s = Inr s1"
  obtains F1 where "lists_ok s1 F1" "length (F1 Freelist) + length (F1 Busylist) < length (F Freelist) + length (F Busylist)"
proof -
  obtain n ev opt where ev: "event s le n ev opt"
    using assms(2) by (auto simp: drop_event_def event_def get_ev_def get_sopt_def)
  have br: "br_rel (sc_br s) F" "F Loadedlist = []" using assms(1) by (simp_all add: lists_ok_def)
  obtain x as bs where x: "F x = as @ le # bs" using list_node[OF br, of le n] ev by (auto simp: event_def)
  obtain w i j where r: "on_br (remove_from_branch le) ((set_sworld w s)\<lparr>sc_n_scheduled := i, sc_n_running := j\<rparr>) = Inr s1"
    and ij: "i + j = sc_n_scheduled s + sc_n_running s - 1"
  proof (cases "opt_status opt = STATUS_RUNNING")
    case True
    with assms(2) ev show ?thesis
      by (intro that[where w = "put_sopt (ev_opt ev) (opt\<lparr>opt_status := STATUS_CANCELLED\<rparr>) (sc_world s)" and i = "sc_n_scheduled s" and j = "sc_n_running s - 1"];
          cases s; auto simp: drop_event_def event_def get_ev_def get_sopt_def set_sworld_def sc_world_def)
  next
    case False
    with assms(2) ev show ?thesis
      by (intro that[where w = "sc_world s" and i = "sc_n_scheduled s - 1" and j = "sc_n_running s"])
         (auto simp: drop_event_def event_def get_ev_def get_sopt_def set_sworld_def sc_world_def)
  qed
  from lists_remove[OF _ br(2) x r] br(1) ij assms(1) x show thesis
    by (intro that[of "F(x := as @ bs)"]; cases x) (auto simp: lists_ok_def)
qed

lemma drop_missing_ends:
  assumes "lists_ok s F"
  shows "\<exists>r. drop_missing s = Some r \<and> (\<forall>s1. r = Inr s1 \<longrightarrow> events_ok s1)"
  using assms
proof (induction "length (F Freelist) + length (F Busylist)" arbitrary: F s rule: less_induct)
  case less
  show ?case
  proof (cases "get_from_all CHECK_BY_NOTFOUND (sc_br s)")
    case (Inl e)
    then show ?thesis by (subst drop_missing.simps) simp
  next
    case found: (Inr r)
    show ?thesis
    proof (cases r)
      case None
      with found less.prems show ?thesis by (subst drop_missing.simps) (auto intro: events_okI)
    next
      case (Some q)
      obtain le b where q: "q = (le, b)" by (cases q)
      note step = drop_missing.simps[of s, unfolded found Some q, simplified]
      show ?thesis
      proof (cases "drop_event le s")
        case (Inl e)
        then show ?thesis by (simp add: step)
      next
        case (Inr s1)
        obtain F1 where F1: "lists_ok s1 F1" "length (F1 Freelist) + length (F1 Busylist) < length (F Freelist) + length (F Busylist)"
          by (rule drop_event_ok[OF less.prems Inr])
        from less.hyps[OF F1(2,1)] show ?thesis by (simp add: step Inr)
      qed
    qed
  qed
qed

lemma drop_missing_ok:
  assumes "events_ok s"
  shows "\<exists>r. drop_missing s = Some r" and "ended (drop_missing s) = Inr s1 \<Longrightarrow> events_ok s1"
proof -
  obtain F where F: "lists_ok s F" by (rule events_okE[OF assms])
  obtain r where "drop_missing s = Some r" "\<forall>s1. r = Inr s1 \<longrightarrow> events_ok s1" using drop_missing_ends[OF F] by blast
  then show "\<exists>r. drop_missing s = Some r" and "ended (drop_missing s) = Inr s1 \<Longrightarrow> events_ok s1" by simp_all
qed

lemma zerofound_ok: "events_ok s \<Longrightarrow> zerofound s = Inr s1 \<Longrightarrow> events_ok s1"
  by (auto simp: zerofound_def)

section \<open>New events\<close>

text \<open>Every address that is handed out for a node is free.\<close>

definition fresh_nodes :: "sched_env \<Rightarrow> bool" where
  "fresh_nodes E \<longleftrightarrow> (\<forall>s. events_ok s \<longrightarrow> br_heap (sc_br s) (fst (se_new E s)) = None)"

lemma enter_event_ok:
  assumes "lists_ok s F" and "br_heap (sc_br s) le = None" and "enter_event E le e opt s = Inr (s1, r)"
  shows "events_ok s1"
proof -
  have br: "br_rel (sc_br s) F" "F Loadedlist = []" using assms(1) by (simp_all add: lists_ok_def)
  define G where "G = F(Freelist := F Freelist @ [le])"
  have G: "G Freelist = F Freelist @ [le]" "G Busylist = F Busylist" "G Loadedlist = []" "G(Freelist := F Freelist) = F"
    by (simp_all add: G_def br(2) fun_upd_idem)
  obtain b1 where b1: "add_to_entlist le (put_le le (sched_entry E e) (sc_br s)) = Inr b1" "br_rel b1 G"
    unfolding G_def using add_to_entlist_rel[OF br(1) assms(2), of "sched_entry E e"] that by blast
  show ?thesis
  proof (cases "has (opt_optbits opt) CAPTURE_W_LOCALSOCKET")
    case False
    then have "s1 = s\<lparr>sc_br := b1, sc_n_scheduled := sc_n_scheduled s + 1\<rparr>"
      using assms(3) b1(1) by (auto simp: enter_event_def on_br_def)
    then show ?thesis using assms(1) b1(2) G by (intro events_okI[of _ G]) (simp add: lists_ok_def)
  next
    case True
    obtain w err where st: "start_event E e (br_world b1) = Inr (w, err)"
      using assms(3) True b1(1) by (auto simp: enter_event_def on_br_def sc_world_def)
    let ?s2 = "set_sworld w (s\<lparr>sc_br := b1\<rparr>)"
    have b2: "br_rel (sc_br ?s2) G" "G Loadedlist = []" using b1(2) G by simp_all
    have r: "(if err \<noteq> 0 then bindE (on_br (remove_from_branch le) ?s2) (\<lambda>s3. Inr (s3, 0))
       else bindE (on_br (mutex_free_change_branch Busylist le) ?s2) (\<lambda>s3. Inr (s3\<lparr>sc_n_running := sc_n_running s3 + 1\<rparr>, 0))) = Inr (s1, r)"
      using assms(3) True b1(1) st by (simp add: enter_event_def on_br_def sc_world_def Let_def cong: if_cong)
    show ?thesis
    proof (cases "err = 0")
      case False
      with r have r1: "on_br (remove_from_branch le) ?s2 = Inr s1" by auto
      have "br_rel (sc_br s1) F \<and> sc_n_scheduled s1 = sc_n_scheduled ?s2 \<and> sc_n_running s1 = sc_n_running ?s2"
        using lists_remove[OF b2 _ r1, of Freelist "F Freelist" "[]"] G by simp
      with assms(1) show ?thesis
        by (intro events_okI[of _ F]) (auto simp: lists_ok_def set_sworld_def)
    next
      case True
      obtain b3 where b3: "mutex_free_change_branch Busylist le (sc_br ?s2) = Inr b3"
        "br_rel b3 (move Busylist le G)" "move Busylist le G Loadedlist = []"
        "length (move Busylist le G Freelist) + length (move Busylist le G Busylist) = Suc (length (F Freelist) + length (F Busylist))"
        using events_ok_move[OF b2, of le] G by auto
      have "s1 = ?s2\<lparr>sc_br := b3, sc_n_running := sc_n_running s + 1\<rparr>"
        using r True b3(1) by (auto simp: on_br_def set_sworld_def)
      then show ?thesis using assms(1) b3(2-4) by (intro events_okI[of _ "move Busylist le G"]) (simp add: lists_ok_def)
    qed
  qed
qed


lemma add_recording_ok:
  assumes "fresh_nodes E" and "events_ok s" and "add_recording E root sock s = Inr (s1, r)"
  shows "events_ok s1"
proof -
  obtain F where F: "lists_ok s F" by (rule events_okE[OF assms(2)])
  obtain le e o1 where new: "se_new E s = (le, e, o1)" by (metis prod.exhaust)
  with assms(1,2) have le: "br_heap (sc_br s) le = None" by (auto simp: fresh_nodes_def)
  have enter: "enter_event E le e opt (set_sworld w s) = Inr (s1, r) \<Longrightarrow> events_ok s1" for opt w
    by (rule enter_event_ok[of "set_sworld w s" F le E e opt s1 r]) (simp_all add: F le)
  from assms(2,3) show ?thesis
    by (auto simp: add_recording_def new Let_def split: if_splits option.splits prod.splits dest!: enter)
qed

lemma check_settings_ok:
  assumes "fresh_nodes E" and "events_ok s" and "check_settings E cs s = Inr s1"
  shows "events_ok s1"
  using assms
proof (induction cs arbitrary: s)
  case (Cons c cs)
  obtain name settings where c: "c = (name, settings)" by (cases c)
  from Cons.prems(3) obtain r where r: "get_from_all (CHECK_BY_IDSTRING name) (sc_br s) = Inr r" by (auto simp: c)
  show ?case
  proof (cases r)
    case None
    with Cons.prems(3) r obtain s2 i where add: "add_recording E (Some (name, settings)) 0 s = Inr (s2, i)" "check_settings E cs s2 = Inr s1"
      by (auto simp: c)
    from Cons.IH[OF Cons.prems(1) add_recording_ok[OF Cons.prems(1,2) add(1)] add(2)] show ?thesis .
  next
    case (Some q)
    have marked: "check_settings E cs (set_sworld w s) = Inr s1 \<Longrightarrow> events_ok s1" for w
      by (rule Cons.IH[OF Cons.prems(1)]) (simp_all add: Cons.prems(2))
    with Some Cons.prems r show ?thesis by (cases q) (auto simp: c)
  qed
qed simp

lemma check_schedule_ok:
  assumes "fresh_nodes E" and "events_ok s" and "check_schedule E opened s = Inr (s1, r)"
  shows "events_ok s1"
proof (cases "opened < 0")
  case True
  with assms(2,3) show ?thesis by (simp add: check_schedule_def)
next
  case False
  let ?s0 = "set_sworld ((sc_world s)\<lparr>sw_locked := True\<rparr>) s"
  from assms(3) False obtain s2 s3 s4 where step: "check_settings E (sw_state (sc_world s)) ?s0 = Inr s2" "ended (drop_missing s2) = Inr s3"
    "zerofound s3 = Inr s4" and s1: "s1 = set_sworld ((sc_world s4)\<lparr>sw_locked := False\<rparr>) s4"
    by (auto simp: check_schedule_def)
  have "events_ok s2" by (rule check_settings_ok[OF assms(1) _ step(1)]) (simp add: assms(2))
  then have "events_ok s4" using drop_missing_ok(2)[OF _ step(2)] zerofound_ok[OF _ step(3)] by blast
  then show ?thesis by (simp add: s1)
qed

lemma react_ok:
  assumes "fresh_nodes E" and "events_ok s"
  shows "react_to_file E t s = Inr s1 \<Longrightarrow> events_ok s1" and "react_to_socket E t s = Inr s1 \<Longrightarrow> events_ok s1"
proof -
  have check: "check_schedule E (tn_opened t) (set_sworld w s) = Inr (s2, r) \<Longrightarrow> events_ok s2" for w s2 r
    by (rule check_schedule_ok[OF assms(1)]) (simp_all add: assms(2))
  show "react_to_file E t s = Inr s1 \<Longrightarrow> events_ok s1"
    using assms(2) by (auto simp: react_to_file_def stop_running_def split: if_splits dest!: check)
  show "react_to_socket E t s = Inr s1 \<Longrightarrow> events_ok s1"
    using assms add_recording_ok[OF assms(1), of s]
    by (auto simp: react_to_socket_def handle_localsocket_def split: if_splits)
qed

lemma server_turn_ok:
  assumes "fresh_nodes E" and "events_ok s" and "server_turn E t s = Inr s1"
  shows "events_ok s1"
proof -
  let ?s0 = "set_sworld (tn_threads t (sc_world s)) s"
  from assms(3) obtain s2 s3 s4 s5 where step: "start_scheduled E (tn_now t) (tn_tick t) ?s0 = Inr s2" "react_to_file E t s2 = Inr s3"
    "react_to_socket E t s3 = Inr s4" "check_finished s4 = Inr s5" and s1: "s1 = (if tn_alive t then s5 else stop_running s5)"
    by (auto simp: server_turn_def)
  have "events_ok s2" by (rule start_scheduled_ok(2)[OF _ step(1)]) (simp add: assms(2))
  then have "events_ok s5"
    using react_ok[OF assms(1)] check_finished_ok(2) step(2-4) by blast
  then show ?thesis by (simp add: s1 stop_running_def)
qed

lemma server_loop_ok: "fresh_nodes E \<Longrightarrow> events_ok s \<Longrightarrow> server_loop E ts s = Inr s1 \<Longrightarrow> events_ok s1"
proof (induction ts arbitrary: s)
  case (Cons t ts)
  then show ?case using server_turn_ok[OF Cons.prems(1,2), of t] by (auto split: if_splits)
qed simp

text \<open>The end: the running events are removed.\<close>

lemma end_events_ends:
  assumes "lists_ok s F" and "F Busylist = bs"
  shows "\<exists>r. end_events (first_of bs) s = Some r \<and>
    (\<forall>s1. r = Inr s1 \<longrightarrow> (\<exists>F1. lists_ok s1 F1 \<and> F1 Busylist = [] \<and> F1 Freelist = F Freelist))"
  using assms
proof (induction bs arbitrary: s F)
  case Nil
  then show ?case by (subst end_events.simps) auto
next
  case (Cons a bs)
  have br: "br_rel (sc_br s) F" using Cons.prems(1) by (simp add: lists_ok_def)
  with Cons.prems obtain n where n: "br_heap (sc_br s) a = Some n" using branch_of[of "sc_br s" F a Busylist] by auto
  have F: "F Busylist = [] @ a # bs" using Cons.prems(2) by simp
  note child = list_next[OF br F n]
  show ?case
  proof (cases "on_br (remove_from_branch a) s")
    case (Inl e)
    with n show ?thesis by (subst end_events.simps) simp
  next
    case (Inr s1)
    from lists_ok_remove[OF Cons.prems(1) F Inr] have "lists_ok s1 (F(Busylist := bs))" by simp
    from Cons.IH[OF this] Inr n child show ?thesis by (subst end_events.simps) simp
  qed
qed

lemma events_ok_start: "events_ok (zero_sched opt w)"
  by (auto simp: events_ok_def zero_sched_def br_rel_def lists_rel_def members_def intro!: exI[of _ "\<lambda>_. []"])

section \<open>Properties\<close>

text \<open>C24: The lists of the daemon are well formed whatever happens: from its start, for every content and change
  of the schedule file, every clock, every effect of the streamer threads and every local client, each node is in exactly one of
  the waiting and the running list, and the counters cover the events. When the daemon
  ends, no event is left in the running list.\<close>

theorem daemon_keeps_events:
  assumes "fresh_nodes E" and "server_main E opened turns default_opt w = Inr (s, r)"
  shows "events_ok s \<and> (r = 0 \<longrightarrow> br_lists (sc_br s) Busylist = None)"
proof (cases "check_default_options_for_nonlogicals default_opt = 0")
  case False
  with assms(2) events_ok_start[of default_opt w] show ?thesis by (auto simp: server_main_def)
next
  case True
  then obtain s0 err where s0: "check_schedule E opened (zero_sched default_opt (w\<lparr>sw_running := True\<rparr>)) = Inr (s0, err)"
    and r: "(if err \<noteq> 0 then Inr (s0, err) else bindE (server_loop E turns s0) (\<lambda>s1.
          bindE (ended (end_events (br_lists (sc_br s1) Busylist) s1)) (\<lambda>s2. Inr (s2, 0)))) = Inr (s, r)"
    using assms(2) by (auto simp: server_main_def)
  note ok = check_schedule_ok[OF assms(1) events_ok_start s0]
  show ?thesis
  proof (cases "err = 0")
    case False
    with r ok show ?thesis by auto
  next
    case True
    with r obtain s1 where s1: "server_loop E turns s0 = Inr s1" "ended (end_events (br_lists (sc_br s1) Busylist) s1) = Inr s" by auto
    from server_loop_ok[OF assms(1) ok s1(1)] obtain F where F: "lists_ok s1 F" by (rule events_okE)
    from list_head[of "sc_br s1" F Busylist] F
    have "br_lists (sc_br s1) Busylist = first_of (F Busylist)" by (simp add: lists_ok_def)
    with end_events_ends[OF F refl] s1(2) obtain F1 where F1: "lists_ok s F1" "F1 Busylist = []" by auto
    with list_head[of "sc_br s" F1 Busylist] events_okI[OF F1(1)] show ?thesis by (auto simp: lists_ok_def)
  qed
qed

text \<open>A daemon whose schedule holds one recording: it waits, is started, ends and is removed.\<close>

definition first_free :: "schedule \<Rightarrow> addr \<times> addr \<times> addr" where
  "first_free s = (let k = hd (filter (\<lambda>a. br_heap (sc_br s) a = None) [0 ..< Suc (nat (sc_n_scheduled s + sc_n_running s))]) in (k, k, k))"

lemma first_free_fresh:
  assumes "events_ok s"
  shows "br_heap (sc_br s) (fst (first_free s)) = None"
proof -
  obtain F where F: "br_rel (sc_br s) F" "F Loadedlist = []" "int (length (F Freelist) + length (F Busylist)) \<le> sc_n_scheduled s + sc_n_running s"
    using assms by (auto simp: events_ok_def)
  let ?n = "nat (sc_n_scheduled s + sc_n_running s)"
  have "x = Freelist \<or> x = Busylist \<or> x = Loadedlist" for x :: sel by (cases x) auto
  then have "dom (br_heap (sc_br s)) = set (F Freelist @ F Busylist)"
    using F(1,2) by (auto simp: br_rel_def members_def) (metis empty_iff list.set(1))
  then have "card (dom (br_heap (sc_br s))) \<le> ?n"
    using F(3) card_length[of "F Freelist @ F Busylist"] by simp
  moreover have "card {0 ..< Suc ?n} = Suc ?n" by simp
  ultimately have "\<not> {0 ..< Suc ?n} \<subseteq> dom (br_heap (sc_br s))"
    using card_mono[of "dom (br_heap (sc_br s))" "{0 ..< Suc ?n}"] \<open>dom (br_heap (sc_br s)) = _\<close> by fastforce
  then have "filter (\<lambda>a. br_heap (sc_br s) a = None) [0 ..< Suc ?n] \<noteq> []"
    by (auto simp: filter_empty_conv simp del: upt_Suc)
  then have "hd (filter (\<lambda>a. br_heap (sc_br s) a = None) [0 ..< Suc ?n]) \<in> set (filter (\<lambda>a. br_heap (sc_br s) a = None) [0 ..< Suc ?n])"
    by (rule hd_in_set)
  then show ?thesis by (simp add: first_free_def Let_def del: upt_Suc)
qed

definition fresh_env :: sched_env where
  "fresh_env = plain_env\<lparr>se_new := first_free\<rparr>"

definition default_opt :: opt_s where
  "default_opt = clear_and_default\<lparr>opt_filesize := 100000, opt_packet_size := 1000\<rparr>"

definition one_recording :: sworld where
  "one_recording = (waiting_world 0)\<lparr>sw_ev := (\<lambda>_. None), sw_opt := (\<lambda>_. None),
     sw_state := [(''id1'', [(''filename'', C_Str (Some ''exp'')), (''starting_time'', C_Int64 100), (''time'', C_Int64 20), (''record'', C_Int 1)])]\<rparr>"

definition all_finished :: "sworld \<Rightarrow> sworld" where
  "all_finished w = w\<lparr>sw_opt := (\<lambda>a. map_option (\<lambda>opt. opt\<lparr>opt_status := STATUS_FINISHED\<rparr>) (sw_opt w a))\<rparr>"

definition idle_turn :: "(sworld \<Rightarrow> sworld) \<Rightarrow> int \<Rightarrow> turn" where
  "idle_turn th n = \<lparr>tn_threads = th, tn_now = clock n, tn_tick = clock n, tn_poll = 0, tn_file = False, tn_file_error = False,
     tn_edit = (\<lambda>cs. cs), tn_opened = 3, tn_socket = False, tn_client = 0, tn_alive = True\<rparr>"

definition short_run :: "schedule \<times> int \<Rightarrow> bool" where
  "short_run r = (snd r = 0 \<and> sc_n_running (fst r) = 0 \<and> sw_state (sc_world (fst r)) = [])"

lemma daemon_keeps_events_witness:
  "\<exists>s. server_main fresh_env 3 [idle_turn id 98, idle_turn id 99, idle_turn all_finished 120] default_opt one_recording = Inr (s, 0) \<and>
     events_ok s \<and> br_lists (sc_br s) Busylist = None"
proof -
  have "case server_main fresh_env 3 [idle_turn id 98, idle_turn id 99, idle_turn all_finished 120] default_opt one_recording of
      Inr r \<Rightarrow> short_run r | Inl e \<Rightarrow> False"
    by code_simp
  then obtain s where s: "server_main fresh_env 3 [idle_turn id 98, idle_turn id 99, idle_turn all_finished 120] default_opt one_recording = Inr (s, 0)"
    by (auto simp: short_run_def split: sum.splits)
  have "fresh_nodes fresh_env" by (simp add: fresh_nodes_def fresh_env_def first_free_fresh)
  from daemon_keeps_events[OF this s] s show ?thesis by blast
qed

text \<open>C25: The daemon's walks over its events always come to an end: starting what is due, dropping what has
  left the schedule file, removing what has finished and removing the rest at the end.\<close>

theorem event_walks_end:
  assumes "events_ok s"
  shows "start_from E now tick (br_lists (sc_br s) Freelist) s \<noteq> None \<and> drop_missing s \<noteq> None \<and>
    finish_from (br_lists (sc_br s) Busylist) s \<noteq> None \<and> end_events (br_lists (sc_br s) Busylist) s \<noteq> None"
proof -
  obtain F where F: "lists_ok s F" by (rule events_okE[OF assms])
  then have "end_events (br_lists (sc_br s) Busylist) s \<noteq> None"
    using end_events_ends[OF F refl] list_head[of "sc_br s" F Busylist] by (auto simp: lists_ok_def)
  then show ?thesis
    using start_scheduled_ok(1)[OF assms, of E now tick] drop_missing_ok(1)[OF assms] check_finished_ok(1)[OF assms] by auto
qed

lemma event_walks_end_witness:
  "start_from plain_env (clock 99) (clock 99) (Some 10) (one_waiting CAPTURE_W_UDPSTREAM) \<noteq> None"
proof -
  have "events_ok (one_waiting CAPTURE_W_UDPSTREAM)"
    using one_waiting_rel[of CAPTURE_W_UDPSTREAM] by (auto simp: events_ok_def only_free_def one_waiting_def zero_sched_def intro!: exI[of _ only_free])
  from event_walks_end[OF this, of plain_env "clock 99" "clock 99"] show ?thesis by (simp add: one_waiting_def)
qed

end
