(* ===== verification/CommandLine.thy ===== *)
theory CommandLine
  imports Server Writers
begin

text \<open>
  The command line (\<open>parse_options\<close> of \<open>src/streamer.c\<close>) and the order in which the daemon puts its
  options together (\<open>main\<close> of \<open>src/server.c\<close>).

  \<open>getopt\<close> is the one of the C library: it takes the options out of the arguments wherever they stand and leaves the
  operands, and a later call goes on with what the one before has left. What the program asks of the system is
  the argument \<open>cmd_env\<close>: the configuration files, which log files can be opened, the contents of fresh memory, and
  the memory limit.
\<close>

section \<open>The options among the arguments\<close>

definition OPTSTRING :: string where
  "OPTSTRING = ''d:i:t:s:n:m:w:p:q:ur:a:vVI:A:W:xc:hf:''"

text \<open>Whether an option is known and takes an argument.\<close>

fun takes_arg :: "string \<Rightarrow> char \<Rightarrow> bool option" where
  "takes_arg [] c = None"
| "takes_arg (x # xs) c = (if c = CHR '':'' then None
     else if x = c then Some (case xs of y # _ \<Rightarrow> y = CHR '':'' | [] \<Rightarrow> False) else takes_arg xs c)"

type_synonym opt_arg = "char \<times> string option"

text \<open>The options of one word, with the arguments after it.\<close>

fun cluster :: "string \<Rightarrow> string \<Rightarrow> string list \<Rightarrow> opt_arg list \<times> string list" where
  "cluster os [] args = ([], args)"
| "cluster os (c # cs) args = (case takes_arg os c of
       None \<Rightarrow> (let (rs, rest) = cluster os cs args in ((CHR ''?'', None) # rs, rest))
     | Some False \<Rightarrow> (let (rs, rest) = cluster os cs args in ((c, None) # rs, rest))
     | Some True \<Rightarrow> (if cs \<noteq> [] then ([(c, Some cs)], args)
         else (case args of [] \<Rightarrow> ([(CHR ''?'', None)], []) | a # as \<Rightarrow> ([(c, Some a)], as))))"

lemma cluster_length: "length (snd (cluster os cs args)) \<le> length args"
  by (induction os cs args rule: cluster.induct) (auto simp: Let_def split: option.splits bool.splits list.splits prod.splits)

definition is_option :: "string \<Rightarrow> bool" where
  "is_option a = (case a of c # _ # _ \<Rightarrow> c = CHR ''-'' | _ \<Rightarrow> False)"

text \<open>All options in their order, and the operands.\<close>

function getopt :: "string \<Rightarrow> string list \<Rightarrow> opt_arg list \<times> string list" where
  "getopt os [] = ([], [])"
| "getopt os (a # as) =
     (if a = ''--'' then ([], as)
      else if is_option a
      then (let (rs, rest) = cluster os (tl a) as; (qs, operands) = getopt os rest in (rs @ qs, operands))
      else (let (qs, operands) = getopt os as in (qs, a # operands)))"
  by pat_completeness auto
termination
proof (relation "measure (\<lambda>(os, as). length as)", goal_cases)
  case (2 os a as x rs rest)
  then show ?case using cluster_length[of os "tl a" as] by (metis case_prod_conv in_measure le_imp_less_Suc length_Cons snd_conv)
qed simp_all

section \<open>Reading them\<close>

definition IP_LENGTH :: nat where "IP_LENGTH = 46"
definition FILENAME_MAX :: nat where "FILENAME_MAX = 4096"
definition RLIM_INFINITY :: u64 where "RLIM_INFINITY = - 1"

record cmd_env =
  cm_cfg :: cfg_env
  cm_files :: cfg_files
  cm_log :: "string \<Rightarrow> bool"
  cm_fresh :: string
  cm_rlimit :: "u64 option"

text \<open>\<open>Gave_Up\<close>: \<open>return -1\<close>. \<open>Exited\<close>: \<open>exit(1)\<close>.\<close>

datatype parsed = Parsed opt_s | Gave_Up | Exited

text \<open>\<open>atoi\<close> of the C library: a \<open>long\<close> that stays at its limits, cut to an \<open>int\<close>.\<close>

definition atoi_int :: "string \<Rightarrow> int" where
  "atoi_int s = to_int32 (max (- (2 ^ 63)) (min (2 ^ 63 - 1) (atoi s)))"

definition bits :: "(u64 \<Rightarrow> u64) \<Rightarrow> opt_s \<Rightarrow> opt_s" where
  "bits f opt = opt\<lparr>opt_optbits := f (opt_optbits opt)\<rparr>"

definition parse_capture :: "string \<Rightarrow> opt_s \<Rightarrow> parsed" where
  "parse_capture arg opt0 =
     (let opt = bits (\<lambda>b. b AND NOT LOCKER_CAPTURE) opt0 in
      if arg = ''fanout'' then Parsed (bits (\<lambda>b. b OR CAPTURE_W_FANOUT) opt)
      else if arg = ''udpstream'' then Parsed (bits (\<lambda>b. b OR CAPTURE_W_UDPSTREAM) opt)
      else if arg = ''dummy'' then Parsed (bits (\<lambda>b. b OR CAPTURE_W_DUMMY) opt)
      else Gave_Up)"

definition parse_datatype :: "string \<Rightarrow> opt_s \<Rightarrow> parsed" where
  "parse_datatype arg opt0 =
     (let opt = bits (\<lambda>b. b AND NOT LOCKER_DATATYPE) opt0 in
      Parsed (bits (\<lambda>b. b OR
        (if arg = ''vdif'' then DATATYPE_VDIF
         else if arg = ''mark5b'' then DATATYPE_MARK5B
         else if arg = ''udpmon'' then DATATYPE_UDPMON
         else if arg = ''none'' then DATATYPE_UNKNOWN
         else DATATYPE_UNKNOWN)) opt))"

definition parse_mode :: "string \<Rightarrow> opt_s \<Rightarrow> parsed" where
  "parse_mode arg opt =
     (if arg = ''r'' then Parsed (bits (\<lambda>b. b AND NOT READMODE) opt)
      else if arg = ''s'' then Parsed (bits (\<lambda>b. b OR READMODE) opt)
      else Exited)"

definition parse_writer :: "string \<Rightarrow> opt_s \<Rightarrow> parsed" where
  "parse_writer arg opt0 =
     (let opt = bits (\<lambda>b. b AND NOT LOCKER_REC) opt0 in
      if arg = ''def'' then Parsed (bits (\<lambda>b. (b OR REC_DEF) AND NOT ASYNC_WRITE) opt)
      else if arg = ''aio'' then Parsed (bits (\<lambda>b. b OR (REC_AIO OR ASYNC_WRITE)) opt)
      else if arg = ''splice'' then Parsed (bits (\<lambda>b. (b OR REC_SPLICER) AND NOT ASYNC_WRITE) opt)
      else if arg = ''dummy''
      then Parsed (bits (\<lambda>b. (((b AND NOT LOCKER_WRITER) OR (REC_DUMMY OR WRITER_DUMMY)) AND NOT ASYNC_WRITE)) opt)
      else Gave_Up)"

text \<open>The file of option \<open>c\<close> is read under the name that stands in the fresh memory.\<close>

definition parse_cfgfile :: "cmd_env \<Rightarrow> opt_s \<Rightarrow> parsed outcome" where
  "parse_cfgfile E opt =
     bindE (read_full_cfg (cm_cfg E) (opt\<lparr>opt_cfgfile := Some (cm_fresh E)\<rparr>) (cm_files E)) (\<lambda>(opt1, ret).
       Inr (if ret \<noteq> 0 then Gave_Up else Parsed opt1))"

definition parse_rate :: "string \<Rightarrow> opt_s \<Rightarrow> parsed outcome" where
  "parse_rate arg opt =
     (let ns = atoi_int arg * 1000 in
      if to_int32 ns \<noteq> ns then Inl Undefined
      else Inr (Parsed (opt\<lparr>opt_wait_nanoseconds := ns, opt_wait_last_sent := ZEROTIME\<rparr>)))"

definition parse_hostname :: "string \<Rightarrow> opt_s \<Rightarrow> parsed outcome" where
  "parse_hostname arg opt =
     (if IP_LENGTH \<le> length arg then Inl Out_Of_Bounds else Inr (Parsed (opt\<lparr>opt_hostname := Some arg\<rparr>)))"

definition parse_one :: "cmd_env \<Rightarrow> char \<Rightarrow> string \<Rightarrow> opt_s \<Rightarrow> parsed outcome" where
  "parse_one E ret arg opt =
     (if ret = CHR ''i'' then Inr (Parsed (opt\<lparr>opt_address_to_bind_to := Some arg\<rparr>))
      else if ret = CHR ''c'' then parse_cfgfile E opt
      else if ret = CHR ''v'' then Inr (Parsed (bits (\<lambda>b. b OR VERBOSE) opt))
      else if ret = CHR ''f'' then Inr (if cm_log E arg then Parsed opt else Gave_Up)
      else if ret = CHR ''h'' then Inr Gave_Up
      else if ret = CHR ''d'' then Inr (Parsed (opt\<lparr>opt_n_drives := atoi_int arg\<rparr>))
      else if ret = CHR ''e'' then Inr (Parsed (opt\<lparr>opt_starting_time := (opt_starting_time opt)\<lparr>tv_sec := atoi_int arg\<rparr>\<rparr>))
      else if ret = CHR ''I'' then Inr (Parsed (opt\<lparr>opt_minmem := word_of_int (atoi_int arg)\<rparr>))
      else if ret = CHR ''x'' then Inr (Parsed (bits (\<lambda>b. b OR USE_RX_RING) opt))
      else if ret = CHR ''W'' then Inr (Parsed (opt\<lparr>opt_do_w_stuff_every := word_of_int (atoi_int arg) * MEG\<rparr>))
      else if ret = CHR ''A'' then Inr (Parsed (opt\<lparr>opt_maxmem := word_of_int (atoi_int arg)\<rparr>))
      else if ret = CHR ''V'' then Inr (Parsed (bits (\<lambda>b. b OR MOUNTPOINT_VERBOSE) opt))
      else if ret = CHR ''t'' then Inr (parse_capture arg opt)
      else if ret = CHR ''a'' then parse_rate arg opt
      else if ret = CHR ''r'' then Inr (Parsed (opt\<lparr>opt_rate := atoi_int arg\<rparr>))
      else if ret = CHR ''s'' then Inr (Parsed (opt\<lparr>opt_port := atoi_int arg\<rparr>))
      else if ret = CHR ''p'' then Inr (Parsed (opt\<lparr>opt_packet_size := word_of_int (atoi_int arg)\<rparr>))
      else if ret = CHR ''u'' then Inr (Parsed (bits (\<lambda>b. b OR USE_HUGEPAGE) opt))
      else if ret = CHR ''n'' then parse_hostname arg opt
      else if ret = CHR ''q'' then Inr (parse_datatype arg opt)
      else if ret = CHR ''m'' then Inr (parse_mode arg opt)
      else if ret = CHR ''w'' then Inr (parse_writer arg opt)
      else Inr Exited)"

fun parse_all :: "cmd_env \<Rightarrow> opt_arg list \<Rightarrow> opt_s \<Rightarrow> parsed outcome" where
  "parse_all E [] opt = Inr (Parsed opt)"
| "parse_all E ((ret, arg) # rs) opt =
     bindE (parse_one E ret (case arg of None \<Rightarrow> [] | Some a \<Rightarrow> a) opt) (\<lambda>p. case p of
         Parsed opt1 \<Rightarrow> parse_all E rs opt1
       | _ \<Rightarrow> Inr p)"

definition filename_arg :: "string list \<Rightarrow> opt_s \<Rightarrow> opt_s outcome" where
  "filename_arg operands opt =
     (if \<not> has (opt_optbits opt) GET_A_FILENAME_AS_ARG then Inr opt
      else case operands of [] \<Rightarrow> Inl Null_Deref
        | a # _ \<Rightarrow> if FILENAME_MAX \<le> length a then Inl Out_Of_Bounds else Inr (opt\<lparr>opt_filename := Some a\<rparr>))"

definition limit_minmem :: "u64 \<Rightarrow> opt_s \<Rightarrow> opt_s" where
  "limit_minmem lim opt = (if lim < opt_minmem opt \<and> lim \<noteq> RLIM_INFINITY then opt\<lparr>opt_minmem := lim\<rparr> else opt)"

text \<open>The result has the operands, where the next call of \<open>getopt\<close> goes on.\<close>

definition parse_options :: "cmd_env \<Rightarrow> string list \<Rightarrow> opt_s \<Rightarrow> (parsed \<times> string list) outcome" where
  "parse_options E args opt =
     (let (rs, operands) = getopt OPTSTRING args in
      bindE (parse_all E rs opt) (\<lambda>p. case p of
          Parsed opt1 \<Rightarrow> bindE (filename_arg operands opt1) (\<lambda>opt2. case cm_rlimit E of
              None \<Rightarrow> Inr (Exited, operands)
            | Some lim \<Rightarrow> Inr (Parsed (limit_minmem lim opt2), operands))
        | _ \<Rightarrow> Inr (p, operands)))"

section \<open>The options of the daemon\<close>

text \<open>\<open>cfgfile\<close> is the configuration file of the installation.\<close>

definition daemon_options :: "cmd_env \<Rightarrow> string \<Rightarrow> string list \<Rightarrow> parsed outcome" where
  "daemon_options E cfgfile args =
     bindE (parse_options E args clear_and_default) (\<lambda>(p, operands). case p of
         Parsed opt \<Rightarrow>
           if check_default_options_for_nonlogicals opt \<noteq> 0 then Inr Gave_Up
           else if opt_cfgfile opt \<noteq> None then Inr (Parsed opt)
           else bindE (read_full_cfg (cm_cfg E) (opt\<lparr>opt_cfgfile := Some cfgfile\<rparr>) (cm_files E)) (\<lambda>(opt1, err).
             if err \<noteq> 0 then Inr Gave_Up
             else bindE (parse_options E operands opt1) (\<lambda>(p1, _). Inr p1))
       | _ \<Rightarrow> Inr p)"

end
