(* ===== verification/Arguments.thy ===== *)
theory Arguments
  imports CommandLine ConfigFiles
begin

text \<open>
  What the command line does: written options are read back in their order, the file given with
  \<open>-c\<close> has no effect, and the configuration of the daemon wins over its command line.
\<close>

section \<open>Writing and reading arguments\<close>

fun written_arg :: "opt_arg \<Rightarrow> string list" where
  "written_arg (c, None) = [[CHR ''-'', c]]"
| "written_arg (c, Some a) = [[CHR ''-'', c], a]"

definition args_of :: "opt_arg list \<Rightarrow> string list \<Rightarrow> string list" where
  "args_of rs operands = concat (map written_arg rs) @ operands"

definition option_ok :: "opt_arg \<Rightarrow> bool" where
  "option_ok r = (takes_arg OPTSTRING (fst r) = Some (snd r \<noteq> None))"

lemma dash_is_no_option: "takes_arg OPTSTRING (CHR ''-'') = None"
  by code_simp

lemma getopt_operands: "\<forall>a \<in> set operands. \<not> is_option a \<Longrightarrow> getopt os operands = ([], operands)"
  by (induction operands) (auto simp: is_option_def)

lemma getopt_args_of:
  assumes "\<forall>r \<in> set rs. option_ok r" and "\<forall>a \<in> set operands. \<not> is_option a"
  shows "getopt OPTSTRING (args_of rs operands) = (rs, operands)"
  using assms(1)
proof (induction rs)
  case Nil
  then show ?case using getopt_operands[OF assms(2)] by (simp add: args_of_def)
next
  case (Cons r rs)
  obtain c a where r: "r = (c, a)" by (cases r)
  have t: "takes_arg OPTSTRING c = Some (a \<noteq> None)" using Cons.prems by (simp add: option_ok_def r)
  then have "c \<noteq> CHR ''-''" using dash_is_no_option by auto
  then show ?case
    using Cons t by (cases a) (simp_all add: args_of_def r is_option_def Let_def)
qed

lemma cluster_rest: "set (snd (cluster os cs args)) \<subseteq> set args"
proof (induction os cs args rule: cluster.induct)
  case (2 os c cs args)
  consider "takes_arg os c = None" | "takes_arg os c = Some False" | "takes_arg os c = Some True" by (metis not_None_eq)
  then show ?case using 2(1) 2(2)[of False] by cases (auto simp: Let_def split: prod.splits list.splits)
qed simp

lemma operands_no_option:
  "''--'' \<notin> set args \<Longrightarrow> \<forall>a \<in> set (snd (getopt os args)). \<not> is_option a"
proof (induction os args rule: getopt.induct)
  case (2 os a as)
  show ?case
  proof (cases "is_option a")
    case True
    obtain rs rest where c: "cluster os (tl a) as = (rs, rest)" by (cases "cluster os (tl a) as")
    with cluster_rest[of os "tl a" as] 2(3) have "''--'' \<notin> set rest" by auto
    with 2(1)[OF _ True c[symmetric] refl] 2(3) True c show ?thesis by (auto simp: Let_def split: prod.splits)
  next
    case False
    with 2 show ?thesis by (auto simp: Let_def split: prod.splits)
  qed
qed simp

section \<open>Properties\<close>


definition port_file :: cfg_files where
  "port_file name = (if name = ''/etc/vlbistreamer.conf'' then Some [(''port'', C_Int 46227)] else None)"

definition log_ok :: "string \<Rightarrow> bool" where "log_ok p = True"

definition plain_cmd :: cmd_env where
  "plain_cmd = \<lparr>cm_cfg = to_read std_lib, cm_files = port_file, cm_log = log_ok, cm_fresh = [], cm_rlimit = Some RLIM_INFINITY\<rparr>"


text \<open>The file named with \<open>-c\<close> is never read: the name is allocated and not copied, so that any two names
  give the same result.\<close>

theorem cfgfile_argument_unused:
  assumes "\<forall>r \<in> set (rs @ qs). option_ok r" and "\<forall>a \<in> set operands. \<not> is_option a"
  shows "parse_options E (args_of (rs @ (CHR ''c'', Some file1) # qs) operands) opt =
    parse_options E (args_of (rs @ (CHR ''c'', Some file2) # qs) operands) opt"
proof -
  have c: "option_ok (CHR ''c'', Some f)" for f by (simp add: option_ok_def) code_simp
  have "parse_all E (rs @ (CHR ''c'', Some file1) # qs) opt = parse_all E (rs @ (CHR ''c'', Some file2) # qs) opt"
  proof (induction rs arbitrary: opt)
    case Nil
    then show ?case by (simp add: parse_one_def)
  next
    case (Cons r rs)
    then show ?case by (cases r) (simp cong: parsed.case_cong)
  qed
  moreover have "\<forall>r \<in> set (rs @ (CHR ''c'', Some f) # qs). option_ok r" for f using assms(1) c by auto
  ultimately show ?thesis by (simp add: parse_options_def getopt_args_of[OF _ assms(2)])
qed

lemma cfgfile_argument_unused_witness:
  "parse_options plain_cmd [''-c'', ''/etc/vlbistreamer.conf''] clear_and_default = parse_options plain_cmd [''-c'', ''/nowhere''] clear_and_default"
  using cfgfile_argument_unused[of "[]" "[]" "[]" plain_cmd "''/etc/vlbistreamer.conf''" clear_and_default "''/nowhere''"]
  by (simp add: args_of_def)

text \<open>The configuration file of the daemon wins over its command line, although the arguments are parsed again after it
  was read: \<open>getopt\<close> has used them up. Nothing but the memory limit is applied to what the file has set.\<close>

theorem config_overrides_arguments:
  assumes "''--'' \<notin> set args" and "parse_options E args clear_and_default = Inr (Parsed opt, operands)"
    and "check_default_options_for_nonlogicals opt = 0" and "opt_cfgfile opt = None"
    and "read_full_cfg (cm_cfg E) (opt\<lparr>opt_cfgfile := Some cfgfile\<rparr>) (cm_files E) = Inr (opt1, 0)"
    and "\<not> has (opt_optbits opt1) GET_A_FILENAME_AS_ARG" and "cm_rlimit E = Some lim"
  shows "daemon_options E cfgfile args = Inr (Parsed (limit_minmem lim opt1))"
proof -
  have "operands = snd (getopt OPTSTRING args)"
    using assms(2) by (auto simp: parse_options_def split: prod.splits parsed.splits option.splits)
  then have "getopt OPTSTRING operands = ([], operands)"
    using getopt_operands operands_no_option[OF assms(1)] by auto
  then have "parse_options E operands opt1 = Inr (Parsed (limit_minmem lim opt1), operands)"
    using assms(6,7) by (simp add: parse_options_def filename_arg_def)
  then show ?thesis using assms(2-5) by (simp add: daemon_options_def)
qed

definition port_args :: "string list" where
  "port_args = [''-s'', ''5000'', ''-w'', ''dummy'']"

lemma config_overrides_arguments_witness:
  "\<exists>opt. daemon_options plain_cmd ''/etc/vlbistreamer.conf'' port_args = Inr (Parsed opt) \<and> opt_port opt = 46227"
proof -
  obtain opt where opt: "parse_options plain_cmd port_args clear_and_default = Inr (Parsed opt, [])"
    "check_default_options_for_nonlogicals opt = 0" "opt_cfgfile opt = None" "\<not> has (opt_optbits opt) GET_A_FILENAME_AS_ARG"
  proof -
    have "case parse_options plain_cmd port_args clear_and_default of Inr (Parsed opt, ops) \<Rightarrow> ops = [] \<and>
        check_default_options_for_nonlogicals opt = 0 \<and> opt_cfgfile opt = None \<and> \<not> has (opt_optbits opt) GET_A_FILENAME_AS_ARG | _ \<Rightarrow> False"
      by code_simp
    with that show ?thesis by (auto split: sum.splits prod.splits parsed.splits)
  qed
  have "read_full_cfg (cm_cfg plain_cmd) (opt\<lparr>opt_cfgfile := Some ''/etc/vlbistreamer.conf''\<rparr>) (cm_files plain_cmd) =
      Inr (opt\<lparr>opt_cfgfile := Some ''/etc/vlbistreamer.conf'', opt_port := 46227\<rparr>, 0)"
    by (simp add: read_full_cfg_def plain_cmd_def read_cfg_def port_file_def set_from_root_def apply_setting_def bool_settings_def
        u64_settings_def int_settings_def CFG_FULL_INT_def accepted_def upd_opt_def to_read_def)
  moreover have "''--'' \<notin> set port_args" by (simp add: port_args_def)
  moreover have "cm_rlimit plain_cmd = Some RLIM_INFINITY" by (simp add: plain_cmd_def)
  ultimately have "daemon_options plain_cmd ''/etc/vlbistreamer.conf'' port_args =
      Inr (Parsed (limit_minmem RLIM_INFINITY (opt\<lparr>opt_cfgfile := Some ''/etc/vlbistreamer.conf'', opt_port := 46227\<rparr>)))"
    using config_overrides_arguments[OF _ opt(1-3)] opt(4) by simp
  then show ?thesis by (simp add: limit_minmem_def)
qed

end
