(* ===== verification/Streamer.thy ===== *)
theory Streamer
  imports SimpleBuf BufferSizes
begin

text \<open>
  The threads of a recording (\<open>src/streamer.c\<close>): setting up the recording points and the buffers, the choice of the
  streamer for the capture mode, the thread of a recording from its start to its end, and the removal of
  buffers and recording points.

  Addresses of allocations are arguments. The asynchronous and the splice writer are the argument \<open>other\<close>; what a
  streamer does between its start and its end is part of the argument \<open>thread_env\<close>.
\<close>

section \<open>Recording points\<close>

type_synonym rec_init = "addr \<Rightarrow> addr \<Rightarrow> addr \<Rightarrow> system \<Rightarrow> (system \<times> int) outcome"

definition init_recorder :: "rec_init \<Rightarrow> addr \<Rightarrow> addr \<Rightarrow> addr \<Rightarrow> system \<Rightarrow> (system \<times> int) outcome" where
  "init_recorder other optp r le s = bindE (the_opt (Some optp) s) (\<lambda>opt.
     let kind = opt_optbits opt AND LOCKER_REC in
     if kind = REC_AIO then other optp r le s
     else if kind = REC_DUMMY then dummy_init_dummy optp r le s
     else if kind = REC_DEF then def_init_def optp r le s
     else if kind = REC_SPLICER then other optp r le s
     else if kind = REC_WRITEV then writev_init_rec_entity optp r le s
     else if kind = REC_SENDFILE then init_sendfile_writer optp r le s
     else Inr (s, - 1))"

text \<open>An error of one recording point is only logged.\<close>

fun init_recorders :: "rec_init \<Rightarrow> addr \<Rightarrow> (addr \<times> addr) list \<Rightarrow> system \<Rightarrow> system outcome" where
  "init_recorders other optp [] s = Inr s"
| "init_recorders other optp ((r, le) # places) s =
     bindE (init_recorder other optp r le s) (\<lambda>(s1, _). init_recorders other optp places s1)"

definition init_recp :: "rec_init \<Rightarrow> (nat \<Rightarrow> addr \<times> addr) option \<Rightarrow> addr \<Rightarrow> system \<Rightarrow> (system \<times> int) outcome" where
  "init_recp other places optp s = bindE (the_opt (Some optp) s) (\<lambda>opt. case places of
       None \<Rightarrow> Inr (s, - 1)
     | Some pl \<Rightarrow> bindE (init_recorders other optp (map pl [0 ..< nat (opt_n_drives opt)]) s) (\<lambda>s1. Inr (s1, 0)))"

definition close_recp :: "system \<Rightarrow> (system \<times> int) outcome" where
  "close_recp s = bindE (upd_disk (oper_to_all (\<lambda>r w. bindE (common_close r None w) (\<lambda>(w1, _, _). Inr w1)) True) s) (\<lambda>s1. Inr (s1, 0))"

section \<open>Buffers\<close>

text \<open>What a buffer gets: its record, list entry, shared memory object, block, and the result of starting its
  thread.\<close>

record buf_place =
  bp_buf :: addr
  bp_le :: addr
  bp_shm :: int
  bp_mem :: "addr option"
  bp_thread :: int

fun init_bufs :: "(addr \<Rightarrow> bufptr) \<Rightarrow> (u64 \<Rightarrow> u64) \<Rightarrow> addr \<Rightarrow> buf_place list \<Rightarrow> system \<Rightarrow> (system \<times> int) outcome" where
  "init_bufs ring bufnum optp [] s = Inr (s, 0)"
| "init_bufs ring bufnum optp (p # ps) s =
     bindE (sbuf_init ring bufnum optp (bp_buf p) (bp_le p) (bp_shm p) (bp_mem p) s) (\<lambda>(s1, err).
       if err \<noteq> 0 then Inr (s1, err)
       else if bp_thread p \<noteq> 0 then Inr (s1, bp_thread p)
       else init_bufs ring bufnum optp ps s1)"

definition init_rbufs :: "(addr \<Rightarrow> bufptr) \<Rightarrow> (u64 \<Rightarrow> u64) \<Rightarrow> addr \<Rightarrow> (nat \<Rightarrow> buf_place) \<Rightarrow> bool \<Rightarrow> system \<Rightarrow> (system \<times> int) outcome" where
  "init_rbufs ring bufnum optp places mem_ok s =
     bindE (the_opt (Some optp) s) (\<lambda>opt.
     bindE (calculate_buffer_sizes_singlefilesize opt) (\<lambda>opt1.
     bindE (upd_world (put_opt (Some optp) (\<lambda>_. opt1)) s) (\<lambda>s1.
       if \<not> mem_ok then Inr (s1, - 1)
       else init_bufs ring bufnum optp (map places [0 ..< nat (opt_n_threads opt1)]) s1)))"

text \<open>\<open>joins\<close>: the results of joining the writer threads, which end in between.\<close>

definition close_rbufs :: "int list \<Rightarrow> (system \<Rightarrow> system) \<Rightarrow> system \<Rightarrow> (system \<times> int) outcome" where
  "close_rbufs joins threads s =
     bindE (upd_mem (oper_to_all sbuf_stop_running False) s) (\<lambda>s1.
     bindE (upd_mem (oper_to_all (\<lambda>b w. bindE (sbuf_close b w) (\<lambda>(w1, _). Inr w1)) True) (threads s1)) (\<lambda>s2.
       Inr (s2, - int (length (filter (\<lambda>e. e < 0) joins)))))"

section \<open>The streamer\<close>

datatype streamer_kind = Udp_Sender | Udp_Receiver | Fanout | Dummy_Sender | Dummy_Receiver | Disk2file | Tcp

text \<open>\<open>opt->streamer_ent\<close>: without a capture bit the allocated entity is not initialised.\<close>

datatype streamer_ent = No_Streamer | Uninitialised | Streamer streamer_kind

definition streamer_for :: "opt_s \<Rightarrow> streamer_kind option" where
  "streamer_for opt =
     (let kind = opt_optbits opt AND LOCKER_CAPTURE; readmode = has (opt_optbits opt) READMODE in
      if kind = CAPTURE_W_UDPSTREAM then Some (if readmode then Udp_Sender else Udp_Receiver)
      else if kind = CAPTURE_W_FANOUT then Some Fanout
      else if kind = CAPTURE_W_DUMMY then Some (if readmode then Dummy_Sender else Dummy_Receiver)
      else if kind = CAPTURE_W_DISK2FILE then Some Disk2file
      else if kind = CAPTURE_W_TCPSTREAM \<or> kind = CAPTURE_W_MULTISTREAM \<or> kind = CAPTURE_W_TCPSPLICE then Some Tcp
      else None)"

text \<open>\<open>init\<close>: the initialisation of a streamer with its result.\<close>

definition prep_streamer :: "(streamer_kind \<Rightarrow> opt_s \<Rightarrow> opt_s \<times> int) \<Rightarrow> opt_s \<Rightarrow> opt_s \<times> streamer_ent \<times> int" where
  "prep_streamer init opt = (case streamer_for opt of
       None \<Rightarrow> (opt, Uninitialised, 0)
     | Some k \<Rightarrow> (let (opt1, err) = init k opt in if err \<noteq> 0 then (opt1, No_Streamer, - 1) else (opt1, Streamer k, 0)))"

text \<open>The environment of the thread: the files found by the recording points, the initialisation, starting and stopping a
  streamer, the clock at the start, what happens in each second of waiting, what the streamer does until it is joined,
  and whether the buffers it owned are released.\<close>

record thread_env =
  te_files :: "opt_s \<Rightarrow> opt_s outcome"
  te_init :: "streamer_kind \<Rightarrow> opt_s \<Rightarrow> opt_s \<times> int"
  te_create :: int
  te_stop :: "streamer_kind \<Rightarrow> opt_s \<Rightarrow> opt_s"
  te_clock :: timespec
  te_now :: timespec
  te_seconds :: "((opt_s \<Rightarrow> opt_s) \<times> timespec) list"
  te_rest :: "opt_s \<Rightarrow> opt_s"
  te_released :: bool

text \<open>The wait for the end of the recording, with the time at which it was left.\<close>

fun wait_end :: "((opt_s \<Rightarrow> opt_s) \<times> timespec) list \<Rightarrow> timespec \<Rightarrow> opt_s \<Rightarrow> (opt_s \<times> timespec) wait" where
  "wait_end secs now opt =
     (if tv_sec now \<le> tv_sec (opt_starting_time opt) + sint (opt_time opt) \<and> get_status_from_opt opt = STATUS_RUNNING
      then (case secs of [] \<Rightarrow> Blocked | (f, now1) # rest \<Rightarrow> wait_end rest now1 (f opt))
      else Done (opt, now))"

declare wait_end.simps [simp del]

definition watched :: "opt_s \<Rightarrow> bool" where
  "watched opt \<longleftrightarrow> \<not> has (opt_optbits opt) READMODE \<and> opt_last_packet opt = 0 \<and>
     \<not> has (opt_optbits opt) (CAPTURE_W_TCPSPLICE OR CAPTURE_W_TCPSTREAM OR CAPTURE_W_MULTISTREAM)"

definition streamer_run :: "thread_env \<Rightarrow> streamer_kind \<Rightarrow> opt_s \<Rightarrow> opt_s wait" where
  "streamer_run E k opt =
     (case (if watched opt then (case wait_end (te_seconds E) (te_now E) opt of
              Blocked \<Rightarrow> Blocked | Done (opt1, _) \<Rightarrow> Done (te_stop E k opt1)) else Done opt) of
        Blocked \<Rightarrow> Blocked
      | Done opt1 \<Rightarrow> if te_released E then Done (set_status_for_opt (te_rest E opt1) STATUS_FINISHED) else Blocked)"

definition vlbistreamer :: "thread_env \<Rightarrow> opt_s \<Rightarrow> opt_s wait outcome" where
  "vlbistreamer E opt0 =
     bindE (if has (opt_optbits opt0) READMODE then te_files E opt0 else Inr opt0) (\<lambda>opt1.
       case prep_streamer (te_init E) opt1 of (opt2, ent, err) \<Rightarrow>
         if err \<noteq> 0 then Inr (Done (set_status_for_opt opt2 STATUS_ERROR))
         else (case ent of
             Streamer k \<Rightarrow>
               let opt3 = set_status_for_opt (if has (opt_optbits opt2) (CAPTURE_W_TCPSPLICE OR CAPTURE_W_TCPSTREAM) then opt2
                          else opt2\<lparr>opt_starting_time := te_clock E\<rparr>) STATUS_RUNNING in
               if te_create E \<noteq> 0 then Inr (Done (set_status_for_opt opt3 STATUS_ERROR))
               else Inr (streamer_run E k opt3)
           | _ \<Rightarrow> Inl Undefined))"

end
