(* ===== verification/Recordings.thy ===== *)
theory Recordings
  imports Streamer BufferWriting
begin

text \<open>
  The life of a recording around its streamer: the recording points and the buffers are set up in the order of
  their numbers, a recording with a time is stopped after it, and how it ended is lost.
\<close>

section \<open>Setting up\<close>

definition modelled_writer :: "opt_s \<Rightarrow> bool" where
  "modelled_writer opt \<longleftrightarrow> opt_optbits opt AND LOCKER_REC \<in> {REC_DUMMY, REC_DEF, REC_WRITEV, REC_SENDFILE}"

lemma writer_kinds_differ:
  "REC_DUMMY \<noteq> REC_AIO" "REC_DEF \<noteq> REC_AIO" "REC_WRITEV \<noteq> REC_AIO" "REC_SENDFILE \<noteq> REC_AIO"
  "REC_DEF \<noteq> REC_DUMMY" "REC_WRITEV \<noteq> REC_DUMMY" "REC_SENDFILE \<noteq> REC_DUMMY" "REC_WRITEV \<noteq> REC_DEF"
  "REC_SENDFILE \<noteq> REC_DEF" "REC_WRITEV \<noteq> REC_SPLICER" "REC_SENDFILE \<noteq> REC_SPLICER" "REC_SENDFILE \<noteq> REC_WRITEV"
  by (simp_all add: flag_defs flag_def)

lemma init_recorder_kind:
  assumes "wd_opt (sy_world s) optp = Some opt" and "modelled_writer opt"
  obtains wr where "init_recorder other optp r le s = bindE (common_w_init wr optp r le s) (\<lambda>(s1, _). Inr (s1, 0))"
proof -
  have z: "bindE (common_w_init wr optp r le s) (\<lambda>(s1, _). Inr (s1, 0)) = common_w_init wr optp r le s" for wr
    using assms(1) by (cases "common_w_init wr optp r le s") (auto simp: common_w_init_def Let_def bindE_eq_Inr)
  from assms(2) consider "opt_optbits opt AND LOCKER_REC = REC_DUMMY" | "opt_optbits opt AND LOCKER_REC = REC_DEF"
    | "opt_optbits opt AND LOCKER_REC = REC_WRITEV" | "opt_optbits opt AND LOCKER_REC = REC_SENDFILE"
    by (auto simp: modelled_writer_def)
  then show thesis
  proof cases
    case 1 then show ?thesis
      using assms(1) writer_kinds_differ by (intro that[of Dummy_Writer]) (simp add: init_recorder_def the_opt_def get_opt_def dummy_init_dummy_def)
  next
    case 2 then show ?thesis
      using assms(1) writer_kinds_differ by (intro that[of Def_Writer]) (simp add: init_recorder_def the_opt_def get_opt_def def_init_def_def z)
  next
    case 3 then show ?thesis
      using assms(1) writer_kinds_differ by (intro that[of Writev_Writer])
        (simp add: init_recorder_def the_opt_def get_opt_def writev_init_rec_entity_def z)
  next
    case 4 then show ?thesis
      using assms(1) writer_kinds_differ by (intro that[of Sendfile_Writer])
        (simp add: init_recorder_def the_opt_def get_opt_def init_sendfile_writer_def z)
  qed
qed

text \<open>One recording point more at the end of the free list, with the next number.\<close>

lemma common_w_init_adds:
  assumes "wd_opt (sy_world s) optp = Some opt" and "br_rel (sy_disk s) F" and "br_heap (sy_disk s) le = None"
  shows "\<exists>s1 c. common_w_init wr optp r le s = Inr (s1, 0) \<and> br_rel (sy_disk s1) (F(Freelist := F Freelist @ [le])) \<and>
    sy_mem s1 = sy_mem s \<and> wd_opt (sy_world s1) = (wd_opt (sy_world s))(optp \<mapsto> opt\<lparr>opt_diskids := opt_diskids opt + 1\<rparr>) \<and>
    wd_rec (sy_world s1) = (wd_rec (sy_world s))(r \<mapsto> c) \<and> ci_id c = opt_diskids opt \<and> re_self c = le \<and>
    dom (br_heap (sy_disk s1)) = insert le (dom (br_heap (sy_disk s)))"
proof -
  let ?c = "\<lparr>re_writer = wr, re_self = le, ci_id = opt_diskids opt, ci_status = RECSTATUS_OK,
                ci_curfilename = [], ci_fd = 0, ci_offset = 0, ci_bytes_exchanged = 0, ci_filesize = 0,
                ci_opt = Some optp, ci_file_seqnum = 0, ci_shmid = 0, ci_bufstart = None\<rparr>"
  let ?w = "(sy_world s)\<lparr>wd_rec := (wd_rec (sy_world s))(r \<mapsto> ?c),
     wd_opt := (wd_opt (sy_world s))(optp \<mapsto> opt\<lparr>opt_diskids := opt_diskids opt + 1\<rparr>)\<rparr>"
  have "br_rel ((sy_disk s)\<lparr>br_world := ?w\<rparr>) F" "br_heap ((sy_disk s)\<lparr>br_world := ?w\<rparr>) le = None" using assms(2,3) by simp_all
  from add_to_entlist_rel[OF this, of "rec_entry wr r"] obtain b1 where
    b1: "add_to_entlist le (put_le le (rec_entry wr r) ((sy_disk s)\<lparr>br_world := ?w\<rparr>)) = Inr b1"
    "br_rel b1 (F(Freelist := F Freelist @ [le]))" "br_world b1 = ?w" by auto
  have "dom (br_heap b1) = insert le (dom (br_heap (sy_disk s)))"
    using b1(2) assms(2) members_upd[of F Freelist "F Freelist @ [le]"] members_split[of F Freelist] by (auto simp: br_rel_def)
  with b1 assms(1) show ?thesis
    by (intro exI[of _ "s\<lparr>sy_world := ?w, sy_disk := b1\<rparr>"] exI[of _ ?c])
      (simp add: common_w_init_def the_opt_def get_opt_def upd_world_def put_opt_def upd_disk_def add_entry_def Let_def)
qed

lemma init_recorders_rel:
  assumes "wd_opt (sy_world s) optp = Some opt" and "modelled_writer opt" and "br_rel (sy_disk s) F"
    and "\<forall>(r, le) \<in> set places. br_heap (sy_disk s) le = None" and "distinct (map fst places)" and "distinct (map snd places)"
  shows "\<exists>s1. init_recorders other optp places s = Inr s1 \<and> br_rel (sy_disk s1) (F(Freelist := F Freelist @ map snd places)) \<and>
    sy_mem s1 = sy_mem s \<and> (\<forall>r. r \<notin> fst ` set places \<longrightarrow> wd_rec (sy_world s1) r = wd_rec (sy_world s) r) \<and>
    (\<forall>i < length places. \<exists>c. wd_rec (sy_world s1) (fst (places ! i)) = Some c \<and> ci_id c = opt_diskids opt + int i \<and>
       re_self c = snd (places ! i))"
  using assms
proof (induction places arbitrary: s opt F)
  case (Cons p places)
  obtain r le where p: "p = (r, le)" by (cases p)
  obtain wr where wr: "init_recorder other optp r le s = bindE (common_w_init wr optp r le s) (\<lambda>(s1, _). Inr (s1, 0))"
    by (rule init_recorder_kind[OF Cons.prems(1,2)])
  have "br_heap (sy_disk s) le = None" using Cons.prems(4) p by simp
  from common_w_init_adds[OF Cons.prems(1,3) this, of wr r] obtain s1 c where
    s1: "common_w_init wr optp r le s = Inr (s1, 0)" "br_rel (sy_disk s1) (F(Freelist := F Freelist @ [le]))" "sy_mem s1 = sy_mem s"
    "wd_opt (sy_world s1) = (wd_opt (sy_world s))(optp \<mapsto> opt\<lparr>opt_diskids := opt_diskids opt + 1\<rparr>)"
    "wd_rec (sy_world s1) = (wd_rec (sy_world s))(r \<mapsto> c)" "ci_id c = opt_diskids opt" "re_self c = le"
    "dom (br_heap (sy_disk s1)) = insert le (dom (br_heap (sy_disk s)))" by blast
  let ?opt = "opt\<lparr>opt_diskids := opt_diskids opt + 1\<rparr>"
  have "wd_opt (sy_world s1) optp = Some ?opt" "modelled_writer ?opt" using s1(4) Cons.prems(2) by (simp_all add: modelled_writer_def)
  moreover have "\<forall>(r, le) \<in> set places. br_heap (sy_disk s1) le = None"
    using Cons.prems(4,6) s1(8) p by (fastforce simp: domIff)
  moreover have "distinct (map fst places)" "distinct (map snd places)" using Cons.prems(5,6) by simp_all
  ultimately obtain s2 where s2: "init_recorders other optp places s1 = Inr s2"
    "br_rel (sy_disk s2) ((F(Freelist := F Freelist @ [le]))(Freelist := (F(Freelist := F Freelist @ [le])) Freelist @ map snd places))"
    "sy_mem s2 = sy_mem s1" "\<forall>r. r \<notin> fst ` set places \<longrightarrow> wd_rec (sy_world s2) r = wd_rec (sy_world s1) r"
    "\<forall>i < length places. \<exists>c. wd_rec (sy_world s2) (fst (places ! i)) = Some c \<and> ci_id c = opt_diskids ?opt + int i \<and>
       re_self c = snd (places ! i)"
    using Cons.IH[of s1 ?opt "F(Freelist := F Freelist @ [le])"] s1(2) by blast
  have r: "wd_rec (sy_world s2) r = Some c" using s2(4) s1(5) Cons.prems(5) p by simp
  have "\<exists>c. wd_rec (sy_world s2) (fst ((p # places) ! i)) = Some c \<and> ci_id c = opt_diskids opt + int i \<and> re_self c = snd ((p # places) ! i)"
    if "i < length (p # places)" for i
    using that r s1(6,7) p s2(5) by (cases i) auto
  moreover have "br_rel (sy_disk s2) (F(Freelist := F Freelist @ map snd (p # places)))" using s2(2) p by simp
  moreover have "\<forall>q. q \<notin> fst ` set (p # places) \<longrightarrow> wd_rec (sy_world s2) q = wd_rec (sy_world s) q" using s2(4) s1(5) p by simp
  moreover have "init_recorders other optp (p # places) s = Inr s2" "sy_mem s2 = sy_mem s" using wr s1(1,3) s2(1,3) p by simp_all
  ultimately show ?case by blast
qed auto


text \<open>The same for the buffers, whose numbers count on and whose memory is one block each.\<close>

lemma sbuf_init_adds:
  assumes "wd_opt (sy_world s) optp = Some opt" and "\<not> has (opt_optbits opt) USE_RX_RING" and "br_rel (sy_mem s) F"
    and "br_heap (sy_mem s) le = None" and "0 \<le> shm"
  shows "\<exists>s1 be. sbuf_init ring bufnum optp b le shm (Some m) s = Inr (s1, 0) \<and> br_rel (sy_mem s1) (F(Freelist := F Freelist @ [le])) \<and>
    sy_disk s1 = sy_disk s \<and> wd_opt (sy_world s1) = (wd_opt (sy_world s))(optp \<mapsto> opt\<lparr>opt_bufculum := opt_bufculum opt + 1\<rparr>) \<and>
    wd_buf (sy_world s1) = (wd_buf (sy_world s))(b \<mapsto> be) \<and> sb_bufnum be = opt_bufculum opt \<and> be_buffer be = Some (m, 0) \<and>
    wd_mem (sy_world s1) = (wd_mem (sy_world s))(m \<mapsto> replicate (unat (opt_filesize opt)) 0) \<and>
    dom (br_heap (sy_mem s1)) = insert le (dom (br_heap (sy_mem s)))"
proof -
  let ?be = "\<lparr>be_recer = None, be_self = le, be_buffer = None, be_locked = False, sb_opt = Some optp,
                 sb_diff = 0, sb_optbits = opt_optbits opt, sb_asyncdiff = 0, sb_running = False,
                 sb_shmid = (if has (opt_optbits opt) USE_HUGEPAGE then shm else 0), sb_fileid = - 1, sb_fi = None, sb_ready_to_act = False,
                 sb_bufnum = opt_bufculum opt, sb_bufoffset = None, sb_opt_default = optp\<rparr>"
  let ?w = "(sy_world s)\<lparr>wd_buf := (wd_buf (sy_world s))(b \<mapsto> ?be),
     wd_opt := (wd_opt (sy_world s))(optp \<mapsto> opt\<lparr>opt_bufculum := opt_bufculum opt + 1\<rparr>)\<rparr>"
  have "br_rel ((sy_mem s)\<lparr>br_world := ?w\<rparr>) F" "br_heap ((sy_mem s)\<lparr>br_world := ?w\<rparr>) le = None" using assms(3,4) by simp_all
  from add_to_entlist_rel[OF this, of "sbuf_entry ring bufnum b"] obtain b1 where
    b1: "add_to_entlist le (put_le le (sbuf_entry ring bufnum b) ((sy_mem s)\<lparr>br_world := ?w\<rparr>)) = Inr b1"
    "br_rel b1 (F(Freelist := F Freelist @ [le]))" "br_world b1 = ?w" by auto
  let ?w2 = "?w\<lparr>wd_mem := (wd_mem (sy_world s))(m \<mapsto> replicate (unat (opt_filesize opt)) 0),
     wd_buf := (wd_buf (sy_world s))(b \<mapsto> ?be\<lparr>be_buffer := Some (m, 0)\<rparr>)\<rparr>"
  have "dom (br_heap b1) = insert le (dom (br_heap (sy_mem s)))"
    using b1(2) assms(3) members_upd[of F Freelist "F Freelist @ [le]"] members_split[of F Freelist] by (auto simp: br_rel_def)
  with b1 assms(1,2,5) show ?thesis
    by (intro exI[of _ "s\<lparr>sy_world := ?w2, sy_mem := b1\<rparr>"] exI[of _ "?be\<lparr>be_buffer := Some (m, 0)\<rparr>"])
      (simp add: sbuf_init_def the_opt_def get_opt_def upd_world_def put_opt_def upd_mem_def add_entry_def put_buf_def get_buf_def Let_def)
qed


definition place_ok :: "buf_place \<Rightarrow> bool" where
  "place_ok p \<longleftrightarrow> bp_thread p = 0 \<and> 0 \<le> bp_shm p \<and> bp_mem p \<noteq> None"

text \<open>The buffer of a place has its number and its own block of the size of a file.\<close>

definition has_buffer :: "system \<Rightarrow> u64 \<Rightarrow> int \<Rightarrow> buf_place \<Rightarrow> bool" where
  "has_buffer s bytes num p \<longleftrightarrow> (\<exists>be m. wd_buf (sy_world s) (bp_buf p) = Some be \<and> sb_bufnum be = num \<and> bp_mem p = Some m \<and>
     be_buffer be = Some (m, 0) \<and> wd_mem (sy_world s) m = Some (replicate (unat bytes) 0))"

lemma init_bufs_rel:
  assumes "wd_opt (sy_world s) optp = Some opt" and "\<not> has (opt_optbits opt) USE_RX_RING" and "br_rel (sy_mem s) F"
    and "\<forall>p \<in> set ps. place_ok p \<and> br_heap (sy_mem s) (bp_le p) = None"
    and "distinct (map bp_buf ps)" and "distinct (map bp_le ps)" and "distinct (map bp_mem ps)"
  shows "\<exists>s1. init_bufs ring bufnum optp ps s = Inr (s1, 0) \<and> br_rel (sy_mem s1) (F(Freelist := F Freelist @ map bp_le ps)) \<and>
    sy_disk s1 = sy_disk s \<and> (\<forall>i < length ps. has_buffer s1 (opt_filesize opt) (opt_bufculum opt + int i) (ps ! i)) \<and>
    (\<forall>b. b \<notin> bp_buf ` set ps \<longrightarrow> wd_buf (sy_world s1) b = wd_buf (sy_world s) b) \<and>
    (\<forall>m. Some m \<notin> bp_mem ` set ps \<longrightarrow> wd_mem (sy_world s1) m = wd_mem (sy_world s) m)"
  using assms
proof (induction ps arbitrary: s opt F)
  case (Cons p ps)
  let ?F = "F(Freelist := F Freelist @ [bp_le p])" let ?opt = "opt\<lparr>opt_bufculum := opt_bufculum opt + 1\<rparr>"
  obtain m where p: "bp_mem p = Some m" "bp_thread p = 0" "0 \<le> bp_shm p" "br_heap (sy_mem s) (bp_le p) = None"
    using Cons.prems(4) by (auto simp: place_ok_def)
  from sbuf_init_adds[OF Cons.prems(1-3) p(4,3), of ring bufnum "bp_buf p" m] obtain s1 be where
    s1: "sbuf_init ring bufnum optp (bp_buf p) (bp_le p) (bp_shm p) (Some m) s = Inr (s1, 0)" "br_rel (sy_mem s1) ?F" "sy_disk s1 = sy_disk s"
    "wd_opt (sy_world s1) = (wd_opt (sy_world s))(optp \<mapsto> ?opt)" "wd_buf (sy_world s1) = (wd_buf (sy_world s))(bp_buf p \<mapsto> be)"
    "sb_bufnum be = opt_bufculum opt" "be_buffer be = Some (m, 0)"
    "wd_mem (sy_world s1) = (wd_mem (sy_world s))(m \<mapsto> replicate (unat (opt_filesize opt)) 0)"
    "dom (br_heap (sy_mem s1)) = insert (bp_le p) (dom (br_heap (sy_mem s)))" by blast
  have "wd_opt (sy_world s1) optp = Some ?opt" "\<not> has (opt_optbits ?opt) USE_RX_RING" using s1(4) Cons.prems(2) by simp_all
  moreover have "br_heap (sy_mem s1) x = None" if "br_heap (sy_mem s) x = None" "x \<noteq> bp_le p" for x
    using s1(9) that by (metis domIff insertE)
  then have "\<forall>q \<in> set ps. place_ok q \<and> br_heap (sy_mem s1) (bp_le q) = None"
    using Cons.prems(4,6) by (auto simp: image_iff)
  moreover have d: "distinct (map bp_buf ps)" "distinct (map bp_le ps)" "distinct (map bp_mem ps)" using Cons.prems(5-7) by simp_all
  ultimately obtain s2 where s2: "init_bufs ring bufnum optp ps s1 = Inr (s2, 0)"
    "br_rel (sy_mem s2) (?F(Freelist := ?F Freelist @ map bp_le ps))" "sy_disk s2 = sy_disk s1"
    "\<forall>i < length ps. has_buffer s2 (opt_filesize ?opt) (opt_bufculum ?opt + int i) (ps ! i)"
    "\<forall>b. b \<notin> bp_buf ` set ps \<longrightarrow> wd_buf (sy_world s2) b = wd_buf (sy_world s1) b"
    "\<forall>m. Some m \<notin> bp_mem ` set ps \<longrightarrow> wd_mem (sy_world s2) m = wd_mem (sy_world s1) m"
    using Cons.IH[of s1 ?opt ?F] s1(2) d by blast
  have "wd_buf (sy_world s2) (bp_buf p) = Some be" using s2(5) s1(5) Cons.prems(5) by auto
  moreover have "wd_mem (sy_world s2) m = Some (replicate (unat (opt_filesize opt)) 0)" using s2(6) s1(8) Cons.prems(7) p(1) by auto
  ultimately have "has_buffer s2 (opt_filesize opt) (opt_bufculum opt) p" using s1(6,7) p(1) by (auto simp: has_buffer_def)
  then have "has_buffer s2 (opt_filesize opt) (opt_bufculum opt + int i) ((p # ps) ! i)" if "i < length (p # ps)" for i
    using that s2(4) by (cases i) (auto simp: ac_simps)
  moreover have "init_bufs ring bufnum optp (p # ps) s = Inr (s2, 0)" "sy_disk s2 = sy_disk s" using s1(1,3) s2(1,3) p by simp_all
  moreover have "br_rel (sy_mem s2) (F(Freelist := F Freelist @ map bp_le (p # ps)))" using s2(2) by simp
  moreover have "\<forall>b. b \<notin> bp_buf ` set (p # ps) \<longrightarrow> wd_buf (sy_world s2) b = wd_buf (sy_world s) b"
    "\<forall>m. Some m \<notin> bp_mem ` set (p # ps) \<longrightarrow> wd_mem (sy_world s2) m = wd_mem (sy_world s) m"
    using s2(5,6) s1(5,8) p(1) by auto
  ultimately show ?case by blast
qed auto

section \<open>The wait for the end\<close>

text \<open>What happens in the seconds of waiting does not touch the times, and each second is at least one.\<close>

definition keeps_times :: "(opt_s \<Rightarrow> opt_s) \<Rightarrow> bool" where
  "keeps_times f \<longleftrightarrow> (\<forall>opt. opt_starting_time (f opt) = opt_starting_time opt \<and> opt_time (f opt) = opt_time opt)"

definition seconds_pass :: "((opt_s \<Rightarrow> opt_s) \<times> timespec) list \<Rightarrow> timespec \<Rightarrow> bool" where
  "seconds_pass secs now \<longleftrightarrow> (\<forall>i < length secs. keeps_times (fst (secs ! i)) \<and> tv_sec now + int i + 1 \<le> tv_sec (snd (secs ! i)))"

lemma wait_end_returns:
  assumes "\<forall>i < length secs. keeps_times (fst (secs ! i)) \<and> k + int i + 1 \<le> tv_sec (snd (secs ! i))"
    and "tv_sec (opt_starting_time opt) + sint (opt_time opt) - k < int (length secs)" and "k \<le> tv_sec now"
  shows "\<exists>r. wait_end secs now opt = Done r"
  using assms
proof (induction secs arbitrary: now opt k)
  case (Cons p secs)
  obtain f t where p: "p = (f, t)" by (cases p)
  have f: "keeps_times f" "k + 1 \<le> tv_sec t" using Cons.prems(1) p by force+
  have "\<forall>i < length secs. keeps_times (fst (secs ! i)) \<and> (k + 1) + int i + 1 \<le> tv_sec (snd (secs ! i))"
    using Cons.prems(1) by (force simp: algebra_simps)
  from Cons.IH[OF this _ f(2), of "f opt"] Cons.prems(2) f(1) show ?case
    by (subst wait_end.simps) (auto simp: p keeps_times_def)
qed (subst wait_end.simps, auto)

text \<open>It is left only after the time of the recording, or because the status has changed.\<close>

lemma wait_end_not_early:
  "wait_end secs now opt = Done (opt1, t) \<Longrightarrow> get_status_from_opt opt1 = STATUS_RUNNING \<Longrightarrow>
     tv_sec (opt_starting_time opt1) + sint (opt_time opt1) < tv_sec t"
proof (induction secs arbitrary: now opt)
  case Nil
  then show ?case by (subst (asm) wait_end.simps) (auto split: if_splits)
next
  case (Cons p secs)
  then show ?case by (subst (asm) wait_end.simps) (auto split: if_splits prod.splits)
qed


section \<open>A small machine\<close>

definition two_drives :: opt_s where
  "two_drives = clear_and_default\<lparr>opt_n_drives := 2, opt_filesize := 0x40000000, opt_time := 2\<rparr>"

definition fresh_system :: system where
  "fresh_system = init_branches ((tiny_world False)\<lparr>wd_opt := [7 \<mapsto> two_drives]\<rparr>)"

definition two_places :: "nat \<Rightarrow> addr \<times> addr" where
  "two_places i = (i, i)"

definition pool_places :: "nat \<Rightarrow> buf_place" where
  "pool_places i = \<lparr>bp_buf = i, bp_le = i, bp_shm = 0, bp_mem = Some i, bp_thread = 0\<rparr>"

definition no_member :: "sel \<Rightarrow> addr list" where
  "no_member b = []"

lemma fresh_system_ok:
  "wd_opt (sy_world fresh_system) 7 = Some two_drives" "br_rel (sy_disk fresh_system) no_member"
  "br_rel (sy_mem fresh_system) no_member" "br_heap (sy_disk fresh_system) a = None" "br_heap (sy_mem fresh_system) a = None"
  by (simp_all add: fresh_system_def init_branches_def br_rel_def lists_rel_def members_def no_member_def Let_def)

lemma two_drives_ok:
  "modelled_writer two_drives" "\<not> has (opt_optbits two_drives) USE_RX_RING" "\<not> has (opt_optbits two_drives) READMODE" "watched two_drives"
  "streamer_for two_drives = Some Udp_Receiver"
  by (simp_all add: two_drives_def clear_and_default_def zero_opt_def modelled_writer_def watched_def streamer_for_def has_def flag_defs flag_def Let_def)

definition same_opt :: "opt_s \<Rightarrow> opt_s" where "same_opt opt = opt"
definition fails :: "opt_s \<Rightarrow> opt_s" where "fails opt = set_status_for_opt opt STATUS_ERROR"

definition plain_thread :: "(opt_s \<Rightarrow> opt_s) \<Rightarrow> thread_env" where
  "plain_thread rest = \<lparr>te_files = Inr, te_init = (\<lambda>k opt. (opt, 0)), te_create = 0, te_stop = (\<lambda>k opt. set_status_for_opt opt STATUS_STOPPED),
     te_clock = \<lparr>tv_sec = 100, tv_nsec = 0\<rparr>, te_now = \<lparr>tv_sec = 100, tv_nsec = 0\<rparr>,
     te_seconds = [(same_opt, \<lparr>tv_sec = 101, tv_nsec = 0\<rparr>), (same_opt, \<lparr>tv_sec = 102, tv_nsec = 0\<rparr>), (same_opt, \<lparr>tv_sec = 103, tv_nsec = 0\<rparr>)],
     te_rest = rest, te_released = True\<rparr>"

lemma plain_seconds: "seconds_pass (te_seconds (plain_thread rest)) (te_now (plain_thread rest))"
  by (auto simp: seconds_pass_def plain_thread_def keeps_times_def same_opt_def less_Suc_eq numeral_3_eq_3)

section \<open>Properties\<close>

text \<open>C28: The drives are entered in their order: after \<open>init_recp\<close> the free list of the disk branch has one more entry for each of the
  \<open>n_drives\<close> recording points, and they are numbered on from \<open>diskids\<close>, which names their directories.\<close>

theorem drives_in_order:
  assumes "wd_opt (sy_world s) optp = Some opt" and "modelled_writer opt" and "br_rel (sy_disk s) F"
    and "\<forall>i < nat (opt_n_drives opt). br_heap (sy_disk s) (snd (places i)) = None" and "inj (fst \<circ> places)" and "inj (snd \<circ> places)"
  shows "\<exists>s1. init_recp other (Some places) optp s = Inr (s1, 0) \<and>
    br_rel (sy_disk s1) (F(Freelist := F Freelist @ map (snd \<circ> places) [0 ..< nat (opt_n_drives opt)])) \<and>
    (\<forall>i < nat (opt_n_drives opt). \<exists>c. wd_rec (sy_world s1) (fst (places i)) = Some c \<and> ci_id c = opt_diskids opt + int i \<and>
       re_self c = snd (places i))"
proof -
  let ?ps = "map places [0 ..< nat (opt_n_drives opt)]"
  have "\<forall>(r, le) \<in> set ?ps. br_heap (sy_disk s) le = None" using assms(4) by (auto split: prod.splits)
  moreover have "distinct (map fst ?ps)" "distinct (map snd ?ps)"
    using assms(5,6) by (simp_all add: distinct_map inj_on_subset[of _ UNIV])
  ultimately obtain s1 where "init_recorders other optp ?ps s = Inr s1" "br_rel (sy_disk s1) (F(Freelist := F Freelist @ map snd ?ps))"
    "\<forall>i < length ?ps. \<exists>c. wd_rec (sy_world s1) (fst (?ps ! i)) = Some c \<and> ci_id c = opt_diskids opt + int i \<and> re_self c = snd (?ps ! i)"
    using init_recorders_rel[OF assms(1-3), of ?ps other] by blast
  then show ?thesis using assms(1) by (simp add: init_recp_def the_opt_def get_opt_def)
qed

lemma drives_in_order_witness:
  "\<exists>s1. init_recp (\<lambda>_ _ _ s. Inr (s, 0)) (Some two_places) 7 fresh_system = Inr (s1, 0) \<and>
    br_rel (sy_disk s1) (no_member(Freelist := [0, 1])) \<and> (\<exists>c. wd_rec (sy_world s1) 1 = Some c \<and> ci_id c = 1)"
proof -
  have "inj (fst \<circ> two_places)" "inj (snd \<circ> two_places)" by (simp_all add: inj_def two_places_def)
  from drives_in_order[OF fresh_system_ok(1) two_drives_ok(1) fresh_system_ok(2) _ this, of "\<lambda>_ _ _ s. Inr (s, 0)"]
  obtain s1 where s1: "init_recp (\<lambda>_ _ _ s. Inr (s, 0)) (Some two_places) 7 fresh_system = Inr (s1, 0)"
    "br_rel (sy_disk s1) (no_member(Freelist := no_member Freelist @ map (snd \<circ> two_places) [0 ..< nat (opt_n_drives two_drives)]))"
    "\<forall>i < nat (opt_n_drives two_drives). \<exists>c. wd_rec (sy_world s1) (fst (two_places i)) = Some c \<and>
       ci_id c = opt_diskids two_drives + int i \<and> re_self c = snd (two_places i)"
    using fresh_system_ok(4) by blast
  have n: "nat (opt_n_drives two_drives) = 2" "opt_diskids two_drives = 0"
    by (simp_all add: two_drives_def clear_and_default_def zero_opt_def)
  have "map (snd \<circ> two_places) [0 ..< 2] = [0, 1]" by (simp add: two_places_def upt_rec)
  with s1(2) n have "br_rel (sy_disk s1) (no_member(Freelist := [0, 1]))" by (simp add: no_member_def)
  moreover from s1(3) n have "\<exists>c. wd_rec (sy_world s1) 1 = Some c \<and> ci_id c = 1"
    by (auto simp: two_places_def dest: spec[of _ 1])
  ultimately show ?thesis using s1(1) by blast
qed





text \<open>How a stream ended is lost: whatever status the streamer leaves, also \<open>ERROR\<close>, the thread of the daemon ends with
  \<open>FINISHED\<close> once the streamer was started.\<close>

theorem stream_status_lost:
  assumes "streamer_for opt = Some k" and "\<not> has (opt_optbits opt) READMODE" and "te_init E k opt = (opt1, 0)" and "te_create E = 0"
    and "vlbistreamer E opt = Inr (Done opt2)"
  shows "opt_status opt2 = STATUS_FINISHED"
  using assms by (auto simp: vlbistreamer_def prep_streamer_def streamer_run_def set_status_for_opt_def Let_def split: if_splits wait.splits prod.splits)

lemma stream_status_lost_witness:
  "\<exists>opt1. vlbistreamer (plain_thread fails) two_drives = Inr (Done opt1) \<and> opt_status opt1 = STATUS_FINISHED"
proof -
  obtain opt1 where r: "vlbistreamer (plain_thread fails) two_drives = Inr (Done opt1)"
  proof -
    have "case vlbistreamer (plain_thread fails) two_drives of Inr (Done opt1) \<Rightarrow> True | _ \<Rightarrow> False" by code_simp
    with that show ?thesis by (auto split: sum.splits wait.splits)
  qed
  have "te_init (plain_thread fails) Udp_Receiver two_drives = (two_drives, 0)" "te_create (plain_thread fails) = 0"
    by (simp_all add: plain_thread_def)
  from stream_status_lost[OF two_drives_ok(5,3) this r] r show ?thesis by blast
qed

end
