(* ===== verification/TcpStream.thy ===== *)
theory TcpStream
  imports Sender
begin

text \<open>
  The TCP streamers (\<open>src/tcp_stream.c\<close>): receiving a byte stream into the files of a recording, receiving several
  connections of which each carries every m-th packet, the splice receiver, and the send commands.

  A connection is the list of what arrives on it: bytes in any portions, the end of the connection, an error, or
  another thread that sets the status while the receiver waits.
\<close>

section \<open>A connection\<close>

datatype arrival = Bytes "u8 list" | Peer_Closed | Recv_Error | Other_Thread u32

text \<open>\<open>recv\<close> for at most \<open>m\<close> bytes: its result, the bytes and what is left; \<open>None\<close> when it still waits.\<close>

fun recv :: "nat \<Rightarrow> arrival list \<Rightarrow> stream \<Rightarrow> (stream \<times> int \<times> u8 list \<times> arrival list) option" where
  "recv m [] s = None"
| "recv m (Other_Thread st # r) s = recv m r (set_status st s)"
| "recv m (Bytes bs # r) s =
     (if m = 0 then Some (s, 0, [], Bytes bs # r)
      else if bs = [] then recv m r s
      else Some (s, int (length (take m bs)), take m bs, if length bs \<le> m then r else Bytes (drop m bs) # r))"
| "recv m (Peer_Closed # r) s = Some (s, 0, [], Peer_Closed # r)"
| "recv m (Recv_Error # r) s = Some (s, - 1, [], r)"

fun net_size :: "arrival list \<Rightarrow> nat" where
  "net_size [] = 0"
| "net_size (Bytes bs # r) = Suc (length bs + net_size r)"
| "net_size (a # r) = Suc (net_size r)"

lemma recv_shrinks: "recv m as s = Some (s1, k, bs, r) \<Longrightarrow> 0 < k \<Longrightarrow> net_size r < net_size as"
  by (induction m as s rule: recv.induct) (auto split: if_splits)

section \<open>Receiving one connection\<close>

text \<open>\<open>change_buffer\<close> hands the full buffer to its writer and takes a free one. Its result is the new
  buffer.\<close>

definition change_buffer :: "stream \<Rightarrow> (stream \<times> addr option) outcome" where
  "change_buffer s =
     (let n = ucast (opt_buf_num_elems (st_opt s));
          s1 = s\<lparr>st_opt := (st_opt s)\<lparr>opt_cumul := opt_cumul (st_opt s) + 1, opt_total_packets := opt_total_packets (st_opt s) + n\<rparr>\<rparr> in
      if opt_fi (st_opt s) = None then Inl Null_Deref
      else case st_be s of None \<Rightarrow> Inl Null_Deref
        | Some b \<Rightarrow> (let (s2, be) = get_buffer (opt_cumul (st_opt s1)) (free_the_buf b (s1\<lparr>st_fi_packets := st_fi_packets s1 + n\<rparr>)) in
            Inr (s2\<lparr>st_be := be\<rparr>, be)))"

text \<open>How much is asked for at once.\<close>

definition recv_length :: "opt_s \<Rightarrow> u64 \<Rightarrow> u64 \<Rightarrow> u64" where
  "recv_length opt bufsize have =
     (if has (opt_optbits opt) USE_LARGEST_TRANSAC then bufsize - have else min (opt_packet_size opt) (bufsize - have))"

text \<open>The bytes that came are counted; \<open>a\<close> is the buffer \<open>buf_incrementer\<close> points into.\<close>

definition count_received :: "addr \<Rightarrow> int \<Rightarrow> stream \<Rightarrow> stream" where
  "count_received a k s = s\<lparr>st_so := (st_so s)\<lparr>so_total_transacted_bytes := so_total_transacted_bytes (st_so s) + word_of_int k\<rparr>,
     st_diff := (st_diff s)(a := st_diff s a + word_of_int k)\<rparr>"

text \<open>The result is \<open>Blocked\<close> while the thread waits in \<open>recv\<close>, otherwise the buffer of \<open>buf_incrementer\<close> and
  what is left on the connection.\<close>

function recv_loop :: "u64 \<Rightarrow> addr \<Rightarrow> arrival list \<Rightarrow> stream \<Rightarrow> (stream \<times> (addr \<times> arrival list) wait) outcome" where
  "recv_loop bufsize a net s =
     (if \<not> has (get_status_from_opt (st_opt s)) STATUS_RUNNING then Inr (s, Done (a, net))
      else case recv (unat (recv_length (st_opt s) bufsize (st_diff s a))) net s of
          None \<Rightarrow> Inr (s, Blocked)
        | Some (s1, k, bs, net1) \<Rightarrow>
          if k \<le> 0 then Inr (s1, Done (a, net1))
          else (case buf_write (Some (a, uint (st_diff s1 a))) bs s1 of
              Inl e \<Rightarrow> Inl e
            | Inr s2 \<Rightarrow>
              let s3 = count_received a k s2 in
              if st_diff s3 a \<noteq> bufsize then recv_loop bufsize a net1 s3
              else (case change_buffer s3 of
                  Inl e \<Rightarrow> Inl e
                | Inr (s4, None) \<Rightarrow> Inr (s4, Done (a, net1))
                | Inr (s4, Some b) \<Rightarrow> recv_loop bufsize b net1 s4)))"
  by pat_completeness auto
termination
  by (relation "measure (\<lambda>(bufsize, a, net, s). net_size net)") (auto dest: recv_shrinks)

declare recv_loop.simps [simp del]

text \<open>The last buffer: less than a packet is given up, otherwise it goes to the writer.\<close>

definition last_buffer :: "bool \<Rightarrow> addr \<Rightarrow> stream \<Rightarrow> stream outcome" where
  "last_buffer counted a s =
     (let c = st_diff s a; opt = st_opt s in
      if c = 0 \<or> c < opt_packet_size opt
      then (if st_be s = None then Inl Null_Deref else Inr (s\<lparr>st_diff := (st_diff s)(a := 0), st_be := None\<rparr>))
      else if opt_fi opt = None then Inl Null_Deref
      else if opt_packet_size opt = 0 then Inl Div_By_Zero
      else case st_be s of None \<Rightarrow> Inl Null_Deref
        | Some b \<Rightarrow> Inr (free_the_buf b (s\<lparr>st_fi_packets := st_fi_packets s + c div opt_packet_size opt,
            st_opt := opt\<lparr>opt_cumul := opt_cumul opt + 1, opt_total_packets :=
              (if counted then opt_total_packets opt + c div opt_packet_size opt else opt_total_packets opt)\<rparr>\<rparr>)))"

definition mark_stopped :: "stream \<Rightarrow> stream" where
  "mark_stopped s = (if has (get_status_from_opt (st_opt s)) STATUS_ERROR then s else set_status STATUS_STOPPED s)"

definition loop_with_recv :: "arrival list \<Rightarrow> stream \<Rightarrow> (stream \<times> int run wait) outcome" where
  "loop_with_recv net s =
     (case get_buffer (opt_cumul (st_opt s)) s of
        (s1, None) \<Rightarrow> Inr (s1\<lparr>st_be := None\<rparr>, Done Thread_Exit)
      | (s1, Some a) \<Rightarrow> bindE (recv_loop (CALC_BUFSIZE_FROM_OPT (st_opt s)) a net (s1\<lparr>st_be := Some a\<rparr>)) (\<lambda>(s2, r). case r of
            Blocked \<Rightarrow> Inr (s2, Blocked)
          | Done (b, _) \<Rightarrow> bindE (last_buffer True b s2) (\<lambda>s3. Inr (mark_stopped s3, Done (Return 0)))))"


section \<open>The splice receiver\<close>

text \<open>The descriptor of the first buffer is kept, with its file position, when the buffer changes: what goes to position \<open>pos\<close> or
  beyond the memory of that buffer extends its object. The connection is read through \<open>tcp_fd\<close>, which only the other two
  modes accept.\<close>

definition extend_at :: "nat \<Rightarrow> u8 list \<Rightarrow> u8 list \<Rightarrow> u8 list" where
  "extend_at pos bs d = take pos (d @ replicate (pos - length d) 0) @ bs @ drop (pos + length bs) d"

function splice_loop :: "u64 \<Rightarrow> addr \<Rightarrow> nat \<Rightarrow> addr \<Rightarrow> arrival list \<Rightarrow> stream \<Rightarrow> (stream \<times> addr wait) outcome" where
  "splice_loop bufsize out pos a net s =
     (if \<not> has (get_status_from_opt (st_opt s)) STATUS_RUNNING then Inr (s, Done a)
      else case recv (unat (bufsize - st_diff s a)) net s of
          None \<Rightarrow> Inr (s, Blocked)
        | Some (s1, k, bs, net1) \<Rightarrow>
          if k \<le> 0 then Inr (s1, Done a)
          else let s2 = count_received a k (s1\<lparr>st_data := (st_data s1)(out := extend_at pos bs (st_data s1 out))\<rparr>) in
            if st_diff s2 a \<noteq> bufsize then splice_loop bufsize out (pos + length bs) a net1 s2
            else (case change_buffer s2 of
                Inl e \<Rightarrow> Inl e
              | Inr (s3, None) \<Rightarrow> Inr (s3, Done a)
              | Inr (s3, Some b) \<Rightarrow> splice_loop bufsize out (pos + length bs) b net1 s3))"
  by pat_completeness auto
termination
  by (relation "measure (\<lambda>(bufsize, out, pos, a, net, s). net_size net)") (auto dest: recv_shrinks)

declare splice_loop.simps [simp del]

text \<open>Here only an empty buffer is given up, and the packets of the last one are not counted.\<close>

definition splice_last_buffer :: "addr \<Rightarrow> stream \<Rightarrow> stream outcome" where
  "splice_last_buffer a s =
     (let c = st_diff s a; opt = st_opt s in
      if c = 0 then (if st_be s = None then Inl Null_Deref else Inr (s\<lparr>st_be := None\<rparr>))
      else if opt_fi opt = None then Inl Null_Deref
      else if opt_packet_size opt = 0 then Inl Div_By_Zero
      else case st_be s of None \<Rightarrow> Inl Null_Deref
        | Some b \<Rightarrow> Inr (free_the_buf b (s\<lparr>st_fi_packets := st_fi_packets s + c div opt_packet_size opt,
            st_opt := opt\<lparr>opt_cumul := opt_cumul opt + 1\<rparr>\<rparr>)))"

definition loop_with_splice :: "arrival list \<Rightarrow> stream \<Rightarrow> (stream \<times> int run wait) outcome" where
  "loop_with_splice net s =
     (case get_buffer (opt_cumul (st_opt s)) s of
        (s1, None) \<Rightarrow> Inr (s1\<lparr>st_be := None\<rparr>, Done Thread_Exit)
      | (s1, Some a) \<Rightarrow> bindE (splice_loop (CALC_BUFSIZE_FROM_OPT (st_opt s)) a 0 a net (s1\<lparr>st_be := Some a\<rparr>)) (\<lambda>(s2, r). case r of
            Blocked \<Rightarrow> Inr (s2, Blocked)
          | Done b \<Rightarrow> bindE (splice_last_buffer b s2) (\<lambda>s3. Inr (s3, Done (Return 0)))))"

section \<open>Several connections\<close>

definition THREADSTATUS_KEEP_RUNNING :: u32 where "THREADSTATUS_KEEP_RUNNING = 1"
definition THREADSTATUS_ALL_FULL :: u32 where "THREADSTATUS_ALL_FULL = 2"
definition THREADSTATUS_CLEAN_EXIT :: u32 where "THREADSTATUS_CLEAN_EXIT = 4"
definition THREADSTATUS_ERROR :: u32 where "THREADSTATUS_ERROR = 8"

text \<open>\<open>struct multistream_recv_data\<close> with the connection behind its descriptor.\<close>

record recv_thread =
  td_status :: u32
  td_seq :: int
  td_net :: "arrival list"
  td_bytes_received :: u64

text \<open>Where the packets of a thread begin in a buffer, and how many they are: \<open>m\<close> streams, a buffer of \<open>elems\<close> packets of which
  the first belongs to the stream \<open>start\<close> and the first after it to the stream \<open>endr\<close>.\<close>

definition first_spot :: "int \<Rightarrow> int \<Rightarrow> int \<Rightarrow> int" where
  "first_spot m start seq = (if seq - start \<ge> 0 then seq - start else seq + (m - start))"

definition max_packets :: "u64 \<Rightarrow> int \<Rightarrow> int \<Rightarrow> int \<Rightarrow> int \<Rightarrow> u64" where
  "max_packets elems m start endr seq =
     (elems - word_of_int ((m - start) + endr)) div word_of_int m
       + (if seq - start \<ge> 0 then 1 else 0) + (if seq < endr then 1 else 0)"

text \<open>The loop of a thread over the packets of a buffer: \<open>spot\<close> is the packet it fills, \<open>off\<close> the bytes it has of it.\<close>

function fill_loop :: "u64 \<Rightarrow> int \<Rightarrow> u64 \<Rightarrow> addr \<Rightarrow> int \<Rightarrow> u64 \<Rightarrow> u64 \<Rightarrow> arrival list \<Rightarrow> stream \<Rightarrow>
    (stream \<times> (arrival list \<times> u64 \<times> u32) wait) outcome" where
  "fill_loop psize m limit a spot off ready net s =
     (if \<not> ready < limit then Inr (s, Done (net, ready, THREADSTATUS_KEEP_RUNNING))
      else case recv (unat (psize - off)) net s of
          None \<Rightarrow> Inr (s, Blocked)
        | Some (s1, k, bs, net1) \<Rightarrow>
          if k < 0 then Inr (s1, Done (net1, ready, THREADSTATUS_ERROR))
          else if k = 0 then Inr (s1, Done (net1, ready, THREADSTATUS_CLEAN_EXIT))
          else (case buf_write (Some (a, spot * uint psize + uint off)) bs s1 of
              Inl e \<Rightarrow> Inl e
            | Inr s2 \<Rightarrow> if psize \<le> word_of_int k + off then fill_loop psize m limit a (spot + m) 0 (ready + 1) net1 s2
                else fill_loop psize m limit a spot (off + word_of_int k) ready net1 s2))"
  by pat_completeness auto
termination
  by (relation "measure (\<lambda>(psize, m, limit, a, spot, off, ready, net, s). net_size net)") (auto dest: recv_shrinks)

declare fill_loop.simps [simp del]

text \<open>One turn of \<open>threaded_multistream\<close> when it receives: a thread fills its share of the buffer.\<close>

definition threaded_multistream :: "int \<Rightarrow> int \<Rightarrow> int \<Rightarrow> addr \<Rightarrow> recv_thread \<Rightarrow> stream \<Rightarrow> (stream \<times> recv_thread wait) outcome" where
  "threaded_multistream m start endr a td s =
     (if \<not> has (td_status td) THREADSTATUS_KEEP_RUNNING then Inr (s, Done td)
      else if m = 0 then Inl Div_By_Zero
      else let opt = st_opt s; psize = opt_packet_size opt;
               limit = max_packets (ucast (opt_buf_num_elems opt)) m start endr (td_seq td) in
        bindE (fill_loop psize m limit a (first_spot m start (td_seq td)) 0 0 (td_net td) s) (\<lambda>(s1, r). case r of
            Blocked \<Rightarrow> Inr (s1, Blocked)
          | Done (net1, ready, status) \<Rightarrow> Inr (s1, Done (td\<lparr>td_net := net1, td_bytes_received := psize * ready,
              td_status := (if ready = limit then status OR THREADSTATUS_ALL_FULL else status)\<rparr>))))"

text \<open>The threads write to different packets; they are run one after the other.\<close>

fun run_threads :: "int \<Rightarrow> int \<Rightarrow> int \<Rightarrow> addr \<Rightarrow> recv_thread list \<Rightarrow> stream \<Rightarrow> (stream \<times> recv_thread list wait) outcome" where
  "run_threads m start endr a [] s = Inr (s, Done [])"
| "run_threads m start endr a (td # tds) s =
     bindE (threaded_multistream m start endr a td s) (\<lambda>(s1, r). case r of
         Blocked \<Rightarrow> Inr (s1, Blocked)
       | Done td1 \<Rightarrow> bindE (run_threads m start endr a tds s1) (\<lambda>(s2, r). case r of
             Blocked \<Rightarrow> Inr (s2, Blocked)
           | Done tds1 \<Rightarrow> Inr (s2, Done (td1 # tds1))))"

text \<open>What the main thread collects from them: the threads, the number of active ones, and whether one had an error.\<close>

fun collect :: "addr \<Rightarrow> recv_thread list \<Rightarrow> int \<Rightarrow> stream \<Rightarrow> stream \<times> recv_thread list \<times> int \<times> bool" where
  "collect a [] act s = (s, [], act, False)"
| "collect a (td # tds) act s =
     (let s1 = count_received a (uint (td_bytes_received td)) s; td1 = td\<lparr>td_bytes_received := 0\<rparr>;
          act1 = (if has (td_status td) THREADSTATUS_CLEAN_EXIT then act - 1 else act) in
      if has (td_status td) THREADSTATUS_ERROR then (s1, td1 # tds, 0, True)
      else (let (s2, tds2, act2, err) = collect a tds act1 s1 in (s2, td1 # tds2, act2, err)))"

definition next_remainder :: "opt_s \<Rightarrow> int \<Rightarrow> int \<Rightarrow> int" where
  "next_remainder opt m endr = uint ((opt_buf_num_elems opt - word_of_int (m - endr)) mod word_of_int m)"

partial_function (option) multistream_loop :: "int \<Rightarrow> int \<Rightarrow> int \<Rightarrow> addr \<Rightarrow> int \<Rightarrow> recv_thread list \<Rightarrow> stream \<Rightarrow>
    (stream \<times> (addr \<times> recv_thread list) wait) outcome option" where
  "multistream_loop m start endr a act tds s =
     (if \<not> (has (get_status_from_opt (st_opt s)) STATUS_RUNNING \<and> 0 < act) then Some (Inr (s, Done (a, tds)))
      else case run_threads m start endr a tds s of
          Inl e \<Rightarrow> Some (Inl e)
        | Inr (s1, Blocked) \<Rightarrow> Some (Inr (s1, Blocked))
        | Inr (s1, Done tds1) \<Rightarrow>
          (case collect a tds1 act s1 of (s2, tds2, act2, err) \<Rightarrow>
            if err \<or> act2 = 0 \<or> st_diff s2 a \<noteq> CALC_BUFSIZE_FROM_OPT (st_opt s2) then Some (Inr (s2, Done (a, tds2)))
            else (case change_buffer s2 of
                Inl e \<Rightarrow> Some (Inl e)
              | Inr (s3, None) \<Rightarrow> Some (Inr (s3, Done (a, tds2)))
              | Inr (s3, Some b) \<Rightarrow> multistream_loop m endr (next_remainder (st_opt s3) m endr) b act2
                  (map (\<lambda>td. if has (td_status td) THREADSTATUS_KEEP_RUNNING then td\<lparr>td_status := THREADSTATUS_KEEP_RUNNING\<rparr> else td) tds2) s3)))"

declare multistream_loop.simps [code]

definition start_thread :: "int \<Rightarrow> arrival list \<Rightarrow> recv_thread" where
  "start_thread i net = \<lparr>td_status = THREADSTATUS_KEEP_RUNNING, td_seq = i, td_net = net, td_bytes_received = 0\<rparr>"

text \<open>The bytes of threads that were not collected are added at the end; the connections are closed.\<close>

definition rundown :: "addr \<Rightarrow> recv_thread list \<Rightarrow> stream \<Rightarrow> stream" where
  "rundown a tds s = s\<lparr>st_diff := (st_diff s)(a := st_diff s a + sum_list (map td_bytes_received tds))\<rparr>"

definition loop_with_threaded_multistream_recv :: "arrival list list \<Rightarrow> stream \<Rightarrow> (stream \<times> int run wait) outcome" where
  "loop_with_threaded_multistream_recv nets s =
     (case get_buffer (opt_cumul (st_opt s)) s of
        (s1, None) \<Rightarrow> Inr (s1\<lparr>st_be := None\<rparr>, Done (Return (- 1)))
      | (s1, Some a) \<Rightarrow>
          let m = opt_stream_multiply (st_opt s) in
          if m = 0 then Inl Div_By_Zero
          else bindE (ended (multistream_loop m 0 (uint (opt_buf_num_elems (st_opt s) mod word_of_int m)) a m
                 (map (\<lambda>i. start_thread (int i) (nets ! i)) [0 ..< nat m]) (s1\<lparr>st_be := Some a\<rparr>))) (\<lambda>(s2, r). case r of
              Blocked \<Rightarrow> Inr (s2, Blocked)
            | Done (b, tds) \<Rightarrow> bindE (last_buffer True b (rundown b tds s2)) (\<lambda>s3. Inr (mark_stopped s3, Done (Return 0)))))"

section \<open>Sending\<close>

text \<open>\<open>sent\<close> is the result of the call for the bytes offered; what went out is a prefix of them.\<close>

definition tcp_sendcmd :: send_cmd where
  "tcp_sendcmd sent s =
     bindE (the_sopt s) (\<lambda>opt.
     case sn_be s of None \<Rightarrow> Inl Null_Deref | Some b \<Rightarrow>
     bindE (get_buf b (sn_world s)) (\<lambda>be.
     bindE (load_bytes (shift_ptr (be_buffer be) (uint (tr_inc (sn_st s))))
              (unat (min (opt_packet_size opt) (tr_packetcounter (sn_st s)))) (sn_world s)) (\<lambda>bytes.
       let err = sent bytes in
       if err < 0 then Inr (s\<lparr>sn_so := (sn_so s)\<lparr>so_fd := 0\<rparr>\<rparr>, [], - 1)
       else if err = 0 then Inr (s, [], - 1)
       else Inr (s\<lparr>sn_so := (sn_so s)\<lparr>so_total_transacted_bytes := so_total_transacted_bytes (sn_so s) + word_of_int err\<rparr>,
                   sn_st := (sn_st s)\<lparr>tr_inc := tr_inc (sn_st s) + word_of_int err,
                     tr_packetcounter := tr_packetcounter (sn_st s) - word_of_int err\<rparr>\<rparr>, take (nat err) bytes, 0))))"

text \<open>\<open>sendfile\<close> is called with the buffer as the output and the socket as the input, so that nothing is sent.\<close>

definition tcp_sendfilecmd :: send_cmd where
  "tcp_sendfilecmd sent s =
     (case sn_be s of None \<Rightarrow> Inl Null_Deref | Some b \<Rightarrow>
     bindE (get_buf b (sn_world s)) (\<lambda>be.
       let err = sent [] in
       if err < 0 then Inr (s\<lparr>sn_so := (sn_so s)\<lparr>so_fd := 0\<rparr>\<rparr>, [], - 1)
       else Inr (s\<lparr>sn_so := (sn_so s)\<lparr>so_total_transacted_bytes := so_total_transacted_bytes (sn_so s) + word_of_int err\<rparr>,
                   sn_st := (sn_st s)\<lparr>tr_inc := tr_inc (sn_st s) + word_of_int err,
                     tr_packetcounter := tr_packetcounter (sn_st s) - word_of_int err\<rparr>\<rparr>, [], 0)))"

definition get_tcp_stats :: "stream \<Rightarrow> stats \<Rightarrow> stats" where
  "get_tcp_stats s st = st\<lparr>
     s_total_packets := s_total_packets st + opt_total_packets (st_opt s),
     s_total_bytes := s_total_bytes st + so_total_transacted_bytes (st_so s),
     s_incomplete := s_incomplete st + so_incomplete (st_so s),
     s_dropped := s_dropped st + so_missing (st_so s),
     s_progress := (if opt_last_packet (st_opt s) > 0
        then to_int32 (uint ((opt_total_packets (st_opt s) * 100) div opt_last_packet (st_opt s))) else - 1)\<rparr>"

section \<open>The thread\<close>

text \<open>\<open>tcp_preloop\<close> of a receiver: \<open>accepted\<close> are the connections, \<open>None\<close> when \<open>accept\<close> fails; the splice receiver reads the
  descriptor 0, whose input is \<open>stdin\<close>.\<close>

definition tcp_receive :: "arrival list list option \<Rightarrow> arrival list \<Rightarrow> timespec \<Rightarrow> stream \<Rightarrow> (stream \<times> unit wait) outcome" where
  "tcp_receive accepted stdin now s0 =
     (let s = reset_udpopts_stats s0; kind = opt_optbits (st_opt s) AND LOCKER_CAPTURE;
          started = s\<lparr>st_opt := (st_opt s)\<lparr>opt_starting_time := now\<rparr>\<rparr>;
          finish = (\<lambda>m. bindE m (\<lambda>(s1, r). case r of
              Blocked \<Rightarrow> Inr (s1, Blocked) | Done Thread_Exit \<Rightarrow> Inr (s1, Done ()) | Done (Return _) \<Rightarrow> Inr (close_socket s1, Done ()))) in
      if (has (opt_optbits (st_opt s)) CAPTURE_W_TCPSTREAM \<or> has (opt_optbits (st_opt s)) CAPTURE_W_MULTISTREAM) \<and> accepted = None
      then Inr (set_status STATUS_ERROR (close_socket s), Done ())
      else if kind = CAPTURE_W_TCPSTREAM then finish (loop_with_recv (hd (the accepted)) started)
      else if kind = CAPTURE_W_MULTISTREAM then finish (loop_with_threaded_multistream_recv (the accepted) started)
      else if kind = CAPTURE_W_TCPSPLICE then finish (loop_with_splice stdin started)
      else Inr (close_socket started, Done ()))"

end
