(* ===== verification/TcpReceive.thy ===== *)
theory TcpReceive
  imports TcpStream
begin

text \<open>
  The TCP receiver stores the byte stream of its connection, whatever portions it comes in: the files of the
  recording, put together, are the bytes that arrived, but for a last part that is shorter than a packet.
\<close>

section \<open>What arrives\<close>

fun payload :: "arrival list \<Rightarrow> u8 list" where
  "payload (Bytes bs # r) = bs @ payload r"
| "payload _ = []"

text \<open>The connection ends, and no other thread interferes before that.\<close>

fun ends :: "arrival list \<Rightarrow> bool" where
  "ends (Bytes bs # r) = ends r"
| "ends (Peer_Closed # r) = True"
| "ends (Recv_Error # r) = True"
| "ends _ = False"

lemma recv_end:
  "ends net \<Longrightarrow> payload net = [] \<Longrightarrow> 0 < m \<Longrightarrow> \<exists>k r. recv m net s = Some (s, k, [], r) \<and> k \<le> 0"
  by (induction m net s rule: recv.induct) auto

lemma recv_bytes:
  "ends net \<Longrightarrow> payload net \<noteq> [] \<Longrightarrow> 0 < m \<Longrightarrow> \<exists>bs r. recv m net s = Some (s, int (length bs), bs, r) \<and> bs \<noteq> [] \<and> length bs \<le> m \<and>
     payload net = bs @ payload r \<and> ends r \<and> net_size r < net_size net"
proof (induction m net s rule: recv.induct)
  case (3 m bs r s)
  show ?case
  proof (cases "bs = []")
    case True
    with 3 show ?thesis by fastforce
  next
    case False
    with 3 show ?thesis by (cases "length bs \<le> m") auto
  qed
qed auto

section \<open>The files so far\<close>

text \<open>\<open>stored_stream s0 got s a\<close>: since \<open>s0\<close> the bytes \<open>got\<close> have been stored, in full files that went to the writer and in the
  buffer \<open>a\<close>.\<close>

definition file_bytes :: "stream \<Rightarrow> nat" where
  "file_bytes s = unat (CALC_BUFSIZE_FROM_OPT (st_opt s))"

definition full_files :: "stream \<Rightarrow> ready_buf list \<Rightarrow> bool" where
  "full_files s0 F \<longleftrightarrow> (\<forall>i < length F. length (rd_data (F ! i)) = file_bytes s0 \<and> rd_diff (F ! i) = CALC_BUFSIZE_FROM_OPT (st_opt s0) \<and>
     rd_fileid (F ! i) = opt_cumul (st_opt s0) + of_nat i)"

definition stored_stream :: "stream \<Rightarrow> u8 list \<Rightarrow> stream \<Rightarrow> addr \<Rightarrow> ready_buf list \<Rightarrow> bool" where
  "stored_stream s0 got s a F \<longleftrightarrow> st_ready s = st_ready s0 @ F \<and> full_files s0 F \<and>
     got = concat (map rd_data F) @ take (unat (st_diff s a)) (st_data s a) \<and>
     unat (st_diff s a) < file_bytes s0 \<and> length (st_data s a) = file_bytes s0 \<and> st_be s = Some a \<and>
     st_fileid s a = opt_cumul (st_opt s0) + of_nat (length F) \<and> distinct (a # st_free s) \<and>
     (\<forall>b \<in> set (st_free s). length (st_data s b) = file_bytes s0) \<and> st_free s = drop (Suc (length F)) (st_free s0) \<and>
     st_opt s = (st_opt s0)\<lparr>opt_cumul := opt_cumul (st_opt s0) + of_nat (length F),
       opt_total_packets := opt_total_packets (st_opt s0) + of_nat (length F) * ucast (opt_buf_num_elems (st_opt s0))\<rparr>"

lemma full_files_snoc: "full_files s0 (F @ [f]) \<longleftrightarrow> full_files s0 F \<and> length (rd_data f) = file_bytes s0 \<and>
    rd_diff f = CALC_BUFSIZE_FROM_OPT (st_opt s0) \<and> rd_fileid f = opt_cumul (st_opt s0) + of_nat (length F)"
  by (auto simp: full_files_def nth_append All_less_Suc)

lemma file_length: "full_files s0 F \<Longrightarrow> length (concat (map rd_data F)) = length F * file_bytes s0"
  by (induction F rule: rev_induct) (simp_all add: full_files_snoc)

lemma take_splice: "off + length src \<le> length buf \<Longrightarrow> take (off + length src) (splice buf off src) = take off buf @ src"
  by (simp add: splice_def)

text \<open>What a portion of bytes does to the current buffer.\<close>

definition taken_in :: "addr \<Rightarrow> u8 list \<Rightarrow> stream \<Rightarrow> stream" where
  "taken_in a bs s = count_received a (int (length bs)) (s\<lparr>st_data := (st_data s)(a := splice (st_data s a) (unat (st_diff s a)) bs)\<rparr>)"

lemma taken_in_simps [simp]:
  "st_opt (taken_in a bs s) = st_opt s" "st_be (taken_in a bs s) = st_be s" "st_free (taken_in a bs s) = st_free s"
  "st_ready (taken_in a bs s) = st_ready s" "st_fileid (taken_in a bs s) = st_fileid s" "st_fi_packets (taken_in a bs s) = st_fi_packets s"
  "st_data (taken_in a bs s) = (st_data s)(a := splice (st_data s a) (unat (st_diff s a)) bs)"
  "st_diff (taken_in a bs s) = (st_diff s)(a := st_diff s a + of_nat (length bs))"
  by (simp_all add: taken_in_def count_received_def)

lemma take_in:
  assumes "stored_stream s0 got s a F" and "unat (st_diff s a) + length bs \<le> file_bytes s0"
  shows "buf_write (Some (a, uint (st_diff s a))) bs s = Inr (s\<lparr>st_data := (st_data s)(a := splice (st_data s a) (unat (st_diff s a)) bs)\<rparr>)"
    and "unat (st_diff (taken_in a bs s) a) = unat (st_diff s a) + length bs"
proof -
  have l: "length (st_data s a) = file_bytes s0" using assms(1) by (simp add: stored_stream_def)
  with assms(2) show "buf_write (Some (a, uint (st_diff s a))) bs s =
      Inr (s\<lparr>st_data := (st_data s)(a := splice (st_data s a) (unat (st_diff s a)) bs)\<rparr>)"
    by (simp add: buf_write_def nat_uint_eq)
  have "file_bytes s0 < 2 ^ 64" using unsigned_less[of "CALC_BUFSIZE_FROM_OPT (st_opt s0)"] by (simp add: file_bytes_def)
  with assms(2) show "unat (st_diff (taken_in a bs s) a) = unat (st_diff s a) + length bs"
    by (simp add: unat_word_ariths unat_of_nat)
qed

lemma stored_more:
  assumes st: "stored_stream s0 got s a F" and lt: "unat (st_diff s a) + length bs < file_bytes s0"
  shows "stored_stream s0 (got @ bs) (taken_in a bs s) a F"
proof -
  have le: "unat (st_diff s a) + length bs \<le> file_bytes s0" using lt by simp
  note d = take_in(2)[OF st le]
  have l: "length (st_data s a) = file_bytes s0" using st by (simp add: stored_stream_def)
  have "take (unat (st_diff (taken_in a bs s) a)) (st_data (taken_in a bs s) a) = take (unat (st_diff s a)) (st_data s a) @ bs"
    unfolding d using le l by (simp add: take_splice)
  then show ?thesis using st lt l d unfolding stored_stream_def by (auto simp del: taken_in_simps(8))
qed

lemma stored_full:
  assumes st: "stored_stream s0 got s a F" and eq: "unat (st_diff s a) + length bs = file_bytes s0"
    and free: "st_free s \<noteq> []" and fi: "opt_fi (st_opt s0) \<noteq> None"
  obtains s1 b f where "change_buffer (taken_in a bs s) = Inr (s1, Some b)" "stored_stream s0 (got @ bs) s1 b (F @ [f])"
    "st_free s = b # st_free s1"
proof -
  obtain b r where b: "st_free s = b # r" using free by (cases "st_free s") auto
  note d = take_in(2)[OF st] take_in(2)[OF st, unfolded taken_in_simps]
  let ?t = "taken_in a bs s" let ?B = "CALC_BUFSIZE_FROM_OPT (st_opt s0)"
  let ?f = "\<lparr>rd_be = a, rd_fileid = st_fileid s a, rd_diff = st_diff ?t a, rd_data = st_data ?t a\<rparr>"
  let ?opt = "(st_opt s)\<lparr>opt_cumul := opt_cumul (st_opt s) + 1,
     opt_total_packets := opt_total_packets (st_opt s) + ucast (opt_buf_num_elems (st_opt s))\<rparr>"
  let ?s1 = "?t\<lparr>st_opt := ?opt, st_fi_packets := st_fi_packets s + ucast (opt_buf_num_elems (st_opt s)), st_ready := st_ready s @ [?f],
     st_free := r, st_fileid := (st_fileid s)(b := opt_cumul ?opt), st_diff := (st_diff ?t)(b := 0), st_be := Some b\<rparr>"
  have l: "length (st_data s a) = file_bytes s0" and be: "st_be s = Some a" and ab: "a \<noteq> b" and fi2: "opt_fi (st_opt s) \<noteq> None"
    using st fi b by (auto simp: stored_stream_def)
  have ch: "change_buffer ?t = Inr (?s1, Some b)"
    using be b fi2 by (simp add: change_buffer_def free_the_buf_def get_buffer_def Let_def)
  have "st_diff ?t a = ?B" using d(1)[of bs] eq by (simp add: file_bytes_def word_unat_eq_iff)
  moreover have len: "length (st_data ?t a) = file_bytes s0" using l eq by simp
  ultimately have "full_files s0 (F @ [?f])" using st by (simp add: full_files_snoc stored_stream_def)
  moreover have "st_data ?t a = take (unat (st_diff s a)) (st_data s a) @ bs"
    using take_splice[of "unat (st_diff s a)" bs "st_data s a"] eq l len by simp
  moreover have "drop (Suc (Suc (length F))) (st_free s0) = r"
    using st b unfolding stored_stream_def by (metis drop_Suc list.sel(3) tl_drop)
  moreover have "distinct (a # b # r)" "\<forall>x \<in> set (b # r). length (st_data s x) = file_bytes s0"
    using st unfolding stored_stream_def b by blast+
  then have "distinct (b # r)" "\<forall>x \<in> set (b # r). length (st_data ?t x) = file_bytes s0" by auto
  moreover have "0 < file_bytes s0" "got = concat (map rd_data F) @ take (unat (st_diff s a)) (st_data s a)"
    "st_ready s = st_ready s0 @ F"  "st_opt s = (st_opt s0)\<lparr>opt_cumul := opt_cumul (st_opt s0) + of_nat (length F),
       opt_total_packets := opt_total_packets (st_opt s0) + of_nat (length F) * ucast (opt_buf_num_elems (st_opt s0))\<rparr>"
    using st by (auto simp: stored_stream_def)
  ultimately have "stored_stream s0 (got @ bs) ?s1 b (F @ [?f])"
    by (simp add: stored_stream_def algebra_simps del: taken_in_simps(7,8))
  with ch b show thesis by (intro that[of ?s1 b ?f]) simp_all
qed


section \<open>The loop\<close>

lemma recv_length_bounds:
  assumes "unat d < unat B" and "opt_packet_size opt \<noteq> 0"
  shows "0 < unat (recv_length opt B d)" and "unat d + unat (recv_length opt B d) \<le> unat B"
proof -
  have "d < B" using assms(1) by (simp add: word_less_nat_alt)
  then have sub: "unat (B - d) = unat B - unat d" by (simp add: unat_sub)
  have "unat (min (opt_packet_size opt) (B - d)) = min (unat (opt_packet_size opt)) (unat (B - d))"
    by (simp add: min_def word_le_nat_alt)
  moreover have "0 < unat (opt_packet_size opt)" using assms(2) by (simp add: unat_gt_0)
  ultimately show "0 < unat (recv_length opt B d)" "unat d + unat (recv_length opt B d) \<le> unat B"
    using assms(1) sub by (auto simp: recv_length_def)
qed

lemma stored_opt:
  "stored_stream s0 got s a F \<Longrightarrow> opt_status (st_opt s) = opt_status (st_opt s0) \<and> opt_packet_size (st_opt s) = opt_packet_size (st_opt s0) \<and>
     opt_fi (st_opt s) = opt_fi (st_opt s0) \<and> opt_optbits (st_opt s) = opt_optbits (st_opt s0)"
  by (simp add: stored_stream_def)

lemma stored_length:
  assumes "stored_stream s0 got s a F"
  shows "length got = length F * file_bytes s0 + unat (st_diff s a)" and "unat (st_diff s a) = length got mod file_bytes s0"
proof -
  show l: "length got = length F * file_bytes s0 + unat (st_diff s a)"
    using assms file_length[of s0 F] by (simp add: stored_stream_def)
  show "unat (st_diff s a) = length got mod file_bytes s0" using assms unfolding l by (simp add: stored_stream_def)
qed

lemma recv_loop_stores:
  assumes "stored_stream s0 got s a F" and "ends net" and "has (opt_status (st_opt s0)) STATUS_RUNNING" and "opt_fi (st_opt s0) \<noteq> None"
    and "opt_packet_size (st_opt s0) \<noteq> 0" and "length (got @ payload net) < length (st_free s0) * file_bytes s0"
  shows "\<exists>s1 b net1 F1. recv_loop (CALC_BUFSIZE_FROM_OPT (st_opt s0)) a net s = Inr (s1, Done (b, net1)) \<and>
    stored_stream s0 (got @ payload net) s1 b F1"
  using assms
proof (induction "net_size net" arbitrary: net got s a F rule: less_induct)
  case less
  let ?B = "CALC_BUFSIZE_FROM_OPT (st_opt s0)"
  note st = less.prems(1)
  have run: "has (get_status_from_opt (st_opt s)) STATUS_RUNNING" and ps: "opt_packet_size (st_opt s) \<noteq> 0"
    using stored_opt[OF st] less.prems(3,5) by (simp_all add: get_status_from_opt_def)
  have "unat (st_diff s a) < unat ?B" using st by (simp add: stored_stream_def file_bytes_def)
  note m = recv_length_bounds[OF this ps]
  let ?m = "unat (recv_length (st_opt s) ?B (st_diff s a))"
  note step = recv_loop.simps[of ?B a net s]
  show ?case
  proof (cases "payload net = []")
    case True
    from recv_end[OF less.prems(2) True m(1), of s] obtain k r where "recv ?m net s = Some (s, k, [], r)" "k \<le> 0" by blast
    then show ?thesis using run st True by (auto simp: step)
  next
    case False
    from recv_bytes[OF less.prems(2) False m(1), of s] obtain bs r where r: "recv ?m net s = Some (s, int (length bs), bs, r)" "bs \<noteq> []"
      "length bs \<le> ?m" "payload net = bs @ payload r" "ends r" "net_size r < net_size net" by blast
    have le: "unat (st_diff s a) + length bs \<le> file_bytes s0" using r(3) m(2) by (simp add: file_bytes_def)
    have e: "recv_loop ?B a net s = (if st_diff (taken_in a bs s) a \<noteq> ?B then recv_loop ?B a r (taken_in a bs s)
       else (case change_buffer (taken_in a bs s) of
                  Inl e \<Rightarrow> Inl e
                | Inr (s4, None) \<Rightarrow> Inr (s4, Done (a, r))
                | Inr (s4, Some b) \<Rightarrow> recv_loop ?B b r s4))"
      using run r(1,2) take_in(1)[OF st le] by (simp add: step taken_in_def[symmetric] Let_def del: taken_in_simps)
    have full: "st_diff (taken_in a bs s) a = ?B \<longleftrightarrow> unat (st_diff s a) + length bs = file_bytes s0"
      using take_in(2)[OF st le] by (simp add: word_unat_eq_iff file_bytes_def)
    have len: "length ((got @ bs) @ payload r) < length (st_free s0) * file_bytes s0" using less.prems(6) r(4) by simp
    show ?thesis
    proof (cases "unat (st_diff s a) + length bs = file_bytes s0")
      case False
      with le have "stored_stream s0 (got @ bs) (taken_in a bs s) a F" by (intro stored_more[OF st]) simp
      from less.hyps[OF r(6) this r(5) less.prems(3-5) len] False show ?thesis
        unfolding e full using r(4) by simp
    next
      case True
      have "length got + length bs = Suc (length F) * file_bytes s0" using stored_length(1)[OF st] True by simp
      then have "Suc (length F) * file_bytes s0 < length (st_free s0) * file_bytes s0" using len by simp
      then have "Suc (length F) < length (st_free s0)" using mult_less_cancel2 by blast
      then have "st_free s \<noteq> []" using st by (simp add: stored_stream_def)
      from stored_full[OF st True this less.prems(4)] obtain s1 b f where
        s1: "change_buffer (taken_in a bs s) = Inr (s1, Some b)" "stored_stream s0 (got @ bs) s1 b (F @ [f])" by blast
      from less.hyps[OF r(6) s1(2) r(5) less.prems(3-5) len] True s1(1) show ?thesis
        unfolding e full using r(4) by simp
    qed
  qed
qed

section \<open>Property\<close>

definition receiver_ready :: "stream \<Rightarrow> bool" where
  "receiver_ready s \<longleftrightarrow> has (opt_status (st_opt s)) STATUS_RUNNING \<and> opt_status (st_opt s) AND STATUS_ERROR = 0 \<and> opt_fi (st_opt s) \<noteq> None \<and>
     opt_packet_size (st_opt s) \<noteq> 0 \<and> 0 < file_bytes s \<and> distinct (st_free s) \<and> (\<forall>b \<in> set (st_free s). length (st_data s b) = file_bytes s)"

text \<open>The bytes a file gets: as many as its counter says.\<close>

definition file_contents :: "ready_buf \<Rightarrow> u8 list" where
  "file_contents f = take (unat (rd_diff f)) (rd_data f)"

lemma full_contents: "full_files s0 F \<Longrightarrow> concat (map file_contents F) = concat (map rd_data F)"
  by (induction F rule: rev_induct) (simp_all add: full_files_snoc file_contents_def file_bytes_def)

text \<open>What the last buffer does to the files.\<close>

definition whole :: "stream \<Rightarrow> u8 list \<Rightarrow> u8 list" where
  "whole s bs = (if length bs mod file_bytes s < unat (opt_packet_size (st_opt s))
     then take (length bs - length bs mod file_bytes s) bs else bs)"

definition recorded :: "stream \<Rightarrow> u8 list \<Rightarrow> stream \<Rightarrow> bool" where
  "recorded s bs s1 \<longleftrightarrow> (\<exists>F. st_ready s1 = st_ready s @ F \<and> concat (map file_contents F) = bs \<and>
     (\<forall>i < length F. rd_fileid (F ! i) = opt_cumul (st_opt s) + of_nat i)) \<and> opt_status (st_opt s1) = STATUS_STOPPED"

lemma recorded_last_buffer:
  assumes ready: "receiver_ready s" and st: "stored_stream s bs s1 b F"
  shows "\<exists>s3. last_buffer True b s1 = Inr s3 \<and> recorded s (whole s bs) (mark_stopped s3)"
proof -
  let ?c = "st_diff s1 b"
  note len = stored_length[OF st] and opt = stored_opt[OF st] and ready = ready[unfolded receiver_ready_def]
  have F: "full_files s F" "st_ready s1 = st_ready s @ F" "st_be s1 = Some b" "st_fileid s1 b = opt_cumul (st_opt s) + of_nat (length F)"
    "bs = concat (map rd_data F) @ take (unat ?c) (st_data s1 b)" using st by (simp_all add: stored_stream_def)
  have ids: "\<forall>i < length F. rd_fileid (F ! i) = opt_cumul (st_opt s) + of_nat i" using F(1) by (simp add: full_files_def)
  have stopped: "opt_status (st_opt t) = opt_status (st_opt s1) \<Longrightarrow>
      opt_status (st_opt (mark_stopped t)) = STATUS_STOPPED \<and> st_ready (mark_stopped t) = st_ready t" for t
    using opt ready by (simp add: mark_stopped_def get_status_from_opt_def has_def set_status_def set_status_for_opt_def)
  have small: "?c = 0 \<or> ?c < opt_packet_size (st_opt s1) \<longleftrightarrow> length bs mod file_bytes s < unat (opt_packet_size (st_opt s))"
    using len(2) opt ready by (auto simp: word_less_nat_alt unat_gt_0)
  show ?thesis
  proof (cases "length bs mod file_bytes s < unat (opt_packet_size (st_opt s))")
    case True
    let ?s3 = "s1\<lparr>st_diff := (st_diff s1)(b := 0), st_be := None\<rparr>"
    have "last_buffer True b s1 = Inr ?s3" using True small F(3) by (simp add: last_buffer_def Let_def)
    moreover have "concat (map file_contents F) = whole s bs"
    proof -
      have "length bs - length bs mod file_bytes s = length (concat (map rd_data F))"
        using len(1) len(2)[symmetric] file_length[OF F(1)] by linarith
      moreover have "take (length (concat (map rd_data F))) bs = concat (map rd_data F)" by (subst F(5)) simp
      ultimately show ?thesis using True full_contents[OF F(1)] by (simp add: whole_def)
    qed
    ultimately show ?thesis
      using F(2) ids stopped[of ?s3] by (auto simp: recorded_def intro!: exI[of _ F])
  next
    case False
    let ?o = "st_opt s1" let ?n = "?c div opt_packet_size ?o"
    let ?f = "\<lparr>rd_be = b, rd_fileid = st_fileid s1 b, rd_diff = ?c, rd_data = st_data s1 b\<rparr>"
    let ?s3 = "free_the_buf b (s1\<lparr>st_fi_packets := st_fi_packets s1 + ?n,
            st_opt := ?o\<lparr>opt_cumul := opt_cumul ?o + 1, opt_total_packets := opt_total_packets ?o + ?n\<rparr>\<rparr>)"
    have "last_buffer True b s1 = Inr ?s3"
      using False small F(3) opt ready by (simp add: last_buffer_def Let_def)
    moreover have "concat (map file_contents (F @ [?f])) = whole s bs"
      using False by (subst F(5)) (simp add: file_contents_def full_contents[OF F(1)] whole_def flip: F(5))
    moreover have "\<forall>i < length (F @ [?f]). rd_fileid ((F @ [?f]) ! i) = opt_cumul (st_opt s) + of_nat i"
      using ids F(4) by (simp add: nth_append All_less_Suc)
    moreover have "st_ready ?s3 = st_ready s @ F @ [?f]" "opt_status (st_opt ?s3) = opt_status (st_opt s1)"
      using F(2) by (simp_all add: free_the_buf_def)
    ultimately show ?thesis
      using stopped[of ?s3] unfolding recorded_def by (metis append_assoc)
  qed
qed

text \<open>The stream after the first buffer has been taken.\<close>

definition first_taken :: "stream \<Rightarrow> addr \<Rightarrow> stream" where
  "first_taken s a = s\<lparr>st_free := tl (st_free s), st_fileid := (st_fileid s)(a := opt_cumul (st_opt s)),
     st_diff := (st_diff s)(a := 0), st_be := Some a\<rparr>"

lemma first_buffer:
  assumes "receiver_ready s" and "st_free s \<noteq> []"
  obtains a t where "get_buffer (opt_cumul (st_opt s)) s = (t, Some a)" "t\<lparr>st_be := Some a\<rparr> = first_taken s a"
    "stored_stream s [] (first_taken s a) a []"
proof -
  obtain a as where as: "st_free s = a # as" using assms(2) by (cases "st_free s") auto
  let ?t = "s\<lparr>st_free := as, st_fileid := (st_fileid s)(a := opt_cumul (st_opt s)), st_diff := (st_diff s)(a := 0)\<rparr>"
  have "get_buffer (opt_cumul (st_opt s)) s = (?t, Some a)" by (simp add: get_buffer_def as)
  moreover have "?t\<lparr>st_be := Some a\<rparr> = first_taken s a" by (simp add: first_taken_def as)
  moreover have "stored_stream s [] (first_taken s a) a []"
    using assms(1) as by (auto simp: stored_stream_def full_files_def receiver_ready_def first_taken_def)
  ultimately show thesis by (rule that)
qed

text \<open>C31: A TCP recording is the byte stream: in whatever portions the bytes come, and however they are asked for, the files handed to
  the writers, put together, are the bytes of the connection up to its end, numbered without a gap; only a last part shorter than a packet
  is left out. The receiver then has stopped without an error.\<close>

theorem tcp_recording_is_the_stream:
  assumes "receiver_ready s" and "ends net" and "length (payload net) < length (st_free s) * file_bytes s"
  shows "\<exists>s1. loop_with_recv net s = Inr (s1, Done (Return 0)) \<and> recorded s (whole s (payload net)) s1"
proof -
  have "st_free s \<noteq> []" using assms(3) by auto
  from first_buffer[OF assms(1) this] obtain a t where get: "get_buffer (opt_cumul (st_opt s)) s = (t, Some a)"
    "t\<lparr>st_be := Some a\<rparr> = first_taken s a" "stored_stream s [] (first_taken s a) a []" .
  have ready: "has (opt_status (st_opt s)) STATUS_RUNNING" "opt_fi (st_opt s) \<noteq> None" "opt_packet_size (st_opt s) \<noteq> 0"
    using assms(1) by (simp_all add: receiver_ready_def)
  from recv_loop_stores[OF get(3) assms(2) ready] assms(3) obtain s1 b net1 F where
    "recv_loop (CALC_BUFSIZE_FROM_OPT (st_opt s)) a net (first_taken s a) = Inr (s1, Done (b, net1))"
    and st: "stored_stream s (payload net) s1 b F" by auto
  with recorded_last_buffer[OF assms(1) st] get(1,2) show ?thesis
    by (auto simp: loop_with_recv_def)
qed

definition tcp_example :: stream where
  "tcp_example = \<lparr>st_opt = zero_opt\<lparr>opt_buf_num_elems := 2, opt_packet_size := 2, opt_fi := Some 0, opt_status := STATUS_RUNNING\<rparr>,
     st_so = \<lparr>so_fd = 3, so_fd_send = 0, so_wrongsizeerrors = 0, so_missing = 0,
       so_total_transacted_bytes = 0, so_incomplete = 0, so_files_sent = 0, so_out_of_order = 0\<rparr>,
     st_resq = zero_resq, st_be = None, st_diff = (\<lambda>_. 0), st_fileid = (\<lambda>_. 0), st_data = (\<lambda>_. replicate 4 0),
     st_free = [1, 2, 3], st_ready = [], st_fi_packets = 0, st_forwarded = []\<rparr>"

lemma tcp_example_ready: "receiver_ready tcp_example" "file_bytes tcp_example = 4" "st_ready tcp_example = []" "length (st_free tcp_example) = 3"
    "opt_packet_size (st_opt tcp_example) = 2"
  by (simp_all add: receiver_ready_def tcp_example_def file_bytes_def CALC_BUFSIZE_FROM_OPT_def zero_opt_def has_def STATUS_RUNNING_def
      STATUS_ERROR_def flag_def)

text \<open>Nine bytes in two portions: two files of four bytes, and one byte that is left out.\<close>

theorem tcp_recording_is_the_stream_witness:
  "\<exists>s1. loop_with_recv [Bytes [1, 2, 3], Bytes [4, 5, 6, 7, 8, 9], Peer_Closed] tcp_example = Inr (s1, Done (Return 0)) \<and>
    recorded tcp_example [1, 2, 3, 4, 5, 6, 7, 8] s1"
  using tcp_recording_is_the_stream[of tcp_example "[Bytes [1, 2, 3], Bytes [4, 5, 6, 7, 8, 9], Peer_Closed]"]
  by (simp add: tcp_example_ready whole_def)

end
