(* ===== verification/MultiStream.thy ===== *)
theory MultiStream
  imports TcpReceive
begin

text \<open>
  Receiving over several connections: the sender deals the packets of a recording out to \<open>m\<close> connections in turn, and each
  receiving thread puts the packets of its connection into every m-th place of the buffer. The files then hold the packets in their
  original order, in whatever portions the bytes of each connection come.
\<close>

section \<open>Dealing packets out\<close>

text \<open>What the connection \<open>i\<close> carries when the first packet belongs to the connection \<open>k mod m\<close>.\<close>

fun dealt :: "nat \<Rightarrow> nat \<Rightarrow> nat \<Rightarrow> 'a list \<Rightarrow> 'a list" where
  "dealt m k i [] = []"
| "dealt m k i (p # ps) = (if k mod m = i then p # dealt m (Suc k) i ps else dealt m (Suc k) i ps)"

lemma dealt_append: "dealt m k i (ps @ qs) = dealt m k i ps @ dealt m (k + length ps) i qs"
  by (induction ps arbitrary: k) auto

lemma dealt_mod: "dealt m (k mod m) i ps = dealt m k i ps"
  by (induction ps arbitrary: k) (auto, (metis mod_Suc_eq)+)

text \<open>The first place of the connection \<open>i\<close>, and how many of the first \<open>t\<close> places it has.\<close>

definition first_place :: "nat \<Rightarrow> nat \<Rightarrow> nat \<Rightarrow> nat" where
  "first_place m k i = (if k \<le> i then i - k else i + m - k)"

definition share :: "nat \<Rightarrow> nat \<Rightarrow> nat \<Rightarrow> nat" where
  "share m f t = (t + m - Suc f) div m"

lemma share_less: "f < m \<Longrightarrow> j < share m f t \<longleftrightarrow> f + j * m < t"
proof -
  assume f: "f < m"
  have "j < share m f t \<longleftrightarrow> Suc j * m \<le> t + m - Suc f"
    unfolding share_def using f by (metis Suc_le_eq less_eq_div_iff_mult_less_eq gr_implies_not0 neq0_conv)
  also have "\<dots> \<longleftrightarrow> f + j * m < t" using f by auto
  finally show ?thesis .
qed

lemma share_0 [simp]: "f < m \<Longrightarrow> share m f 0 = 0"
  by (simp add: share_def)

lemma share_eqI: "f < m \<Longrightarrow> (\<And>j. j < c \<longleftrightarrow> f + j * m < t) \<Longrightarrow> share m f t = c"
  by (metis share_less linorder_neqE_nat less_irrefl)

lemma share_Suc: "f < m \<Longrightarrow> share m f (Suc t) = (if t mod m = f then Suc (share m f t) else share m f t)"
proof -
  assume f: "f < m"
  show ?thesis
  proof (cases "t mod m = f")
    case True
    then have t: "t = f + (t div m) * m" by (metis add.commute div_mult_mod_eq)
    have lt: "f + j * m < f + q * m \<longleftrightarrow> j < q" "f + j * m < Suc (f + q * m) \<longleftrightarrow> j < Suc q" for j q
      using f by (auto simp: less_Suc_eq_le)
    have "share m f t = t div m" by (rule share_eqI[OF f]) (subst t, simp only: lt)
    moreover have "share m f (Suc t) = Suc (t div m)" by (rule share_eqI[OF f]) (subst t, simp only: lt)
    ultimately show ?thesis using True by simp
  next
    case False
    have "f + j * m \<noteq> t" for j using False f by auto
    then have "f + j * m < Suc t \<longleftrightarrow> f + j * m < t" for j by (metis less_Suc_eq)
    then have "share m f (Suc t) = share m f t" by (intro share_eqI[OF f]) (simp add: share_less[OF f])
    with False show ?thesis by simp
  qed
qed

lemma share_place: "f < m \<Longrightarrow> t mod m = f \<Longrightarrow> f + share m f t * m = t"
proof -
  assume f: "f < m" "t mod m = f"
  then have "share m f t = t div m" using share_less[OF f(1), of _ t]
    by (intro share_eqI[OF f(1)]) (metis add.commute add_less_cancel_left div_mult_mod_eq less_imp_not_eq mult_less_cancel2 neq0_conv not_less0)
  then show ?thesis using f by (metis add.commute div_mult_mod_eq)
qed

lemma place_mod: "k < m \<Longrightarrow> i < m \<Longrightarrow> (k + p) mod m = i \<longleftrightarrow> p mod m = first_place m k i"
proof -
  assume k: "k < m" "i < m"
  define r where "r = p mod m"
  have r: "r < m" using k by (simp add: r_def)
  have "(k + p) mod m = (k + r) mod m" by (simp add: r_def mod_add_right_eq)
  also have "\<dots> = (if k + r < m then k + r else k + r - m)" using k r by (simp add: mod_if)
  finally show ?thesis using k r by (auto simp: first_place_def r_def[symmetric])
qed

lemma dealt_places:
  assumes "k < m" and "i < m"
  shows "dealt m k i ps = map (\<lambda>j. ps ! (first_place m k i + j * m)) [0 ..< share m (first_place m k i) (length ps)]"
proof (induction ps rule: rev_induct)
  case Nil
  have "first_place m k i < m" using assms by (auto simp: first_place_def)
  then show ?case by simp
next
  case (snoc p ps)
  let ?f = "first_place m k i"
  have f: "?f < m" using assms by (auto simp: first_place_def)
  have low: "map (\<lambda>j. (ps @ [p]) ! (?f + j * m)) [0 ..< share m ?f (length ps)] = map (\<lambda>j. ps ! (?f + j * m)) [0 ..< share m ?f (length ps)]"
    by (simp add: nth_append share_less[OF f])
  show ?case
    using snoc.IH place_mod[OF assms, of "length ps"] share_place[OF f, of "length ps"]
    by (simp add: dealt_append share_Suc[OF f] low)
qed

section \<open>Places as the code computes them\<close>

lemma first_spot_place: "k < m \<Longrightarrow> i < m \<Longrightarrow> first_spot (int m) (int k) (int i) = int (first_place m k i)"
  by (auto simp: first_spot_def first_place_def)

lemma below_share: "a < m \<Longrightarrow> b < m \<Longrightarrow> a + j * m < q * m + b \<longleftrightarrow> j < q + (if a < b then 1 else 0)" for a b m j q :: nat
proof -
  assume ab: "a < m" "b < m"
  consider "j < q" | "j = q" | "q < j" by linarith
  then show ?thesis
  proof cases
    case 1
    then have "Suc j * m \<le> q * m" by (intro mult_le_mono1) simp
    with 1 ab show ?thesis by simp
  next
    case 3
    then have "Suc q * m \<le> j * m" by (intro mult_le_mono1) simp
    with 3 ab show ?thesis by simp
  qed simp
qed

lemma max_packets_share:
  assumes "k < m" and "i < m" and "m \<le> n" and "n < 2 ^ 32"
  shows "max_packets (of_nat n) (int m) (int k) (int ((k + n) mod m)) (int i) = of_nat (share m (first_place m k i) n)"
proof -
  define d where "d = n - (m - k)"
  define q e where "q = d div m" and "e = d mod m"
  have e: "e < m" using assms(1) by (simp add: e_def)
  have d: "d = q * m + e" by (simp add: q_def e_def)
  have n: "n = (m - k) + q * m + e" using assms(1,3) d unfolding d_def by linarith
  have "(k + n) mod m = (m + d) mod m" using assms(1,3) by (simp add: d_def add.commute)
  then have endr: "(k + n) mod m = e" by (simp add: e_def)
  have "(of_nat n :: u64) - word_of_int (int m - int k + int e) = of_nat (q * m)"
    using assms(1) by (subst n) (simp add: of_nat_diff)
  moreover have "(of_nat (q * m) :: u64) div word_of_int (int m) = of_nat q"
  proof -
    have lt: "q * m < 2 ^ 64" "m < 2 ^ 64" "q < 2 ^ 64" using assms n by (auto intro: le_less_trans[of q "q * m"] simp: le_less_trans[OF _ assms(4)])
    have "unat ((of_nat (q * m) :: u64) div of_nat m) = q"
      unfolding unat_div using lt assms(1) by (simp add: unat_of_nat del: of_nat_mult)
    then have "(of_nat (q * m) :: u64) div of_nat m = of_nat q" using lt
      by (intro word_unat_eq_iff[THEN iffD2]) (simp only: unat_of_nat, simp)
    then show ?thesis by simp
  qed
  moreover have "share m (first_place m k i) n = q + (if k \<le> i then 1 else 0) + (if i < e then 1 else 0)"
  proof (rule share_eqI)
    show "first_place m k i < m" using assms by (auto simp: first_place_def)
    show "j < q + (if k \<le> i then 1 else 0) + (if i < e then 1 else 0) \<longleftrightarrow> first_place m k i + j * m < n" for j
    proof (cases "k \<le> i")
      case True
      have "first_place m k i + j * m < n \<longleftrightarrow> i + j * m < Suc q * m + e"
        using True assms(1) by (subst n) (auto simp: first_place_def)
      then show ?thesis using True below_share[OF assms(2) e, of j "Suc q"] by simp
    next
      case False
      have "first_place m k i + j * m < n \<longleftrightarrow> i + j * m < q * m + e"
        using False assms(1) by (subst n) (auto simp: first_place_def)
      then show ?thesis using False below_share[OF assms(2) e, of j q] by simp
    qed
  qed
  ultimately show ?thesis
    using endr by (simp add: max_packets_def algebra_simps)
qed

section \<open>A thread fills its places\<close>

text \<open>The buffer after the packets \<open>Q\<close> have gone to the places \<open>spot\<close>, \<open>spot + m\<close> and so on.\<close>

fun place_packets :: "nat \<Rightarrow> nat \<Rightarrow> nat \<Rightarrow> 'a list list \<Rightarrow> 'a list \<Rightarrow> 'a list" where
  "place_packets ps m spot [] D = D"
| "place_packets ps m spot (q # Q) D = place_packets ps m (spot + m) Q (splice D (spot * ps) q)"

text \<open>The connection is closed by its other side, after \<open>payload\<close>.\<close>

fun closes :: "arrival list \<Rightarrow> bool" where
  "closes (Bytes bs # r) = closes r"
| "closes (Peer_Closed # r) = True"
| "closes _ = False"

lemma recv_closed:
  "closes net \<Longrightarrow> payload net = [] \<Longrightarrow> 0 < m \<Longrightarrow> \<exists>r. recv m net s = Some (s, 0, [], r) \<and> closes r \<and> payload r = []"
  by (induction m net s rule: recv.induct) auto

lemma recv_portion:
  "closes net \<Longrightarrow> payload net \<noteq> [] \<Longrightarrow> 0 < m \<Longrightarrow> \<exists>bs r. recv m net s = Some (s, int (length bs), bs, r) \<and> bs \<noteq> [] \<and> length bs \<le> m \<and>
     payload net = bs @ payload r \<and> closes r \<and> net_size r < net_size net"
proof (induction m net s rule: recv.induct)
  case (3 m bs r s)
  show ?case
  proof (cases "bs = []")
    case True
    with 3 show ?thesis by fastforce
  next
    case False
    with 3 show ?thesis by (cases "length bs \<le> m") auto
  qed
qed auto

lemma buf_write_at:
  "off + length bs \<le> length (st_data s a) \<Longrightarrow> buf_write (Some (a, int off)) bs s = Inr (s\<lparr>st_data := (st_data s)(a := splice (st_data s a) off bs)\<rparr>)"
  by (simp add: buf_write_def)

definition filled :: "u64 \<Rightarrow> nat \<Rightarrow> addr \<Rightarrow> nat \<Rightarrow> u8 list list \<Rightarrow> u8 list \<Rightarrow> stream \<Rightarrow> stream" where
  "filled psize m a spot Q D s = s\<lparr>st_data := (st_data s)(a := place_packets (unat psize) m spot Q D)\<rparr>"

lemma fill_loop_places:
  assumes "closes net" and "payload net = drop (unat off) (concat Q) @ rest" and "unat off < unat psize" and "Q = [] \<Longrightarrow> off = 0"
    and "\<forall>q \<in> set Q. length q = unat psize" and "length Q = c \<or> length Q < c \<and> rest = []" and "unat ready + c < 2 ^ 64"
    and "st_data s a = splice D (spot * unat psize) (take (unat off) (concat Q))"
    and "\<forall>j < length Q. (spot + j * m + 1) * unat psize \<le> length D"
  shows "\<exists>net1. fill_loop psize (int m) (ready + of_nat c) a (int spot) off ready net s =
      Inr (filled psize m a spot Q D s, Done (net1, ready + of_nat (length Q),
        if length Q = c then THREADSTATUS_KEEP_RUNNING else THREADSTATUS_CLEAN_EXIT)) \<and> payload net1 = rest \<and> closes net1"
  using assms
proof (induction "net_size net" arbitrary: net off Q ready c s D spot rule: less_induct)
  case less
  let ?lim = "ready + of_nat c"
  have lim: "ready < ?lim \<longleftrightarrow> 0 < c" using less.prems(7) by (simp add: word_less_nat_alt unat_word_ariths unat_of_nat)
  note step = fill_loop.simps[of psize "int m" ?lim a "int spot" off ready net s]
  have sub: "unat (psize - off) = unat psize - unat off" "0 < unat (psize - off)"
    using less.prems(3) by (simp_all add: unat_sub word_le_nat_alt)
  show ?case
  proof (cases Q)
    case Nil
    then have off: "off = 0" and D: "st_data s a = D" using less.prems(4,8) by simp_all
    then have same: "filled psize m a spot Q D s = s" using Nil by (simp add: filled_def fun_upd_idem)
    show ?thesis
    proof (cases "c = 0")
      case True
      then show ?thesis using lim less.prems(1,2) Nil off by (subst step) (auto simp: same[unfolded Nil])
    next
      case False
      then have "payload net = []" using less.prems(2,6) Nil by simp
      from recv_closed[OF less.prems(1) this sub(2), of s] less.prems(6) lim False Nil off show ?thesis
        by (subst step) (auto simp: same[unfolded Nil])
    qed
  next
    case (Cons q Q1)
    have c: "0 < c" using less.prems(6) Cons by auto
    have q: "length q = unat psize" using less.prems(5) Cons by simp
    have "payload net \<noteq> []" using less.prems(2,3) q Cons by simp
    from recv_portion[OF less.prems(1) this sub(2), of s] obtain bs r where r: "recv (unat (psize - off)) net s = Some (s, int (length bs), bs, r)"
      "bs \<noteq> []" "length bs \<le> unat psize - unat off" "payload net = bs @ payload r" "closes r" "net_size r < net_size net"
      unfolding sub by blast
    let ?o = "unat off + length bs"
    have le: "?o \<le> unat psize" using r(3) less.prems(3) by simp
    have bs: "bs = take (length bs) (drop (unat off) q)" and rest: "payload r = drop ?o (concat Q) @ rest"
    proof -
      have e: "bs @ payload r = (drop (unat off) q @ concat Q1) @ rest" using r(4) less.prems(2,3) q Cons by simp
      have "take (length bs) (bs @ payload r) = take (length bs) (drop (unat off) q)" unfolding e using le q by simp
      then show "bs = take (length bs) (drop (unat off) q)" by simp
      have "drop (length bs) (bs @ payload r) = drop ?o (concat Q) @ rest" unfolding e using le q Cons by (simp add: add.commute)
      then show "payload r = drop ?o (concat Q) @ rest" by simp
    qed
    have now: "take (unat off) (concat Q) @ bs = take ?o q" using less.prems(3) q Cons by (subst bs) (simp add: take_add)
    have room: "(spot + 1) * unat psize \<le> length D" using less.prems(9) Cons by force
    then have room2: "spot * unat psize + ?o \<le> length D" using le by simp
    define D1 where "D1 = splice D (spot * unat psize) (take ?o q)"
    have len1: "length D1 = length D" using room2 q le by (simp add: D1_def)
    let ?s2 = "s\<lparr>st_data := (st_data s)(a := D1)\<rparr>"
    have pre: "length (take (unat off) (concat Q)) = unat off" using less.prems(3) q Cons by simp
    have wr: "buf_write (Some (a, int spot * uint psize + uint off)) bs s = Inr ?s2"
    proof -
      have "splice (st_data s a) (spot * unat psize + unat off) bs = D1"
        using splice_splice[of "spot * unat psize" "take (unat off) (concat Q)" bs D] room2
        unfolding less.prems(8) pre now by (simp add: D1_def)
      moreover have "spot * unat psize + unat off + length bs \<le> length (st_data s a)"
        using room2 pre by (simp add: less.prems(8) splice_def)
      ultimately show ?thesis using buf_write_at[of "spot * unat psize + unat off" bs s a] by simp
    qed
    have word: "unat (of_nat (length bs) + off) = ?o"
    proof -
      have lt: "?o < 2 ^ 64" using le_less_trans[OF le unsigned_less[of psize]] by simp
      then have "length bs < 2 ^ 64" by linarith
      then have "unat (of_nat (length bs) :: u64) = length bs" by (simp add: unat_of_nat)
      moreover from this lt have "unat (of_nat (length bs) :: u64) + unat off < 2 ^ 64" by linarith
      ultimately show ?thesis using unat_add_lem[of "of_nat (length bs)" off] by simp
    qed
    have e: "fill_loop psize (int m) ?lim a (int spot) off ready net s =
      (if psize \<le> of_nat (length bs) + off then fill_loop psize (int m) ?lim a (int (spot + m)) 0 (ready + 1) r ?s2
       else fill_loop psize (int m) ?lim a (int spot) (off + of_nat (length bs)) ready r ?s2)"
      using r(1,2) lim c wr by (subst step) simp
    show ?thesis
    proof (cases "?o = unat psize")
      case True
      obtain c1 where c1: "c = Suc c1" using c by (cases c) auto
      have D1: "D1 = splice D (spot * unat psize) q" using q True by (simp add: D1_def)
      have 1: "payload r = drop (unat (0 :: u64)) (concat Q1) @ rest" using rest True q Cons by simp
      have 2: "st_data ?s2 a = splice D1 ((spot + m) * unat psize) (take (unat (0 :: u64)) (concat Q1))" by simp
      have 3: "\<forall>j < length Q1. (spot + m + j * m + 1) * unat psize \<le> length D1"
      proof (intro allI impI)
        fix j assume "j < length Q1"
        then show "(spot + m + j * m + 1) * unat psize \<le> length D1"
          using less.prems(9)[rule_format, of "Suc j"] Cons len1 by (simp add: algebra_simps)
      qed
      have 4: "unat (ready + 1) + c1 < 2 ^ 64" "(ready + 1) + of_nat c1 = ?lim"
        using less.prems(7) c1 by (simp_all add: unat_word_ariths)
      have A: "\<exists>net1. fill_loop psize (int m) (ready + 1 + of_nat c1) a (int (spot + m)) 0 (ready + 1) r ?s2 =
          Inr (filled psize m a (spot + m) Q1 D1 ?s2, Done (net1, ready + 1 + of_nat (length Q1),
            if length Q1 = c1 then THREADSTATUS_KEEP_RUNNING else THREADSTATUS_CLEAN_EXIT)) \<and> payload net1 = rest \<and> closes net1"
        using less.prems(3,5,6) Cons c1 by (intro less.hyps[OF r(6,5) 1 _ _ _ _ 4(1) 2 3]) auto
      have B: "filled psize m a (spot + m) Q1 D1 ?s2 = filled psize m a spot Q D s"
        by (simp add: filled_def Cons D1)
      have "psize \<le> of_nat (length bs) + off" using word True by (simp add: word_le_nat_alt)
      then have C: "fill_loop psize (int m) ?lim a (int spot) off ready net s =
          fill_loop psize (int m) (ready + 1 + of_nat c1) a (int (spot + m)) 0 (ready + 1) r ?s2"
        unfolding e 4(2) by (simp only: if_True)
      have D: "ready + of_nat (length Q) = ready + 1 + of_nat (length Q1)" "length Q = c \<longleftrightarrow> length Q1 = c1"
        using Cons c1 by simp_all
      show ?thesis unfolding C D using A unfolding B .
    next
      case False
      have o: "unat (off + of_nat (length bs)) = ?o" using word by (simp add: add.commute)
      have 2: "st_data ?s2 a = splice D (spot * unat psize) (take (unat (off + of_nat (length bs))) (concat Q))"
        unfolding o using le q Cons by (simp add: D1_def)
      have "\<exists>net1. fill_loop psize (int m) ?lim a (int spot) (off + of_nat (length bs)) ready r ?s2 =
          Inr (filled psize m a spot Q D ?s2, Done (net1, ready + of_nat (length Q),
            if length Q = c then THREADSTATUS_KEEP_RUNNING else THREADSTATUS_CLEAN_EXIT)) \<and> payload net1 = rest \<and> closes net1"
        using less.prems(5,6,7,9) le False Cons
        by (intro less.hyps[OF r(6,5) _ _ _ _ _ _ 2]) (simp_all add: o rest)
      moreover have "filled psize m a spot Q D ?s2 = filled psize m a spot Q D s" by (simp add: filled_def)
      moreover have "\<not> psize \<le> of_nat (length bs) + off" using word le False by (simp add: word_le_nat_alt)
      ultimately show ?thesis by (simp add: e)
    qed
  qed
qed

section \<open>The buffer as places\<close>

lemma slots_eqI:
  assumes "length A = n * ps" and "length B = n * ps" and "\<And>j. j < n \<Longrightarrow> slice A (j * ps) ps = slice B (j * ps) ps"
  shows "A = B"
proof (rule nth_equalityI)
  fix q assume q: "q < length A"
  then have ps: "0 < ps" using assms(1) by (cases ps) auto
  let ?j = "q div ps"
  have j: "?j < n" using q assms(1) by (simp add: less_mult_imp_div_less)
  have "A ! (?j * ps + q mod ps) = B ! (?j * ps + q mod ps)"
  proof -
    have le: "Suc ?j * ps \<le> n * ps" using j by (intro mult_le_mono1) simp
    have "slice A (?j * ps) ps ! (q mod ps) = slice B (?j * ps) ps ! (q mod ps)" using assms(3)[OF j] by simp
    moreover have "?j * ps \<le> length A" "?j * ps \<le> length B" using le assms(1,2) unfolding mult_Suc by linarith+
    ultimately show ?thesis using ps by (simp add: slice_def del: div_mult_mod_eq mod_mult_div_eq)
  qed
  then show "A ! q = B ! q" by simp
qed (use assms in simp)

lemma slice_concat: "\<forall>p \<in> set P. length p = ps \<Longrightarrow> j < length P \<Longrightarrow> slice (concat P) (j * ps) ps = P ! j"
proof (induction P arbitrary: j)
  case (Cons p P)
  then show ?case by (cases j) (simp_all add: slice_def)
qed simp

lemma length_concat_same: "\<forall>p \<in> set P. length p = ps \<Longrightarrow> length (concat P) = length P * ps"
  by (induction P) simp_all

lemma slice_other_slot: "i \<noteq> j \<Longrightarrow> (i + 1) * ps \<le> length D \<Longrightarrow> length q = ps \<Longrightarrow>
    slice (splice D (i * ps) q) (j * ps) ps = slice D (j * ps) ps"
proof -
  assume *: "i \<noteq> j" "(i + 1) * ps \<le> length D" "length q = ps"
  show ?thesis
  proof (cases "i < j")
    case True
    then have "Suc i * ps \<le> j * ps" by (intro mult_le_mono1) simp
    with * show ?thesis by (intro slice_splice_after) simp_all
  next
    case False
    then have "Suc j * ps \<le> i * ps" using *(1) by (intro mult_le_mono1) simp
    with * show ?thesis by (intro slice_splice_before) simp_all
  qed
qed

lemma place_packets_slots:
  assumes "0 < m" and "\<forall>x < length Q. (spot + x * m + 1) * ps \<le> length D" and "\<forall>q \<in> set Q. length q = ps"
  shows "length (place_packets ps m spot Q D) = length D \<and>
    (\<forall>x < length Q. slice (place_packets ps m spot Q D) ((spot + x * m) * ps) ps = Q ! x) \<and>
    (\<forall>j. (\<forall>x < length Q. j \<noteq> spot + x * m) \<longrightarrow> slice (place_packets ps m spot Q D) (j * ps) ps = slice D (j * ps) ps)"
  using assms
proof (induction Q arbitrary: spot D)
  case (Cons q Q)
  let ?D = "splice D (spot * ps) q"
  let ?E = "place_packets ps m (spot + m) Q ?D"
  have room: "(spot + 1) * ps \<le> length D" and q: "length q = ps" using Cons.prems(2,3) by force+
  then have len: "length ?D = length D" by simp
  have rest: "\<forall>x < length Q. (spot + m + x * m + 1) * ps \<le> length ?D"
  proof (intro allI impI)
    fix x assume "x < length Q"
    then show "(spot + m + x * m + 1) * ps \<le> length ?D"
      using Cons.prems(2)[rule_format, of "Suc x"] len by (simp add: algebra_simps)
  qed
  have qs: "\<forall>q \<in> set Q. length q = ps" using Cons.prems(3) by simp
  have IH: "length ?E = length ?D" "\<And>x. x < length Q \<Longrightarrow> slice ?E ((spot + m + x * m) * ps) ps = Q ! x"
    "\<And>j. (\<forall>x < length Q. j \<noteq> spot + m + x * m) \<Longrightarrow> slice ?E (j * ps) ps = slice ?D (j * ps) ps"
    using Cons.IH[OF Cons.prems(1) rest qs] by blast+
  have "\<forall>x < length Q. spot \<noteq> spot + m + x * m" using Cons.prems(1) by simp
  from IH(3)[OF this] have first: "slice ?E (spot * ps) ps = q" using room q by simp
  have "slice ?E ((spot + x * m) * ps) ps = (q # Q) ! x" if "x < length (q # Q)" for x
    using that first IH(2)[of "x - 1"] by (cases x) (simp_all add: algebra_simps)
  moreover have "slice ?E (j * ps) ps = slice D (j * ps) ps" if j: "\<forall>x < length (q # Q). j \<noteq> spot + x * m" for j
  proof -
    have "j \<noteq> spot" using j[rule_format, of 0] by simp
    moreover have "\<forall>x < length Q. j \<noteq> spot + m + x * m"
    proof (intro allI impI)
      fix x assume "x < length Q"
      then show "j \<noteq> spot + m + x * m" using j[rule_format, of "Suc x"] by (simp add: algebra_simps)
    qed
    then have "slice ?E (j * ps) ps = slice ?D (j * ps) ps" by (rule IH(3))
    ultimately show ?thesis using slice_other_slot[of spot j ps D q] room q by simp
  qed
  ultimately show ?case using IH(1) len by simp
qed simp

section \<open>One buffer\<close>

text \<open>The threads with the connections \<open>i\<close> below \<open>c\<close> have filled their places of the buffer; \<open>D\<close> is what it was.\<close>

definition placed :: "nat \<Rightarrow> nat \<Rightarrow> nat \<Rightarrow> nat \<Rightarrow> u8 list list \<Rightarrow> u8 list \<Rightarrow> nat \<Rightarrow> u8 list \<Rightarrow> bool" where
  "placed ps n m k P D c E \<longleftrightarrow> length E = length D \<and> (\<forall>j < n. slice E (j * ps) ps =
     (if j < length P \<and> (k + j) mod m < c then P ! j else slice D (j * ps) ps))"

lemma dealt_set: "set (dealt m k i P) \<subseteq> set P"
  by (induction P arbitrary: k) auto

lemma placed_step:
  assumes "k < m" and "c < m" and "length P \<le> n" and "length D = n * ps" and "\<forall>p \<in> set P. length p = ps" and "placed ps n m k P D c E"
  shows "placed ps n m k P D (Suc c) (place_packets ps m (first_place m k c) (dealt m k c P) E)"
    and "\<forall>x < length (dealt m k c P). (first_place m k c + x * m + 1) * ps \<le> length E"
proof -
  let ?f = "first_place m k c"
  have f: "?f < m" using assms(1,2) by (auto simp: first_place_def)
  note dealt = dealt_places[OF assms(1,2), of P]
  have x: "x < length (dealt m k c P) \<longleftrightarrow> ?f + x * m < length P" for x
    using share_less[OF f] by (simp add: dealt)
  have E: "length E = n * ps" using assms(4,6) by (simp add: placed_def)
  have room: "(?f + x * m + 1) * ps \<le> length E" if "?f + x * m < length P" for x
  proof -
    have "(?f + x * m + 1) * ps \<le> n * ps" using that assms(3) by (intro mult_le_mono1) simp
    then show ?thesis using E by simp
  qed
  then show fit: "\<forall>x < length (dealt m k c P). (?f + x * m + 1) * ps \<le> length E" using x by blast
  have qs: "\<forall>q \<in> set (dealt m k c P). length q = ps" using dealt_set[of m k c P] assms(5) by blast
  have "0 < m" using assms(1) by simp
  note slots = place_packets_slots[OF this fit qs]
  let ?E = "place_packets ps m ?f (dealt m k c P) E"
  have "slice ?E (j * ps) ps = (if j < length P \<and> (k + j) mod m < Suc c then P ! j else slice D (j * ps) ps)" if j: "j < n" for j
  proof (cases "j < length P \<and> (k + j) mod m = c")
    case True
    then have jm: "j mod m = ?f" using place_mod[OF assms(1,2)] by blast
    define x where "x = j div m"
    have jx: "j = ?f + x * m" unfolding x_def jm[symmetric] by simp
    have "x < length (dealt m k c P)" unfolding x jx[symmetric] using True by simp
    moreover from this have "dealt m k c P ! x = P ! (?f + x * m)" by (simp add: dealt)
    ultimately have "slice ?E ((?f + x * m) * ps) ps = P ! (?f + x * m)" using slots by simp
    then show ?thesis using True unfolding jx[symmetric] by simp
  next
    case False
    have "\<forall>x < length (dealt m k c P). j \<noteq> ?f + x * m"
    proof (intro allI impI notI)
      fix x' assume *: "x' < length (dealt m k c P)" "j = ?f + x' * m"
      then have "j < length P" "j mod m = ?f" using x f by auto
      with False place_mod[OF assms(1,2)] show False by blast
    qed
    then have "slice ?E (j * ps) ps = slice E (j * ps) ps" using slots by blast
    also have "\<dots> = (if j < length P \<and> (k + j) mod m < c then P ! j else slice D (j * ps) ps)" using assms(6) j by (simp add: placed_def)
    finally show ?thesis using False by (auto simp: less_Suc_eq)
  qed
  then show "placed ps n m k P D (Suc c) ?E" using slots assms(6) by (simp add: placed_def)
qed

lemma placed_all:
  assumes "placed ps n m k P D m E" and "0 < m" and "length D = n * ps" and "length P \<le> n" and "\<forall>p \<in> set P. length p = ps"
  shows "E = splice D 0 (concat P)"
proof (rule slots_eqI[where n = n and ps = ps])
  have len: "length (concat P) = length P * ps" by (rule length_concat_same[OF assms(5)])
  have le: "length (concat P) \<le> length D" unfolding len assms(3) using assms(4) by simp
  show "length (splice D 0 (concat P)) = n * ps" using le assms(3) by simp
  show "length E = n * ps" using assms(1,3) by (simp add: placed_def)
  fix j assume j: "j < n"
  show "slice E (j * ps) ps = slice (splice D 0 (concat P)) (j * ps) ps"
  proof (cases "j < length P")
    case True
    then have "Suc j * ps \<le> length P * ps" by (intro mult_le_mono1) simp
    then have "slice (splice D 0 (concat P)) (j * ps) ps = slice (concat P) (j * ps) ps"
      using len by (simp add: slice_def splice_def)
    then show ?thesis using True j assms(1,2) slice_concat[OF assms(5) True] by (simp add: placed_def)
  next
    case False
    then have "length P * ps \<le> j * ps" by simp
    then have "slice (splice D 0 (concat P)) (j * ps) ps = slice D (j * ps) ps"
      using le len by (intro slice_splice_after) simp_all
    then show ?thesis using False j assms(1) by (simp add: placed_def)
  qed
qed

text \<open>A thread after its turn.\<close>

definition thread_after :: "u64 \<Rightarrow> nat \<Rightarrow> nat \<Rightarrow> nat \<Rightarrow> u8 list list \<Rightarrow> (nat \<Rightarrow> u8 list) \<Rightarrow> nat \<Rightarrow> recv_thread \<Rightarrow> bool" where
  "thread_after psize n m k P rest i td \<longleftrightarrow> td_seq td = int i \<and> td_bytes_received td = psize * of_nat (length (dealt m k i P)) \<and>
     payload (td_net td) = rest i \<and> closes (td_net td) \<and> \<not> has (td_status td) THREADSTATUS_ERROR \<and>
     (length P = n \<longrightarrow> td_status td = THREADSTATUS_KEEP_RUNNING OR THREADSTATUS_ALL_FULL)"

text \<open>The setting of a round: the geometry of the buffer \<open>a\<close> with its old contents \<open>D\<close>, and the packets \<open>P\<close> that come.\<close>

definition round_ok :: "nat \<Rightarrow> nat \<Rightarrow> nat \<Rightarrow> u8 list list \<Rightarrow> (nat \<Rightarrow> u8 list) \<Rightarrow> (nat \<Rightarrow> arrival list) \<Rightarrow> u8 list \<Rightarrow> stream \<Rightarrow> bool" where
  "round_ok n m k P rest nets D s \<longleftrightarrow> k < m \<and> m \<le> n \<and> n = unat (opt_buf_num_elems (st_opt s)) \<and> opt_packet_size (st_opt s) \<noteq> 0 \<and>
     length D = n * unat (opt_packet_size (st_opt s)) \<and> (\<forall>p \<in> set P. length p = unat (opt_packet_size (st_opt s))) \<and>
     (\<forall>i < m. closes (nets i) \<and> payload (nets i) = concat (dealt m k i P) @ rest i) \<and>
     (length P = n \<or> length P < n \<and> (\<forall>i < m. rest i = []))"

lemma share_mono: "t \<le> n \<Longrightarrow> share m f t \<le> share m f n"
  by (simp add: share_def div_le_mono)

lemma share_le: "f < m \<Longrightarrow> share m f n \<le> n"
  using share_less[of f m n n] by (cases m) (auto simp: not_le[symmetric])

lemma thread_turn:
  assumes ok: "round_ok n m k P rest nets D s" and i: "i < m"
    and E: "placed (unat (opt_packet_size (st_opt s))) n m k P D i (st_data s a)"
  shows "\<exists>E td. threaded_multistream (int m) (int k) (int ((k + n) mod m)) a (start_thread (int i) (nets i)) s =
      Inr (s\<lparr>st_data := (st_data s)(a := E)\<rparr>, Done td) \<and> placed (unat (opt_packet_size (st_opt s))) n m k P D (Suc i) E \<and>
    thread_after (opt_packet_size (st_opt s)) n m k P rest i td"
proof -
  let ?psize = "opt_packet_size (st_opt s)" let ?f = "first_place m k i" let ?Q = "dealt m k i P"
  let ?c = "share m ?f n"
  have km: "k < m" "m \<le> n" "n = unat (opt_buf_num_elems (st_opt s))" "?psize \<noteq> 0" "\<forall>p \<in> set P. length p = unat ?psize"
    and D: "length D = n * unat ?psize" and net: "closes (nets i)" "payload (nets i) = concat ?Q @ rest i"
    and P: "length P \<le> n" "length P = n \<or> rest i = []"
    using ok i by (auto simp: round_ok_def)
  have f: "?f < m" using km(1) i by (auto simp: first_place_def)
  have n: "n < 2 ^ 32" using unsigned_less[of "opt_buf_num_elems (st_opt s)"] km(3) by simp
  have c: "?c \<le> n" by (rule share_le[OF f])
  have len: "length ?Q = share m ?f (length P)" using dealt_places[OF km(1) i, of P] by simp
  have elems: "(ucast (opt_buf_num_elems (st_opt s)) :: u64) = of_nat n" using km(3) by simp
  have lim: "max_packets (ucast (opt_buf_num_elems (st_opt s))) (int m) (int k) (int ((k + n) mod m)) (int i) = of_nat ?c"
    unfolding elems by (rule max_packets_share[OF km(1) i km(2) n])
  note step = placed_step[OF km(1) i P(1) D km(5) E]
  have all_or: "length ?Q = ?c \<or> length ?Q < ?c \<and> rest i = []"
    using P share_mono[OF P(1), of m ?f] len by (metis le_neq_implies_less)
  have qs: "\<forall>q \<in> set ?Q. length q = unat ?psize" using dealt_set[of m k i P] km(5) by blast
  have "\<exists>net1. fill_loop ?psize (int m) (0 + of_nat ?c) a (int ?f) 0 0 (nets i) s =
      Inr (filled ?psize m a ?f ?Q (st_data s a) s, Done (net1, 0 + of_nat (length ?Q),
        if length ?Q = ?c then THREADSTATUS_KEEP_RUNNING else THREADSTATUS_CLEAN_EXIT)) \<and> payload net1 = rest i \<and> closes net1"
    using net km(4) c n by (intro fill_loop_places[OF _ _ _ _ qs all_or _ _ step(2)]) (simp_all add: unat_gt_0)
  then obtain net1 where run: "fill_loop ?psize (int m) (of_nat ?c) a (int ?f) 0 0 (nets i) s =
      Inr (filled ?psize m a ?f ?Q (st_data s a) s, Done (net1, of_nat (length ?Q),
        if length ?Q = ?c then THREADSTATUS_KEEP_RUNNING else THREADSTATUS_CLEAN_EXIT))" "payload net1 = rest i" "closes net1" by auto
  have eq: "(of_nat (length ?Q) :: u64) = of_nat ?c \<longleftrightarrow> length ?Q = ?c"
    using c n share_mono[OF P(1), of m ?f] len by (simp add: word_unat_eq_iff unat_of_nat)
  have full: "length P = n \<Longrightarrow> length ?Q = ?c" using len by simp
  let ?st = "if length ?Q = ?c then THREADSTATUS_KEEP_RUNNING OR THREADSTATUS_ALL_FULL else THREADSTATUS_CLEAN_EXIT"
  let ?td = "(start_thread (int i) (nets i))\<lparr>td_net := net1, td_bytes_received := ?psize * of_nat (length ?Q), td_status := ?st\<rparr>"
  have bits: "has THREADSTATUS_KEEP_RUNNING THREADSTATUS_KEEP_RUNNING" "\<not> has ?st THREADSTATUS_ERROR"
    by (simp_all add: has_def THREADSTATUS_KEEP_RUNNING_def THREADSTATUS_ALL_FULL_def THREADSTATUS_CLEAN_EXIT_def THREADSTATUS_ERROR_def)
  have "threaded_multistream (int m) (int k) (int ((k + n) mod m)) a (start_thread (int i) (nets i)) s =
      Inr (filled ?psize m a ?f ?Q (st_data s a) s, Done ?td)"
    using run(1) bits(1) f eq lim first_spot_place[OF km(1) i] by (simp add: threaded_multistream_def start_thread_def Let_def)
  moreover have "thread_after ?psize n m k P rest i ?td"
    using run(2,3) bits(2) full by (simp add: thread_after_def start_thread_def)
  ultimately show ?thesis using step(1) unfolding filled_def by blast
qed

lemma round_ok_data [simp]: "round_ok n m k P rest nets D (s\<lparr>st_data := d\<rparr>) = round_ok n m k P rest nets D s"
  by (simp add: round_ok_def)

lemma threads_turn:
  assumes "round_ok n m k P rest nets D s" and "i \<le> m" and "placed (unat (opt_packet_size (st_opt s))) n m k P D i (st_data s a)"
  shows "\<exists>E tds. run_threads (int m) (int k) (int ((k + n) mod m)) a (map (\<lambda>i. start_thread (int i) (nets i)) [i ..< m]) s =
      Inr (s\<lparr>st_data := (st_data s)(a := E)\<rparr>, Done tds) \<and> placed (unat (opt_packet_size (st_opt s))) n m k P D m E \<and>
    list_all2 (thread_after (opt_packet_size (st_opt s)) n m k P rest) [i ..< m] tds"
  using assms
proof (induction "m - i" arbitrary: i s)
  case 0
  then have "i = m" by simp
  with 0 show ?case by (intro exI[of _ "st_data s a"] exI[of _ "[]"]) simp
next
  case (Suc d)
  then have i: "i < m" by simp
  from thread_turn[OF Suc.prems(1) i Suc.prems(3)] obtain E td where
    E: "threaded_multistream (int m) (int k) (int ((k + n) mod m)) a (start_thread (int i) (nets i)) s =
        Inr (s\<lparr>st_data := (st_data s)(a := E)\<rparr>, Done td)" "placed (unat (opt_packet_size (st_opt s))) n m k P D (Suc i) E"
      "thread_after (opt_packet_size (st_opt s)) n m k P rest i td" by blast
  let ?s1 = "s\<lparr>st_data := (st_data s)(a := E)\<rparr>"
  have "round_ok n m k P rest nets D ?s1" "d = m - Suc i" "Suc i \<le> m" using Suc.prems(1) Suc.hyps(2) i by simp_all
  moreover have "placed (unat (opt_packet_size (st_opt ?s1))) n m k P D (Suc i) (st_data ?s1 a)" using E(2) by simp
  ultimately have "\<exists>E2 tds. run_threads (int m) (int k) (int ((k + n) mod m)) a (map (\<lambda>i. start_thread (int i) (nets i)) [Suc i ..< m]) ?s1 =
      Inr (?s1\<lparr>st_data := (st_data ?s1)(a := E2)\<rparr>, Done tds) \<and> placed (unat (opt_packet_size (st_opt ?s1))) n m k P D m E2 \<and>
    list_all2 (thread_after (opt_packet_size (st_opt ?s1)) n m k P rest) [Suc i ..< m] tds" using Suc.hyps(1) by blast
  then obtain E2 tds where
    "run_threads (int m) (int k) (int ((k + n) mod m)) a (map (\<lambda>i. start_thread (int i) (nets i)) [Suc i ..< m]) ?s1 =
      Inr (?s1\<lparr>st_data := (st_data ?s1)(a := E2)\<rparr>, Done tds)" "placed (unat (opt_packet_size (st_opt s))) n m k P D m E2"
    "list_all2 (thread_after (opt_packet_size (st_opt s)) n m k P rest) [Suc i ..< m] tds" by auto
  then show ?case using E(1,3) i by (auto simp: upt_conv_Cons)
qed

section \<open>What the main thread collects\<close>

definition received :: "addr \<Rightarrow> u64 \<Rightarrow> stream \<Rightarrow> stream" where
  "received a k s = s\<lparr>st_so := (st_so s)\<lparr>so_total_transacted_bytes := so_total_transacted_bytes (st_so s) + k\<rparr>,
     st_diff := (st_diff s)(a := st_diff s a + k)\<rparr>"

lemma received_received: "received a k (received a j s) = received a (j + k) s"
  by (simp add: received_def add.assoc)

lemma collect_all:
  "\<forall>td \<in> set tds. \<not> has (td_status td) THREADSTATUS_ERROR \<Longrightarrow>
   \<exists>act1. collect a tds act s = (received a (sum_list (map td_bytes_received tds)) s, map (\<lambda>td. td\<lparr>td_bytes_received := 0\<rparr>) tds, act1, False) \<and>
     ((\<forall>td \<in> set tds. \<not> has (td_status td) THREADSTATUS_CLEAN_EXIT) \<longrightarrow> act1 = act)"
proof (induction tds arbitrary: act s)
  case Nil
  then show ?case by (simp add: received_def)
next
  case (Cons td tds)
  have one: "count_received a (uint (td_bytes_received td)) s = received a (td_bytes_received td) s"
    by (simp add: count_received_def received_def)
  from Cons.IH[of "if has (td_status td) THREADSTATUS_CLEAN_EXIT then act - 1 else act" "received a (td_bytes_received td) s"] Cons.prems
  obtain act1 where "collect a tds (if has (td_status td) THREADSTATUS_CLEAN_EXIT then act - 1 else act) (received a (td_bytes_received td) s) =
      (received a (sum_list (map td_bytes_received tds)) (received a (td_bytes_received td) s), map (\<lambda>td. td\<lparr>td_bytes_received := 0\<rparr>) tds, act1, False)"
    "(\<forall>td \<in> set tds. \<not> has (td_status td) THREADSTATUS_CLEAN_EXIT) \<longrightarrow>
      act1 = (if has (td_status td) THREADSTATUS_CLEAN_EXIT then act - 1 else act)" by auto
  then show ?case using Cons.prems by (auto simp: one Let_def received_received)
qed

lemma dealt_total: "0 < m \<Longrightarrow> sum_list (map (\<lambda>i. length (dealt m k i P)) [0 ..< m]) = length P"
proof (induction P arbitrary: k)
  case (Cons p P)
  have "(\<Sum>i\<leftarrow>[0 ..< m]. length (dealt m k i (p # P))) = (\<Sum>i\<leftarrow>[0 ..< m]. (if i = k mod m then 1 else 0) + length (dealt m (Suc k) i P))"
    by (intro arg_cong[where f = sum_list] map_cong) auto
  also have "\<dots> = (\<Sum>i\<leftarrow>[0 ..< m]. if i = k mod m then 1 else 0) + length P" using Cons by (simp add: sum_list_addf)
  also have "(\<Sum>i\<leftarrow>[0 ..< m]. if i = k mod m then 1 else 0) = (1 :: nat)"
    using Cons.prems by (simp add: interv_sum_list_conv_sum_set_nat)
  finally show ?case by simp
qed (simp add: sum_list_0)

lemma sum_words: "sum_list (map (\<lambda>i. c * of_nat (f i)) xs) = c * of_nat (sum_list (map f xs))" for c :: "'a :: len word"
  by (induction xs) (simp_all add: algebra_simps)

lemma after_total:
  assumes "list_all2 (thread_after psize n m k P rest) [0 ..< m] tds" and "0 < m"
  shows "sum_list (map td_bytes_received tds) = psize * of_nat (length P)"
proof -
  have "map td_bytes_received tds = map (\<lambda>i. psize * of_nat (length (dealt m k i P))) [0 ..< m]"
    using assms(1) by (intro nth_equalityI) (auto simp: list_all2_conv_all_nth thread_after_def)
  then have "sum_list (map td_bytes_received tds) = psize * of_nat (sum_list (map (\<lambda>i. length (dealt m k i P)) [0 ..< m]))"
    by (simp add: sum_words)
  then show ?thesis using dealt_total[OF assms(2), of k P] by simp
qed

text \<open>A whole round is one portion of bytes for the buffer.\<close>

lemma round_result:
  assumes ok: "round_ok n m k P rest nets (st_data s a) s" and z: "st_diff s a = 0"
  shows "\<exists>s1 tds act. run_threads (int m) (int k) (int ((k + n) mod m)) a (map (\<lambda>i. start_thread (int i) (nets i)) [0 ..< m]) s = Inr (s1, Done tds) \<and>
    collect a tds (int m) s1 = (taken_in a (concat P) s, map (\<lambda>td. td\<lparr>td_bytes_received := 0\<rparr>) tds, act, False) \<and>
    list_all2 (thread_after (opt_packet_size (st_opt s)) n m k P rest) [0 ..< m] tds \<and> (length P = n \<longrightarrow> act = int m)"
proof -
  let ?ps = "unat (opt_packet_size (st_opt s))"
  have o: "0 < m" "length (st_data s a) = n * ?ps" "length P \<le> n" "\<forall>p \<in> set P. length p = ?ps" using ok by (auto simp: round_ok_def)
  have "placed ?ps n m k P (st_data s a) 0 (st_data s a)" by (simp add: placed_def)
  from threads_turn[OF ok _ this] obtain E tds where
    run: "run_threads (int m) (int k) (int ((k + n) mod m)) a (map (\<lambda>i. start_thread (int i) (nets i)) [0 ..< m]) s =
        Inr (s\<lparr>st_data := (st_data s)(a := E)\<rparr>, Done tds)"
      "placed ?ps n m k P (st_data s a) m E" "list_all2 (thread_after (opt_packet_size (st_opt s)) n m k P rest) [0 ..< m] tds" by auto
  have E: "E = splice (st_data s a) 0 (concat P)" by (rule placed_all[OF run(2) o(1,2,3,4)])
  have "\<forall>td \<in> set tds. \<exists>i. thread_after (opt_packet_size (st_opt s)) n m k P rest i td"
    using run(3) by (auto simp: list_all2_conv_all_nth in_set_conv_nth) blast
  then have no_err: "\<forall>td \<in> set tds. \<not> has (td_status td) THREADSTATUS_ERROR"
    and full: "length P = n \<Longrightarrow> \<forall>td \<in> set tds. \<not> has (td_status td) THREADSTATUS_CLEAN_EXIT"
    by (auto simp: thread_after_def has_def THREADSTATUS_KEEP_RUNNING_def THREADSTATUS_ALL_FULL_def THREADSTATUS_CLEAN_EXIT_def)
  have "received a (sum_list (map td_bytes_received tds)) (s\<lparr>st_data := (st_data s)(a := E)\<rparr>) = taken_in a (concat P) s"
    unfolding after_total[OF run(3) o(1)] E
    by (simp add: received_def taken_in_def count_received_def length_concat_same[OF o(4)] z mult.commute)
  with collect_all[OF no_err, of a "int m" "s\<lparr>st_data := (st_data s)(a := E)\<rparr>"] full run(1,3) show ?thesis
    by (metis (no_types, lifting))
qed

section \<open>The loop over the buffers\<close>

lemma uint_mod_small: "x < 2 ^ 32 \<Longrightarrow> m < 2 ^ 32 \<Longrightarrow> uint ((of_nat x :: u32) mod of_nat m) = int (x mod m)"
  by (simp only: uint_nat unat_mod unat_of_nat) simp

lemma word_minus_place:
  assumes "k < m" and "m \<le> n"
  shows "(of_nat n :: u32) - word_of_int (int m - int k) = of_nat (n - (m - k))"
proof -
  have d: "int m - int k = int (m - k)" "m - k \<le> n" using assms by simp_all
  show ?thesis unfolding d(1) of_nat_diff[OF d(2)] by simp
qed

lemma next_remainder_mod:
  assumes "k < m" and "m \<le> n" and "n = unat (opt_buf_num_elems opt)"
  shows "next_remainder opt (int m) (int k) = int ((k + n) mod m)"
proof -
  have lt: "n < 2 ^ 32" using unsigned_less[of "opt_buf_num_elems opt"] unfolding assms(3) by simp
  have w: "opt_buf_num_elems opt = of_nat n" unfolding assms(3) by simp
  have "n - (m - k) < 2 ^ 32" "m < 2 ^ 32" using assms(2) lt by linarith+
  then have u: "uint ((of_nat (n - (m - k)) :: u32) mod of_nat m) = int ((n - (m - k)) mod m)" by (rule uint_mod_small)
  have "k + n = (n - (m - k)) + m" using assms(1,2) by linarith
  then have "(n - (m - k)) mod m = (k + n) mod m" by (metis mod_add_self2)
  then show ?thesis
    unfolding next_remainder_def w word_minus_place[OF assms(1,2)] of_int_of_nat_eq u by (rule arg_cong)
qed

text \<open>The connections carry the packets \<open>P\<close> from the place \<open>k\<close> on.\<close>

definition carry :: "nat \<Rightarrow> nat \<Rightarrow> u8 list list \<Rightarrow> (nat \<Rightarrow> arrival list) \<Rightarrow> bool" where
  "carry m k P nets \<longleftrightarrow> (\<forall>i < m. closes (nets i) \<and> payload (nets i) = concat (dealt m k i P))"

definition multi_setup :: "nat \<Rightarrow> nat \<Rightarrow> stream \<Rightarrow> bool" where
  "multi_setup n m s \<longleftrightarrow> 0 < m \<and> m \<le> n \<and> n = unat (opt_buf_num_elems (st_opt s)) \<and> file_bytes s = n * unat (opt_packet_size (st_opt s))"

abbreviation fresh_threads :: "nat \<Rightarrow> (nat \<Rightarrow> arrival list) \<Rightarrow> recv_thread list" where
  "fresh_threads m nets \<equiv> map (\<lambda>i. start_thread (int i) (nets i)) [0 ..< m]"

lemma threads_again:
  assumes "list_all2 (thread_after psize n m k P rest) [0 ..< m] tds" and "length P = n"
  shows "map (\<lambda>td. if has (td_status td) THREADSTATUS_KEEP_RUNNING then td\<lparr>td_status := THREADSTATUS_KEEP_RUNNING\<rparr> else td)
      (map (\<lambda>td. td\<lparr>td_bytes_received := 0\<rparr>) tds) = fresh_threads m (\<lambda>i. td_net (tds ! i))"
proof (rule nth_equalityI)
  fix i assume "i < length (map (\<lambda>td. if has (td_status td) THREADSTATUS_KEEP_RUNNING then td\<lparr>td_status := THREADSTATUS_KEEP_RUNNING\<rparr> else td)
      (map (\<lambda>td. td\<lparr>td_bytes_received := 0\<rparr>) tds))"
  then have "i < m" "i < length tds" "thread_after psize n m k P rest i (tds ! i)"
    using assms(1) by (auto simp: list_all2_conv_all_nth)
  moreover from this have "has (td_status (tds ! i)) THREADSTATUS_KEEP_RUNNING" "td_seq (tds ! i) = int i"
    using assms(2) by (simp_all add: thread_after_def has_def THREADSTATUS_KEEP_RUNNING_def THREADSTATUS_ALL_FULL_def)
  ultimately show "map (\<lambda>td. if has (td_status td) THREADSTATUS_KEEP_RUNNING then td\<lparr>td_status := THREADSTATUS_KEEP_RUNNING\<rparr> else td)
      (map (\<lambda>td. td\<lparr>td_bytes_received := 0\<rparr>) tds) ! i = fresh_threads m (\<lambda>i. td_net (tds ! i)) ! i"
    by (simp add: start_thread_def)
qed (use assms in \<open>simp add: list_all2_conv_all_nth\<close>)

lemma stored_setup:
  assumes "stored_stream s0 got s a F" and "multi_setup n m s0"
  shows "n = unat (opt_buf_num_elems (st_opt s))" "CALC_BUFSIZE_FROM_OPT (st_opt s) = CALC_BUFSIZE_FROM_OPT (st_opt s0)"
    "length (st_data s a) = n * unat (opt_packet_size (st_opt s))"
  using assms by (auto simp: stored_stream_def multi_setup_def CALC_BUFSIZE_FROM_OPT_def)

lemma multistream_loop_stores:
  assumes "stored_stream s0 got s a F" and "st_diff s a = 0" and "multi_setup n m s0" and "k < m" and "carry m k P nets"
    and "\<forall>p \<in> set P. length p = unat (opt_packet_size (st_opt s0))" and "has (opt_status (st_opt s0)) STATUS_RUNNING"
    and "opt_fi (st_opt s0) \<noteq> None" and "opt_packet_size (st_opt s0) \<noteq> 0"
    and "length F * n + length P < length (st_free s0) * n"
  shows "\<exists>s1 b tds F1. multistream_loop (int m) (int k) (int ((k + n) mod m)) a (int m) (fresh_threads m nets) s = Some (Inr (s1, Done (b, tds))) \<and>
    stored_stream s0 (got @ concat P) s1 b F1 \<and> (\<forall>td \<in> set tds. td_bytes_received td = 0)"
  using assms
proof (induction "length P" arbitrary: P got s a F k nets rule: less_induct)
  case less
  let ?psize = "opt_packet_size (st_opt s0)" let ?B = "CALC_BUFSIZE_FROM_OPT (st_opt s0)"
  note st = less.prems(1) and geo = stored_setup[OF less.prems(1,3)] and opt = stored_opt[OF less.prems(1)]
  have nm: "0 < m" "m \<le> n" "file_bytes s0 = n * unat ?psize" using less.prems(3) by (simp_all add: multi_setup_def)
  have ps: "0 < unat ?psize" using less.prems(9) by (simp add: unat_gt_0)
  have run: "has (get_status_from_opt (st_opt s)) STATUS_RUNNING" using opt less.prems(7) by (simp add: get_status_from_opt_def)
  define P1 P2 where "P1 = take n P" and "P2 = drop n P"
  have P: "P = P1 @ P2" by (simp add: P1_def P2_def)
  have P1: "length P1 \<le> n" "\<forall>p \<in> set P1. length p = unat ?psize" "length P1 < n \<Longrightarrow> P2 = []"
    using less.prems(6) by (auto simp: P1_def P2_def dest: in_set_takeD)
  let ?rest = "\<lambda>i. concat (dealt m (k + length P1) i P2)"
  have ok: "round_ok n m k P1 ?rest nets (st_data s a) s"
    using geo(1,3) opt less.prems(4,5,9) nm P1 by (auto simp: round_ok_def carry_def P dealt_append)
  from round_result[OF ok less.prems(2)] obtain s1 tds act where
    r: "run_threads (int m) (int k) (int ((k + n) mod m)) a (fresh_threads m nets) s = Inr (s1, Done tds)"
    "collect a tds (int m) s1 = (taken_in a (concat P1) s, map (\<lambda>td. td\<lparr>td_bytes_received := 0\<rparr>) tds, act, False)"
    "list_all2 (thread_after (opt_packet_size (st_opt s)) n m k P1 ?rest) [0 ..< m] tds" "length P1 = n \<Longrightarrow> act = int m" by blast
  let ?t = "taken_in a (concat P1) s" let ?tds = "map (\<lambda>td. td\<lparr>td_bytes_received := 0\<rparr>) tds"
  have e: "multistream_loop (int m) (int k) (int ((k + n) mod m)) a (int m) (fresh_threads m nets) s =
     (if act = 0 \<or> st_diff ?t a \<noteq> ?B then Some (Inr (?t, Done (a, ?tds)))
      else (case change_buffer ?t of
                Inl e \<Rightarrow> Some (Inl e)
              | Inr (s3, None) \<Rightarrow> Some (Inr (s3, Done (a, ?tds)))
              | Inr (s3, Some b) \<Rightarrow> multistream_loop (int m) (int ((k + n) mod m)) (next_remainder (st_opt s3) (int m) (int ((k + n) mod m))) b act
                  (map (\<lambda>td. if has (td_status td) THREADSTATUS_KEEP_RUNNING then td\<lparr>td_status := THREADSTATUS_KEEP_RUNNING\<rparr> else td) ?tds) s3))"
    using run nm(1) r(1,2) geo(2) by (subst multistream_loop.simps) (simp del: taken_in_simps(7,8) cong: if_cong)
  have len: "length (concat P1) = length P1 * unat ?psize" by (rule length_concat_same[OF P1(2)])
  then have fit: "unat (st_diff s a) + length (concat P1) \<le> file_bytes s0" using less.prems(2) nm(3) P1(1) by simp
  have full: "st_diff ?t a = ?B \<longleftrightarrow> length P1 = n"
  proof -
    have "st_diff ?t a = ?B \<longleftrightarrow> unat (st_diff ?t a) = file_bytes s0" by (simp only: word_unat_eq_iff file_bytes_def)
    also have "\<dots> \<longleftrightarrow> length P1 * unat ?psize = n * unat ?psize"
      by (simp only: take_in(2)[OF st fit] less.prems(2) len nm(3) unsigned_0 add_0)
    finally show ?thesis using ps by simp
  qed
  show ?case
  proof (cases "length P1 = n")
    case False
    then have "unat (st_diff s a) + length (concat P1) < file_bytes s0" using P1(1) len less.prems(2) nm(3) ps by simp
    from stored_more[OF st this] False P1(1,3) full P show ?thesis by (auto simp: e)
  next
    case True
    then have eq: "unat (st_diff s a) + length (concat P1) = file_bytes s0" using len less.prems(2) nm(3) by simp
    have room: "Suc (length F) * n + length P2 < length (st_free s0) * n" using less.prems(10) True P by simp
    then have "Suc (length F) * n < length (st_free s0) * n" by linarith
    then have "Suc (length F) < length (st_free s0)" using mult_less_cancel2 by blast
    then have "st_free s \<noteq> []" using st by (simp add: stored_stream_def)
    from stored_full[OF st eq this less.prems(8)] obtain s3 b f where
      s3: "change_buffer ?t = Inr (s3, Some b)" "stored_stream s0 (got @ concat P1) s3 b (F @ [f])" by blast
    let ?k = "(k + n) mod m" let ?nets = "\<lambda>i. td_net (tds ! i)"
    have z: "st_diff s3 b = 0"
      using stored_length(1)[OF s3(2)] stored_length(1)[OF st] eq by (simp add: word_unat_eq_iff)
    have k: "?k < m" using nm(1) by simp
    have carry: "carry m ?k P2 ?nets"
      using r(3) True by (auto simp: carry_def list_all2_conv_all_nth thread_after_def dealt_mod)
    have n: "n = unat (opt_buf_num_elems (st_opt s3))" by (rule stored_setup(1)[OF s3(2) less.prems(3)])
    have e2: "multistream_loop (int m) (int k) (int ((k + n) mod m)) a (int m) (fresh_threads m nets) s =
        multistream_loop (int m) (int ?k) (int ((?k + n) mod m)) b (int m) (fresh_threads m ?nets) s3"
      using True full r(4) nm(1) s3(1) threads_again[OF r(3) True] next_remainder_mod[OF k nm(2) n] unfolding e by simp
    have "length P2 < length P" using True P nm by simp
    moreover have "\<forall>p \<in> set P2. length p = unat ?psize" using less.prems(6) P by simp
    moreover have "length (F @ [f]) * n + length P2 < length (st_free s0) * n" using room by simp
    ultimately have "\<exists>s1 b1 tds1 F1. multistream_loop (int m) (int ?k) (int ((?k + n) mod m)) b (int m) (fresh_threads m ?nets) s3 =
        Some (Inr (s1, Done (b1, tds1))) \<and> stored_stream s0 ((got @ concat P1) @ concat P2) s1 b1 F1 \<and> (\<forall>td \<in> set tds1. td_bytes_received td = 0)"
      using less.hyps[OF _ s3(2) z less.prems(3) k carry _ less.prems(7-9)] by blast
    then show ?thesis unfolding e2 P by simp
  qed
qed

section \<open>Property\<close>

lemma whole_packets:
  assumes "file_bytes s = n * unat (opt_packet_size (st_opt s))" and "\<forall>p \<in> set P. length p = unat (opt_packet_size (st_opt s))"
  shows "whole s (concat P) = concat P"
proof -
  let ?ps = "unat (opt_packet_size (st_opt s))"
  have "length (concat P) mod file_bytes s = (length P mod n) * ?ps"
    unfolding length_concat_same[OF assms(2)] assms(1) by (simp add: mult_mod_left)
  then have "length (concat P) mod file_bytes s < ?ps \<Longrightarrow> length (concat P) mod file_bytes s = 0" by auto
  then show ?thesis by (auto simp: whole_def)
qed

lemma rundown_nothing: "\<forall>td \<in> set tds. td_bytes_received td = 0 \<Longrightarrow> rundown a tds s = s"
  by (induction tds) (simp_all add: rundown_def)

text \<open>C32: A multi-stream recording restores the order: when the packets of a recording are dealt out to the connections in turn, the
  files handed to the writers, put together, are the packets one after the other, whatever the portions in which the bytes of each
  connection come, and also when the number of connections does not divide the number of packets of a buffer.\<close>

theorem multistream_restores_order:
  assumes "receiver_ready s" and "multi_setup n m s" and "opt_stream_multiply (st_opt s) = int m" and "carry m 0 P (\<lambda>i. nets ! i)"
    and "\<forall>p \<in> set P. length p = unat (opt_packet_size (st_opt s))" and "length P < length (st_free s) * n"
  shows "\<exists>s1. loop_with_threaded_multistream_recv nets s = Inr (s1, Done (Return 0)) \<and> recorded s (concat P) s1"
proof -
  let ?nets = "\<lambda>i. nets ! i"
  have nm: "0 < m" "m \<le> n" "n = unat (opt_buf_num_elems (st_opt s))" "file_bytes s = n * unat (opt_packet_size (st_opt s))"
    using assms(2) by (simp_all add: multi_setup_def)
  have "st_free s \<noteq> []" using assms(6) by auto
  from first_buffer[OF assms(1) this] obtain a t where get: "get_buffer (opt_cumul (st_opt s)) s = (t, Some a)"
    "t\<lparr>st_be := Some a\<rparr> = first_taken s a" "stored_stream s [] (first_taken s a) a []" .
  have ready: "has (opt_status (st_opt s)) STATUS_RUNNING" "opt_fi (st_opt s) \<noteq> None" "opt_packet_size (st_opt s) \<noteq> 0"
    using assms(1) by (simp_all add: receiver_ready_def)
  have "st_diff (first_taken s a) a = 0" "length [] * n + length P < length (st_free s) * n"
    using assms(6) by (simp_all add: first_taken_def)
  from multistream_loop_stores[OF get(3) this(1) assms(2) nm(1) assms(4,5) ready this(2)] obtain s1 b tds F where
    loop: "multistream_loop (int m) 0 (int (n mod m)) a (int m) (fresh_threads m ?nets) (first_taken s a) = Some (Inr (s1, Done (b, tds)))"
    and st: "stored_stream s (concat P) s1 b F" and z: "\<forall>td \<in> set tds. td_bytes_received td = 0" by auto
  have lt: "n < 2 ^ 32" using unsigned_less[of "opt_buf_num_elems (st_opt s)"] unfolding nm(3) by simp
  then have "m < 2 ^ 32" using nm(2) by linarith
  from uint_mod_small[OF lt this] have endr: "uint (opt_buf_num_elems (st_opt s) mod word_of_int (int m)) = int (n mod m)"
    unfolding nm(3) by simp
  from recorded_last_buffer[OF assms(1) st] obtain s3 where
    "last_buffer True b s1 = Inr s3" "recorded s (concat P) (mark_stopped s3)"
    using whole_packets[OF nm(4) assms(5)] by auto
  then show ?thesis
    using loop get(1,2) nm(1) endr rundown_nothing[OF z, of b s1]
    by (simp add: loop_with_threaded_multistream_recv_def assms(3) Let_def)
qed

definition multi_example :: stream where
  "multi_example = tcp_example\<lparr>st_opt := zero_opt\<lparr>opt_buf_num_elems := 3, opt_packet_size := 2, opt_stream_multiply := 2, opt_fi := Some 0,
     opt_status := STATUS_RUNNING\<rparr>, st_data := (\<lambda>_. replicate 6 0)\<rparr>"

text \<open>Four packets over two connections into buffers of three packets.\<close>

theorem multistream_restores_order_witness:
  "\<exists>s1. loop_with_threaded_multistream_recv [[Bytes [1], Bytes [2, 5, 6], Peer_Closed], [Bytes [3, 4, 7], Bytes [8], Peer_Closed]] multi_example =
      Inr (s1, Done (Return 0)) \<and> recorded multi_example [1, 2, 3, 4, 5, 6, 7, 8] s1"
proof -
  have "receiver_ready multi_example" "multi_setup 3 2 multi_example" "opt_stream_multiply (st_opt multi_example) = int 2"
    "unat (opt_packet_size (st_opt multi_example)) = 2" "length (st_free multi_example) = 3"
    by (simp_all add: receiver_ready_def multi_setup_def multi_example_def tcp_example_def file_bytes_def CALC_BUFSIZE_FROM_OPT_def
        zero_opt_def has_def STATUS_RUNNING_def STATUS_ERROR_def flag_def)
  moreover have "carry 2 0 [[1, 2], [3, 4], [5, 6], [7, 8]]
      (\<lambda>i. [[Bytes [1], Bytes [2, 5, 6], Peer_Closed], [Bytes [3, 4, 7], Bytes [8], Peer_Closed]] ! i)"
    by (auto simp: carry_def less_2_cases_iff)
  ultimately show ?thesis
    using multistream_restores_order[of multi_example 3 2 "[[1, 2], [3, 4], [5, 6], [7, 8]]"
        "[[Bytes [1], Bytes [2, 5, 6], Peer_Closed], [Bytes [3, 4, 7], Bytes [8], Peer_Closed]]"] by simp
qed

end
