(* ===== verification/SpliceWriter.thy ===== *)
theory SpliceWriter
  imports Interfaces
begin

text \<open>
  The splice writer (\<open>src/splicewriter.c\<close>): the thread of a buffer hands its pages to a pipe, and a partner thread moves
  them from the pipe to the file. The two take turns over \<open>pstatus\<close> under a mutex with one condition variable.

  A step of a thread is a function of the state; its result is \<open>None\<close> while the thread is blocked. What a call of the kernel
  moves is an argument of the step. A pipe holds as many bytes as its pages have, a call on a full or an empty pipe blocks,
  and one on a closed file fails. Locking and signalling succeed.
\<close>

section \<open>The vectors\<close>

definition PSTATUS_RUN :: int where "PSTATUS_RUN = 1"
definition PSTATUS_JOBTODO :: int where "PSTATUS_JOBTODO = 2"
definition PSTATUS_END :: int where "PSTATUS_END = 0"
definition PSTATUS_ERROR :: int where "PSTATUS_ERROR = - 1"

lemmas pstatus_defs = PSTATUS_RUN_def PSTATUS_JOBTODO_def PSTATUS_END_def PSTATUS_ERROR_def

text \<open>The pages of \<open>len\<close> bytes that fit a pipe of \<open>maxlen\<close> pages, each with its offset from \<open>start\<close>, and the rest of the last.\<close>

definition setup_nvecs :: "nat \<Rightarrow> nat \<Rightarrow> nat \<Rightarrow> nat \<Rightarrow> (nat \<times> nat) list" where
  "setup_nvecs maxlen pagesize start len =
     (let n = min maxlen (len div pagesize); pages = map (\<lambda>i. (start + i * pagesize, pagesize)) [0 ..< n]; lastwrite = len mod pagesize in
      if n < maxlen \<and> lastwrite \<noteq> 0 then pages @ [(start + n * pagesize, lastwrite)] else pages)"

section \<open>The state of the two threads\<close>

datatype side = Main | Partner

text \<open>Where \<open>partnerloop\<close> stands: before its first lock, at its outer and inner loop, waiting, woken up, moving what is left
  of a job, about to report an error, about to report a job done, ended.\<close>

datatype partner_pc = P_Lock | P_Check | P_Test | P_Wait | P_Wake | P_Copy nat | P_Error | P_Done | P_Exit

text \<open>Where the thread of the buffer stands. In \<open>splice_write\<close>: before its lock, waiting for the partner, filling the pipe with
  what is to be moved and what has been moved, waiting for the job to be done, returned. In \<open>splice_close\<close>: before its lock,
  joining the partner, closed.\<close>

datatype main_pc = M_Idle | M_Lock "u8 list" | M_Test "u8 list" | M_Wait "u8 list" | M_Wake "u8 list"
  | M_Copy "u8 list" "u8 list" | M_Lock2 "u8 list" "u8 list" | M_Test2 "u8 list" "u8 list" | M_Wait2 "u8 list" "u8 list" | M_Wake2 "u8 list" "u8 list"
  | M_Return int "u8 list" | M_Close | M_Join | M_Closed

text \<open>\<open>sp_file\<close> is what the file has taken when writing, and what it still has to give when reading.\<close>

record splice_ops =
  sp_readmode :: bool
  sp_max_pipe_length :: nat
  sp_pagesize :: nat
  sp_status :: int
  sp_tosplice :: nat
  sp_lock :: "side option"
  sp_pipe :: "u8 list"
  sp_file :: "u8 list"
  sp_open :: bool
  sp_exchanged :: int
  sp_main :: main_pc
  sp_partner :: partner_pc

definition room :: "splice_ops \<Rightarrow> nat" where
  "room s = sp_max_pipe_length s * sp_pagesize s - length (sp_pipe s)"

text \<open>What the kernel does with a call that does not block: it moves some bytes, or fails.\<close>

datatype kernel = Moves nat | Fails

definition moved :: "nat \<Rightarrow> nat \<Rightarrow> nat" where
  "moved k avail = max 1 (min k avail)"

text \<open>A signal wakes the other thread when it waits.\<close>

definition signal_main :: "main_pc \<Rightarrow> main_pc" where
  "signal_main pc = (case pc of M_Wait bs \<Rightarrow> M_Wake bs | M_Wait2 t d \<Rightarrow> M_Wake2 t d | _ \<Rightarrow> pc)"

definition signal_partner :: "partner_pc \<Rightarrow> partner_pc" where
  "signal_partner pc = (if pc = P_Wait then P_Wake else pc)"

section \<open>The partner\<close>

text \<open>One \<open>splice\<close> of the partner, with \<open>left\<close> bytes of its job to go: from the pipe to the file, or from the file to the pipe, where
  the end of the file ends the job.\<close>

definition partner_splice :: "kernel \<Rightarrow> nat \<Rightarrow> splice_ops \<Rightarrow> splice_ops option" where
  "partner_splice k left s =
     (let want = min left (sp_max_pipe_length s * sp_pagesize s) in
      if \<not> sp_open s then Some (s\<lparr>sp_partner := P_Error\<rparr>)
      else if \<not> sp_readmode s
      then (if sp_pipe s = [] then None
            else (case k of Fails \<Rightarrow> Some (s\<lparr>sp_partner := P_Error\<rparr>)
              | Moves j \<Rightarrow> (let n = moved j (min want (length (sp_pipe s))) in
                  Some (s\<lparr>sp_pipe := drop n (sp_pipe s), sp_file := sp_file s @ take n (sp_pipe s), sp_partner := P_Copy (left - n)\<rparr>))))
      else (if sp_file s = [] then Some (s\<lparr>sp_partner := P_Done\<rparr>)
            else if room s = 0 then None
            else (case k of Fails \<Rightarrow> Some (s\<lparr>sp_partner := P_Error\<rparr>)
              | Moves j \<Rightarrow> (let n = moved j (min (min want (room s)) (length (sp_file s))) in
                  Some (s\<lparr>sp_pipe := sp_pipe s @ take n (sp_file s), sp_file := drop n (sp_file s), sp_partner := P_Copy (left - n)\<rparr>)))))"

definition partnerloop :: "kernel \<Rightarrow> splice_ops \<Rightarrow> splice_ops option" where
  "partnerloop k s = (case sp_partner s of
       P_Lock \<Rightarrow> if sp_lock s = None then Some (s\<lparr>sp_lock := Some Partner, sp_partner := P_Check\<rparr>) else None
     | P_Check \<Rightarrow> if sp_status s > PSTATUS_END then Some (s\<lparr>sp_partner := P_Test\<rparr>)
         else Some (s\<lparr>sp_status := PSTATUS_END, sp_lock := None, sp_partner := P_Exit\<rparr>)
     | P_Test \<Rightarrow> if sp_status s = PSTATUS_RUN then Some (s\<lparr>sp_lock := None, sp_partner := P_Wait\<rparr>)
         else Some (s\<lparr>sp_lock := None, sp_partner := P_Copy (sp_tosplice s)\<rparr>)
     | P_Wait \<Rightarrow> None
     | P_Wake \<Rightarrow> if sp_lock s = None then Some (s\<lparr>sp_lock := Some Partner, sp_partner := P_Test\<rparr>) else None
     | P_Copy left \<Rightarrow> if left = 0 then Some (s\<lparr>sp_partner := P_Done\<rparr>) else partner_splice k left s
     | P_Error \<Rightarrow> if sp_lock s = None then Some (s\<lparr>sp_status := PSTATUS_ERROR, sp_partner := P_Exit\<rparr>) else None
     | P_Done \<Rightarrow> if sp_lock s = None
         then Some (if sp_status s > PSTATUS_END
           then s\<lparr>sp_lock := Some Partner, sp_status := PSTATUS_RUN, sp_main := signal_main (sp_main s), sp_partner := P_Check\<rparr>
           else s\<lparr>sp_lock := Some Partner, sp_partner := P_Check\<rparr>) else None
     | P_Exit \<Rightarrow> None)"

section \<open>The thread of the buffer\<close>

text \<open>One \<open>vmsplice\<close>: \<open>todo\<close> is the part of the buffer from \<open>start\<close> on, \<open>d\<close> the part before it.\<close>

definition main_vmsplice :: "kernel \<Rightarrow> u8 list \<Rightarrow> u8 list \<Rightarrow> splice_ops \<Rightarrow> splice_ops option" where
  "main_vmsplice k todo d s =
     (let vecs = setup_nvecs (sp_max_pipe_length s) (sp_pagesize s) (length d) (length todo); offered = sum_list (map snd vecs) in
      if \<not> sp_readmode s
      then (if room s = 0 then None
            else (case k of Fails \<Rightarrow> Some (s\<lparr>sp_main := M_Return (- 1) d\<rparr>)
              | Moves j \<Rightarrow> (let n = moved j (min offered (room s)) in
                  Some (s\<lparr>sp_pipe := sp_pipe s @ take n todo, sp_main := M_Copy (drop n todo) (d @ take n todo)\<rparr>))))
      else (if sp_pipe s = [] then None
            else (case k of Fails \<Rightarrow> Some (s\<lparr>sp_main := M_Return (- 1) d\<rparr>)
              | Moves j \<Rightarrow> (let n = moved j (min offered (length (sp_pipe s))) in
                  Some (s\<lparr>sp_pipe := drop n (sp_pipe s), sp_main := M_Copy (drop n todo) (d @ take n (sp_pipe s))\<rparr>)))))"

text \<open>When the partner has ended the call returns with the mutex still locked.\<close>

definition splice_write :: "kernel \<Rightarrow> splice_ops \<Rightarrow> splice_ops option" where
  "splice_write k s = (case sp_main s of
       M_Lock bs \<Rightarrow> if sp_lock s = None then Some (s\<lparr>sp_lock := Some Main, sp_tosplice := length bs, sp_main := M_Test bs\<rparr>) else None
     | M_Test bs \<Rightarrow> if sp_status s = PSTATUS_JOBTODO then Some (s\<lparr>sp_lock := None, sp_main := M_Wait bs\<rparr>)
         else if sp_status s = PSTATUS_RUN
         then Some (s\<lparr>sp_status := PSTATUS_JOBTODO, sp_partner := signal_partner (sp_partner s), sp_lock := None, sp_main := M_Copy bs []\<rparr>)
         else Some (s\<lparr>sp_main := M_Return (- 1) []\<rparr>)
     | M_Wake bs \<Rightarrow> if sp_lock s = None then Some (s\<lparr>sp_lock := Some Main, sp_main := M_Test bs\<rparr>) else None
     | M_Copy todo d \<Rightarrow> if todo \<noteq> [] \<and> sp_status s > PSTATUS_END then main_vmsplice k todo d s
         else Some (s\<lparr>sp_exchanged := sp_exchanged s + int (length d), sp_main := M_Lock2 todo d\<rparr>)
     | M_Lock2 todo d \<Rightarrow> if sp_lock s = None then Some (s\<lparr>sp_lock := Some Main, sp_main := M_Test2 todo d\<rparr>) else None
     | M_Test2 todo d \<Rightarrow> if sp_status s = PSTATUS_JOBTODO then Some (s\<lparr>sp_lock := None, sp_main := M_Wait2 todo d\<rparr>)
         else Some (s\<lparr>sp_lock := None, sp_main := M_Return (if sp_status s = PSTATUS_ERROR then - 1 else int (length d)) d\<rparr>)
     | M_Wake2 todo d \<Rightarrow> if sp_lock s = None then Some (s\<lparr>sp_lock := Some Main, sp_main := M_Test2 todo d\<rparr>) else None
     | _ \<Rightarrow> None)"

definition splice_close :: "splice_ops \<Rightarrow> splice_ops option" where
  "splice_close s = (case sp_main s of
       M_Close \<Rightarrow> if sp_lock s = None
         then Some (s\<lparr>sp_status := PSTATUS_END, sp_partner := signal_partner (sp_partner s), sp_main := M_Join\<rparr>) else None
     | M_Join \<Rightarrow> if sp_partner s = P_Exit then Some (s\<lparr>sp_main := M_Closed\<rparr>) else None
     | _ \<Rightarrow> None)"

section \<open>Runs\<close>

text \<open>\<open>init_splice\<close> after the calls of the system: the result of \<open>common_w_init\<close>, of \<open>pipe\<close>, the pipe size, the page size, and the
  results of creating mutex, condition variable and partner.\<close>

definition init_splice :: "bool \<Rightarrow> int \<Rightarrow> int \<Rightarrow> nat \<Rightarrow> nat \<Rightarrow> int \<Rightarrow> int \<Rightarrow> int \<Rightarrow> u8 list \<Rightarrow> int + splice_ops" where
  "init_splice readmode ret pipe maxbytes pagesize mutex cond create contents =
     (if ret < 0 then Inl (- 1) else if pipe < 0 then Inl (- 1)
      else if mutex \<noteq> 0 then Inl mutex else if cond \<noteq> 0 then Inl cond else if create \<noteq> 0 then Inl create
      else Inr \<lparr>sp_readmode = readmode, sp_max_pipe_length = maxbytes div pagesize, sp_pagesize = pagesize, sp_status = PSTATUS_RUN,
        sp_tosplice = 0, sp_lock = None, sp_pipe = [], sp_file = contents, sp_open = True, sp_exchanged = 0, sp_main = M_Idle, sp_partner = P_Lock\<rparr>)"

text \<open>A step of either thread.\<close>

inductive splice_step :: "splice_ops \<Rightarrow> splice_ops \<Rightarrow> bool" where
  by_partner: "partnerloop k s = Some s1 \<Longrightarrow> splice_step s s1"
| by_write: "splice_write k s = Some s1 \<Longrightarrow> splice_step s s1"
| by_close: "splice_close s = Some s1 \<Longrightarrow> splice_step s s1"

text \<open>The caller passes a buffer when the one before has been written, and closes the writer when it is done; \<open>splice_run\<close>
  collects the buffers passed.\<close>

definition returned :: "main_pc \<Rightarrow> bool" where
  "returned pc = (case pc of M_Idle \<Rightarrow> True | M_Return r d \<Rightarrow> 0 \<le> r | _ \<Rightarrow> False)"

inductive splice_run :: "splice_ops \<Rightarrow> u8 list list \<Rightarrow> splice_ops \<Rightarrow> bool" for s0 where
  start: "splice_run s0 [] s0"
| step: "splice_run s0 bss s \<Longrightarrow> splice_step s s1 \<Longrightarrow> splice_run s0 bss s1"
| call: "splice_run s0 bss s \<Longrightarrow> returned (sp_main s) \<Longrightarrow> splice_run s0 (bss @ [bs]) (s\<lparr>sp_main := M_Lock bs\<rparr>)"
| finish: "splice_run s0 bss s \<Longrightarrow> returned (sp_main s) \<Longrightarrow> splice_run s0 bss (s\<lparr>sp_main := M_Close, sp_open := opened\<rparr>)"

end
