(* ===== verification/SpliceProtocol.thy ===== *)
theory SpliceProtocol
  imports SpliceWriter
begin

text \<open>
  What the splice writer promises: the vectors cover the buffer, a write that reports success has put the whole buffer into the file,
  and without failures every write returns; and where the hand-over between the two threads breaks.
\<close>

section \<open>The vectors\<close>

lemma slice_pages: "concat (map (\<lambda>i. slice buf (st + i * p) p) [0 ..< n]) = slice buf st (n * p)" if "st + n * p \<le> length buf"
  using that
proof (induction n)
  case (Suc n)
  then have "slice buf st (n * p) @ slice buf (st + n * p) p = slice buf st (n * p + p)"
    unfolding slice_def take_add by (simp add: add.commute)
  with Suc show ?case by (simp add: add.commute)
qed (simp add: slice_def)

definition gathered :: "u8 list \<Rightarrow> (nat \<times> nat) list \<Rightarrow> u8 list" where
  "gathered buf vecs = concat (map (\<lambda>(off, n). slice buf off n) vecs)"

lemma nvecs_gather:
  assumes "st + len \<le> length buf" and "0 < p"
  shows "gathered buf (setup_nvecs m p st len) = slice buf st (min len (m * p))"
proof -
  let ?n = "min m (len div p)"
  have le: "?n * p \<le> len" using div_times_less_eq_dividend[of len p] by (meson le_trans min.cobounded2 mult_le_mono1)
  then have "st + ?n * p \<le> length buf" using assms by linarith
  note pages = slice_pages[OF this]
  show ?thesis
  proof (cases "?n < m \<and> len mod p \<noteq> 0")
    case True
    then have n: "?n = len div p" by (simp add: min_def split: if_splits)
    then have e: "?n * p + len mod p = len" by simp
    have "len < m * p"
    proof -
      have "len < Suc (len div p) * p" using assms(2) by (simp add: dividend_less_div_times)
      also have "\<dots> \<le> m * p" using True n by (intro mult_le_mono1) simp
      finally show ?thesis .
    qed
    moreover have "slice buf st (?n * p) @ slice buf (st + ?n * p) (len mod p) = slice buf st len"
      using take_add[of "?n * p" "len mod p" "drop st buf"] unfolding e by (simp add: slice_def add.commute)
    ultimately show ?thesis using True pages by (simp add: gathered_def setup_nvecs_def Let_def comp_def)
  next
    case False
    have "min len (m * p) = ?n * p"
    proof (cases "m \<le> len div p")
      case True
      then have "m * p \<le> len" using le by simp
      then show ?thesis using True by simp
    next
      case False2: False
      then have e: "?n = len div p" "len div p * p = len" using False by auto
      moreover have "len div p * p \<le> m * p" using False2 by (intro mult_le_mono1) simp
      ultimately show ?thesis by simp
    qed
    then show ?thesis using False pages by (auto simp: gathered_def setup_nvecs_def Let_def comp_def slice_def[of _ _ 0])
  qed
qed

lemma nvecs_sum:
  "0 < p \<Longrightarrow> sum_list (map snd (setup_nvecs m p st len)) = min len (m * p)"
proof -
  assume p: "0 < p"
  have pages: "sum_list (map snd (map (\<lambda>i. (st + i * p, p)) [0 ..< n])) = n * p" for n
    by (simp add: comp_def sum_list_triv)
  show ?thesis
  proof (cases "m \<le> len div p")
    case True
    then have "m * p \<le> len" using p by (simp add: less_eq_div_iff_mult_less_eq)
    then show ?thesis using True pages[of m] by (simp add: setup_nvecs_def Let_def min_def)
  next
    case False
    then have "len < m * p" using p by (simp add: div_less_iff_less_mult not_le)
    then show ?thesis using False pages[of "len div p"] by (auto simp: setup_nvecs_def Let_def min_def)
  qed
qed

section \<open>The invariant of the hand-over\<close>

text \<open>Writing, with all earlier bytes \<open>P\<close> in the file: no job, and a job of which \<open>d\<close> has gone to the pipe and \<open>todo\<close> has not.\<close>

definition no_job :: "u8 list \<Rightarrow> splice_ops \<Rightarrow> bool" where
  "no_job P s \<longleftrightarrow> sp_file s = P \<and> sp_pipe s = [] \<and> sp_status s = PSTATUS_RUN \<and> sp_partner s \<in> {P_Lock, P_Check, P_Test, P_Wait}"

definition ready_for_job :: "u8 list \<Rightarrow> u8 list \<Rightarrow> splice_ops \<Rightarrow> bool" where
  "ready_for_job P d s \<longleftrightarrow> sp_status s = PSTATUS_JOBTODO \<and> sp_partner s \<in> {P_Lock, P_Check, P_Test, P_Wake} \<and> sp_file s = P \<and> sp_pipe s = d"

definition on_job :: "u8 list \<Rightarrow> u8 list \<Rightarrow> u8 list \<Rightarrow> splice_ops \<Rightarrow> bool" where
  "on_job P todo d s \<longleftrightarrow> sp_status s = PSTATUS_JOBTODO \<and> sp_file s @ sp_pipe s = P @ d \<and> (\<exists>left. (sp_partner s = P_Copy left \<or> sp_partner s = P_Done \<and> left = 0) \<and>
     length (sp_file s) + left = length P + length d + length todo)"

definition job_done :: "u8 list \<Rightarrow> u8 list \<Rightarrow> u8 list \<Rightarrow> splice_ops \<Rightarrow> bool" where
  "job_done P todo d s \<longleftrightarrow> todo = [] \<and> no_job (P @ d) s \<and> sp_partner s \<noteq> P_Lock"

definition job_failed :: "splice_ops \<Rightarrow> bool" where
  "job_failed s \<longleftrightarrow> sp_partner s = P_Error \<and> sp_status s = PSTATUS_JOBTODO \<or> sp_partner s = P_Exit \<and> sp_status s = PSTATUS_ERROR"

definition job :: "u8 list \<Rightarrow> u8 list \<Rightarrow> u8 list \<Rightarrow> splice_ops \<Rightarrow> bool" where
  "job P todo d s \<longleftrightarrow> sp_tosplice s = length d + length todo \<and> (ready_for_job P d s \<or> on_job P todo d s \<or> job_done P todo d s \<or> job_failed s)"

definition lock_ok :: "splice_ops \<Rightarrow> bool" where
  "lock_ok s \<longleftrightarrow> (sp_lock s = Some Partner \<longleftrightarrow> sp_partner s \<in> {P_Check, P_Test}) \<and>
     (sp_lock s = Some Main \<longleftrightarrow> (case sp_main s of M_Test bs \<Rightarrow> True | M_Test2 t d \<Rightarrow> True | _ \<Rightarrow> False))"

text \<open>\<open>P\<close> are the bytes of the buffers before the last one, \<open>bs\<close> is the last one.\<close>

definition main_ok :: "u8 list \<Rightarrow> u8 list \<Rightarrow> splice_ops \<Rightarrow> bool" where
  "main_ok P bs s \<longleftrightarrow> (case sp_main s of
       M_Lock b \<Rightarrow> b = bs \<and> no_job P s
     | M_Test b \<Rightarrow> b = bs \<and> no_job P s \<and> sp_tosplice s = length bs
     | M_Copy todo d \<Rightarrow> d @ todo = bs \<and> job P todo d s
     | M_Lock2 todo d \<Rightarrow> d @ todo = bs \<and> job P todo d s \<and> (todo = [] \<or> sp_status s = PSTATUS_ERROR)
     | M_Test2 todo d \<Rightarrow> d @ todo = bs \<and> job P todo d s \<and> (todo = [] \<or> sp_status s = PSTATUS_ERROR)
     | M_Wait2 todo d \<Rightarrow> d @ todo = bs \<and> job P todo d s \<and> (todo = [] \<or> sp_status s = PSTATUS_ERROR) \<and> sp_status s \<noteq> PSTATUS_RUN
     | M_Wake2 todo d \<Rightarrow> d @ todo = bs \<and> job P todo d s \<and> (todo = [] \<or> sp_status s = PSTATUS_ERROR) \<and> sp_status s \<noteq> PSTATUS_JOBTODO
     | M_Return r d \<Rightarrow> r = int (length bs) \<and> no_job (P @ bs) s \<and> sp_partner s = P_Wait \<and> sp_tosplice s = length bs
     | _ \<Rightarrow> False)"

definition failed :: "splice_ops \<Rightarrow> bool" where
  "failed s \<longleftrightarrow> (\<exists>r d. sp_main s = M_Return r d \<and> r < 0)"

definition writing :: "splice_ops \<Rightarrow> bool" where
  "writing s \<longleftrightarrow> \<not> sp_readmode s \<and> 0 < sp_max_pipe_length s \<and> 0 < sp_pagesize s"

lemmas splice_defs = main_ok_def job_def no_job_def ready_for_job_def on_job_def job_done_def job_failed_def lock_ok_def pstatus_defs

lemma append_take_drop_eq: "f @ p = P @ d \<Longrightarrow> (f @ take n p) @ drop n p = P @ d"
  by simp

lemma partner_copy_step:
  assumes "writing s" and "sp_open s" and "on_job P todo d s" and "sp_partner s = P_Copy left" and "0 < left" and "partner_splice k left s = Some s1"
  shows "(on_job P todo d s1 \<or> job_failed s1) \<and> sp_main s1 = sp_main s \<and> sp_lock s1 = sp_lock s \<and> sp_tosplice s1 = sp_tosplice s \<and>
    sp_status s1 = sp_status s \<and> (\<exists>l. sp_partner s1 = P_Copy l \<or> sp_partner s1 = P_Error)"
proof (cases k)
  case Fails
  then show ?thesis using assms by (auto simp: partner_splice_def writing_def on_job_def job_failed_def Let_def split: if_splits)
next
  case (Moves j)
  define n where "n = moved j (min (min left (sp_max_pipe_length s * sp_pagesize s)) (length (sp_pipe s)))"
  have p: "sp_pipe s \<noteq> []" and s1: "s1 = s\<lparr>sp_pipe := drop n (sp_pipe s), sp_file := sp_file s @ take n (sp_pipe s), sp_partner := P_Copy (left - n)\<rparr>"
    using assms(1,2,6) Moves by (auto simp: partner_splice_def writing_def Let_def n_def split: if_splits)
  have "0 < sp_max_pipe_length s * sp_pagesize s" using assms(1) by (simp add: writing_def)
  then have n: "n \<le> left" "n \<le> length (sp_pipe s)" using p assms(5) by (auto simp: n_def moved_def Suc_le_eq)
  have "length (sp_file s) + left = length P + length d + length todo" "sp_file s @ sp_pipe s = P @ d" "sp_status s = PSTATUS_JOBTODO"
    using assms(3,4) by (auto simp: on_job_def)
  then have "on_job P todo d s1" using n by (auto simp: on_job_def s1)
  then show ?thesis by (simp add: s1)
qed

lemma partner_no_job:
  assumes "no_job P s" and "partnerloop k s = Some s1"
  shows "no_job P s1 \<and> sp_main s1 = sp_main s \<and> sp_tosplice s1 = sp_tosplice s \<and> sp_partner s \<noteq> P_Wait"
  using assms by (auto simp: partnerloop_def no_job_def pstatus_defs split: if_splits)

lemma partner_splice_frame:
  assumes "partner_splice k left s = Some s1"
  shows "sp_main s1 = sp_main s \<and> sp_lock s1 = sp_lock s \<and> sp_partner s1 \<notin> {P_Check, P_Test}"
  using assms by (auto simp: partner_splice_def Let_def split: if_splits kernel.splits)

lemma signal_main_test: "(case signal_main pc of M_Test bs \<Rightarrow> True | M_Test2 t d \<Rightarrow> True | _ \<Rightarrow> False) \<longleftrightarrow>
    (case pc of M_Test bs \<Rightarrow> True | M_Test2 t d \<Rightarrow> True | _ \<Rightarrow> False)"
  by (cases pc) (simp_all add: signal_main_def)

lemma partner_lock:
  assumes "lock_ok s" and "partnerloop k s = Some s1"
  shows "lock_ok s1"
proof (cases "sp_partner s")
  case (P_Copy left)
  then show ?thesis using assms partner_splice_frame[of k left s s1]
    by (cases "left = 0") (auto simp: partnerloop_def lock_ok_def)
qed (use assms in \<open>auto simp: partnerloop_def lock_ok_def signal_main_test split: if_splits\<close>)

lemma partner_same:
  assumes "partnerloop k s = Some s1"
  shows "sp_readmode s1 = sp_readmode s \<and> sp_max_pipe_length s1 = sp_max_pipe_length s \<and> sp_pagesize s1 = sp_pagesize s \<and> sp_open s1 = sp_open s"
  using assms by (auto simp: partnerloop_def partner_splice_def Let_def split: partner_pc.splits if_splits kernel.splits)

text \<open>A step of the partner on a job: it is further on, or done, when the other thread is woken, or has failed.\<close>

lemma partner_job:
  assumes "writing s" and "sp_open s" and "job P todo d s" and "partnerloop k s = Some s1"
  shows "job P todo d s1 \<and> (sp_main s1 = sp_main s \<and> (sp_status s1 = sp_status s \<or> sp_status s1 = PSTATUS_ERROR) \<or>
    job_done P todo d s1 \<and> sp_main s1 = signal_main (sp_main s))"
proof -
  consider "ready_for_job P d s" | "on_job P todo d s" | "job_done P todo d s" | "job_failed s" using assms(3) by (auto simp: job_def)
  then show ?thesis
  proof cases
    case 1
    then show ?thesis using assms(3,4)
      by (auto simp: partnerloop_def job_def ready_for_job_def on_job_def pstatus_defs split: if_splits)
  next
    case 2
    then obtain left where l: "sp_partner s = P_Copy left \<or> sp_partner s = P_Done \<and> left = 0"
      "length (sp_file s) + left = length P + length d + length todo" by (auto simp: on_job_def)
    show ?thesis
    proof (cases "sp_partner s = P_Copy left \<and> 0 < left")
      case True
      then show ?thesis using partner_copy_step[OF assms(1,2) 2, of left k s1] assms(3,4) by (auto simp: partnerloop_def job_def)
    next
      case False
      then have left: "left = 0" using l(1) by auto
      have e: "sp_file s @ sp_pipe s = P @ d" "sp_status s = PSTATUS_JOBTODO" using 2 by (auto simp: on_job_def)
      have "length (sp_file s) + length (sp_pipe s) = length P + length d" using arg_cong[OF e(1), of length] by simp
      then have "todo = []" "sp_pipe s = []" using l(2) left by auto
      note z = this
      show ?thesis
      proof (cases "sp_partner s = P_Done")
        case True
        then show ?thesis using z e assms(3,4)
          by (auto simp: partnerloop_def job_def job_done_def no_job_def pstatus_defs split: if_splits)
      next
        case False
        then have "s1 = s\<lparr>sp_partner := P_Done\<rparr>" using l(1) left assms(4) by (simp add: partnerloop_def)
        then show ?thesis using l(2) left e assms(3) by (simp add: job_def on_job_def)
      qed
    qed
  next
    case 3
    then show ?thesis using assms(3,4) partner_no_job[of "P @ d" s k s1]
      by (auto simp: job_def job_done_def no_job_def partnerloop_def pstatus_defs split: if_splits)
  next
    case 4
    then show ?thesis using assms(3,4) by (auto simp: partnerloop_def job_def job_failed_def pstatus_defs split: if_splits)
  qed
qed

lemma done_status: "job_done P todo d s \<Longrightarrow> todo = [] \<and> sp_status s = PSTATUS_RUN"
  by (simp add: job_done_def no_job_def)

lemma main_ok_partner:
  assumes "writing s" and "sp_open s" and "main_ok P bs s" and "partnerloop k s = Some s1"
  shows "main_ok P bs s1"
proof -
  note job = partner_job[OF assms(1,2) _ assms(4)]
  show ?thesis
  proof (cases "sp_main s")
    case (M_Copy todo d)
    then show ?thesis using assms(3) job[of P todo d] by (auto simp: main_ok_def signal_main_def)
  next
    case (M_Lock2 todo d)
    then show ?thesis using assms(3) job[of P todo d] by (auto simp: main_ok_def signal_main_def dest: done_status)
  next
    case (M_Test2 todo d)
    then show ?thesis using assms(3) job[of P todo d] by (auto simp: main_ok_def signal_main_def dest: done_status)
  next
    case (M_Wait2 todo d)
    then show ?thesis using assms(3) job[of P todo d]
      by (auto simp: main_ok_def signal_main_def pstatus_defs dest: done_status)
  next
    case (M_Wake2 todo d)
    then show ?thesis using assms(3) job[of P todo d]
      by (auto simp: main_ok_def signal_main_def pstatus_defs dest: done_status)
  qed (use assms(3,4) partner_no_job[of P s k s1] partner_no_job[of "P @ bs" s k s1] in \<open>auto simp: main_ok_def\<close>)
qed

lemma writing_same:
  assumes "splice_write k s = Some s1"
  shows "sp_readmode s1 = sp_readmode s \<and> sp_max_pipe_length s1 = sp_max_pipe_length s \<and> sp_pagesize s1 = sp_pagesize s \<and> sp_open s1 = sp_open s"
proof (cases "sp_main s")
  case (M_Copy todo d)
  with assms show ?thesis
    by (auto simp: splice_write_def main_vmsplice_def Let_def split: if_splits kernel.splits)
qed (use assms in \<open>auto simp: splice_write_def split: if_splits\<close>)

lemma job_more:
  assumes "job P todo d s" and "todo \<noteq> []" and "n \<le> length todo" and "s1 = s\<lparr>sp_pipe := sp_pipe s @ take n todo, sp_main := pc\<rparr>"
  shows "job P (drop n todo) (d @ take n todo) s1"
proof -
  have "length (d @ take n todo) + length (drop n todo) = length d + length todo" using assms(3) by simp
  moreover consider "ready_for_job P d s" | "on_job P todo d s" | "job_failed s"
    using assms(1,2) by (auto simp: job_def job_done_def)
  then have "ready_for_job P (d @ take n todo) s1 \<or> on_job P (drop n todo) (d @ take n todo) s1 \<or> job_failed s1"
  proof cases
    case 2
    then obtain left where l: "sp_partner s = P_Copy left \<or> sp_partner s = P_Done \<and> left = 0" "sp_file s @ sp_pipe s = P @ d"
      "length (sp_file s) + left = length P + length d + length todo" "sp_status s = PSTATUS_JOBTODO" by (auto simp: on_job_def)
    have "sp_file s @ sp_pipe s @ take n todo = P @ d @ take n todo" using arg_cong[OF l(2), of "\<lambda>x. x @ take n todo"] by simp
    moreover have "length (sp_file s) + left = length P + length (d @ take n todo) + length (drop n todo)" using l(3) assms(3) by simp
    ultimately have "on_job P (drop n todo) (d @ take n todo) s1" using l(1,4) unfolding on_job_def assms(4) by auto
    then show ?thesis by blast
  qed (auto simp: assms(4) ready_for_job_def job_failed_def)
  ultimately show ?thesis using assms(1,4) unfolding job_def by auto
qed

lemma main_step_ok:
  assumes "writing s" and "main_ok P bs s" and "lock_ok s" and "splice_write k s = Some s1"
  shows "failed s1 \<or> main_ok P bs s1 \<and> lock_ok s1"
proof (cases "sp_main s")
  case (M_Lock b)
  then show ?thesis using assms by (auto simp: splice_write_def main_ok_def lock_ok_def no_job_def split: if_splits)
next
  case (M_Test b)
  then have "sp_lock s = Some Main" "sp_partner s \<in> {P_Lock, P_Wait}" using assms(2,3) by (auto simp: lock_ok_def main_ok_def no_job_def)
  then show ?thesis using M_Test assms(2,4)
    by (auto simp: splice_write_def main_ok_def lock_ok_def no_job_def job_def ready_for_job_def signal_partner_def pstatus_defs)
next
  case (M_Copy todo d)
  then have j: "job P todo d s" and bs: "bs = d @ todo" using assms(2) by (simp_all add: main_ok_def)
  show ?thesis
  proof (cases "todo \<noteq> [] \<and> sp_status s > PSTATUS_END")
    case True
    then have v: "main_vmsplice k todo d s = Some s1" using M_Copy assms(4) by (simp add: splice_write_def)
    show ?thesis
    proof (cases k)
      case Fails
      then show ?thesis using v assms(1) by (auto simp: main_vmsplice_def writing_def failed_def Let_def split: if_splits)
    next
      case (Moves x)
      let ?o = "min (sum_list (map snd (setup_nvecs (sp_max_pipe_length s) (sp_pagesize s) (length d) (length todo)))) (room s)"
      define n where "n = moved x ?o"
      have s1: "s1 = s\<lparr>sp_pipe := sp_pipe s @ take n todo, sp_main := M_Copy (drop n todo) (d @ take n todo)\<rparr>" and "room s \<noteq> 0"
        using v Moves assms(1) by (auto simp: main_vmsplice_def writing_def Let_def n_def split: if_splits)
      moreover have "0 < length todo" using True by simp
      ultimately have "n \<le> length todo" using assms(1) by (auto simp: n_def moved_def nvecs_sum writing_def Suc_le_eq)
      with job_more[OF j _ this s1] True show ?thesis
        using bs assms(3) M_Copy by (auto simp: main_ok_def lock_ok_def s1)
    qed
  next
    case False
    then have "s1 = s\<lparr>sp_exchanged := sp_exchanged s + int (length d), sp_main := M_Lock2 todo d\<rparr>"
      using M_Copy assms(4) by (auto simp: splice_write_def split: if_splits)
    moreover have "todo = [] \<or> sp_status s = PSTATUS_ERROR"
      using False j by (auto simp: splice_defs)
    moreover have "job P todo d (s\<lparr>sp_exchanged := e, sp_main := pc\<rparr>) = job P todo d s" for e pc
      by (simp add: job_def ready_for_job_def on_job_def job_done_def no_job_def job_failed_def)
    ultimately show ?thesis using j bs M_Copy assms(3) by (auto simp: main_ok_def lock_ok_def)
  qed
next
  case (M_Test2 todo d)
  then have j: "job P todo d s" and bs: "bs = d @ todo" and l: "sp_lock s = Some Main" "sp_partner s \<notin> {P_Check, P_Test}"
    using assms(2,3) by (auto simp: main_ok_def lock_ok_def)
  have same: "job P todo d (s\<lparr>sp_lock := x, sp_main := pc\<rparr>) = job P todo d s" for x pc
    by (simp add: job_def ready_for_job_def on_job_def job_done_def no_job_def job_failed_def)
  show ?thesis
  proof (cases "sp_status s = PSTATUS_RUN")
    case True
    then have "job_done P todo d s" using j by (auto simp: splice_defs)
    then show ?thesis using True M_Test2 assms(2,4) bs l j
      by (auto simp: splice_write_def main_ok_def lock_ok_def job_done_def no_job_def job_def pstatus_defs)
  next
    case False
    then show ?thesis using M_Test2 assms(2,4) bs l j
      by (auto simp: splice_write_def main_ok_def lock_ok_def same failed_def split: if_splits) (auto simp: splice_defs)
  qed
qed (use assms in \<open>auto simp: splice_write_def main_ok_def lock_ok_def job_def ready_for_job_def on_job_def job_done_def no_job_def job_failed_def split: if_splits\<close>)

section \<open>Runs\<close>

definition handover_ok :: "u8 list \<Rightarrow> u8 list list \<Rightarrow> splice_ops \<Rightarrow> bool" where
  "handover_ok f0 bss s \<longleftrightarrow> failed s \<or> sp_main s \<in> {M_Close, M_Join, M_Closed} \<or>
     writing s \<and> sp_open s \<and> lock_ok s \<and> (if sp_main s = M_Idle then bss = [] \<and> no_job f0 s
       else bss \<noteq> [] \<and> main_ok (f0 @ concat (butlast bss)) (last bss) s)"

lemma splice_close_main: "splice_close s = Some s1 \<Longrightarrow> sp_main s \<in> {M_Close, M_Join} \<and> sp_main s1 \<in> {M_Join, M_Closed}"
  by (cases "sp_main s") (auto simp: splice_close_def split: if_splits)

lemma partner_keeps_main: "partnerloop k s = Some s1 \<Longrightarrow> sp_main s1 = sp_main s \<or> sp_main s1 = signal_main (sp_main s)"
  using partner_splice_frame by (auto simp: partnerloop_def split: partner_pc.splits if_splits)

lemma signal_main_final [simp]: "signal_main M_Close = M_Close" "signal_main M_Join = M_Join" "signal_main M_Closed = M_Closed"
    "signal_main (M_Return r d) = M_Return r d" "signal_main M_Idle = M_Idle"
  by (simp_all add: signal_main_def)

lemma write_needs_call: "splice_write k s = Some s1 \<Longrightarrow> sp_main s \<notin> {M_Close, M_Join, M_Closed, M_Idle} \<and> \<not> failed s"
  by (auto simp: splice_write_def failed_def split: main_pc.splits)

lemma handover_step:
  assumes "handover_ok f0 bss s" and "splice_step s s1"
  shows "handover_ok f0 bss s1"
  using assms(2)
proof cases
  case (by_partner k)
  consider "failed s" | "sp_main s \<in> {M_Close, M_Join, M_Closed}" | "\<not> failed s" "sp_main s \<notin> {M_Close, M_Join, M_Closed}" by blast
  then show ?thesis
  proof cases
    case 3
    then have ok: "writing s" "sp_open s" "lock_ok s" "if sp_main s = M_Idle then bss = [] \<and> no_job f0 s
       else bss \<noteq> [] \<and> main_ok (f0 @ concat (butlast bss)) (last bss) s" using assms(1) by (auto simp: handover_ok_def)
    have "writing s1" "sp_open s1" "lock_ok s1"
      using ok(1-3) partner_same[OF by_partner] partner_lock[OF ok(3) by_partner] by (simp_all add: writing_def)
    moreover have "if sp_main s1 = M_Idle then bss = [] \<and> no_job f0 s1 else bss \<noteq> [] \<and> main_ok (f0 @ concat (butlast bss)) (last bss) s1"
    proof (cases "sp_main s = M_Idle")
      case True
      then show ?thesis using ok(4) partner_no_job[OF _ by_partner, of f0] by simp
    next
      case False
      then have "main_ok (f0 @ concat (butlast bss)) (last bss) s1" using ok main_ok_partner[OF ok(1,2) _ by_partner] by simp
      moreover from this have "sp_main s1 \<noteq> M_Idle" by (auto simp: main_ok_def)
      ultimately show ?thesis using False ok(4) by simp
    qed
    ultimately show ?thesis by (simp add: handover_ok_def)
  qed (use partner_keeps_main[OF by_partner] in \<open>auto simp: handover_ok_def failed_def\<close>)
next
  case (by_write k)
  from write_needs_call[OF by_write] assms(1) have ok: "writing s" "sp_open s" "lock_ok s" "bss \<noteq> []"
    "main_ok (f0 @ concat (butlast bss)) (last bss) s" by (auto simp: handover_ok_def)
  from main_step_ok[OF ok(1,5,3) by_write] show ?thesis
  proof
    assume "main_ok (f0 @ concat (butlast bss)) (last bss) s1 \<and> lock_ok s1"
    moreover from this have "sp_main s1 \<noteq> M_Idle" by (auto simp: main_ok_def)
    moreover have "writing s1" "sp_open s1" using ok(1,2) writing_same[OF by_write] by (simp_all add: writing_def)
    ultimately show ?thesis using ok(4) by (simp add: handover_ok_def)
  qed (simp add: handover_ok_def)
next
  case by_close
  then show ?thesis using splice_close_main[OF by_close] by (auto simp: handover_ok_def)
qed

lemma handover_run:
  assumes "splice_run s0 bss s" and "init_splice False ret pipe maxbytes pagesize mutex cond create f0 = Inr s0" and "0 < pagesize" and "pagesize \<le> maxbytes"
  shows "handover_ok f0 bss s"
  using assms(1)
proof induction
  case start
  have "s0 = \<lparr>sp_readmode = False, sp_max_pipe_length = maxbytes div pagesize, sp_pagesize = pagesize, sp_status = PSTATUS_RUN,
        sp_tosplice = 0, sp_lock = None, sp_pipe = [], sp_file = f0, sp_open = True, sp_exchanged = 0, sp_main = M_Idle, sp_partner = P_Lock\<rparr>"
    using assms(2) by (simp add: init_splice_def split: if_splits)
  moreover have "0 < maxbytes div pagesize" using assms(3,4) by (simp add: div_greater_zero_iff)
  ultimately show ?case using assms(3) by (simp add: handover_ok_def writing_def lock_ok_def no_job_def)
next
  case (step bss s s1)
  then show ?case by (blast intro: handover_step)
next
  case (call bss s bs)
  then have ok: "writing s" "sp_open s" "lock_ok s" "if sp_main s = M_Idle then bss = [] \<and> no_job f0 s
       else bss \<noteq> [] \<and> main_ok (f0 @ concat (butlast bss)) (last bss) s"
    by (auto simp: handover_ok_def returned_def failed_def split: main_pc.splits)
  have "no_job (f0 @ concat bss) s"
  proof (cases "sp_main s = M_Idle")
    case False
    then have "concat bss = concat (butlast bss) @ last bss" using ok(4) by (metis append_butlast_last_id concat.simps concat_append append_Nil2)
    then show ?thesis using False ok(4) call by (auto simp: main_ok_def returned_def split: main_pc.splits)
  qed (use ok(4) in simp)
  moreover have "no_job (f0 @ concat bss) (s\<lparr>sp_main := M_Lock bs\<rparr>) = no_job (f0 @ concat bss) s" by (simp add: no_job_def)
  moreover have "lock_ok (s\<lparr>sp_main := M_Lock bs\<rparr>)"
    using ok(3) call by (auto simp: lock_ok_def returned_def split: main_pc.splits)
  ultimately show ?case using ok(1,2) by (simp add: handover_ok_def main_ok_def writing_def)
next
  case (finish bss s opened)
  then show ?case by (simp add: handover_ok_def)
qed

section \<open>Without failures\<close>

inductive smooth :: "splice_ops \<Rightarrow> splice_ops \<Rightarrow> bool" where
  smooth_partner: "partnerloop (Moves k) s = Some s1 \<Longrightarrow> smooth s s1"
| smooth_write: "splice_write (Moves k) s = Some s1 \<Longrightarrow> smooth s s1"

definition working :: "u8 list \<Rightarrow> u8 list \<Rightarrow> splice_ops \<Rightarrow> bool" where
  "working P bs s \<longleftrightarrow> writing s \<and> sp_open s \<and> lock_ok s \<and> main_ok P bs s \<and> sp_partner s \<notin> {P_Error, P_Exit}"

lemma job_status: "job P todo d s \<Longrightarrow> sp_partner s \<notin> {P_Error, P_Exit} \<Longrightarrow> sp_status s = PSTATUS_RUN \<or> sp_status s = PSTATUS_JOBTODO"
  by (auto simp: job_def ready_for_job_def on_job_def job_done_def no_job_def job_failed_def)

lemma working_status: "working P bs s \<Longrightarrow> sp_status s = PSTATUS_RUN \<or> sp_status s = PSTATUS_JOBTODO"
  by (auto simp: working_def main_ok_def no_job_def dest: job_status split: main_pc.splits)

lemma partner_smooth:
  assumes "working P bs s" and "partnerloop (Moves k) s = Some s1"
  shows "sp_partner s1 \<notin> {P_Error, P_Exit}"
  using assms working_status[OF assms(1)]
  by (auto simp: working_def writing_def partnerloop_def partner_splice_def Let_def pstatus_defs split: partner_pc.splits if_splits)

lemma write_smooth:
  assumes "working P bs s" and "splice_write (Moves k) s = Some s1"
  shows "\<not> failed s1" and "sp_partner s1 \<notin> {P_Error, P_Exit}"
proof -
  note st = working_status[OF assms(1)]
  have w: "\<not> sp_readmode s" "sp_partner s \<notin> {P_Error, P_Exit}" using assms(1) by (simp_all add: working_def writing_def)
  have "\<not> failed s1 \<and> sp_partner s1 \<notin> {P_Error, P_Exit}"
  proof (cases "sp_main s")
    case (M_Copy todo d)
    with assms(2) w show ?thesis by (auto simp: splice_write_def main_vmsplice_def failed_def Let_def split: if_splits)
  next
    case (M_Test b)
    then have "sp_status s = PSTATUS_RUN" using assms(1) by (simp add: working_def main_ok_def no_job_def)
    with M_Test assms(2) w show ?thesis by (auto simp: splice_write_def failed_def signal_partner_def pstatus_defs split: if_splits)
  next
    case (M_Test2 todo d)
    with assms(2) w st show ?thesis by (auto simp: splice_write_def failed_def pstatus_defs split: if_splits)
  qed (use assms(2) w in \<open>auto simp: splice_write_def failed_def split: if_splits\<close>)
  then show "\<not> failed s1" "sp_partner s1 \<notin> {P_Error, P_Exit}" by simp_all
qed

lemma working_smooth:
  assumes "working P bs s" and "smooth s s1"
  shows "working P bs s1"
  using assms(2)
proof cases
  case (smooth_partner k)
  then show ?thesis
    using assms(1) partner_same[OF smooth_partner] partner_lock[OF _ smooth_partner] main_ok_partner[OF _ _ _ smooth_partner]
      partner_smooth[OF assms(1) smooth_partner] by (simp add: working_def writing_def)
next
  case (smooth_write k)
  then show ?thesis
    using assms(1) writing_same[OF smooth_write] main_step_ok[OF _ _ _ smooth_write] write_smooth[OF assms(1) smooth_write]
    by (auto simp: working_def writing_def)
qed

text \<open>Every step comes nearer to the end.\<close>

definition main_rank :: "splice_ops \<Rightarrow> nat" where
  "main_rank s = (case sp_main s of M_Lock b \<Rightarrow> 8 | M_Test b \<Rightarrow> 7 | M_Copy t d \<Rightarrow> 6 | M_Lock2 t d \<Rightarrow> 5
     | M_Test2 t d \<Rightarrow> (if sp_status s = PSTATUS_JOBTODO then 4 else 1) | M_Wait2 t d \<Rightarrow> 3 | M_Wake2 t d \<Rightarrow> 2 | _ \<Rightarrow> 0)"

definition to_move :: "splice_ops \<Rightarrow> nat" where
  "to_move s = (case sp_main s of M_Copy t d \<Rightarrow> length t | _ \<Rightarrow> 0)"

definition partner_rank :: "splice_ops \<Rightarrow> nat" where
  "partner_rank s = (case sp_partner s of P_Lock \<Rightarrow> 4 | P_Wake \<Rightarrow> 3 | P_Check \<Rightarrow> 3 | P_Test \<Rightarrow> 2 | P_Copy l \<Rightarrow> 1 | P_Done \<Rightarrow> 0 | _ \<Rightarrow> 1)
     + (if sp_status s = PSTATUS_JOBTODO then 4 else 0)"

definition splice_measure :: "nat \<Rightarrow> (splice_ops \<times> splice_ops) set" where
  "splice_measure len = measures [main_rank, to_move, \<lambda>s. len - length (sp_file s), partner_rank]"

lemma job_file: "job P todo d s \<Longrightarrow> sp_partner s \<notin> {P_Error, P_Exit} \<Longrightarrow> length (sp_file s) \<le> length P + length d + length todo"
  by (auto simp: job_def ready_for_job_def on_job_def job_done_def no_job_def job_failed_def)

lemma working_file: "working P bs s \<Longrightarrow> length (sp_file s) \<le> length (P @ bs)"
  by (auto simp: working_def main_ok_def no_job_def dest: job_file split: main_pc.splits)

lemma rank_same: "sp_main s1 = sp_main s \<Longrightarrow> sp_status s1 = sp_status s \<Longrightarrow> main_rank s1 = main_rank s \<and> to_move s1 = to_move s"
  by (simp add: main_rank_def to_move_def)

lemma partner_moves:
  assumes "partner_splice (Moves k) left s = Some s1" and "writing s" and "sp_open s" and "0 < left"
  shows "\<exists>n. s1 = s\<lparr>sp_pipe := drop n (sp_pipe s), sp_file := sp_file s @ take n (sp_pipe s), sp_partner := P_Copy (left - n)\<rparr> \<and>
    0 < n \<and> sp_pipe s \<noteq> []"
proof -
  define n where "n = moved k (min (min left (sp_max_pipe_length s * sp_pagesize s)) (length (sp_pipe s)))"
  have "0 < n" by (simp add: n_def moved_def)
  moreover have "sp_pipe s \<noteq> []" "s1 = s\<lparr>sp_pipe := drop n (sp_pipe s), sp_file := sp_file s @ take n (sp_pipe s), sp_partner := P_Copy (left - n)\<rparr>"
    using assms by (auto simp: partner_splice_def writing_def Let_def n_def split: if_splits)
  ultimately show ?thesis by blast
qed

lemma main_moves:
  assumes "main_vmsplice (Moves k) todo d s = Some s1" and "writing s"
  shows "\<exists>n. s1 = s\<lparr>sp_pipe := sp_pipe s @ take n todo, sp_main := M_Copy (drop n todo) (d @ take n todo)\<rparr> \<and> 0 < n"
proof -
  let ?o = "min (sum_list (map snd (setup_nvecs (sp_max_pipe_length s) (sp_pagesize s) (length d) (length todo)))) (room s)"
  have "s1 = s\<lparr>sp_pipe := sp_pipe s @ take (moved k ?o) todo, sp_main := M_Copy (drop (moved k ?o) todo) (d @ take (moved k ?o) todo)\<rparr>"
    using assms by (auto simp: main_vmsplice_def writing_def Let_def split: if_splits)
  moreover have "0 < moved k ?o" by (simp add: moved_def)
  ultimately show ?thesis by blast
qed

lemma partner_rank_step:
  assumes "partnerloop (Moves k) s = Some s1" and "lock_ok s" and "sp_open s" and "writing s" and "sp_status s \<in> {PSTATUS_RUN, PSTATUS_JOBTODO}"
    and "sp_partner s = P_Done \<Longrightarrow> sp_status s = PSTATUS_JOBTODO" and "sp_partner s \<notin> {P_Error, P_Exit}"
  shows "main_rank s1 \<le> main_rank s" and "to_move s1 = to_move s" and
    "length (sp_file s) < length (sp_file s1) \<or> sp_file s1 = sp_file s \<and> partner_rank s1 < partner_rank s"
proof -
  have "main_rank s1 \<le> main_rank s \<and> to_move s1 = to_move s \<and>
    (length (sp_file s) < length (sp_file s1) \<or> sp_file s1 = sp_file s \<and> partner_rank s1 < partner_rank s)"
  proof (cases "sp_partner s")
    case (P_Copy left)
    show ?thesis
    proof (cases "left = 0")
      case True
      then have "s1 = s\<lparr>sp_partner := P_Done\<rparr>" using P_Copy assms(1) by (simp add: partnerloop_def)
      then show ?thesis using P_Copy rank_same[of s1 s] by (simp add: partner_rank_def)
    next
      case False
      then have "partner_splice (Moves k) left s = Some s1" using P_Copy assms(1) by (simp add: partnerloop_def)
      from partner_moves[OF this assms(4,3)] False obtain n where
        "s1 = s\<lparr>sp_pipe := drop n (sp_pipe s), sp_file := sp_file s @ take n (sp_pipe s), sp_partner := P_Copy (left - n)\<rparr>" "0 < n" "sp_pipe s \<noteq> []" by blast
      then show ?thesis using rank_same[of s1 s] by simp
    qed
  next
    case P_Done
    then have st: "sp_status s = PSTATUS_JOBTODO" "sp_lock s = None" using assms(1,6) by (auto simp: partnerloop_def split: if_splits)
    then have "\<not> (\<exists>t d. sp_main s = M_Test2 t d)" using assms(2) by (auto simp: lock_ok_def)
    moreover have s1: "s1 = s\<lparr>sp_lock := Some Partner, sp_status := PSTATUS_RUN, sp_main := signal_main (sp_main s), sp_partner := P_Check\<rparr>"
      using P_Done st assms(1) by (simp add: partnerloop_def pstatus_defs)
    moreover have "partner_rank s1 < partner_rank s" using P_Done st s1 by (simp add: partner_rank_def pstatus_defs)
    ultimately show ?thesis
      by (auto simp: main_rank_def to_move_def signal_main_def split: main_pc.splits)
  qed (use assms in \<open>auto simp: partnerloop_def main_rank_def to_move_def partner_rank_def pstatus_defs split: if_splits\<close>)
  then show "main_rank s1 \<le> main_rank s" "to_move s1 = to_move s"
    "length (sp_file s) < length (sp_file s1) \<or> sp_file s1 = sp_file s \<and> partner_rank s1 < partner_rank s" by simp_all
qed

lemma smooth_decreases:
  assumes "working P bs s" and "smooth s s1"
  shows "(s1, s) \<in> splice_measure (length (P @ bs))"
  using assms(2)
proof cases
  case (smooth_partner k)
  have "sp_partner s = P_Done \<Longrightarrow> sp_status s = PSTATUS_JOBTODO"
    using assms(1) by (auto simp: working_def main_ok_def job_def ready_for_job_def on_job_def job_done_def no_job_def job_failed_def split: main_pc.splits)
  note r = partner_rank_step[OF smooth_partner _ _ _ _ this]
  have "length (sp_file s1) \<le> length (P @ bs)" by (rule working_file[OF working_smooth[OF assms]])
  then show ?thesis using r assms(1) working_status[OF assms(1)]
    by (fastforce simp: splice_measure_def working_def)
next
  case (smooth_write k)
  show ?thesis
  proof (cases "sp_main s")
    case (M_Copy todo d)
    show ?thesis
    proof (cases "todo \<noteq> [] \<and> sp_status s > PSTATUS_END")
      case True
      then have "main_vmsplice (Moves k) todo d s = Some s1" "writing s"
        using M_Copy smooth_write assms(1) by (simp_all add: splice_write_def working_def)
      from main_moves[OF this] obtain n where
        "s1 = s\<lparr>sp_pipe := sp_pipe s @ take n todo, sp_main := M_Copy (drop n todo) (d @ take n todo)\<rparr>" "0 < n" by blast
      then show ?thesis using M_Copy True by (auto simp: splice_measure_def main_rank_def to_move_def)
    next
      case False
      then have "sp_main s1 = M_Lock2 todo d" using M_Copy smooth_write by (auto simp: splice_write_def split: if_splits)
      then show ?thesis using M_Copy by (simp add: splice_measure_def main_rank_def)
    qed
  next
    case (M_Wake2 todo d)
    then have "sp_status s \<noteq> PSTATUS_JOBTODO" using assms(1) by (simp add: working_def main_ok_def)
    with M_Wake2 smooth_write show ?thesis by (auto simp: splice_measure_def splice_write_def main_rank_def split: if_splits)
  qed (use smooth_write assms(1) in \<open>auto simp: splice_measure_def splice_write_def main_rank_def working_def main_ok_def split: if_splits\<close>)
qed

text \<open>While the call has not returned, one of the two can go on.\<close>

lemma partner_goes_on:
  assumes "lock_ok s" and "sp_partner s \<notin> {P_Wait, P_Exit, P_Error}" and "\<forall>l. sp_partner s \<noteq> P_Copy l" and "sp_lock s \<noteq> Some Main"
  shows "\<exists>s1. smooth s s1"
proof -
  have "sp_lock s = None \<or> sp_partner s \<in> {P_Check, P_Test}" using assms(1,4)
    by (cases "sp_lock s") (auto simp: lock_ok_def split: side.splits, metis side.exhaust)
  then have "\<exists>s1. partnerloop (Moves 0) s = Some s1"
    using assms by (cases "sp_partner s") (auto simp: partnerloop_def lock_ok_def)
  then show ?thesis by (blast intro: smooth_partner)
qed

lemma copier_goes_on:
  assumes "sp_partner s = P_Copy left" and "left = 0 \<or> sp_pipe s \<noteq> []" and "writing s" and "sp_open s"
  shows "\<exists>s1. smooth s s1"
proof -
  have "\<exists>s1. partnerloop (Moves 0) s = Some s1"
    using assms by (auto simp: partnerloop_def partner_splice_def writing_def Let_def)
  then show ?thesis by (blast intro: smooth_partner)
qed

lemma job_goes_on:
  assumes "job P todo d s" and "sp_partner s \<notin> {P_Error, P_Exit}" and "lock_ok s" and "writing s" and "sp_open s" and "sp_lock s \<noteq> Some Main"
    and "todo = [] \<and> sp_status s \<noteq> PSTATUS_RUN \<or> todo \<noteq> [] \<and> sp_pipe s \<noteq> []"
  shows "\<exists>s1. smooth s s1"
proof (cases "\<exists>l. sp_partner s = P_Copy l")
  case True
  then obtain l where l: "sp_partner s = P_Copy l" by blast
  then have "sp_file s @ sp_pipe s = P @ d" "length (sp_file s) + l = length P + length d + length todo"
    using assms(1) by (auto simp: splice_defs)
  moreover from arg_cong[OF this(1), of length] have "length (sp_file s) + length (sp_pipe s) = length P + length d" by simp
  ultimately have "l = 0 \<or> sp_pipe s \<noteq> []" using assms(7) by auto
  from copier_goes_on[OF l this assms(4,5)] show ?thesis .
next
  case False
  moreover have "sp_partner s \<noteq> P_Wait" using assms(1,2,7) by (auto simp: splice_defs)
  ultimately show ?thesis using assms(2) by (intro partner_goes_on[OF assms(3) _ _ assms(6)]) auto
qed

lemma goes_on:
  assumes "working P bs s" and "\<not> (\<exists>r d. sp_main s = M_Return r d)"
  shows "\<exists>s1. smooth s s1"
proof -
  have w: "writing s" "sp_open s" "lock_ok s" "main_ok P bs s" "sp_partner s \<notin> {P_Error, P_Exit}" using assms(1) by (simp_all add: working_def)
  note st = working_status[OF assms(1)]
  have free: "\<exists>s1. splice_write (Moves 0) s = Some s1 \<Longrightarrow> \<exists>s1. smooth s s1" by (blast intro: smooth_write)
  show ?thesis
  proof (cases "sp_lock s")
    case (Some x)
    show ?thesis
    proof (cases x)
      case Main
      then have "\<exists>s1. splice_write (Moves 0) s = Some s1" using Some w(3) by (auto simp: lock_ok_def splice_write_def split: main_pc.splits)
      then show ?thesis by (blast intro: smooth_write)
    next
      case Partner
      then have "sp_partner s \<in> {P_Check, P_Test}" using Some w(3) by (simp add: lock_ok_def)
      then show ?thesis using Some Partner by (intro partner_goes_on[OF w(3)]) auto
    qed
  next
    case None
    show ?thesis
    proof (cases "sp_main s")
      case (M_Copy todo d)
      then have j: "job P todo d s" using w(4) by (simp add: main_ok_def)
      show ?thesis
      proof (cases "todo \<noteq> [] \<and> room s = 0")
        case True
        then have "sp_pipe s \<noteq> []" using w(1) by (auto simp: room_def writing_def)
        then show ?thesis using True None by (intro job_goes_on[OF j w(5,3,1,2)]) auto
      next
        case False
        then have "\<exists>s1. splice_write (Moves 0) s = Some s1"
          using M_Copy w(1) by (auto simp: splice_write_def main_vmsplice_def writing_def Let_def)
        then show ?thesis by (blast intro: smooth_write)
      qed
    next
      case (M_Wait2 todo d)
      then have j: "job P todo d s" and t: "todo = []" "sp_status s \<noteq> PSTATUS_RUN"
        using w(4) st by (auto simp: main_ok_def pstatus_defs)
      show ?thesis using None t by (intro job_goes_on[OF j w(5,3,1,2)]) auto
    qed (rule free, use None w(4) assms(2) in \<open>auto simp: main_ok_def splice_write_def\<close>)+
  qed
qed

section \<open>Properties\<close>

text \<open>C33: A splice write that reports success has put its buffer into the file: in every interleaving of the two threads, in whatever
  portions the kernel moves the bytes, and wherever it fails, when the call returns a number of bytes it is the length of the
  buffer, and the file holds all buffers passed so far, in order and complete.\<close>

theorem splice_write_complete:
  assumes "init_splice False ret pipe maxbytes pagesize mutex cond create f0 = Inr s0" and "0 < pagesize" and "pagesize \<le> maxbytes"
    and "splice_run s0 bss s" and "sp_main s = M_Return r d" and "0 \<le> r"
  shows "sp_file s = f0 @ concat bss \<and> bss \<noteq> [] \<and> r = int (length (last bss))"
proof -
  have "handover_ok f0 bss s" by (rule handover_run[OF assms(4,1,2,3)])
  then have "bss \<noteq> []" "main_ok (f0 @ concat (butlast bss)) (last bss) s"
    using assms(5,6) by (auto simp: handover_ok_def failed_def)
  moreover from this(1) have "concat bss = concat (butlast bss) @ last bss"
    by (metis append_butlast_last_id concat.simps concat_append append_Nil2)
  ultimately show ?thesis using assms(5) by (simp add: main_ok_def no_job_def)
qed

text \<open>C34: A splice write always returns: if the kernel does not fail, every sequence of steps of the two threads from the call on is finite,
  and where neither can go on the call has returned the length of its buffer. No wake-up is lost between them, and no order of their
  steps leaves both waiting.\<close>

theorem splice_write_returns:
  assumes "init_splice False ret pipe maxbytes pagesize mutex cond create f0 = Inr s0" and "0 < pagesize" and "pagesize \<le> maxbytes"
    and "splice_run s0 bss s" and "sp_main s = M_Lock bs"
  shows "\<not> (\<exists>f. f 0 = s \<and> (\<forall>i :: nat. smooth (f i) (f (Suc i)))) \<and>
    (\<forall>s1. smooth\<^sup>*\<^sup>* s s1 \<and> \<not> (\<exists>s2. smooth s1 s2) \<longrightarrow> (\<exists>d. sp_main s1 = M_Return (int (length bs)) d))"
proof -
  let ?P = "f0 @ concat (butlast bss)"
  have "handover_ok f0 bss s" by (rule handover_run[OF assms(4,1,2,3)])
  then have "writing s" "sp_open s" "lock_ok s" "main_ok ?P (last bss) s" using assms(5) by (auto simp: handover_ok_def failed_def)
  moreover from this have "last bss = bs" "sp_partner s \<notin> {P_Error, P_Exit}" using assms(5) by (auto simp: main_ok_def no_job_def)
  ultimately have start: "working ?P bs s" by (simp add: working_def)
  have keep: "working ?P bs s1" if "smooth\<^sup>*\<^sup>* s s1" for s1
    using that by (induction rule: rtranclp_induct) (use start working_smooth in blast)+
  have "\<not> (\<exists>f. f 0 = s \<and> (\<forall>i :: nat. smooth (f i) (f (Suc i))))"
  proof (intro notI, elim exE conjE)
    fix f assume f: "f 0 = s" "\<forall>i :: nat. smooth (f i) (f (Suc i))"
    have "smooth\<^sup>*\<^sup>* s (f i)" for i using f by (induction i) (auto intro: rtranclp.rtrancl_into_rtrancl)
    then have "(f (Suc i), f i) \<in> splice_measure (length (?P @ bs))" for i using f(2) smooth_decreases keep by blast
    moreover have "wf (splice_measure (length (?P @ bs)))" by (simp add: splice_measure_def)
    ultimately show False unfolding wf_iff_no_infinite_down_chain by blast
  qed
  moreover have "\<exists>d. sp_main s1 = M_Return (int (length bs)) d" if "smooth\<^sup>*\<^sup>* s s1" "\<not> (\<exists>s2. smooth s1 s2)" for s1
  proof -
    note w = keep[OF that(1)] and stuck = that(2)
    obtain r d where "sp_main s1 = M_Return r d" using goes_on[OF w] stuck by blast
    then show ?thesis using w by (auto simp: working_def main_ok_def)
  qed
  ultimately show ?thesis by blast
qed

text \<open>A schedule of steps, for examples.\<close>

fun drive :: "(side \<times> kernel) list \<Rightarrow> splice_ops \<Rightarrow> splice_ops option" where
  "drive [] s = Some s"
| "drive ((Main, k) # r) s = (case splice_write k s of None \<Rightarrow> None | Some s1 \<Rightarrow> drive r s1)"
| "drive ((Partner, k) # r) s = (case partnerloop k s of None \<Rightarrow> None | Some s1 \<Rightarrow> drive r s1)"

lemma drive_run: "drive sched s = Some s1 \<Longrightarrow> splice_run s0 bss s \<Longrightarrow> splice_run s0 bss s1"
  by (induction sched s rule: drive.induct) (auto split: option.splits intro: splice_run.step by_partner by_write)

definition splice_example :: splice_ops where
  "splice_example = \<lparr>sp_readmode = False, sp_max_pipe_length = 2, sp_pagesize = 2, sp_status = PSTATUS_RUN, sp_tosplice = 0, sp_lock = None,
     sp_pipe = [], sp_file = [], sp_open = True, sp_exchanged = 0, sp_main = M_Idle, sp_partner = P_Lock\<rparr>"

lemma splice_example_init: "init_splice False 0 0 4 2 0 0 0 [] = Inr splice_example"
  by (simp add: init_splice_def splice_example_def)

text \<open>The partner is late, and the buffer is larger than the pipe.\<close>

definition late_partner :: "(side \<times> kernel) list" where
  "late_partner = [(Main, Moves 0), (Main, Moves 0), (Main, Moves 9), (Partner, Moves 0), (Partner, Moves 0), (Partner, Moves 0), (Partner, Moves 3),
     (Main, Moves 2), (Main, Moves 0), (Main, Moves 0), (Main, Moves 0), (Partner, Moves 9), (Partner, Moves 0), (Partner, Moves 0),
     (Partner, Moves 0), (Partner, Moves 0), (Main, Moves 0), (Main, Moves 0)]"

definition after_write :: "splice_ops option" where
  "after_write = drive late_partner (splice_example\<lparr>sp_main := M_Lock [1, 2, 3, 4, 5]\<rparr>)"

lemma example_called: "splice_run splice_example [[1, 2, 3, 4, 5]] (splice_example\<lparr>sp_main := M_Lock [1, 2, 3, 4, 5]\<rparr>)"
  using splice_run.call[OF splice_run.start, of splice_example "[1, 2, 3, 4, 5]"] by (simp add: returned_def splice_example_def)

lemma after_write_runs: "\<exists>s. after_write = Some s \<and> sp_main s = M_Return 5 [1, 2, 3, 4, 5]"
proof -
  have "case after_write of Some s \<Rightarrow> sp_main s = M_Return 5 [1, 2, 3, 4, 5] | None \<Rightarrow> False" by code_simp
  then show ?thesis by (auto split: option.splits)
qed

theorem splice_write_complete_witness:
  "\<exists>s. splice_run splice_example [[1, 2, 3, 4, 5]] s \<and> sp_main s = M_Return 5 [1, 2, 3, 4, 5] \<and> sp_file s = [1, 2, 3, 4, 5]"
proof -
  obtain s where s: "after_write = Some s" "sp_main s = M_Return 5 [1, 2, 3, 4, 5]" using after_write_runs by blast
  then have run: "splice_run splice_example [[1, 2, 3, 4, 5]] s" unfolding after_write_def by (intro drive_run[OF _ example_called])
  from splice_write_complete[OF splice_example_init _ _ run s(2)] show ?thesis using run s(2) by auto
qed

theorem splice_write_returns_witness:
  "\<not> (\<exists>f. f 0 = splice_example\<lparr>sp_main := M_Lock [1, 2, 3, 4, 5]\<rparr> \<and> (\<forall>i :: nat. smooth (f i) (f (Suc i))))"
  using splice_write_returns[OF splice_example_init _ _ example_called, of "[1, 2, 3, 4, 5]"] by simp

text \<open>An error of the partner strands the writer: the partner reports its error without a signal, so that a call that waits for the
  job to be done never returns, whatever happens after.\<close>

theorem partner_error_strands_writer:
  assumes "sp_partner s = P_Error" and "sp_main s = M_Wait2 todo d" and "splice_step\<^sup>*\<^sup>* s s1"
  shows "sp_main s1 = M_Wait2 todo d"
proof -
  have "sp_main s1 = M_Wait2 todo d \<and> sp_partner s1 \<in> {P_Error, P_Exit}"
    using assms(3)
  proof (induction rule: rtranclp_induct)
    case (step y z)
    from step.hyps(2) step.IH show ?case
      by cases (auto simp: partnerloop_def splice_write_def splice_close_def split: if_splits)
  qed (use assms in simp)
  then show ?thesis by simp
qed

text \<open>The disk fails while the writer waits.\<close>

definition failing_disk :: "(side \<times> kernel) list" where
  "failing_disk = [(Main, Moves 0), (Main, Moves 0), (Main, Moves 9), (Partner, Moves 0), (Partner, Moves 0), (Partner, Moves 0),
     (Main, Moves 0), (Main, Moves 0), (Main, Moves 0), (Partner, Fails)]"

theorem partner_error_strands_writer_witness:
  "\<exists>s. drive failing_disk (splice_example\<lparr>sp_main := M_Lock [1, 2]\<rparr>) = Some s \<and> (\<forall>s1. splice_step\<^sup>*\<^sup>* s s1 \<longrightarrow> sp_main s1 = M_Wait2 [] [1, 2])"
proof -
  have "case drive failing_disk (splice_example\<lparr>sp_main := M_Lock [1, 2]\<rparr>) of
      Some s \<Rightarrow> sp_partner s = P_Error \<and> sp_main s = M_Wait2 [] [1, 2] | None \<Rightarrow> False" by code_simp
  then show ?thesis using partner_error_strands_writer by (auto split: option.splits)
qed

text \<open>Closing the writer hangs: after a buffer was written, \<open>splice_close\<close> wakes the partner, which takes the wake-up for a job of the
  last length and reads from the empty pipe; as long as its descriptor is open the join never ends.\<close>

theorem splice_close_hangs:
  assumes "init_splice False ret pipe maxbytes pagesize mutex cond create f0 = Inr s0" and "0 < pagesize" and "pagesize \<le> maxbytes"
    and "splice_run s0 bss s" and "sp_main s = M_Return r d" and "0 < r" and "splice_step\<^sup>*\<^sup>* (s\<lparr>sp_main := M_Close, sp_open := True\<rparr>) s1"
  shows "sp_main s1 \<noteq> M_Closed"
proof -
  have "handover_ok f0 bss s" by (rule handover_run[OF assms(4,1,2,3)])
  then have s: "\<not> sp_readmode s" "sp_partner s = P_Wait" "sp_pipe s = []" "0 < sp_tosplice s"
    using assms(5,6) by (auto simp: handover_ok_def failed_def main_ok_def no_job_def writing_def)
  let ?stuck = "\<lambda>t. \<not> sp_readmode t \<and> sp_open t \<and> sp_pipe t = [] \<and> 0 < sp_tosplice t \<and>
    (sp_main t = M_Close \<and> sp_partner t = P_Wait \<or> sp_main t = M_Join \<and> sp_status t = PSTATUS_END \<and>
      (sp_partner t \<in> {P_Wake, P_Test} \<or> (\<exists>left. sp_partner t = P_Copy left \<and> 0 < left)))"
  have "?stuck s1" using assms(7)
  proof (induction rule: rtranclp_induct)
    case (step y z)
    from step.hyps(2) step.IH show ?case
      by cases (auto simp: partnerloop_def partner_splice_def splice_write_def splice_close_def signal_partner_def pstatus_defs Let_def split: if_splits)
  qed (use s in simp)
  then show ?thesis by auto
qed

theorem splice_close_hangs_witness:
  "\<exists>s. after_write = Some s \<and> (\<forall>s1. splice_step\<^sup>*\<^sup>* (s\<lparr>sp_main := M_Close, sp_open := True\<rparr>) s1 \<longrightarrow> sp_main s1 \<noteq> M_Closed)"
proof -
  obtain s where s: "after_write = Some s" "sp_main s = M_Return 5 [1, 2, 3, 4, 5]" using after_write_runs by blast
  then have run: "splice_run splice_example [[1, 2, 3, 4, 5]] s" unfolding after_write_def by (intro drive_run[OF _ example_called])
  from splice_close_hangs[OF splice_example_init _ _ run s(2)] show ?thesis using s(1) by auto
qed

end
