(* ===== verification/VbsFs.thy ===== *)
theory VbsFs
  imports CommandLine SpliceWriter
begin

text \<open>
  The file system view of the recordings (\<open>src/vbs_fs/vbs_fs.c\<close>): each recording is shown as one file, and the files of the
  recording on the disks are found through a table of \<open>struct file_index\<close> that is hashed by name.

  What the disks hold when an operation runs is the argument \<open>vbs_env\<close>. The locks of the table and of its entries are taken
  in one order and are left out. Memory can be had, a thread can be started, and \<open>glibc\<close> prints \<open>(null)\<close> for a \<open>NULL\<close> string.
\<close>

section \<open>The table\<close>

definition STATUS_SLOTFREE :: u32 where "STATUS_SLOTFREE = 0"
definition STATUS_GOTREFSTAT :: u32 where "STATUS_GOTREFSTAT = flag 0"
definition STATUS_INITIALIZED :: u32 where "STATUS_INITIALIZED = flag 1"
definition STATUS_NOCFG :: u32 where "STATUS_NOCFG = flag 3"
definition STATUS_NOTVBS :: u32 where "STATUS_NOTVBS = flag 4"
definition STATUS_FOUND :: u32 where "STATUS_FOUND = flag 5"
definition STATUS_CFGPARSED :: u32 where "STATUS_CFGPARSED = flag 6"

lemmas vstatus_defs = STATUS_SLOTFREE_def STATUS_GOTREFSTAT_def STATUS_INITIALIZED_def STATUS_NOCFG_def STATUS_NOTVBS_def
  STATUS_FOUND_def STATUS_CFGPARSED_def flag_def

definition DISKINDEX_INITIAL_SIZE :: nat where "DISKINDEX_INITIAL_SIZE = 128"
definition VBS_INDEXING_LENGTH :: nat where "VBS_INDEXING_LENGTH = 8"
definition INITIAL_FILENUM :: nat where "INITIAL_FILENUM = 1024"
definition EINVAL :: int where "EINVAL = 22"
definition S_IFDIR :: nat where "S_IFDIR = 16384"

record vstat =
  vst_mode :: nat
  vst_nlink :: nat
  vst_size :: int
  vst_blocks :: int

definition no_stat :: vstat where
  "no_stat = \<lparr>vst_mode = 0, vst_nlink = 0, vst_size = 0, vst_blocks = 0\<rparr>"

text \<open>An entry. \<open>vf_fileid\<close> is the array of the disks of the files, of the size of its memory; \<open>None\<close> is an element that
  has never been written. An element is an \<open>int8_t\<close>, and -1 is a file that has not been found.\<close>

record vbs_file =
  vf_filename :: "string option"
  vf_status :: u32
  vf_packet_size :: int
  vf_filesizemb :: int
  vf_filesize :: u64
  vf_n_packets :: u64
  vf_n_files :: u64
  vf_allocated_files :: nat
  vf_refstat :: vstat
  vf_fileid :: "u8 option list option"

record vbs_state =
  vb_n_datadirs :: nat
  vb_offset :: int
  vb_max_files :: nat
  vb_fis :: "vbs_file list"

definition cleared :: vbs_file where
  "cleared = \<lparr>vf_filename = None, vf_status = 0, vf_packet_size = 0, vf_filesizemb = 0, vf_filesize = 0, vf_n_packets = 0,
     vf_n_files = 0, vf_allocated_files = 0, vf_refstat = no_stat, vf_fileid = None\<rparr>"

definition clear_recording :: "vbs_file \<Rightarrow> vbs_file" where
  "clear_recording fi = cleared"

definition fresh_table :: "vbs_state \<Rightarrow> vbs_state" where
  "fresh_table s = s\<lparr>vb_max_files := INITIAL_FILENUM, vb_fis := replicate INITIAL_FILENUM cleared\<rparr>"

definition strip_last :: "string \<Rightarrow> string option" where
  "strip_last original = (if CHR ''/'' \<in> set original
     then Some (rev (tl (dropWhile (\<lambda>c. c \<noteq> CHR ''/'') (rev original)))) else None)"

subsection \<open>Looking up a name\<close>

definition slot_free :: "vbs_file \<Rightarrow> bool" where
  "slot_free fi \<longleftrightarrow> vf_status fi = STATUS_SLOTFREE"

text \<open>The loop from a slot on; after the last slot it goes over to the first, once.\<close>

function probe_slot :: "vbs_file list \<Rightarrow> nat \<Rightarrow> string \<Rightarrow> bool \<Rightarrow> nat \<Rightarrow> int outcome" where
  "probe_slot fis max_files key goneover slot =
     bindE (array_get fis slot) (\<lambda>fi.
       if slot_free fi then Inr (int slot)
       else (case vf_filename fi of
           None \<Rightarrow> Inl Null_Deref
         | Some n \<Rightarrow> if n = key then Inr (int slot)
             else if slot + 1 \<ge> max_files
             then (if goneover then Inr (- 1) else probe_slot fis max_files key True 0)
             else probe_slot fis max_files key goneover (slot + 1)))"
  by pat_completeness auto

termination
  by (relation "measure (\<lambda>(fis, m, key, g, v). (if g then 0 else m + 1) + (m - v))") auto

declare probe_slot.simps [simp del]

definition home :: "string \<Rightarrow> nat \<Rightarrow> nat" where
  "home key max_files = sum_list (map of_char key) mod max_files"

definition vbs_hashfunction :: "string \<Rightarrow> vbs_state \<Rightarrow> bool \<Rightarrow> int outcome" where
  "vbs_hashfunction key s get_not_set =
     (if key = [] then Inr (- 1)
      else if vb_max_files s = 0 then Inl Div_By_Zero
      else bindE (array_get (vb_fis s) (home key (vb_max_files s))) (\<lambda>fi.
        if slot_free fi then Inr (if get_not_set then - 1 else int (home key (vb_max_files s)))
        else probe_slot (vb_fis s) (vb_max_files s) key False (home key (vb_max_files s))))"

definition on_slot :: "int \<Rightarrow> (vbs_file \<Rightarrow> (vbs_file \<times> 'r) outcome) \<Rightarrow> vbs_state \<Rightarrow> (vbs_state \<times> 'r) outcome" where
  "on_slot i f s = (if i < 0 then Inl Out_Of_Bounds else
     bindE (array_get (vb_fis s) (nat i)) (\<lambda>fi. bindE (f fi) (\<lambda>(fi', r).
       Inr (s\<lparr>vb_fis := (vb_fis s)[nat i := fi']\<rparr>, r))))"

definition add_file_to_index :: "string \<Rightarrow> int \<Rightarrow> vbs_state \<Rightarrow> (vbs_state \<times> int) outcome" where
  "add_file_to_index name i s =
     on_slot i (\<lambda>fi. Inr (fi\<lparr>vf_filename := Some name, vf_status := vf_status fi OR STATUS_FOUND\<rparr>, 0)) s"

section \<open>What is on the disks\<close>

text \<open>\<open>ve_drives\<close>: the entries of the recording points from 0 on that can be opened, without the dots; \<open>ve_unreadable\<close>: the next
  one fails with something else than \<open>ENOENT\<close>. \<open>ve_rec\<close>: the directory of a recording on a recording point, with what \<open>stat\<close>
  gives for each entry. \<open>ve_cfg\<close>: the configuration file in it, with what \<open>stat\<close> gives and what libconfig reads.\<close>

record vbs_env =
  ve_drives :: "string list list"
  ve_unreadable :: bool
  ve_rec :: "nat \<Rightarrow> string \<Rightarrow> (string \<times> vstat option) list option"
  ve_cfg :: "nat \<Rightarrow> string \<Rightarrow> (vstat \<times> setting list option) option"
  ve_main :: "setting list option"
  ve_schedule :: "setting list list"

definition shown_name :: "vbs_file \<Rightarrow> string" where
  "shown_name fi = (case vf_filename fi of Some n \<Rightarrow> n | None \<Rightarrow> ''(null)'')"

subsection \<open>Configuration\<close>

fun parse_cfg :: "setting list \<Rightarrow> vbs_file \<Rightarrow> vbs_file \<times> int" where
  "parse_cfg [] fi = (fi, 0)"
| "parse_cfg ((n, v) # ss) fi =
     (if n = ''packet_size'' then (case v of C_Int64 i \<Rightarrow> parse_cfg ss (fi\<lparr>vf_packet_size := to_int32 i\<rparr>) | _ \<Rightarrow> (fi, - 1))
      else if n = ''cumul'' then (case v of C_Int64 i \<Rightarrow> parse_cfg ss (fi\<lparr>vf_n_files := word_of_int i\<rparr>) | _ \<Rightarrow> (fi, - 1))
      else if n = ''total_packets'' then (case v of C_Int64 i \<Rightarrow> parse_cfg ss (fi\<lparr>vf_n_packets := word_of_int i\<rparr>) | _ \<Rightarrow> (fi, - 1))
      else if n = ''filesizemb'' then (case v of C_Int i \<Rightarrow> parse_cfg ss (fi\<lparr>vf_filesizemb := i\<rparr>) | _ \<Rightarrow> (fi, - 1))
      else parse_cfg ss fi)"

definition get_fi_from_cfg :: "setting list option \<Rightarrow> vbs_file \<Rightarrow> vbs_file \<times> int" where
  "get_fi_from_cfg content fi = (case content of None \<Rightarrow> (fi, - 1)
     | Some root \<Rightarrow> (let (fi', err) = parse_cfg root fi in if err \<noteq> 0 then (fi', - 1) else (fi', 0)))"

text \<open>\<open>config_setting_get_int\<close>: 0 for a setting that is not a number or does not fit.\<close>

definition setting_int :: "cval \<Rightarrow> int" where
  "setting_int v = (case v of C_Int i \<Rightarrow> i | C_Int64 i \<Rightarrow> if - (2 ^ 31) \<le> i \<and> i < 2 ^ 31 then i else 0 | _ \<Rightarrow> 0)"

text \<open>One group of the schedule: whether it has the name, and whether it is a recording.\<close>

fun schedule_group :: "string option \<Rightarrow> setting list \<Rightarrow> bool \<Rightarrow> bool \<Rightarrow> (bool \<times> bool) outcome" where
  "schedule_group name [] filename_ok is_rec = Inr (filename_ok, is_rec)"
| "schedule_group name ((n, v) # ss) filename_ok is_rec =
     (if n = ''filename'' then (case (v, name) of
          (C_Str (Some t), Some f) \<Rightarrow> if t = f then schedule_group name ss True is_rec else Inr (filename_ok, is_rec)
        | _ \<Rightarrow> Inl Null_Deref)
      else if n = ''record'' then schedule_group name ss filename_ok (is_rec \<or> setting_int v = 1)
      else schedule_group name ss filename_ok is_rec)"

fun parse_schedule_for_fi :: "setting list list \<Rightarrow> vbs_file \<Rightarrow> (vbs_file \<times> int) outcome" where
  "parse_schedule_for_fi [] fi = Inr (fi, - 1)"
| "parse_schedule_for_fi (g # gs) fi = bindE (schedule_group (vf_filename fi) g False False) (\<lambda>(filename_ok, is_rec).
     if is_rec \<and> filename_ok then Inr (let (fi', err) = parse_cfg g fi in (fi', if err \<noteq> 0 then - 1 else 0))
     else parse_schedule_for_fi gs fi)"

text \<open>\<open>malloc\<close> and \<open>memset\<close> to -1, and \<open>realloc\<close>; one of size 0 gives \<open>NULL\<close>.\<close>

definition new_ids :: "nat \<Rightarrow> u8 option list" where
  "new_ids n = replicate n (Some (- 1))"

definition realloc_ids :: "nat \<Rightarrow> u8 option list option \<Rightarrow> u8 option list option" where
  "realloc_ids n ids = (if n = 0 then None else
     (let xs = (case ids of None \<Rightarrow> [] | Some xs \<Rightarrow> xs) in Some (take n xs @ replicate (n - length xs) None)))"

definition get_and_update_from_own_cfg :: "(vstat \<times> setting list option) option \<Rightarrow> vbs_file \<Rightarrow> vbs_file \<times> int" where
  "get_and_update_from_own_cfg cfg fi = (case cfg of None \<Rightarrow> (fi, - 1)
     | Some (st, content) \<Rightarrow>
        (let fi1 = (if has (vf_status fi) STATUS_GOTREFSTAT then fi
                    else fi\<lparr>vf_refstat := st, vf_status := vf_status fi OR STATUS_GOTREFSTAT\<rparr>);
             (fi2, err) = get_fi_from_cfg content fi1 in
         if err \<noteq> 0 then (fi2, - 1) else
         (let n = unat (vf_n_files fi2);
              fi3 = (if vf_fileid fi2 = None then fi2\<lparr>vf_fileid := Some (new_ids n), vf_allocated_files := n\<rparr> else fi2);
              fi4 = (if has (vf_status fi3) STATUS_NOCFG
                then (let f = (if vf_allocated_files fi3 \<noteq> n then fi3\<lparr>vf_fileid := realloc_ids n (vf_fileid fi3), vf_allocated_files := n\<rparr>
                        else fi3) in f\<lparr>vf_status := vf_status f AND NOT STATUS_NOCFG\<rparr>)
                else fi3) in
          (fi4\<lparr>vf_status := vf_status fi4 OR STATUS_CFGPARSED\<rparr>, 0))))"

definition check_all_dirs_for_cfg :: "vbs_env \<Rightarrow> nat \<Rightarrow> vbs_file \<Rightarrow> nat option" where
  "check_all_dirs_for_cfg E n fi = List.find (\<lambda>i. ve_cfg E i (shown_name fi) \<noteq> None) [0..<n]"

subsection \<open>The files of a recording\<close>

text \<open>The regular expression: the name, in which a dot stands for any character, one character, eight digits, at the start of the
  entry. A name with other special characters is not covered.\<close>

definition rec_match :: "string \<Rightarrow> string \<Rightarrow> bool" where
  "rec_match name d \<longleftrightarrow> length name + 9 \<le> length d \<and>
     list_all2 (\<lambda>c x. c = CHR ''.'' \<or> c = x) name (take (length name) d) \<and>
     set (slice d (length name + 1) 8) \<subseteq> set ''0123456789''"

definition the_index :: "string \<Rightarrow> int" where
  "the_index d = atoi_int (drop (length d - VBS_INDEXING_LENGTH) d)"

function grow :: "nat \<Rightarrow> nat \<Rightarrow> nat outcome" where
  "grow allocated temp = (if temp < allocated then Inr allocated
     else if allocated = 0 then Inl Diverges else grow (2 * allocated) temp)"
  by pat_completeness auto

termination
  by (relation "measure (\<lambda>(a, t). Suc t - a)") auto

declare grow.simps [simp del]

definition take_filesize :: "vstat option \<Rightarrow> vbs_file \<Rightarrow> vbs_file" where
  "take_filesize st fi =
     (if vf_filesize fi = 0 \<or> \<not> has (vf_status fi) STATUS_GOTREFSTAT
      then (case st of None \<Rightarrow> fi | Some s \<Rightarrow>
        (let w = word_of_int (vst_size s) :: u64;
             fi1 = (if vf_filesize fi = 0
               then fi\<lparr>vf_filesize := (if vf_packet_size fi \<noteq> 0 then w - w mod word_of_int (vf_packet_size fi) else w)\<rparr> else fi) in
         if has (vf_status fi1) STATUS_GOTREFSTAT then fi1
         else fi1\<lparr>vf_refstat := s, vf_status := vf_status fi1 OR STATUS_GOTREFSTAT\<rparr>))
      else fi)"

text \<open>One directory entry.\<close>

definition update_from_entry :: "nat \<Rightarrow> string \<times> vstat option \<Rightarrow> vbs_file \<Rightarrow> vbs_file outcome" where
  "update_from_entry dirindex e fi =
     (if \<not> rec_match (shown_name fi) (fst e) then Inr fi else
      (let temp = the_index (fst e); live = has (vf_status fi) STATUS_NOCFG \<and> \<not> has (vf_status fi) STATUS_NOTVBS;
           extra = word_of_int temp \<ge> vf_n_files fi in
       if extra \<and> \<not> live then Inr fi else
       (let fi1 = take_filesize (snd e) (if extra then fi\<lparr>vf_n_files := word_of_int temp\<rparr> else fi);
            t = unat (word_of_int temp :: u32) in
        bindE (if t < vf_allocated_files fi1 then Inr fi1
               else bindE (grow (vf_allocated_files fi1) t) (\<lambda>a.
                 Inr (fi1\<lparr>vf_allocated_files := a, vf_fileid := realloc_ids a (vf_fileid fi1)\<rparr>))) (\<lambda>fi2.
        let fi3 = (if of_nat t \<ge> vf_n_files fi2 then fi2\<lparr>vf_n_files := word_of_int (temp + 1)\<rparr> else fi2) in
        case vf_fileid fi3 of None \<Rightarrow> Inl Null_Deref
        | Some ids \<Rightarrow> if temp < 0 then Inl Out_Of_Bounds
            else bindE (array_set ids (nat temp) (Some (of_nat dirindex))) (\<lambda>ids'. Inr (fi3\<lparr>vf_fileid := Some ids'\<rparr>))))))"

fun fi_update_from_files :: "nat \<Rightarrow> (string \<times> vstat option) list \<Rightarrow> vbs_file \<Rightarrow> vbs_file outcome" where
  "fi_update_from_files dirindex [] fi = Inr fi"
| "fi_update_from_files dirindex (e # es) fi = bindE (update_from_entry dirindex e fi) (fi_update_from_files dirindex es)"

text \<open>The loop over the recording points; \<open>updating\<close>: with \<open>fi_update_from_files\<close>, otherwise only to see that the recording is there.\<close>

fun each_subfolder :: "vbs_env \<Rightarrow> bool \<Rightarrow> nat list \<Rightarrow> vbs_file \<Rightarrow> vbs_file outcome" where
  "each_subfolder E updating [] fi = Inr fi"
| "each_subfolder E updating (i # is) fi = (case ve_rec E i (shown_name fi) of
       None \<Rightarrow> each_subfolder E updating is fi
     | Some es \<Rightarrow> (let fi1 = fi\<lparr>vf_status := vf_status fi OR STATUS_FOUND\<rparr> in
         bindE (if updating then fi_update_from_files i es fi1 else Inr fi1) (each_subfolder E updating is)))"

definition generic_do_to_each_subfolder :: "vbs_env \<Rightarrow> nat \<Rightarrow> bool \<Rightarrow> vbs_file \<Rightarrow> vbs_file outcome" where
  "generic_do_to_each_subfolder E n updating fi =
     each_subfolder E updating [0..<n] (fi\<lparr>vf_status := vf_status fi AND NOT STATUS_FOUND\<rparr>)"

text \<open>\<open>update_nocfg_index\<close> for a recording that is still being made, first the part that finds its parameters. \<open>None\<close>: it goes on.\<close>

definition nocfg_parameters :: "vbs_env \<Rightarrow> nat \<Rightarrow> vbs_file \<Rightarrow> (vbs_file \<times> int option) outcome" where
  "nocfg_parameters E n fi =
     (let (fi1, err) = get_fi_from_cfg (ve_main E) fi in
      if err \<noteq> 0 then Inr (fi1, Some (- 1)) else
      bindE (parse_schedule_for_fi (ve_schedule E) fi1) (\<lambda>(fi2, err).
      if err = 0 then Inr (fi2, None) else
      (case check_all_dirs_for_cfg E n fi2 of
         None \<Rightarrow> Inr (fi2\<lparr>vf_status := vf_status fi2 OR STATUS_NOTVBS\<rparr>, Some 0)
       | Some i \<Rightarrow> (let (fi3, err) = get_and_update_from_own_cfg (ve_cfg E i (shown_name fi2)) fi2 in
           Inr (fi3, if err \<noteq> 0 then Some (- 1) else None)))))"

definition filesize_from_mb :: "vbs_file \<Rightarrow> vbs_file outcome" where
  "filesize_from_mb fi =
     (if vf_filesize fi = 0 \<and> vf_filesizemb fi \<noteq> 0
      then (let w = word_of_int (vf_filesizemb fi * 2 ^ 20) :: u64 in
        if vf_packet_size fi = 0 then Inl Div_By_Zero
        else Inr (fi\<lparr>vf_filesize := w - w mod word_of_int (vf_packet_size fi)\<rparr>))
      else Inr fi)"

definition nocfg_finish :: "vbs_file \<Rightarrow> vbs_file outcome" where
  "nocfg_finish fi =
     bindE (if has (vf_status fi) STATUS_NOCFG
       then (if vf_packet_size fi = 0 then Inl Div_By_Zero
             else Inr (fi\<lparr>vf_n_packets := (vf_n_files fi * vf_filesize fi) div word_of_int (vf_packet_size fi)\<rparr>))
       else Inr fi) (\<lambda>fi1. Inr (fi1\<lparr>vf_status := vf_status fi1 OR STATUS_INITIALIZED\<rparr>))"

definition update_nocfg_index :: "vbs_env \<Rightarrow> nat \<Rightarrow> vbs_file \<Rightarrow> (vbs_file \<times> int) outcome" where
  "update_nocfg_index E n fi =
     bindE (nocfg_parameters E n fi) (\<lambda>(fi1, ret). case ret of Some r \<Rightarrow> Inr (fi1, r) | None \<Rightarrow>
     bindE (filesize_from_mb fi1) (\<lambda>fi2.
     let fi3 = (if vf_fileid fi2 = None
       then fi2\<lparr>vf_fileid := Some (new_ids DISKINDEX_INITIAL_SIZE), vf_allocated_files := DISKINDEX_INITIAL_SIZE\<rparr> else fi2) in
     bindE (generic_do_to_each_subfolder E n True fi3) (\<lambda>fi4.
     if \<not> has (vf_status fi4) STATUS_FOUND then Inr (clear_recording fi4, - 1)
     else bindE (nocfg_finish fi4) (\<lambda>fi5. Inr (fi5, 0)))))"

text \<open>\<open>create_single_file_index\<close>; its loop gives \<open>None\<close> when it leaves the recording to \<open>update_nocfg_index\<close>.\<close>

fun create_loop :: "vbs_env \<Rightarrow> nat list \<Rightarrow> bool \<Rightarrow> vbs_file \<Rightarrow> (vbs_file \<times> bool option) outcome" where
  "create_loop E [] found fi = Inr (fi, Some found)"
| "create_loop E (i # is) found fi = (case ve_rec E i (shown_name fi) of
       None \<Rightarrow> create_loop E is found fi
     | Some es \<Rightarrow>
        (let (fi1, err) = (if has (vf_status fi) STATUS_CFGPARSED then (fi, 0)
           else get_and_update_from_own_cfg (ve_cfg E i (shown_name fi)) fi) in
         if err \<noteq> 0 then Inr (fi1\<lparr>vf_status := vf_status fi1 OR STATUS_NOCFG\<rparr>, None)
         else bindE (fi_update_from_files i es fi1) (create_loop E is True)))"

definition create_single_file_index :: "vbs_env \<Rightarrow> nat \<Rightarrow> vbs_file \<Rightarrow> (vbs_file \<times> int) outcome" where
  "create_single_file_index E n fi =
     bindE (create_loop E [0..<n] False fi) (\<lambda>(fi1, r). case r of
       None \<Rightarrow> update_nocfg_index E n fi1
     | Some found \<Rightarrow> if found then Inr (fi1\<lparr>vf_status := vf_status fi1 OR STATUS_INITIALIZED\<rparr>, 0)
         else Inr (fi1\<lparr>vf_status := vf_status fi1 OR STATUS_NOTVBS\<rparr>, - 1))"

section \<open>The operations of the file system\<close>

text \<open>Whether some recording point has the name: 0, or -1.\<close>

definition quickcheck_index_for_file :: "vbs_env \<Rightarrow> string \<Rightarrow> int" where
  "quickcheck_index_for_file E f = (if \<exists>es \<in> set (ve_drives E). f \<in> set es then 0 else - 1)"

definition quickcheck_n_folders :: "vbs_env \<Rightarrow> vbs_state \<Rightarrow> vbs_state \<times> int" where
  "quickcheck_n_folders E s = (if ve_unreadable E then (s, - 1) else (s\<lparr>vb_n_datadirs := length (ve_drives E)\<rparr>, 0))"

definition update_stat :: "int \<Rightarrow> vbs_file \<Rightarrow> vstat \<Rightarrow> vstat" where
  "update_stat off fi st =
     (let st1 = (if has (vf_status fi) STATUS_GOTREFSTAT then vf_refstat fi else st);
          sz = sint (vf_n_packets fi * word_of_int (vf_packet_size fi - off)) in
      st1\<lparr>vst_size := sz, vst_blocks := c_div sz 512\<rparr>)"

definition attr_of :: "vbs_env \<Rightarrow> nat \<Rightarrow> int \<Rightarrow> vstat \<Rightarrow> vbs_file \<Rightarrow> (vbs_file \<times> vstat \<times> int) outcome" where
  "attr_of E n off st fi =
     (if has (vf_status fi) STATUS_NOTVBS then Inr (fi, st, - ENOENT)
      else bindE (if \<not> has (vf_status fi) STATUS_INITIALIZED then create_single_file_index E n fi
                  else if has (vf_status fi) STATUS_NOCFG then update_nocfg_index E n fi else Inr (fi, 0)) (\<lambda>(fi1, err).
        if err \<noteq> 0 then Inr (fi1, st, - ENOENT) else Inr (fi1, update_stat off fi1 st, 0)))"

definition vbs_getattr :: "vbs_env \<Rightarrow> string \<Rightarrow> vstat \<Rightarrow> vbs_state \<Rightarrow> (vbs_state \<times> vstat \<times> int) outcome" where
  "vbs_getattr E fpath st s =
     (if fpath = ''/'' then Inr (s, st\<lparr>vst_mode := or S_IFDIR 493, vst_nlink := 2\<rparr>, 0) else
      bindE (vbs_hashfunction (tl fpath) s True) (\<lambda>index.
      if 0 \<le> index then on_slot index (attr_of E (vb_n_datadirs s) (vb_offset s) st) s
      else if quickcheck_index_for_file E (tl fpath) = 0
      then bindE (vbs_hashfunction (tl fpath) s False) (\<lambda>index.
           bindE (add_file_to_index (tl fpath) index s) (\<lambda>(s1, _).
           on_slot index (attr_of E (vb_n_datadirs s1) (vb_offset s1) st) s1))
      else Inr (s, st, - ENOENT)))"

definition open_fi :: "vbs_env \<Rightarrow> nat \<Rightarrow> vbs_file \<Rightarrow> (vbs_file \<times> int) outcome" where
  "open_fi E n fi =
     (if has (vf_status fi) STATUS_NOTVBS then Inr (fi, - ENOENT)
      else if \<not> has (vf_status fi) STATUS_INITIALIZED
      then bindE (create_single_file_index E n fi) (\<lambda>(fi1, err). Inr (fi1, if err \<noteq> 0 then - ENOENT else 0))
      else if has (vf_status fi) STATUS_NOCFG
      then bindE (update_nocfg_index E n fi) (\<lambda>(fi1, err). Inr (fi1, if err \<noteq> 0 then - ENOENT else 0))
      else bindE (generic_do_to_each_subfolder E n False fi) (\<lambda>fi1.
        if has (vf_status fi1) STATUS_FOUND then Inr (fi1, 0) else Inr (clear_recording fi1, - ENOENT)))"

definition vbs_open :: "vbs_env \<Rightarrow> string \<Rightarrow> vbs_state \<Rightarrow> (vbs_state \<times> int) outcome" where
  "vbs_open E fpath s = bindE (vbs_hashfunction (tl fpath) s True) (\<lambda>index.
     if index = - 1 then Inr (s, - ENOENT) else on_slot index (open_fi E (vb_n_datadirs s)) s)"

subsection \<open>Listing\<close>

text \<open>One entry of a recording point. A name that hashes to slot 0 is left out.\<close>

definition rebuild_entry :: "vbs_env \<Rightarrow> string \<Rightarrow> vbs_state \<Rightarrow> vbs_state outcome" where
  "rebuild_entry E d s = bindE (vbs_hashfunction d s False) (\<lambda>err.
     if err > 0
     then bindE (array_get (vb_fis s) (nat err)) (\<lambda>fi.
       if slot_free fi
       then bindE (add_file_to_index d err s) (\<lambda>(s1, _).
         bindE (on_slot err (create_single_file_index E (vb_n_datadirs s1)) s1) (\<lambda>(s2, _). Inr s2))
       else Inr s)
     else Inr s)"

fun rebuild_drive :: "vbs_env \<Rightarrow> string list \<Rightarrow> vbs_state \<Rightarrow> vbs_state outcome" where
  "rebuild_drive E [] s = Inr s"
| "rebuild_drive E (d # ds) s = bindE (rebuild_entry E d s) (rebuild_drive E ds)"

fun rebuild_drives :: "vbs_env \<Rightarrow> string list list \<Rightarrow> vbs_state \<Rightarrow> vbs_state outcome" where
  "rebuild_drives E [] s = Inr s"
| "rebuild_drives E (ds # dss) s = bindE (rebuild_drive E ds s) (rebuild_drives E dss)"

definition rebuild_file_index :: "vbs_env \<Rightarrow> vbs_state \<Rightarrow> (vbs_state \<times> int) outcome" where
  "rebuild_file_index E s = bindE (rebuild_drives E (take (vb_n_datadirs s) (ve_drives E)) s) (\<lambda>s1.
     Inr (s1, if length (ve_drives E) < vb_n_datadirs s \<and> ve_unreadable E then - 1 else 0))"

definition vbs_readdir :: "vbs_env \<Rightarrow> string \<Rightarrow> vbs_state \<Rightarrow> (vbs_state \<times> string list \<times> int) outcome" where
  "vbs_readdir E fpath s = (if fpath \<noteq> ''/'' then Inr (s, [], - ENOENT) else
     bindE (rebuild_file_index E s) (\<lambda>(s1, _).
       Inr (s1, [''.'', ''..''] @ map shown_name (filter (\<lambda>fi. \<not> slot_free fi \<and> \<not> has (vf_status fi) STATUS_NOTVBS)
         (take (vb_max_files s1) (vb_fis s1))), 0)))"

definition vbs_init_table :: "vbs_env \<Rightarrow> vbs_state \<Rightarrow> (vbs_state \<times> bool) outcome" where
  "vbs_init_table E s = bindE (rebuild_file_index E (fst (quickcheck_n_folders E (fresh_table s)))) (\<lambda>(s1, err). Inr (s1, err = 0))"

end
