(* ===== verification/VbsRead.thy ===== *)
theory VbsRead
  imports VbsFs
begin

text \<open>
  Reading a recording through the file system view (\<open>vbs_read\<close> and \<open>do_operation\<close> of \<open>src/vbs_fs/vbs_fs.c\<close>): the part of the
  recording is cut at the ends of its files, and each piece is moved to its place in the buffer by a thread, which forks a
  process that splices the file to a pipe. With \<open>offset\<close> set, that many bytes are left out of each packet.

  The buffer is a list, a write outside it is the fault. The threads write one after the other: a piece has its own place.
\<close>

section \<open>Lengths with and without the bytes left out\<close>

text \<open>The callers have made sure that a packet is not of length 0.\<close>

definition convert_from_woffset_to_truelength :: "int \<Rightarrow> vbs_file \<Rightarrow> int \<Rightarrow> int" where
  "convert_from_woffset_to_truelength amount fi off =
     (let remainder = c_mod amount (vf_packet_size fi - off);
          truelength = c_div amount (vf_packet_size fi - off) * vf_packet_size fi in
      if remainder > 0 then truelength + off + remainder else truelength)"

definition convert_from_truelength_to_woffset :: "int \<Rightarrow> vbs_file \<Rightarrow> int \<Rightarrow> int" where
  "convert_from_truelength_to_woffset amount fi off = c_div amount (vf_packet_size fi) * (vf_packet_size fi - off)"

section \<open>One piece\<close>

text \<open>\<open>kp_moves\<close>: what each \<open>vmsplice\<close> moves. \<open>kp_child\<close>: after how many bytes the splice of the other process fails.
  \<open>kp_slow\<close>: the other process still has bytes to move when the pipe is closed before it is empty, and is killed.\<close>

record pipe_env =
  kp_moves :: "nat \<Rightarrow> kernel"
  kp_child :: "nat option"
  kp_slow :: bool

record read_operator =
  ro_buf :: int
  ro_offset :: int
  ro_size :: u64

definition put_at :: "u8 list \<Rightarrow> int \<Rightarrow> u8 list \<Rightarrow> u8 list outcome" where
  "put_at buf pos bs = (if bs = [] then Inr buf else if pos < 0 then Inl Out_Of_Bounds else memcpy_at buf (nat pos) bs)"

text \<open>The loops of the reading side; \<open>pipe\<close> is what the other process puts into the pipe. The result is the buffer, whether
  every call succeeded, and whether the pipe was emptied.\<close>

function vmsplice_plain :: "(nat \<Rightarrow> kernel) \<Rightarrow> nat \<Rightarrow> nat \<Rightarrow> u8 list \<Rightarrow> int \<Rightarrow> u8 list \<Rightarrow> (u8 list \<times> bool \<times> bool) outcome" where
  "vmsplice_plain k i cnt pipe pos buf =
     (if cnt = 0 \<or> pipe = [] then Inr (buf, True, pipe = [])
      else (case k i of Fails \<Rightarrow> Inr (buf, False, False)
        | Moves j \<Rightarrow> (let n = moved j (min cnt (length pipe)) in
            bindE (put_at buf pos (take n pipe)) (\<lambda>buf1.
            vmsplice_plain k (Suc i) (cnt - n) (drop n pipe) (pos + int n) buf1))))"
  by pat_completeness auto

termination
  by (relation "measure (\<lambda>(k, i, cnt, pipe, pos, buf). cnt)") (auto simp: moved_def)

declare vmsplice_plain.simps [simp del]

text \<open>The lengths of the two vectors, for the bytes left out and the bytes of the buffer.\<close>

definition strip_vectors :: "nat \<Rightarrow> nat \<Rightarrow> nat \<Rightarrow> int \<Rightarrow> nat \<times> nat" where
  "strip_vectors off cnt from_boundary packet_size =
     (if from_boundary < off
      then (off - from_boundary, min (cnt - (off - from_boundary)) (unat (word_of_int (packet_size - int off) :: u32)))
      else (0, min cnt (unat (word_of_int (packet_size - int from_boundary) :: u32))))"

function vmsplice_strip :: "(nat \<Rightarrow> kernel) \<Rightarrow> nat \<Rightarrow> nat \<Rightarrow> int \<Rightarrow> nat \<Rightarrow> nat \<Rightarrow> u8 list \<Rightarrow> int \<Rightarrow> u8 list \<Rightarrow>
    (u8 list \<times> bool \<times> bool) outcome" where
  "vmsplice_strip k i off packet_size start cnt pipe pos buf =
     (if cnt \<le> off then Inr (buf, True, pipe = [])
      else (let (v0, v1) = strip_vectors off cnt (start mod unat (word_of_int packet_size :: u64)) packet_size in
        if v0 + v1 = 0 \<or> pipe = [] then Inr (buf, True, pipe = [])
        else (case k i of Fails \<Rightarrow> Inr (buf, False, False)
          | Moves j \<Rightarrow> (let n = moved j (min (v0 + v1) (length pipe)) in
              bindE (put_at buf pos (drop v0 (take n pipe))) (\<lambda>buf1.
              vmsplice_strip k (Suc i) off packet_size (start + n) (cnt - n) (drop n pipe) (pos + int n - int v0) buf1)))))"
  by pat_completeness auto

termination
  by (relation "measure (\<lambda>(k, i, off, p, start, cnt, pipe, pos, buf). cnt)") (auto simp: moved_def)

declare vmsplice_strip.simps [simp del]

text \<open>The thread of a piece: \<open>content\<close> is the file, \<open>None\<close> when it cannot be opened. The flag is whether it reports success.\<close>

definition do_operation :: "pipe_env \<Rightarrow> vbs_file \<Rightarrow> int \<Rightarrow> u8 list option \<Rightarrow> read_operator \<Rightarrow> u8 list \<Rightarrow> (u8 list \<times> bool) outcome" where
  "do_operation K fi off content ro buf =
     (let cnt = unat (ro_size ro);
          wanted = (case content of None \<Rightarrow> [] | Some c \<Rightarrow> take cnt (drop (nat (ro_offset ro)) c));
          pipe = (case kp_child K of None \<Rightarrow> wanted | Some m \<Rightarrow> take m wanted);
          child = (content \<noteq> None \<and> kp_child K = None) in
      if off > 0 \<and> vf_packet_size fi = 0 \<and> cnt > 0 then Inl Div_By_Zero else
      bindE (if off > 0 then vmsplice_strip (kp_moves K) 0 (nat off) (vf_packet_size fi) (nat (ro_offset ro)) cnt pipe (ro_buf ro) buf
             else vmsplice_plain (kp_moves K) 0 cnt pipe (ro_buf ro) buf) (\<lambda>(buf1, ok, empty).
      Inr (buf1, ok \<and> child \<and> (empty \<or> \<not> kp_slow K))))"

section \<open>The pieces of a read\<close>

definition effective_filesize :: "vbs_file \<Rightarrow> int \<Rightarrow> u64" where
  "effective_filesize fi off = (if off > 0
     then word_of_int (convert_from_truelength_to_woffset (sint (vf_filesize fi)) fi off) else vf_filesize fi)"

definition n_files_open :: "u64 \<Rightarrow> int \<Rightarrow> u64 \<Rightarrow> nat" where
  "n_files_open eff partial_off len =
     (let n = len div eff in
      if eff - word_of_int partial_off < len - n * eff then unat n + 2 else unat n + 1)"

text \<open>A piece with its directory and file number; \<open>None\<close> for a file that has not been found, for which nothing is moved on.\<close>

type_synonym piece = "(int \<times> nat \<times> read_operator) option"

fun read_pieces :: "vbs_file \<Rightarrow> int \<Rightarrow> u64 \<Rightarrow> nat \<Rightarrow> nat \<Rightarrow> int \<Rightarrow> u64 \<Rightarrow> int \<Rightarrow> piece list outcome" where
  "read_pieces fi off eff 0 filenum partial_off len bufstart = Inr []"
| "read_pieces fi off eff (Suc n) filenum partial_off len bufstart =
     (case vf_fileid fi of None \<Rightarrow> Inl Null_Deref
      | Some ids \<Rightarrow> bindE (array_get ids filenum) (\<lambda>e. case e of
          None \<Rightarrow> Inl Undefined
        | Some d \<Rightarrow>
            if d = - 1
            then bindE (read_pieces fi off eff n (Suc filenum) partial_off len bufstart) (\<lambda>ps. Inr (None # ps))
            else (let true_off = (if off > 0 then convert_from_woffset_to_truelength partial_off fi off else partial_off);
                      part = sint (if word_of_int partial_off + len > eff then eff - word_of_int partial_off else len);
                      amount = (if off > 0 then convert_from_woffset_to_truelength part fi off else part) in
              bindE (read_pieces fi off eff n (Suc filenum) 0 (len - word_of_int amount) (bufstart + amount)) (\<lambda>ps.
                Inr (Some (sint d, filenum, \<lparr>ro_buf = bufstart, ro_offset = true_off, ro_size = word_of_int amount\<rparr>) # ps)))))"

text \<open>The threads; the files are found by recording point, recording and number.\<close>

type_synonym disk_files = "int \<Rightarrow> string \<Rightarrow> nat \<Rightarrow> u8 list option"

fun run_pieces :: "(nat \<Rightarrow> pipe_env) \<Rightarrow> disk_files \<Rightarrow> vbs_file \<Rightarrow> int \<Rightarrow> nat \<Rightarrow> piece list \<Rightarrow> u8 list \<Rightarrow> (u8 list \<times> bool) outcome" where
  "run_pieces K D fi off i [] buf = Inr (buf, True)"
| "run_pieces K D fi off i (None # ps) buf = run_pieces K D fi off (Suc i) ps buf"
| "run_pieces K D fi off i (Some (d, filenum, ro) # ps) buf =
     bindE (do_operation (K i) fi off (D d (shown_name fi) filenum) ro buf) (\<lambda>(buf1, ok1).
     bindE (run_pieces K D fi off (Suc i) ps buf1) (\<lambda>(buf2, ok2). Inr (buf2, ok1 \<and> ok2)))"

definition read_fi :: "(nat \<Rightarrow> pipe_env) \<Rightarrow> disk_files \<Rightarrow> int \<Rightarrow> u64 \<Rightarrow> int \<Rightarrow> u8 list \<Rightarrow> vbs_file \<Rightarrow> (int \<times> u8 list) outcome" where
  "read_fi K D off len offset buf fi =
     (if has (vf_status fi) STATUS_NOTVBS then Inr (- EBADF, buf) else
      (let size_of_rec = sint (vf_n_packets fi * word_of_int (vf_packet_size fi - off)) in
       if offset \<ge> size_of_rec then Inr (- EINVAL, buf) else
       (let over = offset + sint len \<ge> size_of_rec;
            size1 = (if over then word_of_int (size_of_rec - offset) else len);
            retval = (if over then EOF else to_int32 (uint len)) in
        if off > 0 \<and> vf_packet_size fi = 0 \<or> effective_filesize fi off = 0 then Inl Div_By_Zero else
        (let eff = effective_filesize fi off;
             filenum = unat (word_of_int offset div eff);
             partial_off = sint (word_of_int offset mod eff :: u64) in
         bindE (read_pieces fi off eff (n_files_open eff partial_off size1) filenum partial_off size1 0) (\<lambda>ps.
         bindE (run_pieces K D fi off 0 ps buf) (\<lambda>(buf1, ok). Inr (if ok then retval else - 1, buf1)))))))"

definition vbs_read :: "(nat \<Rightarrow> pipe_env) \<Rightarrow> disk_files \<Rightarrow> string \<Rightarrow> u64 \<Rightarrow> int \<Rightarrow> u8 list \<Rightarrow> vbs_state \<Rightarrow> (int \<times> u8 list) outcome" where
  "vbs_read K D fpath len offset buf s = bindE (vbs_hashfunction (tl fpath) s True) (\<lambda>fi_i.
     if fi_i < 0 then Inr (- EBADF, buf)
     else bindE (array_get (vb_fis s) (nat fi_i)) (read_fi K D (vb_offset s) len offset buf))"

end
