(* ===== verification/FileView.thy ===== *)
theory FileView
  imports VbsFs
begin

text \<open>
  What the table of the file system view promises: a recording that was put into it is found. It holds as long as nothing
  is taken out, and no name is asked for that is not there.
\<close>

section \<open>The table\<close>

text \<open>The slots in the order of the search, and where it stops.\<close>

definition search_order :: "string \<Rightarrow> nat \<Rightarrow> nat list" where
  "search_order key m = [home key m ..< m] @ [0 ..< m]"

definition stops :: "vbs_file list \<Rightarrow> string \<Rightarrow> nat \<Rightarrow> bool" where
  "stops fis key i \<longleftrightarrow> slot_free (fis ! i) \<or> vf_filename (fis ! i) = Some key"

definition named :: "vbs_file list \<Rightarrow> bool" where
  "named fis \<longleftrightarrow> (\<forall>fi \<in> set fis. slot_free fi \<or> (\<exists>n. vf_filename fi = Some n \<and> n \<noteq> []))"

definition slot_holds :: "vbs_file list \<Rightarrow> string \<Rightarrow> nat \<Rightarrow> bool" where
  "slot_holds fis n i \<longleftrightarrow> i < length fis \<and> \<not> slot_free (fis ! i) \<and> vf_filename (fis ! i) = Some n"

text \<open>Each slot in use has a name, and the search for the name ends there.\<close>

definition table_ok :: "vbs_state \<Rightarrow> bool" where
  "table_ok s \<longleftrightarrow> vb_max_files s = length (vb_fis s) \<and> vb_fis s \<noteq> [] \<and> named (vb_fis s) \<and>
     (\<forall>n i. slot_holds (vb_fis s) n i \<longrightarrow> List.find (stops (vb_fis s) n) (search_order n (length (vb_fis s))) = Some i)"

definition found_slot :: "nat option \<Rightarrow> int" where
  "found_slot r = (case r of None \<Rightarrow> - 1 | Some i \<Rightarrow> int i)"

lemma home_less: "0 < m \<Longrightarrow> home key m < m"
  by (simp add: home_def)

lemma probe_find:
  assumes "m = length fis" "slot < m" "named fis"
  shows "probe_slot fis m key goneover slot =
     Inr (found_slot (List.find (stops fis key) ([slot ..< m] @ (if goneover then [] else [0 ..< m]))))"
  using assms
proof (induction fis m key goneover slot rule: probe_slot.induct)
  case (1 fis m key g v)
  let ?fi = "fis ! v"
  have m: "m = length fis" and v: "v < length fis" using 1(3,4) by auto
  have get: "array_get fis v = Inr ?fi" using v by simp
  have stop: "List.find (stops fis key) ([v ..< length fis] @ zs) =
      (if stops fis key v then Some v else List.find (stops fis key) ([Suc v ..< length fis] @ zs))" for zs
    using v by (simp add: upt_conv_Cons)
  show ?case
  proof (cases "stops fis key v")
    case True
    then show ?thesis using get stop 1(5) v unfolding m
      by (subst probe_slot.simps) (auto simp: stops_def found_slot_def named_def split: option.split)
  next
    case False
    then obtain n where n: "vf_filename ?fi = Some n" "\<not> slot_free ?fi" "n \<noteq> key"
      using 1(5) v unfolding named_def stops_def by (metis nth_mem)
    show ?thesis
    proof (cases "v + 1 \<ge> m")
      case True
      have "\<not> g \<Longrightarrow> probe_slot fis m key True 0 = Inr (found_slot (List.find (stops fis key) [0 ..< m]))"
        using 1(1)[OF n(2,1,3) True _ m] v m 1(5) by fastforce
      then show ?thesis using n get stop False True unfolding m
        by (subst probe_slot.simps) (auto simp: found_slot_def)
    next
      case more: False
      have "probe_slot fis m key g (v + 1) = Inr (found_slot (List.find (stops fis key) ([v + 1 ..< m] @ (if g then [] else [0 ..< m]))))"
        using 1(2)[OF n(2,1,3) more m] more 1(5) by simp
      then show ?thesis using n more get stop False unfolding m
        by (subst probe_slot.simps) auto
    qed
  qed
qed

lemma lookup_find:
  assumes "table_ok s" "key \<noteq> []"
  shows "vbs_hashfunction key s False = Inr (found_slot (List.find (stops (vb_fis s) key) (search_order key (length (vb_fis s)))))"
    and "vbs_hashfunction key s True = (if slot_free (vb_fis s ! home key (length (vb_fis s))) then Inr (- 1)
      else Inr (found_slot (List.find (stops (vb_fis s) key) (search_order key (length (vb_fis s))))))"
proof -
  let ?m = "length (vb_fis s)" and ?h = "home key (length (vb_fis s))"
  have m: "vb_max_files s = ?m" "0 < ?m" "named (vb_fis s)" and h: "?h < ?m"
    using assms(1) home_less by (auto simp: table_ok_def)
  have p: "probe_slot (vb_fis s) ?m key False ?h = Inr (found_slot (List.find (stops (vb_fis s) key) (search_order key ?m)))"
    using probe_find[OF refl h m(3)] by (simp add: search_order_def)
  have f: "List.find (stops (vb_fis s) key) (search_order key ?m) = Some ?h" if "slot_free (vb_fis s ! ?h)"
    using that h by (simp add: search_order_def upt_conv_Cons stops_def)
  show "vbs_hashfunction key s False = Inr (found_slot (List.find (stops (vb_fis s) key) (search_order key ?m)))"
    using assms(2) m h p f by (auto simp: vbs_hashfunction_def found_slot_def)
  show "vbs_hashfunction key s True = (if slot_free (vb_fis s ! ?h) then Inr (- 1)
      else Inr (found_slot (List.find (stops (vb_fis s) key) (search_order key ?m))))"
    using assms(2) m h p by (auto simp: vbs_hashfunction_def)
qed

lemma lookup_held:
  assumes "table_ok s" "slot_holds (vb_fis s) n i"
  shows "vbs_hashfunction n s g = Inr (int i)"
proof -
  let ?m = "length (vb_fis s)"
  have n: "n \<noteq> []" and f: "List.find (stops (vb_fis s) n) (search_order n ?m) = Some i"
    using assms by (auto simp: table_ok_def slot_holds_def named_def)
  have "0 < ?m" using assms(2) by (auto simp: slot_holds_def)
  then have h: "home n ?m < ?m" by (rule home_less)
  have "\<not> slot_free (vb_fis s ! home n ?m)"
  proof
    assume a: "slot_free (vb_fis s ! home n ?m)"
    then have "List.find (stops (vb_fis s) n) (search_order n ?m) = Some (home n ?m)"
      using h by (simp add: search_order_def upt_conv_Cons stops_def)
    then show False using f a assms(2) by (simp add: slot_holds_def)
  qed
  then show ?thesis using lookup_find[OF assms(1) n] f by (cases g) (simp_all add: found_slot_def)
qed

lemma find_mono:
  assumes "List.find P xs = Some i" "Q i" "\<And>x. Q x \<Longrightarrow> P x"
  shows "List.find Q xs = Some i"
  using assms by (induction xs) (auto split: if_splits)

subsection \<open>Adding a name\<close>

lemma find_update:
  assumes "List.find P xs = Some i" "\<And>x. x \<noteq> k \<Longrightarrow> Q x = P x" "\<not> Q k" "i \<noteq> k"
  shows "List.find Q xs = Some i"
  using assms by (induction xs) (fastforce split: if_splits)+

lemma found_slot_nonneg: "found_slot r = k \<Longrightarrow> 0 \<le> k \<Longrightarrow> r = Some (nat k)"
  by (auto simp: found_slot_def split: option.splits)

lemma stops_update:
  assumes "k < length fis"
  shows "stops (fis[k := fi]) key i = (if i = k then slot_free fi \<or> vf_filename fi = Some key else stops fis key i)"
  using assms by (auto simp: stops_def)

lemma slot_holds_update:
  assumes "k < length fis"
  shows "slot_holds (fis[k := fi]) n i \<longleftrightarrow> (if i = k then \<not> slot_free fi \<and> vf_filename fi = Some n else slot_holds fis n i)"
  using assms by (auto simp: slot_holds_def)

text \<open>An entry with a new name at the place where the search for it ends.\<close>

lemma table_ok_add:
  assumes ok: "table_ok s" and k: "k < length (vb_fis s)" "slot_free (vb_fis s ! k)"
    and f: "List.find (stops (vb_fis s) name) (search_order name (length (vb_fis s))) = Some k"
    and fi: "\<not> slot_free fi" "vf_filename fi = Some name" "name \<noteq> []"
  shows "table_ok (s\<lparr>vb_fis := (vb_fis s)[k := fi]\<rparr>)"
proof -
  let ?fis = "vb_fis s"
  have named: "named (?fis[k := fi])"
    using ok fi set_update_subset_insert[of ?fis k fi] by (auto simp: table_ok_def named_def)
  have held: "List.find (stops (?fis[k := fi]) n) (search_order n (length ?fis)) = Some i" if h: "slot_holds (?fis[k := fi]) n i" for n i
  proof (cases "i = k")
    case True
    then have "n = name" using h fi k(1) by (simp add: slot_holds_update)
    moreover have "stops (?fis[k := fi]) name k" "\<And>x. stops (?fis[k := fi]) name x \<Longrightarrow> stops ?fis name x"
      using k fi by (auto simp: stops_update stops_def[of ?fis] split: if_splits)
    ultimately show ?thesis using True find_mono[OF f] by simp
  next
    case False
    then have old: "slot_holds ?fis n i" using h k(1) by (simp add: slot_holds_update)
    have "n \<noteq> name"
    proof
      assume n: "n = name"
      then have "List.find (stops ?fis name) (search_order name (length ?fis)) = Some i" using old ok by (simp add: table_ok_def)
      then show False using f False by simp
    qed
    then have ns: "\<not> stops (?fis[k := fi]) n k" using k(1) fi by (simp add: stops_update)
    have f: "List.find (stops ?fis n) (search_order n (length ?fis)) = Some i" using old ok by (simp add: table_ok_def)
    have eq: "\<And>x. x \<noteq> k \<Longrightarrow> stops (?fis[k := fi]) n x = stops ?fis n x" using k(1) by (simp add: stops_update)
    show ?thesis by (rule find_update[OF f eq ns False])
  qed
  show ?thesis using ok named held by (auto simp: table_ok_def)
qed

lemma or_found: "\<not> slot_free (fi\<lparr>vf_filename := a, vf_status := w OR STATUS_FOUND\<rparr>)"
  by (simp add: slot_free_def STATUS_SLOTFREE_def STATUS_FOUND_def flag_def or_eq_0_iff)

text \<open>C37: A name that is looked up for adding and put into the free slot it got is found there from then on, and every recording
  that was in the table is still found where it was.\<close>

theorem view_index_after_add:
  assumes "table_ok s" "name \<noteq> []" "vbs_hashfunction name s False = Inr k" "0 \<le> k" "slot_free (vb_fis s ! nat k)"
  shows "\<exists>s'. add_file_to_index name k s = Inr (s', 0) \<and> table_ok s' \<and> vbs_hashfunction name s' True = Inr k \<and>
     (\<forall>n i. slot_holds (vb_fis s) n i \<longrightarrow> vbs_hashfunction n s' True = Inr (int i))"
proof -
  let ?fis = "vb_fis s" and ?k = "nat k"
  let ?fi = "(?fis ! ?k)\<lparr>vf_filename := Some name, vf_status := vf_status (?fis ! ?k) OR STATUS_FOUND\<rparr>"
  let ?s' = "s\<lparr>vb_fis := ?fis[?k := ?fi]\<rparr>"
  have f: "List.find (stops ?fis name) (search_order name (length ?fis)) = Some ?k"
    using assms(3,4) lookup_find(1)[OF assms(1,2)] by (auto intro: found_slot_nonneg)
  then have k: "?k < length ?fis" by (auto simp: find_Some_iff search_order_def nth_append)
  have add: "add_file_to_index name k s = Inr (?s', 0)"
    using assms(4) k by (simp add: add_file_to_index_def on_slot_def)
  have ok: "table_ok ?s'"
    by (rule table_ok_add[OF assms(1) k assms(5) f or_found]) (simp_all add: assms(2))
  have new: "slot_holds (vb_fis ?s') name ?k"
    using k or_found by (simp add: slot_holds_def)
  have old: "slot_holds (vb_fis ?s') n i" if "slot_holds ?fis n i" for n i
    using that assms(5) k by (auto simp: slot_holds_def nth_list_update)
  show ?thesis using add ok lookup_held[OF ok new] lookup_held[OF ok old] assms(4) by auto
qed

subsection \<open>Names that are not there, and names that are gone\<close>

text \<open>A slot in use without a name stops the search with a fault.\<close>

lemma probe_nameless:
  assumes "m = length fis" "v < m" "named fis" "\<not> slot_free bad" "vf_filename bad = None"
    "List.find (stops fis key) ([v ..< m] @ (if goneover then [] else [0 ..< m])) = Some k"
  shows "probe_slot (fis[k := bad]) m key goneover v = Inl Null_Deref"
  using assms
proof (induction fis m key goneover v rule: probe_slot.induct)
  case (1 fis m key g v)
  have m: "m = length fis" and v: "v < length fis" using 1(3,4) by auto
  have stop: "List.find (stops fis key) ([v ..< length fis] @ zs) =
      (if stops fis key v then Some v else List.find (stops fis key) ([Suc v ..< length fis] @ zs))" for zs
    using v by (simp add: upt_conv_Cons)
  show ?case
  proof (cases "stops fis key v")
    case True
    then have "k = v" using 1(8) stop m by simp
    then show ?thesis using v 1(6,7) by (subst probe_slot.simps) simp
  next
    case False
    then obtain n where n: "vf_filename (fis ! v) = Some n" "\<not> slot_free (fis ! v)" "n \<noteq> key"
      using 1(5) v unfolding named_def stops_def by (metis nth_mem)
    have rest: "List.find (stops fis key) ([Suc v ..< length fis] @ (if g then [] else [0 ..< m])) = Some k"
      using 1(8) stop False m by simp
    then have "stops fis key k" by (auto simp: find_Some_iff)
    then have "k \<noteq> v" using False by auto
    then have get: "array_get (fis[k := bad]) v = Inr (fis ! v)" using v by simp
    show ?thesis
    proof (cases "v + 1 \<ge> m")
      case True
      then have g: "\<not> g" using rest m by auto
      have "probe_slot (fis[k := bad]) m key True 0 = Inl Null_Deref"
        using 1(1)[OF n(2,1,3) True g m] v m 1(5-7) rest g True by fastforce
      then show ?thesis using n True g get by (subst probe_slot.simps) auto
    next
      case more: False
      have "probe_slot (fis[k := bad]) m key g (v + 1) = Inl Null_Deref"
        using 1(2)[OF n(2,1,3) more m] more 1(5-7) rest m by simp
      then show ?thesis using n more get by (subst probe_slot.simps) auto
    qed
  qed
qed

lemma create_loop_none:
  "\<forall>i \<in> set is. ve_rec E i (shown_name fi) = None \<Longrightarrow> create_loop E is found fi = Inr (fi, Some found)"
  by (induction "is") auto

text \<open>The free slot where the search for a name ends that is not in the table.\<close>

lemma absent_slot:
  assumes "table_ok s" "\<forall>i. \<not> slot_holds (vb_fis s) key i" "\<exists>fi \<in> set (vb_fis s). slot_free fi"
  obtains k where "List.find (stops (vb_fis s) key) (search_order key (length (vb_fis s))) = Some k"
    "k < length (vb_fis s)" "slot_free (vb_fis s ! k)"
proof -
  let ?m = "length (vb_fis s)"
  obtain j where j: "j < ?m" "slot_free (vb_fis s ! j)" using assms(3) by (auto simp: in_set_conv_nth)
  then have "j \<in> set (search_order key ?m)" "stops (vb_fis s) key j" by (auto simp: search_order_def stops_def)
  then obtain k where k: "List.find (stops (vb_fis s) key) (search_order key ?m) = Some k"
    by (metis find_None_iff2 not_None_eq)
  then have "k \<in> set (search_order key ?m)" "stops (vb_fis s) key k" by (auto simp: find_Some_iff in_set_conv_nth)
  then have "k < ?m" by (auto simp: search_order_def)
  moreover have "slot_free (vb_fis s ! k)"
    using \<open>stops (vb_fis s) key k\<close> assms(2) \<open>k < ?m\<close> by (auto simp: stops_def slot_holds_def)
  ultimately show thesis using that k by blast
qed

text \<open>C38: Asking for the attributes of a name that is not recorded, whose home slot is taken by another recording, answers that
  there is no such file, and leaves a slot in use without a name in the table: the next look at the same name, whatever is on
  the disks by then, compares it with \<open>NULL\<close>.\<close>

theorem absent_name_crashes_view:
  assumes ok: "table_ok s" and key: "key \<noteq> []" "\<forall>i. \<not> slot_holds (vb_fis s) key i"
    and taken: "\<not> slot_free (vb_fis s ! home key (length (vb_fis s)))"
    and free: "\<exists>fi \<in> set (vb_fis s). slot_free fi" "\<forall>fi \<in> set (vb_fis s). slot_free fi \<longrightarrow> fi = cleared"
    and dirs: "\<forall>i. ve_rec E i ''(null)'' = None"
  shows "\<exists>s'. vbs_getattr E (CHR ''/'' # key) st s = Inr (s', st, - ENOENT) \<and>
     vbs_getattr E' (CHR ''/'' # key) st' s' = Inl Null_Deref \<and> vbs_open E' (CHR ''/'' # key) s' = Inl Null_Deref"
proof -
  let ?m = "length (vb_fis s)" and ?h = "home key (length (vb_fis s))"
  obtain k where k: "List.find (stops (vb_fis s) key) (search_order key ?m) = Some k" "k < ?m" "slot_free (vb_fis s ! k)"
    using absent_slot[OF ok key(2) free(1)] by blast
  have m: "vb_max_files s = ?m" "0 < ?m" "named (vb_fis s)" and h: "?h < ?m" using ok home_less by (auto simp: table_ok_def)
  have look: "vbs_hashfunction key s True = Inr (int k)"
    using lookup_find(2)[OF ok key(1)] taken k(1) by (simp add: found_slot_def)
  have c: "vb_fis s ! k = cleared" using free(2) k(2,3) by simp
  define bad where "bad = cleared\<lparr>vf_status := STATUS_NOTVBS\<rparr>"
  let ?s' = "s\<lparr>vb_fis := (vb_fis s)[k := bad]\<rparr>"
  have bad: "\<not> slot_free bad" "vf_filename bad = None" by (simp_all add: bad_def cleared_def slot_free_def vstatus_defs)
  have single: "create_single_file_index E n cleared = Inr (bad, - 1)" for n
    using create_loop_none[of "[0..<n]" E cleared False] dirs
    by (simp add: create_single_file_index_def shown_name_def cleared_def bad_def)
  have "attr_of E n off st cleared = Inr (bad, st, - ENOENT)" for n off
    using single by (simp add: attr_of_def cleared_def has_def)
  then have first: "vbs_getattr E (CHR ''/'' # key) st s = Inr (?s', st, - ENOENT)"
    using look key(1) k(2) c by (simp add: vbs_getattr_def on_slot_def)
  have hk: "?h \<noteq> k" using taken k(3) by auto
  have "vbs_hashfunction key ?s' g = Inl Null_Deref" for g
    using probe_nameless[OF refl h m(3) bad, of key False k] k(1) key(1) m h taken hk
    by (simp add: vbs_hashfunction_def search_order_def)
  then show ?thesis using first key(1) by (auto simp: vbs_getattr_def vbs_open_def)
qed

lemma each_subfolder_none:
  "\<forall>i \<in> set is. ve_rec E i (shown_name fi) = None \<Longrightarrow> each_subfolder E b is fi = Inr fi"
  by (induction "is") auto

text \<open>When a recording has been removed from the disks, opening it clears its slot; another recording that was put behind it
  because their names share the home slot is then no longer found, although it is in the table and on the disks.\<close>

theorem removed_recording_hides_another:
  assumes ok: "table_ok s" and a: "slot_holds (vb_fis s) a i" and b: "slot_holds (vb_fis s) b j" "home b (length (vb_fis s)) = i" "i \<noteq> j"
    and st: "has (vf_status (vb_fis s ! i)) STATUS_INITIALIZED" "\<not> has (vf_status (vb_fis s ! i)) STATUS_NOTVBS"
      "\<not> has (vf_status (vb_fis s ! i)) STATUS_NOCFG"
    and gone: "\<forall>d. ve_rec E d a = None"
  shows "\<exists>s'. vbs_open E (CHR ''/'' # a) s = Inr (s', - ENOENT) \<and> slot_holds (vb_fis s') b j \<and>
     vbs_open E' (CHR ''/'' # b) s' = Inr (s', - ENOENT)"
proof -
  let ?fi = "vb_fis s ! i"
  let ?s' = "s\<lparr>vb_fis := (vb_fis s)[i := cleared]\<rparr>"
  have i: "i < length (vb_fis s)" "shown_name ?fi = a" using a by (auto simp: slot_holds_def shown_name_def)
  have name: "shown_name (?fi\<lparr>vf_status := w\<rparr>) = a" for w using i(2) by (simp add: shown_name_def)
  have "generic_do_to_each_subfolder E n False ?fi = Inr (?fi\<lparr>vf_status := vf_status ?fi AND NOT STATUS_FOUND\<rparr>)" for n
    unfolding generic_do_to_each_subfolder_def using gone by (intro each_subfolder_none) (simp add: name)
  then have "open_fi E n ?fi = Inr (cleared, - ENOENT)" for n
    using st by (simp add: open_fi_def clear_recording_def)
  then have first: "vbs_open E (CHR ''/'' # a) s = Inr (?s', - ENOENT)"
    using lookup_held[OF ok a, of True] i(1) by (simp add: vbs_open_def on_slot_def)
  have held: "slot_holds (vb_fis ?s') b j" using b(1,3) by (simp add: slot_holds_def)
  have "b \<noteq> []" "vb_max_files s = length (vb_fis s)" "vb_fis s \<noteq> []" using ok b(1) by (auto simp: table_ok_def named_def slot_holds_def)
  then have "vbs_hashfunction b ?s' True = Inr (- 1)"
    using b(2) i(1) by (simp add: vbs_hashfunction_def slot_free_def cleared_def STATUS_SLOTFREE_def)
  then show ?thesis using first held by (auto simp: vbs_open_def)
qed

subsection \<open>An example\<close>

text \<open>A recording of two files of four bytes and two, on recording points 0 and 1, in a table of two slots.\<close>

definition view_fi :: vbs_file where
  "view_fi = cleared\<lparr>vf_filename := Some ''a'', vf_status := STATUS_INITIALIZED, vf_packet_size := 2, vf_filesize := 4, vf_n_packets := 3,
     vf_n_files := 2, vf_allocated_files := 2, vf_fileid := Some [Some 0, Some 1]\<rparr>"

definition view_state :: vbs_state where
  "view_state = \<lparr>vb_n_datadirs = 2, vb_offset = 0, vb_max_files = 2, vb_fis = [cleared, view_fi]\<rparr>"

lemmas view_example = view_fi_def view_state_def cleared_def slot_free_def vstatus_defs

lemma view_holds: "slot_holds (vb_fis view_state) n i \<Longrightarrow> n = ''a'' \<and> i = 1"
  by (auto simp: slot_holds_def view_example less_Suc_eq)

lemma view_table_ok: "table_ok view_state"
proof -
  have "List.find (stops (vb_fis view_state) ''a'') (search_order ''a'' (length (vb_fis view_state))) = Some 1"
    by code_simp
  moreover have "named (vb_fis view_state)" "vb_max_files view_state = length (vb_fis view_state)" "vb_fis view_state \<noteq> []"
    by (simp_all add: named_def view_example)
  ultimately show ?thesis unfolding table_ok_def using view_holds by blast
qed

theorem view_index_after_add_witness:
  "\<exists>s'. add_file_to_index ''b'' 0 view_state = Inr (s', 0) \<and> table_ok s' \<and> vbs_hashfunction ''b'' s' True = Inr 0 \<and>
     vbs_hashfunction ''a'' s' True = Inr 1"
proof -
  have h: "slot_holds (vb_fis view_state) ''a'' 1" by (simp add: slot_holds_def view_example)
  have k: "vbs_hashfunction ''b'' view_state False = Inr 0" by code_simp
  have f: "slot_free (vb_fis view_state ! nat 0)" by (simp add: view_example)
  show ?thesis using view_index_after_add[OF view_table_ok _ k _ f] h by fastforce
qed

definition no_disks :: vbs_env where
  "no_disks = \<lparr>ve_drives = [], ve_unreadable = False, ve_rec = (\<lambda>_ _. None), ve_cfg = (\<lambda>_ _. None), ve_main = None, ve_schedule = []\<rparr>"

theorem absent_name_crashes_view_witness:
  "\<exists>s'. vbs_getattr no_disks ''/c'' no_stat view_state = Inr (s', no_stat, - ENOENT) \<and>
     vbs_getattr no_disks ''/c'' no_stat s' = Inl Null_Deref \<and> vbs_open no_disks ''/c'' s' = Inl Null_Deref"
proof (rule absent_name_crashes_view[OF view_table_ok])
  show "\<forall>i. \<not> slot_holds (vb_fis view_state) ''c'' i" using view_holds by fastforce
  show "\<not> slot_free (vb_fis view_state ! home ''c'' (length (vb_fis view_state)))" by code_simp
  show "\<exists>fi \<in> set (vb_fis view_state). slot_free fi" "\<forall>fi \<in> set (vb_fis view_state). slot_free fi \<longrightarrow> fi = cleared"
    by (auto simp: view_example)
qed (simp_all add: no_disks_def)

end
