(* ===== verification/ViewReads.thy ===== *)
theory ViewReads
  imports VbsRead FileView
begin

text \<open>
  What a read through the file system view gives: the part of the recording that was asked for, in however many pieces the pipes
  move it, and without the bytes in front of each packet when they are to be left out.
\<close>

section \<open>Reading\<close>

text \<open>No call of the kernel fails, and no other process is killed.\<close>

definition pipes_ok :: "(nat \<Rightarrow> pipe_env) \<Rightarrow> bool" where
  "pipes_ok K \<longleftrightarrow> (\<forall>i. kp_child (K i) = None \<and> \<not> kp_slow (K i) \<and> (\<forall>j. kp_moves (K i) j \<noteq> Fails))"

lemma plain_moves_all:
  assumes "\<forall>j. k j \<noteq> Fails" "length pipe \<le> cnt" "pos + length pipe \<le> length buf"
  shows "\<exists>e. vmsplice_plain k i cnt pipe (int pos) buf = Inr (splice buf pos pipe, True, e)"
  using assms(2,3)
proof (induction cnt arbitrary: i pipe pos buf rule: less_induct)
  case (less cnt)
  show ?case
  proof (cases "pipe = []")
    case True
    then show ?thesis by (subst vmsplice_plain.simps) auto
  next
    case False
    obtain j where j: "k i = Moves j" using assms(1) by (cases "k i") auto
    let ?n = "moved j (length pipe)"
    have n: "0 < ?n" "?n \<le> length pipe" using False by (auto simp: moved_def Suc_le_eq)
    have cnt: "min cnt (length pipe) = length pipe" "0 < cnt" using less.prems False by (cases pipe; auto)+
    have put: "put_at buf (int pos) (take ?n pipe) = Inr (splice buf pos (take ?n pipe))"
      using less.prems n False by (simp add: put_at_def memcpy_at_def)
    obtain e where e: "vmsplice_plain k (Suc i) (cnt - ?n) (drop ?n pipe) (int (pos + ?n)) (splice buf pos (take ?n pipe)) =
        Inr (splice (splice buf pos (take ?n pipe)) (pos + ?n) (drop ?n pipe), True, e)"
      using less.IH[of "cnt - ?n" "drop ?n pipe" "pos + ?n" "splice buf pos (take ?n pipe)" "Suc i"] less.prems n cnt
      by (auto simp: diff_le_mono)
    have "splice (splice buf pos (take ?n pipe)) (pos + ?n) (drop ?n pipe) = splice buf pos pipe"
      using splice_splice[of pos "take ?n pipe" "drop ?n pipe" buf] less.prems n by simp
    then have "vmsplice_plain k i cnt pipe (int pos) buf = Inr (splice buf pos pipe, True, e)"
      using e by (subst vmsplice_plain.simps) (simp add: j put cnt False less_imp_neq[OF cnt(2), symmetric])
    then show ?thesis by blast
  qed
qed

text \<open>The files of a recording, with each found on the recording point that the entry has for it; all but the last have the
  file size of the entry.\<close>

definition present :: "vbs_file \<Rightarrow> disk_files \<Rightarrow> nat \<Rightarrow> u8 list \<Rightarrow> bool" where
  "present fi D j c \<longleftrightarrow> (case vf_fileid fi of None \<Rightarrow> False
     | Some ids \<Rightarrow> j < length ids \<and> (case ids ! j of None \<Rightarrow> False | Some d \<Rightarrow> d \<noteq> - 1 \<and> D (sint d) (shown_name fi) j = Some c))"

definition recorded_files :: "vbs_file \<Rightarrow> disk_files \<Rightarrow> u8 list list \<Rightarrow> bool" where
  "recorded_files fi D fs \<longleftrightarrow> fs \<noteq> [] \<and> (\<forall>f \<in> set (butlast fs). length f = unat (vf_filesize fi)) \<and>
     length (last fs) \<le> unat (vf_filesize fi) \<and> (\<forall>j < length fs. present fi D j (fs ! j))"

lemma recorded_length:
  assumes "recorded_files fi D fs" "j < length fs"
  shows "length (fs ! j) \<le> unat (vf_filesize fi)" and "Suc j < length fs \<Longrightarrow> length (fs ! j) = unat (vf_filesize fi)"
proof -
  show *: "Suc j < length fs \<Longrightarrow> length (fs ! j) = unat (vf_filesize fi)"
    using assms nth_mem[of j "butlast fs"] by (auto simp: recorded_files_def nth_butlast)
  show "length (fs ! j) \<le> unat (vf_filesize fi)"
  proof (cases "Suc j < length fs")
    case False
    then have "fs ! j = last fs" using assms(2) by (metis Suc_lessI diff_Suc_1 last_conv_nth length_0_conv not_less_zero)
    then show ?thesis using assms(1) by (simp add: recorded_files_def)
  qed (simp add: *)
qed

lemma drop_files:
  assumes "recorded_files fi D fs" "j < length fs"
  shows "drop (j * unat (vf_filesize fi)) (concat fs) = concat (drop j fs)"
  using assms(2)
proof (induction j)
  case (Suc j)
  let ?e = "unat (vf_filesize fi)"
  have "drop (Suc j * ?e) (concat fs) = drop ?e (concat (drop j fs))"
    using Suc by (simp add: drop_drop[symmetric] add.commute)
  also have "concat (drop j fs) = fs ! j @ concat (drop (Suc j) fs)"
    using Suc.prems by (simp add: Cons_nth_drop_Suc[symmetric])
  finally show ?case using recorded_length(2)[OF assms(1), of j] Suc.prems by simp
qed simp

text \<open>One piece of a file, without bytes left out.\<close>

lemma do_operation_plain:
  assumes "kp_child K = None" "\<not> kp_slow K" "\<forall>j. kp_moves K j \<noteq> Fails" "p + unat n \<le> length c" "pos + unat n \<le> length buf"
  shows "do_operation K fi 0 (Some c) \<lparr>ro_buf = int pos, ro_offset = int p, ro_size = n\<rparr> buf = Inr (splice buf pos (slice c p (unat n)), True)"
proof -
  have len: "length (slice c p (unat n)) = unat n" using assms(4) by simp
  obtain e where "vmsplice_plain (kp_moves K) 0 (unat n) (slice c p (unat n)) (int pos) buf = Inr (splice buf pos (slice c p (unat n)), True, e)"
    using plain_moves_all[OF assms(3), of "slice c p (unat n)" "unat n" pos buf 0] len assms(5) by auto
  then show ?thesis using assms(1,2) by (simp add: do_operation_def slice_def)
qed

lemma signed_small: "0 \<le> k \<Longrightarrow> k < 2 ^ n \<Longrightarrow> signed_take_bit n k = (k :: int)"
  by (rule signed_take_bit_int_eq_self) (auto intro: order_trans[of _ 0])

lemma sint_small:
  assumes "unat (w :: u64) < 2 ^ 63"
  shows "sint w = int (unat w)"
proof -
  have "int (unat w) < int (2 ^ 63)" using assms by (simp only: of_nat_less_iff)
  then show ?thesis using signed_small[of "int (unat w)" 63] by (simp add: sint_uint)
qed

lemma pieces_read:
  assumes K: "pipes_ok K" and rec: "recorded_files fi D fs" and eff: "unat (vf_filesize fi) < 2 ^ 62"
  assumes "p < unat (vf_filesize fi) \<or> p = 0" "p + unat len \<le> n * unat (vf_filesize fi)" "f + n \<le> length fs" "unat len < 2 ^ 62"
    "p + unat len \<le> length (concat (drop f fs))" "pos + unat len \<le> length buf"
  shows "\<exists>ps. read_pieces fi 0 (vf_filesize fi) n f (int p) len (int pos) = Inr ps \<and>
     run_pieces K D fi 0 i ps buf = Inr (splice buf pos (slice (concat (drop f fs)) p (unat len)), True)"
  using assms(4-)
proof (induction n arbitrary: f p len pos buf i)
  case 0
  then show ?case by (simp add: slice_def)
next
  case (Suc n)
  let ?E = "unat (vf_filesize fi)" and ?L = "unat len" and ?c = "fs ! f"
  have f: "f < length fs" using Suc.prems(3) by simp
  obtain ids d where ids: "vf_fileid fi = Some ids" "f < length ids" "ids ! f = Some d" "d \<noteq> - 1" "D (sint d) (shown_name fi) f = Some ?c"
    using rec f by (fastforce simp: recorded_files_def present_def split: option.splits)
  have cat: "concat (drop f fs) = ?c @ concat (drop (Suc f) fs)" using f by (simp add: Cons_nth_drop_Suc[symmetric])
  have pE: "p < 2 ^ 62" using Suc.prems(1) eff by auto
  have w: "unat (word_of_int (int p) + len :: u64) = p + ?L" "unat (word_of_int (int p) :: u64) = p"
    using pE Suc.prems(4) by (simp_all add: unat_add_lem[THEN iffD1] unat_of_nat)
  have over: "word_of_int (int p) + len > vf_filesize fi \<longleftrightarrow> p + ?L > ?E" unfolding word_less_nat_alt w(1) ..
  define a where "a = (if p + ?L > ?E then ?E - p else ?L)"
  define aw where "aw = (if word_of_int (int p) + len > vf_filesize fi then vf_filesize fi - word_of_int (int p) else len)"
  have aw: "unat aw = a"
    using Suc.prems(1) w(2) over by (auto simp: unat_sub_if' aw_def a_def)
  have a: "a \<le> ?L" "a < 2 ^ 62" "?L - a \<le> n * ?E" using Suc.prems(1,2,4) eff by (auto simp: a_def)
  have sa: "sint aw = int a" using aw a(2) by (simp add: sint_small)
  have rest: "unat (len - aw) = ?L - a" using aw a(1) by (simp add: unat_sub word_le_nat_alt)
  let ?R = "concat (drop (Suc f) fs)"
  have whole: "length ?c = ?E" if "Suc f < length fs" using recorded_length(2)[OF rec f that] .
  have last: "?R = [] \<and> p + ?L \<le> length ?c" if "\<not> Suc f < length fs"
    using that Suc.prems(5) cat by simp
  have c2: "length ?c = ?E" if "p + ?L > ?E"
    using whole last recorded_length(1)[OF rec f] that by (cases "Suc f < length fs") auto
  have c: "p + a \<le> length ?c"
    using whole last c2 Suc.prems(1) unfolding a_def by (cases "Suc f < length fs") auto
  have R: "?L - a \<le> length ?R"
    using c2 cat Suc.prems(1,5) by (auto simp: a_def)
  define buf1 where "buf1 = splice buf pos (slice ?c p a)"
  have lc: "length (slice ?c p a) = a" using c by simp
  have lb: "length buf1 = length buf" using Suc.prems(6) a(1) lc by (simp add: buf1_def)
  have w_aw: "word_of_int (int a) = aw" unfolding aw[symmetric] by simp
  have Ki: "kp_child (K i) = None" "\<not> kp_slow (K i)" "\<forall>j. kp_moves (K i) j \<noteq> Fails" using K by (auto simp: pipes_ok_def)
  have job: "do_operation (K i) fi 0 (Some ?c) \<lparr>ro_buf = int pos, ro_offset = int p, ro_size = aw\<rparr> buf = Inr (buf1, True)"
    unfolding buf1_def aw[symmetric] using c Suc.prems(6) a(1) aw by (intro do_operation_plain Ki) auto
  obtain ps where ps: "read_pieces fi 0 (vf_filesize fi) n (Suc f) (int 0) (len - aw) (int (pos + a)) = Inr ps \<and>
     run_pieces K D fi 0 (Suc i) ps buf1 = Inr (splice buf1 (pos + a) (slice ?R 0 (unat (len - aw))), True)"
    using Suc.IH[of 0 "len - aw" "Suc f" "pos + a" buf1 "Suc i"] Suc.prems(3,6) R a(1,3) lb le_less_trans[OF diff_le_self Suc.prems(4)]
    unfolding rest by auto
  have bytes: "slice (concat (drop f fs)) p ?L = slice ?c p a @ slice ?R 0 (?L - a)"
    using c c2 Suc.prems(1) unfolding cat by (auto simp: slice_def a_def)
  have "splice buf1 (pos + a) (slice ?R 0 (?L - a)) = splice buf pos (slice (concat (drop f fs)) p ?L)"
    using splice_splice[of pos "slice ?c p a" "slice ?R 0 (?L - a)" buf] lc R a(1) Suc.prems(6) unfolding bytes buf1_def by simp
  then show ?case
    using ps job ids w_aw rest
    by (simp add: aw_def[symmetric] sa del: of_int_of_nat_eq)
qed

lemma to_int32_small:
  assumes "unat (w :: u64) < 2 ^ 31"
  shows "to_int32 (uint w) = int (unat w)"
proof -
  have "int (unat w) < int (2 ^ 31)" using assms by (simp only: of_nat_less_iff)
  moreover have "to_int32 (uint w) = signed_take_bit 31 (uint w)"
    unfolding to_int32_def by (subst sint_sbintrunc') simp
  ultimately show ?thesis using signed_small[of "int (unat w)" 31] by simp
qed

lemma size_of_rec:
  assumes "unat (n :: u64) * nat ps = m" "m < 2 ^ 62" "0 \<le> ps"
  shows "sint (n * word_of_int ps) = int m"
proof -
  have "n * word_of_int ps = of_nat (unat n * nat ps)" using assms(3) by simp
  then show ?thesis using sint_small[of "of_nat m"] assms(1,2) by (simp add: unat_of_nat)
qed

lemma n_files_open_small:
  assumes "p < unat eff" "unat eff < 2 ^ 62" "unat len < unat eff"
  shows "n_files_open eff (int p) len = (if p + unat len > unat eff then 2 else 1)"
proof -
  have d: "len div eff = 0" using assms(3) by (simp add: word_arith_nat_div)
  have "unat (eff - word_of_int (int p)) = unat eff - p"
    using assms(1,2) by (simp add: unat_sub word_le_nat_alt unat_of_nat)
  then have "eff - word_of_int (int p) < len \<longleftrightarrow> unat eff - p < unat len" unfolding word_less_nat_alt by simp
  then show ?thesis using assms(1) d by (auto simp: n_files_open_def)
qed

lemma two_files: "p < e \<Longrightarrow> l < e \<Longrightarrow> p + l \<le> (if e < p + l then 2 else 1) * (e :: nat)"
  by simp

lemma recorded_total:
  assumes "recorded_files fi D fs" "f < length fs" "g = length (concat (drop f fs))"
  shows "Suc f = length fs \<Longrightarrow> g \<le> unat (vf_filesize fi)"
proof -
  assume "Suc f = length fs"
  then have "drop f fs = [fs ! f]" using assms(2) by (simp add: Cons_nth_drop_Suc[symmetric])
  then show "g \<le> unat (vf_filesize fi)" using recorded_length(1)[OF assms(1,2)] assms(3) by simp
qed

lemma recorded_file_number:
  assumes "recorded_files fi D fs" "offset < length (concat fs)"
  shows "offset div unat (vf_filesize fi) < length fs"
proof -
  have "length (concat fs) \<le> length fs * unat (vf_filesize fi)"
    using recorded_length(1)[OF assms(1)] sum_list_mono[of fs length "\<lambda>_. unat (vf_filesize fi)"]
    by (fastforce simp: length_concat sum_list_triv in_set_conv_nth)
  then have "offset < length fs * unat (vf_filesize fi)" using assms(2) by simp
  then show ?thesis by (simp add: less_mult_imp_div_less)
qed

text \<open>C35: A read that is shorter than a file, of a recording whose files are all there and whose packets are shown whole, puts the part
  of the recording that was asked for into the buffer and nothing else, across the end of a file, however much the pipes move at
  a time. The number of bytes is returned, unless the read reaches the end of the recording: then the result is -1.\<close>

theorem view_read_returns_data:
  assumes found: "vbs_hashfunction (tl fpath) s True = Inr (int i)" "i < length (vb_fis s)" "vb_fis s ! i = fi"
    and fi: "\<not> has (vf_status fi) STATUS_NOTVBS" "vb_offset s = 0" "0 \<le> vf_packet_size fi"
      "unat (vf_n_packets fi) * nat (vf_packet_size fi) = length (concat fs)"
    and rec: "recorded_files fi D fs" and K: "pipes_ok K"
    and sizes: "length (concat fs) < 2 ^ 62" "unat (vf_filesize fi) < 2 ^ 62" "unat len < 2 ^ 31" "len < vf_filesize fi" "unat len \<le> length buf"
      "offset < length (concat fs)"
  shows "vbs_read K D fpath len (int offset) buf s =
     Inr (if offset + unat len \<ge> length (concat fs) then - 1 else int (unat len), splice buf 0 (slice (concat fs) offset (unat len)))"
proof -
  let ?E = "unat (vf_filesize fi)" and ?T = "length (concat fs)"
  let ?f = "offset div ?E" and ?p = "offset mod ?E"
  have T: "sint (vf_n_packets fi * word_of_int (vf_packet_size fi)) = int ?T"
    by (rule size_of_rec[OF fi(4) sizes(1) fi(3)])
  have E: "0 < ?E" "?E < 2 ^ 62" "vf_filesize fi \<noteq> 0" using sizes(2,4) by (auto simp: word_less_nat_alt)
  define over where "over \<longleftrightarrow> int ?T \<le> int offset + int (unat len)"
  have over: "over \<longleftrightarrow> ?T \<le> offset + unat len" unfolding over_def by linarith
  define len1 where "len1 = (if over then word_of_int (int ?T - int offset) else len)"
  have len1: "unat len1 = min (unat len) (?T - offset)"
  proof (cases over)
    case True
    then have "len1 = of_nat (?T - offset)" using sizes(6) by (simp add: len1_def of_nat_diff)
    then show ?thesis using sizes(1) True over by (simp add: unat_of_nat)
  qed (use over in \<open>simp add: len1_def\<close>)
  have sl: "sint len = int (unat len)" using sizes(3) by (simp add: sint_small)
  have n: "n_files_open (vf_filesize fi) (int ?p) len1 = (if ?p + unat len1 > ?E then 2 else 1)" (is "_ = ?n")
    using E sizes(4) len1 by (intro n_files_open_small) (auto simp: word_less_nat_alt)
  have f: "?f < length fs" by (rule recorded_file_number[OF rec sizes(6)])
  have R: "drop ?p (concat (drop ?f fs)) = drop offset (concat fs)"
    unfolding drop_files[OF rec f, symmetric] drop_drop by simp
  have cut: "length (concat (drop ?f fs)) = ?T - ?f * ?E" using drop_files[OF rec f, symmetric] by simp
  have L: "?p + unat len1 \<le> length (concat (drop ?f fs))"
    using len1 sizes(6) div_mult_mod_eq[of offset ?E] unfolding cut by linarith
  have fn: "?f + ?n \<le> length fs"
    using recorded_total[OF rec f refl] L f by (cases "Suc ?f = length fs") auto
  have unatoff: "unat (word_of_int (int offset) :: u64) = offset" using sizes(1,6) by (simp add: unat_of_nat)
  have fp: "unat (word_of_int (int offset) div vf_filesize fi) = ?f" "sint (word_of_int (int offset) mod vf_filesize fi :: u64) = int ?p"
    using sint_small[of "word_of_int (int offset) mod vf_filesize fi"] unatoff E mod_less_divisor[OF E(1), of offset]
    by (simp_all add: unat_div unat_mod)
  have p: "?p < ?E \<or> ?p = 0" using E(1) by simp
  have l: "unat len1 < ?E" "unat len1 < 2 ^ 62" "0 + unat len1 \<le> length buf"
    using len1 sizes(4,5) E(2) unfolding word_less_nat_alt by linarith+
  have c: "?p + unat len1 \<le> ?n * ?E" by (rule two_files[OF mod_less_divisor[OF E(1)] l(1)])
  obtain ps where ps: "read_pieces fi 0 (vf_filesize fi) ?n ?f (int ?p) len1 (int 0) = Inr ps"
      "run_pieces K D fi 0 0 ps buf = Inr (splice buf 0 (slice (concat (drop ?f fs)) ?p (unat len1)), True)"
    using pieces_read[OF K rec E(2) p c fn l(2) L l(3)] by blast
  have bytes: "slice (concat (drop ?f fs)) ?p (unat len1) = slice (concat fs) offset (unat len)"
    using R len1 by (simp add: slice_def take_all_iff min_def)
  have "read_fi K D 0 len (int offset) buf fi =
      bindE (read_pieces fi 0 (vf_filesize fi) (n_files_open (vf_filesize fi) (int ?p) len1) ?f (int ?p) len1 0) (\<lambda>ps.
      bindE (run_pieces K D fi 0 0 ps buf) (\<lambda>(buf1, ok). Inr (if ok then if over then EOF else to_int32 (uint len) else - 1, buf1)))"
    unfolding read_fi_def Let_def effective_filesize_def
    by (simp only: diff_zero T sl over_def[symmetric] len1_def[symmetric] less_irrefl if_False fp simp_thms
        sizes(6)[unfolded not_le[symmetric]] E(3) fi(1) of_nat_le_iff)
  also have "to_int32 (uint len) = int (unat len)"
    using sizes(3) by (simp add: to_int32_small)
  also have "bindE (read_pieces fi 0 (vf_filesize fi) (n_files_open (vf_filesize fi) (int ?p) len1) ?f (int ?p) len1 0) (\<lambda>ps.
      bindE (run_pieces K D fi 0 0 ps buf) (\<lambda>(buf1, ok). Inr (if ok then if over then EOF else int (unat len) else - 1, buf1))) =
      Inr (if over then - 1 else int (unat len), splice buf 0 (slice (concat fs) offset (unat len)))"
    using ps by (simp add: n bytes EOF_def)
  finally show ?thesis using found fi(2) over by (simp add: vbs_read_def)
qed

text \<open>The recording of the example, on its recording points.\<close>

definition view_disks :: disk_files where
  "view_disks d n j = (if n \<noteq> ''a'' then None else if d = 0 \<and> j = 0 then Some [1, 2, 3, 4] else if d = 1 \<and> j = 1 then Some [5, 6] else None)"

definition slow_pipes :: "nat \<Rightarrow> pipe_env" where
  "slow_pipes i = \<lparr>kp_moves = \<lambda>_. Moves 1, kp_child = None, kp_slow = False\<rparr>"

lemma view_files: "recorded_files view_fi view_disks [[1, 2, 3, 4], [5, 6]]"
  by code_simp

lemma view_found: "vbs_hashfunction (tl ''/a'') view_state True = Inr (int 1)"
  by code_simp

theorem view_read_returns_data_witness:
  "vbs_read slow_pipes view_disks ''/a'' 3 (int 2) [0, 0, 0, 0] view_state = Inr (3, [3, 4, 5, 0])"
  using view_read_returns_data[OF view_found _ _ _ _ _ _ view_files, of slow_pipes 3 "[0, 0, 0, 0]" 2]
  by (simp add: view_example pipes_ok_def slow_pipes_def has_def splice_def slice_def word_less_nat_alt)

subsection \<open>Leaving out the bytes in front of each packet\<close>

text \<open>Each call moves all it is offered.\<close>

definition moves_whole :: "pipe_env \<Rightarrow> nat \<Rightarrow> bool" where
  "moves_whole K m \<longleftrightarrow> kp_child K = None \<and> \<not> kp_slow K \<and> (\<forall>i. \<exists>j \<ge> m. kp_moves K i = Moves j)"

definition fast_pipe :: "nat \<Rightarrow> pipe_env" where
  "fast_pipe m = \<lparr>kp_moves = \<lambda>_. Moves m, kp_child = None, kp_slow = False\<rparr>"

definition true_length :: "nat \<Rightarrow> nat \<Rightarrow> nat \<Rightarrow> nat" where
  "true_length off ps w = w div (ps - off) * ps + (if w mod (ps - off) > 0 then off + w mod (ps - off) else 0)"

lemma convert_true_length:
  assumes "vf_packet_size fi = int ps" "off < ps"
  shows "convert_from_woffset_to_truelength (int w) fi (int off) = int (true_length off ps w)"
proof -
  obtain pl where pl: "ps = off + pl" "0 < pl" using assms(2) less_imp_add_positive by blast
  then have "vf_packet_size fi - int off = int pl" "ps - off = pl" using assms(1) by auto
  moreover have "c_mod (int w) (int pl) = int (w mod pl)" "c_div (int w) (int pl) = int (w div pl)"
    using pl by (simp_all add: c_mod_nonneg c_div_nonneg zdiv_int zmod_int)
  ultimately show ?thesis
    by (simp only: convert_from_woffset_to_truelength_def true_length_def assms(1) Let_def) simp
qed

lemma true_length_step: "off < ps \<Longrightarrow> ps - off \<le> w \<Longrightarrow> true_length off ps w = ps + true_length off ps (w - (ps - off))"
  by (simp add: true_length_def le_div_geq le_mod_geq)

lemma true_length_small: "off < ps \<Longrightarrow> w < ps - off \<Longrightarrow> true_length off ps w = (if w = 0 then 0 else off + w)"
  by (simp add: true_length_def)

definition payloads :: "nat \<Rightarrow> u8 list list \<Rightarrow> u8 list" where
  "payloads off P = concat (map (drop off) P)"

lemma payload_step:
  assumes "length p = ps" "off < ps" "ps - off \<le> w"
  shows "take w (payloads off (p # P)) = drop off p @ take (w - (ps - off)) (payloads off P)"
  using assms by (simp add: payloads_def)

lemma strip_step:
  assumes "off < cnt" "strip_vectors off cnt (start mod unat (word_of_int ps :: u64)) ps = (v0, v1)" "0 < v0 + v1" "pipe \<noteq> []"
    "k i = Moves j" "moved j (min (v0 + v1) (length pipe)) = n" "put_at buf pos (drop v0 (take n pipe)) = Inr buf1"
  shows "vmsplice_strip k i off ps start cnt pipe pos buf =
     vmsplice_strip k (Suc i) off ps (start + n) (cnt - n) (drop n pipe) (pos + int n - int v0) buf1"
  using assms by (subst vmsplice_strip.simps) (auto simp: Let_def)

lemma strip_end: "vmsplice_strip k i off ps start 0 pipe pos buf = Inr (buf, True, pipe = [])"
  by (subst vmsplice_strip.simps) simp

text \<open>One packet, and the part of the last.\<close>

lemma strip_packet:
  assumes K: "\<exists>j \<ge> ps. k i = Moves j" and off: "0 < off" "off < ps" "ps < 2 ^ 31" and p: "length p = ps"
    and pos: "pos + (ps - off) \<le> length buf" and start: "start mod ps = 0"
  shows "vmsplice_strip k i off (int ps) start (ps + r) (p @ rest) (int pos) buf =
     vmsplice_strip k (Suc i) off (int ps) (start + ps) r rest (int (pos + (ps - off))) (splice buf pos (drop off p))"
proof -
  let ?pl = "ps - off"
  obtain j where j: "k i = Moves j" "ps \<le> j" using K by blast
  have d: "int ps - int off = int ?pl" "int pos + int ps - int off = int (pos + ?pl)" using off by simp_all
  have w: "unat (word_of_int (int ps) :: u64) = ps" "unat (word_of_int (int ps - int off) :: u32) = ?pl"
    unfolding d of_int_of_nat_eq unat_of_nat using off by simp_all
  have v: "strip_vectors off (ps + r) (start mod unat (word_of_int (int ps) :: u64)) (int ps) = (off, ?pl)"
    using off w start by (simp add: strip_vectors_def)
  have n: "moved j (min (off + ?pl) (length (p @ rest))) = ps" using j off p by (simp add: moved_def)
  have put: "put_at buf (int pos) (drop off (take ps (p @ rest))) = Inr (splice buf pos (drop off p))"
    using pos p off by (simp add: put_at_def memcpy_at_def)
  have "vmsplice_strip k i off (int ps) start (ps + r) (p @ rest) (int pos) buf =
     vmsplice_strip k (Suc i) off (int ps) (start + ps) (ps + r - ps) (drop ps (p @ rest)) (int pos + int ps - int off) (splice buf pos (drop off p))"
    by (rule strip_step[where k = k and i = i, OF _ v _ _ j(1) n put]) (use off p in auto)
  then show ?thesis unfolding d(2) using p by simp
qed

lemma strip_last:
  assumes K: "\<exists>j \<ge> ps. k i = Moves j" and off: "0 < off" "off < ps" "ps < 2 ^ 31" and p: "length p = ps"
    and w: "0 < w" "w < ps - off" and pos: "pos + w \<le> length buf" and start: "start mod ps = 0"
  shows "vmsplice_strip k i off (int ps) start (off + w) (take (off + w) p) (int pos) buf = Inr (splice buf pos (take w (drop off p)), True, True)"
proof -
  let ?p = "take (off + w) p"
  obtain j where j: "k i = Moves j" "ps \<le> j" using K by blast
  have d: "int ps - int off = int (ps - off)" using off by simp
  have u: "unat (word_of_int (int ps) :: u64) = ps" "unat (word_of_int (int ps - int off) :: u32) = ps - off"
    unfolding d of_int_of_nat_eq unat_of_nat using off by simp_all
  have v: "strip_vectors off (off + w) (start mod unat (word_of_int (int ps) :: u64)) (int ps) = (off, w)"
    using off u start w by (simp add: strip_vectors_def)
  have n: "moved j (min (off + w) (length ?p)) = off + w" using j off p w by (simp add: moved_def)
  have put: "put_at buf (int pos) (drop off (take (off + w) ?p)) = Inr (splice buf pos (take w (drop off p)))"
    using pos p w by (simp add: put_at_def memcpy_at_def drop_take)
  have ne: "off < off + w" "0 < off + w" "?p \<noteq> []" using w p off by auto
  show ?thesis
    using strip_step[where k = k and i = i, OF ne(1) v ne(2,3) j(1) n put] strip_end by simp
qed

lemma strip_moves_payload:
  assumes K: "\<forall>i. \<exists>j \<ge> ps. k i = Moves j" and off: "0 < off" "off < ps" "ps < 2 ^ 31"
  assumes "\<forall>p \<in> set P. length p = ps" "w \<le> length P * (ps - off)" "pos + w \<le> length buf" "start mod ps = 0"
  shows "vmsplice_strip k i off (int ps) start (true_length off ps w) (take (true_length off ps w) (concat P)) (int pos) buf =
     Inr (splice buf pos (take w (payloads off P)), True, True)"
  using assms(5-)
proof (induction P arbitrary: i start w pos buf)
  case Nil
  then show ?case by (simp add: strip_end true_length_def payloads_def)
next
  case (Cons p P)
  let ?pl = "ps - off"
  have p: "length p = ps" and P: "\<forall>p \<in> set P. length p = ps" using Cons.prems(1) by simp_all
  consider "w = 0" | "?pl \<le> w" | "0 < w" "w < ?pl" by linarith
  then show ?case
  proof cases
    case 1
    then show ?thesis by (simp add: strip_end true_length_def)
  next
    case 2
    have len: "pos + ?pl \<le> length buf" "pos + ?pl + (w - ?pl) \<le> length buf" using Cons.prems(3) 2 by auto
    have ih: "vmsplice_strip k (Suc i) off (int ps) (start + ps) (true_length off ps (w - ?pl))
          (take (true_length off ps (w - ?pl)) (concat P)) (int (pos + ?pl)) (splice buf pos (drop off p)) =
        Inr (splice (splice buf pos (drop off p)) (pos + ?pl) (take (w - ?pl) (payloads off P)), True, True)"
      using Cons.prems(2,4) len p by (intro Cons.IH P) auto
    have "splice (splice buf pos (drop off p)) (pos + ?pl) (take (w - ?pl) (payloads off P)) = splice buf pos (take w (payloads off (p # P)))"
      using splice_splice[of pos "drop off p" "take (w - ?pl) (payloads off P)" buf] len p
      unfolding payload_step[OF p off(2) 2] by simp
    then show ?thesis
      using strip_packet[OF K[rule_format] off p len(1) Cons.prems(4)] ih p unfolding true_length_step[OF off(2) 2] by simp
  next
    case 3
    then show ?thesis
      using strip_last[OF K[rule_format] off p 3 Cons.prems(3,4)] p true_length_small[OF off(2) 3(2)] by (simp add: payloads_def)
  qed
qed

lemma true_length_le:
  assumes "off < ps" "w \<le> n * (ps - off)"
  shows "true_length off ps w \<le> n * ps"
proof -
  let ?pl = "ps - off" and ?q = "w div (ps - off)" and ?r = "w mod (ps - off)"
  have "?r < ?pl" "w = ?q * ?pl + ?r" using assms(1) by (simp, metis div_mult_mod_eq)
  have q: "?q \<le> n" using assms by (metis div_le_mono div_mult_self_is_m zero_less_diff)
  show ?thesis
  proof (cases "?r = 0")
    case True
    then show ?thesis using q by (simp add: true_length_def)
  next
    case False
    then have "?q \<noteq> n" using assms(2) \<open>w = ?q * ?pl + ?r\<close> by auto
    then have "Suc ?q * ps \<le> n * ps" using q by (intro mult_le_mono1) simp
    then have "ps + ?q * ps \<le> n * ps" by simp
    moreover have "true_length off ps w = ?q * ps + (off + ?r)" using False by (simp add: true_length_def)
    ultimately show ?thesis using \<open>?r < ?pl\<close> by linarith
  qed
qed

lemma concat_drop_packets:
  assumes "\<forall>p \<in> set P. length p = ps" "j \<le> length P"
  shows "drop (j * ps) (concat P) = concat (drop j P)"
  using assms
proof (induction j arbitrary: P)
  case (Suc j)
  then obtain p P' where "P = p # P'" by (cases P) auto
  then show ?case using Suc by (simp add: add.commute)
qed simp

text \<open>C36: Of a file of whole packets, a piece that begins at the front of a packet is shown without the first \<open>offset\<close> bytes of each
  packet, when each call moves all that it is offered: the lengths that \<open>vbs_read\<close> converts and the vectors of the
  thread agree.\<close>

theorem view_strips_packets:
  assumes fi: "vf_packet_size fi = int ps" "0 < off" "off < ps" "ps < 2 ^ 31"
    and P: "\<forall>p \<in> set P. length p = ps" "length P * ps < 2 ^ 62"
    and w: "j + n = length P" "w \<le> n * (ps - off)" "pos + w \<le> length buf" and K: "moves_whole K ps"
  shows "do_operation K fi (int off) (Some (concat P)) \<lparr>ro_buf = int pos,
       ro_offset = convert_from_woffset_to_truelength (int (j * (ps - off))) fi (int off),
       ro_size = word_of_int (convert_from_woffset_to_truelength (int w) fi (int off))\<rparr> buf =
     Inr (splice buf pos (take w (payloads off (drop j P))), True)"
proof -
  have c: "convert_from_woffset_to_truelength (int v) fi (int off) = int (true_length off ps v)" for v
    by (rule convert_true_length[OF fi(1,3)])
  have j: "true_length off ps (j * (ps - off)) = j * ps" using fi(3) by (simp add: true_length_def)
  have "n * ps \<le> length P * ps" using w(1) by (intro mult_le_mono1) simp
  then have "true_length off ps w < 2 ^ 62" using true_length_le[OF fi(3) w(2)] P(2) by linarith
  then have len: "unat (word_of_int (int (true_length off ps w)) :: u64) = true_length off ps w"
    by (simp add: unat_of_nat)
  have strip: "vmsplice_strip (kp_moves K) 0 off (int ps) (j * ps) (true_length off ps w)
      (take (true_length off ps w) (concat (drop j P))) (int pos) buf = Inr (splice buf pos (take w (payloads off (drop j P))), True, True)"
  proof (rule strip_moves_payload[OF _ fi(2-4) _ _ w(3)])
    have "length (drop j P) = n" using w(1) by simp
    then show "w \<le> length (drop j P) * (ps - off)" using w(2) by simp
  qed (use P(1) K in \<open>auto simp: moves_whole_def dest: in_set_dropD\<close>)
  have d: "drop (j * ps) (concat P) = concat (drop j P)" using concat_drop_packets[OF P(1)] w(1) by simp
  show ?thesis
    using strip fi K unfolding do_operation_def c j Let_def
    by (simp add: len d moves_whole_def del: of_int_of_nat_eq of_nat_mult)
qed

text \<open>A piece that begins inside a packet and ends before its end is read too far: its length was converted as if it began at
  the front of the packet. With a buffer of the length that was asked for, the rest is written behind it.\<close>

theorem read_inside_packet_overflows:
  assumes fi: "vf_packet_size fi = int ps" "0 < off" "off < ps" "ps < 2 ^ 31"
    and q: "0 < q" "0 < w" "q + w < ps - off" "(j + 1) * ps \<le> length c" "length c < 2 ^ 62"
    and buf: "length buf = pos + w" and K: "moves_whole K ps"
  shows "do_operation K fi (int off) (Some c) \<lparr>ro_buf = int pos,
       ro_offset = convert_from_woffset_to_truelength (int (j * (ps - off) + q)) fi (int off),
       ro_size = word_of_int (convert_from_woffset_to_truelength (int w) fi (int off))\<rparr> buf = Inl Out_Of_Bounds"
proof -
  have c: "convert_from_woffset_to_truelength (int v) fi (int off) = int (true_length off ps v)" for v
    by (rule convert_true_length[OF fi(1,3)])
  have jq: "true_length off ps (j * (ps - off) + q) = j * ps + off + q"
    using q(1,3) by (simp add: true_length_def)
  have wl: "true_length off ps w = off + w" using true_length_small[OF fi(3)] q by simp
  have len: "unat (word_of_int (int (off + w)) :: u64) = off + w" unfolding of_int_of_nat_eq unat_of_nat using q fi by simp
  let ?v = "min (off + w) (ps - (off + q))"
  have d: "int ps - int (off + q) = int (ps - (off + q))" using q by simp
  have u: "unat (word_of_int (int ps) :: u64) = ps" "unat (word_of_int (int ps - int (off + q)) :: u32) = ps - (off + q)"
    unfolding d of_int_of_nat_eq unat_of_nat using fi by simp_all
  have m: "(j * ps + off + q) mod ps = off + q" using q by (simp add: add.assoc)
  have v: "strip_vectors off (off + w) ((j * ps + off + q) mod unat (word_of_int (int ps) :: u64)) (int ps) = (0, ?v)"
    unfolding u(1) m strip_vectors_def using u(2) by simp
  let ?pipe = "take (off + w) (drop (j * ps + off + q) c)"
  have pipe: "ps - (off + q) \<le> length (drop (j * ps + off + q) c)" using q(4) by simp
  obtain b where b: "kp_moves K 0 = Moves b" "ps \<le> b" using K by (auto simp: moves_whole_def)
  define n where "n = moved b (min (0 + ?v) (length ?pipe))"
  have n: "w < n" "n \<le> length ?pipe" using b(2) pipe q fi(2) by (auto simp: n_def moved_def min_def)
  have put: "put_at buf (int pos) (drop 0 (take n ?pipe)) = Inl Out_Of_Bounds"
    using n buf by (auto simp: put_at_def memcpy_at_def)
  have "vmsplice_strip (kp_moves K) 0 off (int ps) (j * ps + off + q) (off + w) ?pipe (int pos) buf = Inl Out_Of_Bounds"
    using v n b put q fi(2) by (subst vmsplice_strip.simps) (auto simp: Let_def n_def)
  then show ?thesis
    using fi K unfolding do_operation_def c jq wl Let_def
    by (simp add: len moves_whole_def del: of_int_of_nat_eq of_nat_mult of_nat_add)
qed

theorem view_strips_packets_witness:
  "do_operation (fast_pipe 3) (view_fi\<lparr>vf_packet_size := 3\<rparr>) 1 (Some [1, 2, 3, 4, 5, 6])
     \<lparr>ro_buf = 0, ro_offset = 0, ro_size = 5\<rparr> [0, 0, 0, 0] = Inr ([2, 3, 5, 0], True)"
proof -
  have c: "convert_from_woffset_to_truelength 3 (view_fi\<lparr>vf_packet_size := 3\<rparr>) 1 = 5"
    "convert_from_woffset_to_truelength 0 (view_fi\<lparr>vf_packet_size := 3\<rparr>) 1 = 0" by code_simp+
  have K: "moves_whole (fast_pipe 3) 3" by (auto simp: moves_whole_def fast_pipe_def)
  show ?thesis
    using view_strips_packets[of "view_fi\<lparr>vf_packet_size := 3\<rparr>" 3 1 "[[1, 2, 3], [4, 5, 6]]" 0 2 3 0 "[0, 0, 0, 0]" "fast_pipe 3"] K c
    by (simp add: splice_def payloads_def)
qed

end
