(* ===== verification/AioWriter.thy ===== *)
theory AioWriter
  imports BufferWriting
begin

text \<open>
  The asynchronous writer (\<open>src/aiowriter.c\<close>): a transfer is handed to the kernel and its result is fetched later by
  \<open>aiow_check\<close>.

  The kernel context holds the requests in flight. It may finish them in any order: which of them an event belongs to is an
  argument, as is the answer to a submission. A request moves its bytes when it finishes.
\<close>

definition MAX_EVENTS :: nat where "MAX_EVENTS = 128"
definition O_RDONLY :: u32 where "O_RDONLY = 0"
definition O_NONBLOCK :: u32 where "O_NONBLOCK = 2048"

record aio_request =
  rq_read :: bool
  rq_fd :: int
  rq_start :: bufptr
  rq_count :: nat
  rq_offset :: nat

record extra_parameters =
  ep_ctx :: "aio_request list"
  ep_used_events :: int
  ep_i :: nat

record aio_state =
  as_world :: world
  as_ep :: "addr \<Rightarrow> extra_parameters option"

datatype submission = Accepted | Refused

datatype aio_event = No_Event | Completes nat | Check_Fails int

definition put_ep :: "addr \<Rightarrow> extra_parameters \<Rightarrow> aio_state \<Rightarrow> aio_state" where
  "put_ep r ep s = s\<lparr>as_ep := (as_ep s)(r \<mapsto> ep)\<rparr>"

text \<open>\<open>aiow_init\<close> after \<open>common_w_init\<close>; \<open>queue\<close> is whether the kernel gives a context.\<close>

definition aiow_init :: "bool \<Rightarrow> addr \<Rightarrow> aio_state \<Rightarrow> aio_state \<times> int" where
  "aiow_init queue r s =
     (let s1 = put_ep r \<lparr>ep_ctx = [], ep_used_events = 0, ep_i = 0\<rparr> s in if queue then (s1, 0) else (s1, - 1))"

definition aiow_get_w_fflags :: u32 where
  "aiow_get_w_fflags = O_WRONLY OR O_DIRECT OR O_NOATIME OR O_NONBLOCK"

definition aiow_get_r_fflags :: u32 where
  "aiow_get_r_fflags = O_RDONLY OR O_DIRECT OR O_NOATIME OR O_NONBLOCK"

text \<open>The bytes are counted here only when the reading flags do not have \<open>O_NONBLOCK\<close>.\<close>

definition aiow_write :: "submission \<Rightarrow> addr \<Rightarrow> bufptr \<Rightarrow> u64 \<Rightarrow> aio_state \<Rightarrow> (aio_state \<times> int) outcome" where
  "aiow_write sub r start cnt s =
     bindE (get_rec r (as_world s)) (\<lambda>ioi.
     bindE (deref (as_ep s) (Some r)) (\<lambda>ep.
       if ep_used_events ep \<ge> int MAX_EVENTS then Inr (s, 0)
       else bindE (get_opt (ci_opt ioi) (as_world s)) (\<lambda>opt.
         let q = \<lparr>rq_read = has (opt_optbits opt) READMODE, rq_fd = ci_fd ioi, rq_start = start, rq_count = unat cnt,
                  rq_offset = ci_offset ioi\<rparr>;
             ep1 = ep\<lparr>ep_used_events := ep_used_events ep + 1, ep_i := (ep_i ep + 1) mod MAX_EVENTS\<rparr> in
         case sub of Refused \<Rightarrow> Inr (put_ep r ep1 s, - 1)
         | Accepted \<Rightarrow>
             bindE (put_rec r (\<lambda>c. c\<lparr>ci_offset := ci_offset c + unat cnt\<rparr>) (as_world s)) (\<lambda>w1.
             bindE (if has aiow_get_r_fflags O_NONBLOCK then Inr w1 else count_exchanged r cnt w1) (\<lambda>w2.
               Inr (put_ep r (ep1\<lparr>ep_ctx := ep_ctx ep @ [q]\<rparr>) (s\<lparr>as_world := w2\<rparr>), sint cnt))))))"

text \<open>The kernel carries out a request. Its result is the number of bytes, or the negative error number; \<open>errno\<close> of the
  thread stays as it is.\<close>

definition keep_errno :: "int \<Rightarrow> world \<Rightarrow> world" where
  "keep_errno e w = w\<lparr>wd_os := (wd_os w)\<lparr>os_errno := e\<rparr>\<rparr>"

definition sys_pread :: "int \<Rightarrow> nat \<Rightarrow> nat \<Rightarrow> os \<Rightarrow> os \<times> int \<times> u8 list" where
  "sys_pread fd n off s = (case os_fds s fd of
       None \<Rightarrow> (refuse EBADF s, - 1, [])
     | Some (p, _) \<Rightarrow> (let rest = take n (drop off (the_file s p)); (s1, k) = granted (length rest) s in
         if k < 0 then (s1, - 1, []) else (s1, k, take (nat k) rest)))"

definition carry_out :: "aio_request \<Rightarrow> world \<Rightarrow> (world \<times> int) outcome" where
  "carry_out q w =
     (let e = os_errno (wd_os w) in
      if rq_read q
      then (let (w1, k, bs) = call_os (sys_pread (rq_fd q) (rq_count q) (rq_offset q)) w in
        if k < 0 then Inr (keep_errno e w1, - os_errno (wd_os w1))
        else bindE (store_bytes (rq_start q) bs w1) (\<lambda>w2. Inr (w2, k)))
      else bindE (load_bytes (rq_start q) (rq_count q) w) (\<lambda>bs.
        let (w1, k) = call_os (sys_pwritev (rq_fd q) [bs] (rq_offset q)) w in
        if k < 0 then Inr (keep_errno e w1, - os_errno (wd_os w1)) else Inr (w1, k)))"

definition remove_nth :: "nat \<Rightarrow> 'a list \<Rightarrow> 'a list" where
  "remove_nth k xs = take k xs @ drop (Suc k) xs"

text \<open>At most one event is fetched.\<close>

definition aiow_check :: "aio_event \<Rightarrow> addr \<Rightarrow> aio_state \<Rightarrow> (aio_state \<times> int) outcome" where
  "aiow_check event r s =
     bindE (get_rec r (as_world s)) (\<lambda>ioi.
     bindE (deref (as_ep s) (Some r)) (\<lambda>ep.
     case event of
       No_Event \<Rightarrow> Inr (s, 0)
     | Check_Fails e \<Rightarrow> Inr (s, - \<bar>e\<bar>)
     | Completes j \<Rightarrow>
        if ep_ctx ep = [] then Inr (s, 0)
        else (let k = j mod length (ep_ctx ep) in
          bindE (carry_out (ep_ctx ep ! k) (as_world s)) (\<lambda>(w1, res).
          let s1 = put_ep r (ep\<lparr>ep_ctx := remove_nth k (ep_ctx ep), ep_used_events := ep_used_events ep - 1\<rparr>) (s\<lparr>as_world := w1\<rparr>) in
          if res > 0 then bindE (count_exchanged r (word_of_int res) w1) (\<lambda>w2. Inr (s1\<lparr>as_world := w2\<rparr>, res))
          else if os_errno (wd_os w1) = 0 \<and> res = 0 then Inr (s1, AIO_END_OF_FILE)
          else Inr (s1, - 1)))))"

text \<open>\<open>io_destroy\<close> waits for the requests in flight.\<close>

fun carry_out_all :: "aio_request list \<Rightarrow> world \<Rightarrow> world outcome" where
  "carry_out_all [] w = Inr w"
| "carry_out_all (q # qs) w = bindE (carry_out q w) (\<lambda>(w1, _). carry_out_all qs w1)"

definition aiow_close :: "addr \<Rightarrow> stats option \<Rightarrow> aio_state \<Rightarrow> (aio_state \<times> stats option \<times> int) outcome" where
  "aiow_close r st s =
     bindE (deref (as_ep s) (Some r)) (\<lambda>ep.
     bindE (carry_out_all (ep_ctx ep) (as_world s)) (\<lambda>w1.
     bindE (common_close r st w1) (\<lambda>(w2, st1, _).
       Inr (s\<lparr>as_world := w2, as_ep := (as_ep s)(r := None)\<rparr>, st1, 0))))"

section \<open>Writes commute\<close>

lemma length_write_at: "length (write_at f off d) = (if d = [] then length f else max (length f) (off + length d))"
  by (simp add: write_at_def max_def min_def)

lemma nth_write_at:
  assumes "i < length (write_at f off d)"
  shows "write_at f off d ! i = (if off \<le> i \<and> i < off + length d then d ! (i - off) else if i < length f then f ! i else 0)"
proof -
  have "min (length f) off + (off - length f) = off" by arith
  then show ?thesis using assms by (auto simp: write_at_def nth_append)
qed

lemma write_at_commute:
  assumes "a + length x \<le> b"
  shows "write_at (write_at f a x) b y = write_at (write_at f b y) a x"
proof (rule nth_equalityI)
  show len: "length (write_at (write_at f a x) b y) = length (write_at (write_at f b y) a x)"
    by (auto simp: length_write_at)
  fix i assume i: "i < length (write_at (write_at f a x) b y)"
  then show "write_at (write_at f a x) b y ! i = write_at (write_at f b y) a x ! i"
    using assms len by (auto simp: nth_write_at length_write_at split: if_splits)
qed

section \<open>Any order of completion\<close>

text \<open>What the thread of a buffer does with the writer: it submits a part of the buffer, or looks for an event.\<close>

datatype aio_op = Submit bufptr u64 | Check aio_event

fun aio_run :: "addr \<Rightarrow> aio_op list \<Rightarrow> aio_state \<Rightarrow> (aio_state \<times> (bufptr \<times> nat) list) outcome" where
  "aio_run r [] s = Inr (s, [])"
| "aio_run r (Submit p n # ops) s = bindE (aiow_write Accepted r p n s) (\<lambda>(s1, ret).
     bindE (aio_run r ops s1) (\<lambda>(s2, ps). Inr (s2, if ret \<noteq> 0 then (p, unat n) # ps else ps)))"
| "aio_run r (Check e # ops) s = bindE (aiow_check e r s) (\<lambda>(s1, _). aio_run r ops s1)"

definition bytes_at :: "world \<Rightarrow> bufptr \<Rightarrow> nat \<Rightarrow> u8 list" where
  "bytes_at w p n = (case load_bytes p n w of Inl _ \<Rightarrow> [] | Inr bs \<Rightarrow> bs)"

definition loadable :: "world \<Rightarrow> bufptr \<Rightarrow> nat \<Rightarrow> bool" where
  "loadable w p n \<longleftrightarrow> (case load_bytes p n w of Inl _ \<Rightarrow> False | Inr _ \<Rightarrow> True)"

definition submits_ok :: "world \<Rightarrow> aio_op list \<Rightarrow> bool" where
  "submits_ok w ops \<longleftrightarrow> (\<forall>op \<in> set ops. case op of Submit p n \<Rightarrow> 0 < unat n \<and> unat n < 2 ^ 63 \<and> loadable w p (unat n)
     | Check (Check_Fails _) \<Rightarrow> False | Check _ \<Rightarrow> True)"

text \<open>The file when everything that is in flight has been written in the order of submission.\<close>

definition settled :: "world \<Rightarrow> u8 list \<Rightarrow> aio_request list \<Rightarrow> u8 list" where
  "settled w f qs = foldl (\<lambda>g q. write_at g (rq_offset q) (bytes_at w (rq_start q) (rq_count q))) f qs"

definition in_order :: "aio_request list \<Rightarrow> bool" where
  "in_order qs \<longleftrightarrow> sorted_wrt (\<lambda>a b. rq_offset a + rq_count a \<le> rq_offset b) qs"

text \<open>The writer of the recording point \<open>r\<close> on the file \<open>p\<close> of the descriptor \<open>fd\<close>, for a system that transfers what it is asked to.\<close>

definition writing_to :: "addr \<Rightarrow> int \<Rightarrow> string \<Rightarrow> aio_state \<Rightarrow> bool" where
  "writing_to r fd p s \<longleftrightarrow> (\<exists>ioi opt a n. wd_rec (as_world s) r = Some ioi \<and> ci_fd ioi = fd \<and> ci_opt ioi = Some a \<and>
     wd_opt (as_world s) a = Some opt \<and> \<not> has (opt_optbits opt) READMODE \<and> os_fds (wd_os (as_world s)) fd = Some (p, n) \<and>
     os_script (wd_os (as_world s)) = [])"

definition aio_inv :: "addr \<Rightarrow> int \<Rightarrow> string \<Rightarrow> world \<Rightarrow> u8 list \<Rightarrow> nat \<Rightarrow> int \<Rightarrow> u8 list \<Rightarrow> aio_state \<Rightarrow> bool" where
  "aio_inv r fd p w0 f0 o0 b0 written s \<longleftrightarrow> writing_to r fd p s \<and> wd_mem (as_world s) = wd_mem w0 \<and>
     (\<exists>ep ioi. as_ep s r = Some ep \<and> wd_rec (as_world s) r = Some ioi \<and> ci_offset ioi = o0 + length written \<and>
       ci_bytes_exchanged ioi + int (sum_list (map rq_count (ep_ctx ep))) = b0 + int (length written) \<and>
       ep_used_events ep = int (length (ep_ctx ep)) \<and> in_order (ep_ctx ep) \<and>
       (\<forall>q \<in> set (ep_ctx ep). \<not> rq_read q \<and> rq_fd q = fd \<and> 0 < rq_count q \<and> rq_count q < 2 ^ 63 \<and> loadable w0 (rq_start q) (rq_count q) \<and>
          rq_offset q + rq_count q \<le> ci_offset ioi) \<and>
       settled w0 (the_file (wd_os (as_world s)) p) (ep_ctx ep) = write_at f0 o0 written)"

lemma load_same: "wd_mem w = wd_mem w0 \<Longrightarrow> load_bytes p n w = load_bytes p n w0"
  by (auto simp: load_bytes_def deref_def split: option.split)

lemma load_loadable: "loadable w p n \<Longrightarrow> load_bytes p n w = Inr (bytes_at w p n)"
  by (auto simp: loadable_def bytes_at_def split: sum.splits)

lemma length_bytes_at: "loadable w p n \<Longrightarrow> length (bytes_at w p n) = n"
  by (auto simp: loadable_def bytes_at_def load_bytes_def mem_read_def split: sum.splits option.splits if_splits)

lemma settled_append: "settled w f (qs @ [q]) = write_at (settled w f qs) (rq_offset q) (bytes_at w (rq_start q) (rq_count q))"
  by (simp add: settled_def)

text \<open>A request that is carried out before the earlier ones.\<close>

lemma settled_early:
  assumes "in_order qs" "k < length qs" "\<forall>q \<in> set qs. loadable w (rq_start q) (rq_count q)"
  shows "settled w f qs = settled w (write_at f (rq_offset (qs ! k)) (bytes_at w (rq_start (qs ! k)) (rq_count (qs ! k)))) (remove_nth k qs)"
  using assms
proof (induction qs arbitrary: f k)
  case (Cons q qs)
  show ?case
  proof (cases k)
    case 0
    then show ?thesis by (simp add: remove_nth_def settled_def)
  next
    case (Suc j)
    have j: "j < length qs" using Cons.prems(2) Suc by simp
    have "rq_offset q + rq_count q \<le> rq_offset (qs ! j)" using Cons.prems(1) j by (simp add: in_order_def)
    then have "rq_offset q + length (bytes_at w (rq_start q) (rq_count q)) \<le> rq_offset (qs ! j)"
      using Cons.prems(3) by (simp add: length_bytes_at)
    note swap = write_at_commute[OF this]
    have "in_order qs" "\<forall>q \<in> set qs. loadable w (rq_start q) (rq_count q)" using Cons.prems(1,3) by (simp_all add: in_order_def)
    note ih = Cons.IH[OF this(1) j this(2)]
    have "settled w f (q # qs) = settled w (write_at f (rq_offset q) (bytes_at w (rq_start q) (rq_count q))) qs"
      by (simp add: settled_def)
    also have "\<dots> = settled w (write_at (write_at f (rq_offset q) (bytes_at w (rq_start q) (rq_count q))) (rq_offset (qs ! j))
        (bytes_at w (rq_start (qs ! j)) (rq_count (qs ! j)))) (remove_nth j qs)" by (rule ih)
    also have "\<dots> = settled w (write_at f (rq_offset (qs ! j)) (bytes_at w (rq_start (qs ! j)) (rq_count (qs ! j)))) (q # remove_nth j qs)"
      unfolding swap by (simp add: settled_def)
    finally show ?thesis by (simp add: Suc remove_nth_def)
  qed
qed simp

lemma nonblocking: "has aiow_get_r_fflags O_NONBLOCK"
  by code_simp

lemma inv_fields:
  assumes "aio_inv r fd p w0 f0 o0 b0 written s"
  obtains ioi opt a n ep where "wd_rec (as_world s) r = Some ioi" "ci_fd ioi = fd" "ci_opt ioi = Some a"
    "wd_opt (as_world s) a = Some opt" "\<not> has (opt_optbits opt) READMODE" "os_fds (wd_os (as_world s)) fd = Some (p, n)"
    "os_script (wd_os (as_world s)) = []" "wd_mem (as_world s) = wd_mem w0" "as_ep s r = Some ep"
    "ci_offset ioi = o0 + length written" "ci_bytes_exchanged ioi + int (sum_list (map rq_count (ep_ctx ep))) = b0 + int (length written)"
    "ep_used_events ep = int (length (ep_ctx ep))" "in_order (ep_ctx ep)"
    "\<forall>q \<in> set (ep_ctx ep). \<not> rq_read q \<and> rq_fd q = fd \<and> 0 < rq_count q \<and> rq_count q < 2 ^ 63 \<and> loadable w0 (rq_start q) (rq_count q) \<and>
          rq_offset q + rq_count q \<le> ci_offset ioi"
    "settled w0 (the_file (wd_os (as_world s)) p) (ep_ctx ep) = write_at f0 o0 written"
  using assms unfolding aio_inv_def writing_to_def by auto

lemma aio_submit:
  assumes inv: "aio_inv r fd p w0 f0 o0 b0 written s" and n: "0 < unat n" "unat n < 2 ^ 63" "loadable w0 q (unat n)"
  shows "\<exists>s1 ret. aiow_write Accepted r q n s = Inr (s1, ret) \<and>
     (if ret \<noteq> 0 then aio_inv r fd p w0 f0 o0 b0 (written @ bytes_at w0 q (unat n)) s1 else s1 = s)"
proof -
  from inv obtain ioi opt a m ep where st: "wd_rec (as_world s) r = Some ioi" "ci_fd ioi = fd" "ci_opt ioi = Some a"
    "wd_opt (as_world s) a = Some opt" "\<not> has (opt_optbits opt) READMODE" "os_fds (wd_os (as_world s)) fd = Some (p, m)"
    "os_script (wd_os (as_world s)) = []" "wd_mem (as_world s) = wd_mem w0" "as_ep s r = Some ep"
    "ci_offset ioi = o0 + length written" "ci_bytes_exchanged ioi + int (sum_list (map rq_count (ep_ctx ep))) = b0 + int (length written)"
    "ep_used_events ep = int (length (ep_ctx ep))" "in_order (ep_ctx ep)"
    "\<forall>q \<in> set (ep_ctx ep). \<not> rq_read q \<and> rq_fd q = fd \<and> 0 < rq_count q \<and> rq_count q < 2 ^ 63 \<and> loadable w0 (rq_start q) (rq_count q) \<and>
          rq_offset q + rq_count q \<le> ci_offset ioi"
    "settled w0 (the_file (wd_os (as_world s)) p) (ep_ctx ep) = write_at f0 o0 written" by (rule inv_fields)
  show ?thesis
  proof (cases "ep_used_events ep \<ge> int MAX_EVENTS")
    case True
    then show ?thesis using st by (simp add: aiow_write_def get_rec_def)
  next
    case False
    let ?req = "\<lparr>rq_read = False, rq_fd = fd, rq_start = q, rq_count = unat n, rq_offset = ci_offset ioi\<rparr>"
    let ?ioi = "ioi\<lparr>ci_offset := ci_offset ioi + unat n\<rparr>"
    let ?ep = "ep\<lparr>ep_used_events := ep_used_events ep + 1, ep_i := (ep_i ep + 1) mod MAX_EVENTS, ep_ctx := ep_ctx ep @ [?req]\<rparr>"
    let ?s = "put_ep r ?ep (s\<lparr>as_world := (as_world s)\<lparr>wd_rec := (wd_rec (as_world s))(r \<mapsto> ?ioi)\<rparr>\<rparr>)"
    have run: "aiow_write Accepted r q n s = Inr (?s, sint n)"
      using st False nonblocking by (simp add: aiow_write_def get_rec_def get_opt_def put_rec_def)
    have "sint n \<noteq> 0" using n(1) by auto
    have len: "length (bytes_at w0 q (unat n)) = unat n" using n(3) by (rule length_bytes_at)
    have ord: "in_order (ep_ctx ?ep)" using st(13,14) by (auto simp: in_order_def sorted_wrt_append)
    have "settled w0 (the_file (wd_os (as_world s)) p) (ep_ctx ?ep) = write_at f0 o0 (written @ bytes_at w0 q (unat n))"
      using st(10,15) by (simp add: settled_append write_at_append)
    then have "aio_inv r fd p w0 f0 o0 b0 (written @ bytes_at w0 q (unat n)) ?s"
      using st ord n len unfolding aio_inv_def writing_to_def by (auto simp: put_ep_def)
    then show ?thesis using run \<open>sint n \<noteq> 0\<close> by auto
  qed
qed

lemma carry_out_write:
  assumes "\<not> rq_read q" "loadable w0 (rq_start q) (rq_count q)" "wd_mem w = wd_mem w0" "os_fds (wd_os w) (rq_fd q) = Some (p, m)"
    "os_script (wd_os w) = []"
  shows "carry_out q w = Inr (w\<lparr>wd_os := put_bytes p (rq_offset q) (bytes_at w0 (rq_start q) (rq_count q)) (wd_os w)\<rparr>, int (rq_count q))"
  using assms load_loadable[OF assms(2)] load_same[OF assms(3)] length_bytes_at[OF assms(2)]
  by (simp add: carry_out_def call_os_def sys_pwritev_def Let_def)

lemma remove_nth_set: "k < length xs \<Longrightarrow> set (remove_nth k xs) \<subseteq> set xs"
  by (auto simp: remove_nth_def dest: in_set_takeD in_set_dropD)

lemma remove_nth_split:
  assumes "k < length xs"
  obtains ys x zs where "xs = ys @ x # zs" "remove_nth k xs = ys @ zs" "xs ! k = x"
  using assms by (metis id_take_nth_drop remove_nth_def)

lemma remove_nth_in_order:
  assumes "k < length qs" "in_order qs"
  shows "in_order (remove_nth k qs)"
proof -
  from assms(1) obtain ys x zs where "qs = ys @ x # zs" "remove_nth k qs = ys @ zs" by (rule remove_nth_split)
  then show ?thesis using assms(2) by (simp add: in_order_def sorted_wrt_append)
qed

lemma remove_nth_sum:
  assumes "k < length qs"
  shows "sum_list (map rq_count qs) = rq_count (qs ! k) + sum_list (map rq_count (remove_nth k qs))"
proof -
  from assms obtain ys x zs where "qs = ys @ x # zs" "remove_nth k qs = ys @ zs" "qs ! k = x" by (rule remove_nth_split)
  then show ?thesis by simp
qed

lemma remove_nth_length: "k < length qs \<Longrightarrow> length (remove_nth k qs) = length qs - 1"
  by (simp add: remove_nth_def)

lemma aio_check:
  assumes inv: "aio_inv r fd p w0 f0 o0 b0 written s" and e: "\<And>c. event \<noteq> Check_Fails c"
  shows "\<exists>s1 ret. aiow_check event r s = Inr (s1, ret) \<and> aio_inv r fd p w0 f0 o0 b0 written s1"
proof -
  from inv obtain ioi opt a m ep where st: "wd_rec (as_world s) r = Some ioi" "ci_fd ioi = fd" "ci_opt ioi = Some a"
    "wd_opt (as_world s) a = Some opt" "\<not> has (opt_optbits opt) READMODE" "os_fds (wd_os (as_world s)) fd = Some (p, m)"
    "os_script (wd_os (as_world s)) = []" "wd_mem (as_world s) = wd_mem w0" "as_ep s r = Some ep"
    "ci_offset ioi = o0 + length written" "ci_bytes_exchanged ioi + int (sum_list (map rq_count (ep_ctx ep))) = b0 + int (length written)"
    "ep_used_events ep = int (length (ep_ctx ep))" "in_order (ep_ctx ep)"
    "\<forall>q \<in> set (ep_ctx ep). \<not> rq_read q \<and> rq_fd q = fd \<and> 0 < rq_count q \<and> rq_count q < 2 ^ 63 \<and> loadable w0 (rq_start q) (rq_count q) \<and>
          rq_offset q + rq_count q \<le> ci_offset ioi"
    "settled w0 (the_file (wd_os (as_world s)) p) (ep_ctx ep) = write_at f0 o0 written" by (rule inv_fields)
  consider "event = No_Event" | j where "event = Completes j" "ep_ctx ep = []" | j where "event = Completes j" "ep_ctx ep \<noteq> []"
    using e by (cases event) auto
  then show ?thesis
  proof cases
    case (3 j)
    define k where "k = j mod length (ep_ctx ep)"
    have k: "k < length (ep_ctx ep)" using 3(2) by (simp add: k_def)
    let ?q = "ep_ctx ep ! k" and ?w = "as_world s" and ?ctx = "remove_nth k (ep_ctx ep)"
    have q: "\<not> rq_read ?q" "rq_fd ?q = fd" "0 < rq_count ?q" "rq_count ?q < 2 ^ 63" "loadable w0 (rq_start ?q) (rq_count ?q)"
      using st(14) nth_mem[OF k] by auto
    let ?os = "put_bytes p (rq_offset ?q) (bytes_at w0 (rq_start ?q) (rq_count ?q)) (wd_os ?w)"
    have out: "carry_out ?q ?w = Inr (?w\<lparr>wd_os := ?os\<rparr>, int (rq_count ?q))"
      using q st by (intro carry_out_write) simp_all
    have u: "uint (word_of_int (int (rq_count ?q)) :: u64) = int (rq_count ?q)" using q(4) by (simp add: unsigned_of_nat take_bit_nat_eq_self)
    let ?ioi = "ioi\<lparr>ci_bytes_exchanged := ci_bytes_exchanged ioi + int (rq_count ?q)\<rparr>"
    let ?opt = "opt\<lparr>opt_bytes_exchanged := opt_bytes_exchanged opt + word_of_int (int (rq_count ?q))\<rparr>"
    let ?w2 = "?w\<lparr>wd_os := ?os, wd_rec := (wd_rec ?w)(r \<mapsto> ?ioi), wd_opt := (wd_opt ?w)(a \<mapsto> ?opt)\<rparr>"
    have cnt: "count_exchanged r (word_of_int (int (rq_count ?q))) (?w\<lparr>wd_os := ?os\<rparr>) = Inr ?w2"
      using st(1,3,4) u by (simp add: count_exchanged_def put_rec_def get_rec_def put_opt_def get_opt_def)
    let ?s = "put_ep r (ep\<lparr>ep_ctx := ?ctx, ep_used_events := ep_used_events ep - 1\<rparr>) (s\<lparr>as_world := ?w2\<rparr>)"
    have run: "aiow_check event r s = Inr (?s, int (rq_count ?q))"
      using 3 st(1,9) out cnt q(3) by (simp add: aiow_check_def get_rec_def k_def[symmetric] Let_def put_ep_def)
    have ld: "\<forall>q \<in> set (ep_ctx ep). loadable w0 (rq_start q) (rq_count q)" using st(14) by blast
    have "settled w0 (the_file ?os p) ?ctx = write_at f0 o0 written"
      using settled_early[OF st(13) k ld] st(15) by simp
    moreover have "\<forall>q \<in> set ?ctx. \<not> rq_read q \<and> rq_fd q = fd \<and> 0 < rq_count q \<and> rq_count q < 2 ^ 63 \<and> loadable w0 (rq_start q) (rq_count q) \<and>
          rq_offset q + rq_count q \<le> ci_offset ioi"
      using st(14) remove_nth_set[OF k] by blast
    moreover have "ep_used_events ep - 1 = int (length ?ctx)" using st(12) k by (simp add: remove_nth_length of_nat_diff)
    moreover have "ci_bytes_exchanged ?ioi + int (sum_list (map rq_count ?ctx)) = b0 + int (length written)"
      using st(11) remove_nth_sum[OF k] by simp
    moreover have "in_order ?ctx" by (rule remove_nth_in_order[OF k st(13)])
    ultimately have "aio_inv r fd p w0 f0 o0 b0 written ?s"
      using st unfolding aio_inv_def writing_to_def by (auto simp: put_ep_def)
    then show ?thesis using run by auto
  qed (use st inv in \<open>simp_all add: aiow_check_def get_rec_def\<close>)
qed

lemma aio_runs:
  assumes "aio_inv r fd p w0 f0 o0 b0 written s" "submits_ok w0 ops"
  shows "\<exists>s' ps. aio_run r ops s = Inr (s', ps) \<and> aio_inv r fd p w0 f0 o0 b0 (written @ concat (map (\<lambda>(q, n). bytes_at w0 q n) ps)) s'"
  using assms
proof (induction ops arbitrary: written s)
  case (Cons op ops)
  have ok: "submits_ok w0 ops" using Cons.prems(2) by (simp add: submits_ok_def)
  show ?case
  proof (cases op)
    case (Submit q n)
    then have "0 < unat n" "unat n < 2 ^ 63" "loadable w0 q (unat n)" using Cons.prems(2) by (simp_all add: submits_ok_def)
    then obtain s1 ret where s1: "aiow_write Accepted r q n s = Inr (s1, ret)"
      "if ret \<noteq> 0 then aio_inv r fd p w0 f0 o0 b0 (written @ bytes_at w0 q (unat n)) s1 else s1 = s"
      using aio_submit[OF Cons.prems(1)] by blast
    show ?thesis
    proof (cases "ret = 0")
      case True
      then have "aio_inv r fd p w0 f0 o0 b0 written s1" using s1(2) Cons.prems(1) by simp
      from Cons.IH[OF this ok] show ?thesis using s1(1) True Submit by auto
    next
      case False
      then have "aio_inv r fd p w0 f0 o0 b0 (written @ bytes_at w0 q (unat n)) s1" using s1(2) by simp
      from Cons.IH[OF this ok] show ?thesis using s1(1) False Submit by auto
    qed
  next
    case (Check event)
    then have "event \<noteq> Check_Fails c" for c using Cons.prems(2) by (auto simp: submits_ok_def)
    then obtain s1 ret where s1: "aiow_check event r s = Inr (s1, ret)" "aio_inv r fd p w0 f0 o0 b0 written s1"
      using aio_check[OF Cons.prems(1)] by blast
    from Cons.IH[OF s1(2) ok] show ?thesis using s1(1) Check by auto
  qed
qed auto

text \<open>C39: Parts of a buffer that are submitted to the asynchronous writer are in the file in the order of submission when nothing
  is in flight any more, whatever order the kernel finished them in, and have been counted.\<close>

theorem aio_completion_order_irrelevant:
  assumes s: "writing_to r fd p (s\<lparr>as_world := w\<rparr>)" and ioi: "wd_rec w r = Some ioi" "f = the_file (wd_os w) p"
    and ops: "submits_ok w ops" and s0: "s0 = fst (aiow_init True r (s\<lparr>as_world := w\<rparr>))"
  shows "\<exists>s' ps ep. aio_run r ops s0 = Inr (s', ps) \<and> as_ep s' r = Some ep \<and> ep_used_events ep = int (length (ep_ctx ep)) \<and>
     (ep_ctx ep = [] \<longrightarrow> (let data = concat (map (\<lambda>(q, n). bytes_at w q n) ps) in
        the_file (wd_os (as_world s')) p = write_at f (ci_offset ioi) data \<and>
        (\<exists>ioi'. wd_rec (as_world s') r = Some ioi' \<and> ci_bytes_exchanged ioi' = ci_bytes_exchanged ioi + int (length data) \<and>
           ci_offset ioi' = ci_offset ioi + length data)))"
proof -
  have "aio_inv r fd p w f (ci_offset ioi) (ci_bytes_exchanged ioi) [] s0"
    using s ioi unfolding aio_inv_def s0 aiow_init_def writing_to_def
    by (auto simp: put_ep_def settled_def in_order_def write_at_def)
  from aio_runs[OF this ops] obtain s' ps where run: "aio_run r ops s0 = Inr (s', ps)"
    and inv: "aio_inv r fd p w f (ci_offset ioi) (ci_bytes_exchanged ioi) (concat (map (\<lambda>(q, n). bytes_at w q n) ps)) s'" by auto
  from inv run show ?thesis
    unfolding aio_inv_def by (auto simp: settled_def Let_def)
qed

definition aio_example :: aio_state where
  "aio_example = fst (aiow_init True 10 \<lparr>as_world = tiny_world True, as_ep = (\<lambda>_. None)\<rparr>)"

definition aio_example_ops :: "aio_op list" where
  "aio_example_ops = [Submit (Some (30, 0)) 4, Submit (Some (30, 4)) 4, Check (Completes 1), Check (Completes 0)]"

lemma example_mode: "\<not> has (opt_optbits tiny_opt) READMODE"
  by (simp add: tiny_opt_def zero_opt_def has_def flag_defs flag_def)

theorem aio_completion_order_irrelevant_witness:
  "\<exists>s' ps. aio_run 10 aio_example_ops aio_example = Inr (s', ps) \<and> the_file (wd_os (as_world s')) ''f'' = [1, 2, 3, 4, 5, 6, 7, 8]"
proof -
  have s0: "aio_example = fst (aiow_init True 10 (\<lparr>as_world = tiny_world True, as_ep = (\<lambda>_. None)\<rparr>\<lparr>as_world := tiny_world True\<rparr>))"
    by (simp add: aio_example_def)
  have w: "writing_to 10 3 ''f'' (\<lparr>as_world = tiny_world True, as_ep = (\<lambda>_. None)\<rparr>\<lparr>as_world := tiny_world True\<rparr>)"
    by (simp add: writing_to_def tiny_world_def example_rec_def example_os_def example_mode)
  have ioi: "wd_rec (tiny_world True) 10 = Some (example_rec\<lparr>re_writer := Dummy_Writer\<rparr>)" "[] = the_file (wd_os (tiny_world True)) ''f''"
    by (simp_all add: tiny_world_def the_file_def example_os_def)
  have ops: "submits_ok (tiny_world True) aio_example_ops"
    by (simp add: submits_ok_def aio_example_ops_def loadable_def load_bytes_def tiny_world_def mem_read_def)
  have drained: "(case aio_run 10 aio_example_ops aio_example of Inl _ \<Rightarrow> False | Inr (s', ps) \<Rightarrow> ps = [(Some (30, 0), 4), (Some (30, 4), 4)] \<and>
      (case as_ep s' 10 of None \<Rightarrow> False | Some ep \<Rightarrow> ep_ctx ep = []))"
    using nonblocking example_mode
    by (simp add: aio_example_ops_def aio_example_def aiow_init_def put_ep_def aiow_write_def aiow_check_def carry_out_def get_rec_def
        get_opt_def put_rec_def put_opt_def count_exchanged_def load_bytes_def mem_read_def call_os_def sys_pwritev_def tiny_world_def
        example_rec_def example_os_def MAX_EVENTS_def remove_nth_def slice_def)
  have bytes: "bytes_at (tiny_world True) (Some (30, 0)) 4 = [1, 2, 3, 4]" "bytes_at (tiny_world True) (Some (30, 4)) 4 = [5, 6, 7, 8]"
    by (simp_all add: bytes_at_def load_bytes_def tiny_world_def mem_read_def slice_def)
  show ?thesis
    using aio_completion_order_irrelevant[OF w ioi ops s0] drained bytes
    by (auto simp: Let_def example_rec_def write_at_def)
qed

definition stuck :: "addr \<Rightarrow> aio_state \<Rightarrow> bool" where
  "stuck r s \<longleftrightarrow> (\<exists>ioi ep. wd_rec (as_world s) r = Some ioi \<and> as_ep s r = Some ep \<and> ep_ctx ep = [] \<and> ep_used_events ep \<ge> int MAX_EVENTS)"

fun refused_writes :: "addr \<Rightarrow> bufptr \<Rightarrow> u64 \<Rightarrow> nat \<Rightarrow> aio_state \<Rightarrow> aio_state outcome" where
  "refused_writes r p n 0 s = Inr s"
| "refused_writes r p n (Suc k) s = bindE (aiow_write Refused r p n s) (\<lambda>(s1, _). refused_writes r p n k s1)"

lemma refused_counts:
  assumes "wd_rec (as_world s) r = Some ioi" "ci_opt ioi = Some a" "wd_opt (as_world s) a = Some opt" "as_ep s r = Some ep"
    "ep_ctx ep = []" "ep_used_events ep + int k = int MAX_EVENTS"
  shows "\<exists>s'. refused_writes r p n k s = Inr s' \<and> stuck r s'"
  using assms
proof (induction k arbitrary: s ep)
  case 0
  then show ?case by (auto simp: stuck_def)
next
  case (Suc k)
  let ?ep = "ep\<lparr>ep_used_events := ep_used_events ep + 1, ep_i := (ep_i ep + 1) mod MAX_EVENTS\<rparr>"
  have "\<exists>s'. refused_writes r p n k (put_ep r ?ep s) = Inr s' \<and> stuck r s'"
    using Suc.prems by (intro Suc.IH[of _ ?ep]) (simp_all add: put_ep_def)
  moreover have "aiow_write Refused r p n s = Inr (put_ep r ?ep s, - 1)"
    using Suc.prems by (simp add: aiow_write_def get_rec_def get_opt_def)
  ultimately show ?case by simp
qed

text \<open>A submission that the kernel refuses is counted as one in flight. After 128 of them nothing is in flight, every further
  write is turned away as if the queue were full, and no check changes that.\<close>

theorem refused_submissions_block_writer:
  assumes "wd_rec w r = Some ioi" "ci_opt ioi = Some a" "wd_opt w a = Some opt"
  shows "\<exists>s'. refused_writes r p n MAX_EVENTS (fst (aiow_init True r (s\<lparr>as_world := w\<rparr>))) = Inr s' \<and>
     (\<forall>sub q m. aiow_write sub r q m s' = Inr (s', 0)) \<and> (\<forall>j. aiow_check (Completes j) r s' = Inr (s', 0)) \<and>
     aiow_check No_Event r s' = Inr (s', 0)"
proof -
  let ?s0 = "fst (aiow_init True r (s\<lparr>as_world := w\<rparr>))"
  have s0: "wd_rec (as_world ?s0) r = Some ioi" "wd_opt (as_world ?s0) a = Some opt" "as_ep ?s0 r = Some \<lparr>ep_ctx = [], ep_used_events = 0, ep_i = 0\<rparr>"
    using assms by (simp_all add: aiow_init_def put_ep_def)
  have "\<exists>s'. refused_writes r p n MAX_EVENTS ?s0 = Inr s' \<and> stuck r s'"
    by (rule refused_counts[OF s0(1) assms(2) s0(2,3)]) simp_all
  then obtain s' where "refused_writes r p n MAX_EVENTS ?s0 = Inr s'" "stuck r s'" by blast
  then show ?thesis by (auto simp: stuck_def aiow_write_def aiow_check_def get_rec_def)
qed

theorem refused_submissions_block_writer_witness:
  "\<exists>s'. refused_writes 10 (Some (30, 0)) 4 MAX_EVENTS aio_example = Inr s' \<and>
     aiow_write Accepted 10 (Some (30, 4)) 4 s' = Inr (s', 0) \<and> aiow_check (Completes 0) 10 s' = Inr (s', 0)"
  using refused_submissions_block_writer[of "tiny_world True" 10 "example_rec\<lparr>re_writer := Dummy_Writer\<rparr>" 1 tiny_opt "Some (30, 0)" 4
      "\<lparr>as_world = tiny_world True, as_ep = (\<lambda>_. None)\<rparr>"]
  by (auto simp: tiny_world_def example_rec_def aio_example_def)

end
