(* ===== verification/Disk2File.thy ===== *)
theory Disk2File
  imports BufferWriting Sending
begin

text \<open>
  Copying a recording to one file (\<open>src/disk2file.c\<close>): the files of the recording are loaded one after the other as for sending,
  and the packets of the loaded buffer are written without their first \<open>offset\<close> bytes, up to \<open>IOV_MAX\<close> with each \<open>writev\<close>.

  The state is the one of a sender thread, whose socket is not used, with the descriptor of the output and the counters.
\<close>

section \<open>The streamer\<close>

record d2fopts_s =
  d2_sender :: sender
  d2_missing :: u64
  d2_written :: u64
  d2_fd :: int

definition d2_world :: "d2fopts_s \<Rightarrow> world" where
  "d2_world d = sn_world (d2_sender d)"

definition with_world :: "world \<Rightarrow> d2fopts_s \<Rightarrow> d2fopts_s" where
  "with_world w d = d\<lparr>d2_sender := (d2_sender d)\<lparr>sn_sys := (sn_sys (d2_sender d))\<lparr>sy_world := w\<rparr>\<rparr>\<rparr>"

definition with_sender :: "sender \<Rightarrow> d2fopts_s \<Rightarrow> d2fopts_s" where
  "with_sender s d = d\<lparr>d2_sender := s\<rparr>"

text \<open>\<open>garbage\<close> is the descriptor in the memory from \<open>malloc\<close>.\<close>

definition d2f_init_disk2file :: "int \<Rightarrow> sender \<Rightarrow> (d2fopts_s \<times> int) outcome" where
  "d2f_init_disk2file garbage s =
     bindE (the_sopt s) (\<lambda>opt. case opt_disk2fileoutput opt of None \<Rightarrow> Inl Null_Deref | Some name \<Rightarrow>
       let (w1, err, fd) = call_os (common_open_file O_WRONLY name 0) (sn_world s);
           d = \<lparr>d2_sender = s, d2_missing = 0, d2_written = 0, d2_fd = (case fd of None \<Rightarrow> garbage | Some n \<Rightarrow> n)\<rparr> in
       Inr (with_world w1 d, err))"

definition d2f_get_stats :: "d2fopts_s \<Rightarrow> stats \<Rightarrow> stats" where
  "d2f_get_stats d st = st\<lparr>s_total_bytes := s_total_bytes st + d2_written d, s_dropped := s_dropped st + d2_missing d\<rparr>"

definition d2f_close_file :: "d2fopts_s \<Rightarrow> d2fopts_s" where
  "d2f_close_file d = with_world (fst (call_os (sys_close (d2_fd d)) (d2_world d))) d"

definition d2f_close :: "d2fopts_s \<Rightarrow> stats \<Rightarrow> d2fopts_s \<times> stats \<times> int" where
  "d2f_close d st = (d2f_close_file d, d2f_get_stats d st, 0)"

definition disk2filestop :: "d2fopts_s \<Rightarrow> d2fopts_s outcome" where
  "disk2filestop d = bindE (set_sopt (\<lambda>o1. o1\<lparr>opt_status := STATUS_STOPPED\<rparr>) (d2_sender d)) (\<lambda>s. Inr (with_sender s d))"

definition D2FEXIT :: "d2fopts_s \<Rightarrow> d2fopts_s outcome" where
  "D2FEXIT d = bindE (give_back (d2_sender d)) (\<lambda>s. Inr (with_sender (s\<lparr>sn_be := None\<rparr>) d))"

section \<open>The copying loop\<close>

text \<open>The inner loop from packet \<open>total_i\<close> of the buffer on. The number that \<open>writev\<close> returns is not looked at when it is not
  negative.\<close>

function d2f_copy :: "bufptr \<Rightarrow> opt_s \<Rightarrow> nat \<Rightarrow> nat \<Rightarrow> d2fopts_s \<Rightarrow> (d2fopts_s \<times> bool) outcome" where
  "d2f_copy buf opt total_i real_num_packets d =
     (if real_num_packets \<le> total_i then Inr (d, True)
      else let i = min (real_num_packets - total_i) IOV_MAX in
        bindE (gather buf (opt_packet_size opt) (opt_offset opt) total_i i (d2_world d)) (\<lambda>iov.
        let (w1, err) = call_os (sys_write (d2_fd d) (concat iov)) (d2_world d) in
        if err < 0 then Inr (with_world w1 d, False)
        else let d1 = with_world w1 d;
                 d2 = with_sender (upd_track (\<lambda>t. t\<lparr>tr_packets_sent := tr_packets_sent t + of_nat i\<rparr>) (d2_sender d1)) d1 in
          d2f_copy buf opt (total_i + i) real_num_packets
            (d2\<lparr>d2_written := d2_written d2 + (of_nat i * opt_packet_size opt - of_nat i * word_of_int (opt_offset opt))\<rparr>)))"
  by pat_completeness auto

termination
  by (relation "measure (\<lambda>(buf, opt, total_i, n, d). n - total_i)") (auto simp: IOV_MAX_def)

declare d2f_copy.simps [simp del]

definition real_num_packets :: "opt_s \<Rightarrow> u64 \<Rightarrow> nat" where
  "real_num_packets opt packetpeek = min (unat (opt_buf_num_elems opt)) (unat (ucast packetpeek :: u32))"

definition d2_packets :: "d2fopts_s \<Rightarrow> u64 outcome" where
  "d2_packets d = bindE (the_sfi (d2_sender d)) (\<lambda>fi. afi_get_n_packets fi (wd_fi (d2_world d)))"

definition d2_buffer :: "d2fopts_s \<Rightarrow> bufptr outcome" where
  "d2_buffer d = (case sn_be (d2_sender d) of None \<Rightarrow> Inl Null_Deref
     | Some b \<Rightarrow> bindE (get_buf b (d2_world d)) (\<lambda>be. Inr (be_buffer be)))"

text \<open>A turn of the outer loop: the next file when the buffer or the recording is used up, then the packets of the buffer. The
  result is \<open>None\<close> while the thread sleeps or has not ended within the fuel; \<open>evs\<close> has an element for each file.\<close>

fun d2f_loop :: "nat \<Rightarrow> nat \<Rightarrow> send_env list \<Rightarrow> nat \<Rightarrow> u64 \<Rightarrow> d2fopts_s \<Rightarrow> d2fopts_s option outcome" where
  "d2f_loop 0 jf evs total_i packetpeek d = Inr None"
| "d2f_loop (Suc fuel) jf evs total_i packetpeek d =
     bindE (the_sopt (d2_sender d)) (\<lambda>opt.
     if \<not> should_i_be_running opt (sn_st (d2_sender d)) then bindE (D2FEXIT d) (\<lambda>d1. Inr (Some d1))
     else if total_i = unat (opt_buf_num_elems opt) \<or> tr_packets_sent (sn_st (d2_sender d)) = packetpeek
     then (case evs of [] \<Rightarrow> Inr None
       | ev # evs' \<Rightarrow>
         bindE (jump_to_next_file jf ev (d2_sender d)) (\<lambda>res. case res of
             None \<Rightarrow> Inr None
           | Some (s1, Thread_Exit) \<Rightarrow> Inr (Some (with_sender s1 d))
           | Some (s1, Return err) \<Rightarrow>
               let d1 = with_sender s1 d in
               bindE (d2_packets d1) (\<lambda>packetpeek.
               if err = ALL_DONE \<or> err < 0 then bindE (D2FEXIT d1) (\<lambda>d2. Inr (Some d2))
               else bindE (d2_buffer d1) (\<lambda>buf. bindE (the_sopt s1) (\<lambda>opt1.
                 bindE (d2f_copy buf opt1 0 (real_num_packets opt1 packetpeek) d1) (\<lambda>(d2, ok).
                   if \<not> ok then bindE (D2FEXIT d2) (\<lambda>d3. Inr (Some d3))
                   else d2f_loop fuel jf evs' (real_num_packets opt1 packetpeek) packetpeek d2))))))
     else bindE (d2_buffer d) (\<lambda>buf.
       bindE (d2f_copy buf opt total_i (real_num_packets opt packetpeek) d) (\<lambda>(d2, ok).
         if \<not> ok then bindE (D2FEXIT d2) (\<lambda>d3. Inr (Some d3))
         else d2f_loop fuel jf evs (max total_i (real_num_packets opt packetpeek)) packetpeek d2)))"

text \<open>\<open>disk2file\<close>. The result of the first file is not looked at.\<close>

definition disk2file :: "nat \<Rightarrow> nat \<Rightarrow> send_env list \<Rightarrow> d2fopts_s \<Rightarrow> d2fopts_s option outcome" where
  "disk2file fuel jf evs d =
     bindE (init_sender_tracking (d2_sender d)) (\<lambda>s1.
     bindE (the_sopt s1) (\<lambda>opt.
     bindE (throttling_count opt (sn_st s1)) (\<lambda>t.
     bindE (set_sopt (\<lambda>o1. o1\<lparr>opt_status := STATUS_RUNNING\<rparr>) (s1\<lparr>sn_st := t, sn_be := None\<rparr>)) (\<lambda>s2.
     case evs of [] \<Rightarrow> Inr None
     | ev # evs' \<Rightarrow> bindE (jump_to_next_file jf ev s2) (\<lambda>res. case res of
           None \<Rightarrow> Inr None
         | Some (s3, Thread_Exit) \<Rightarrow> Inr (Some (with_sender s3 d))
         | Some (s3, Return _) \<Rightarrow>
             let d1 = with_sender s3 d in
             if sn_be s3 = None then bindE (D2FEXIT d1) (\<lambda>d2. Inr (Some d2))
             else bindE (d2_packets d1) (\<lambda>packetpeek. d2f_loop fuel jf evs' 0 packetpeek d1))))))"

section \<open>What is copied\<close>

text \<open>The output is open at its end, and the system writes what it is asked to.\<close>

definition output_ready :: "d2fopts_s \<Rightarrow> string \<Rightarrow> bool" where
  "output_ready d p \<longleftrightarrow> os_fds (wd_os (d2_world d)) (d2_fd d) = Some (p, length (the_file (wd_os (d2_world d)) p)) \<and>
     os_script (wd_os (d2_world d)) = []"

text \<open>\<open>d2f_advanced d d' p data k\<close>: the output has grown by \<open>data\<close>, and \<open>k\<close> packets and the bytes are counted.\<close>

definition d2f_advanced :: "d2fopts_s \<Rightarrow> d2fopts_s \<Rightarrow> string \<Rightarrow> u8 list \<Rightarrow> nat \<Rightarrow> bool" where
  "d2f_advanced d d' p data k \<longleftrightarrow> the_file (wd_os (d2_world d')) p = the_file (wd_os (d2_world d)) p @ data \<and>
     output_ready d' p \<and> wd_mem (d2_world d') = wd_mem (d2_world d) \<and> d2_written d' = d2_written d + of_nat (length data) \<and>
     tr_packets_sent (sn_st (d2_sender d')) = tr_packets_sent (sn_st (d2_sender d)) + of_nat k"

lemma d2f_advanced_trans:
  "d2f_advanced d d1 p x j \<Longrightarrow> d2f_advanced d1 d2 p y k \<Longrightarrow> d2f_advanced d d2 p (x @ y) (j + k)"
  by (simp add: d2f_advanced_def)

lemma d2_world_simps [simp]:
  "d2_world (with_world w d) = w" "d2_world (d\<lparr>d2_written := x\<rparr>) = d2_world d"
  "d2_world (with_sender (upd_track f (d2_sender d)) d) = d2_world d"
  by (simp_all add: d2_world_def with_world_def with_sender_def sn_world_def upd_track_def)

lemma payload_count:
  "F \<le> unat psize \<Longrightarrow> of_nat i * psize - of_nat i * word_of_int (int F) = (of_nat (i * (unat psize - F)) :: u64)"
proof -
  assume F: "F \<le> unat psize"
  have "of_nat i * psize - of_nat i * word_of_int (int F) = of_nat i * (of_nat (unat psize) - of_nat F :: u64)"
    by (simp add: right_diff_distrib)
  also have "of_nat (unat psize) - of_nat F = (of_nat (unat psize - F) :: u64)" using F by (simp add: of_nat_diff)
  finally show ?thesis by simp
qed

text \<open>One \<open>writev\<close>.\<close>

lemma copy_step:
  assumes rdy: "output_ready d p" and mem: "wd_mem (d2_world d) m = Some bs" and F: "opt_offset opt = int F" "F \<le> unat (opt_packet_size opt)"
    and n: "k < n" "n * unat (opt_packet_size opt) \<le> length bs" and i: "i = min (n - k) IOV_MAX"
  shows "\<exists>d1. d2f_copy (Some (m, 0)) opt k n d = d2f_copy (Some (m, 0)) opt (k + i) n d1 \<and>
     d2f_advanced d d1 p (concat (BufferWriting.packets bs 0 (unat (opt_packet_size opt)) F k i)) i"
proof -
  let ?P = "unat (opt_packet_size opt)"
  let ?data = "concat (BufferWriting.packets bs 0 ?P F k i)"
  have "(k + i) * ?P \<le> n * ?P" using i n(1) by (intro mult_le_mono1) simp
  then have b: "0 + (k + i) * ?P \<le> length bs" using n(2) by (metis add_0 order_trans)
  have g: "gather (Some (m, 0)) (opt_packet_size opt) (opt_offset opt) k i (d2_world d) = Inr (BufferWriting.packets bs 0 ?P F k i)"
    using gather_packets[OF mem F(2), of 0 k i] b F(1) by simp
  have len: "length ?data = i * (?P - F)" by (rule length_packets[OF b F(2)])
  let ?os = "wd_os (d2_world d)"
  let ?os1 = "seek_fd (d2_fd d) p (length (the_file ?os p) + length ?data) (put_bytes p (length (the_file ?os p)) ?data ?os)"
  have w: "call_os (sys_write (d2_fd d) ?data) (d2_world d) = ((d2_world d)\<lparr>wd_os := ?os1\<rparr>, int (length ?data))"
    using rdy by (simp add: call_os_def sys_write_def output_ready_def)
  let ?d1 = "with_world ((d2_world d)\<lparr>wd_os := ?os1\<rparr>) d"
  let ?d2 = "with_sender (upd_track (\<lambda>t. t\<lparr>tr_packets_sent := tr_packets_sent t + of_nat i\<rparr>) (d2_sender ?d1)) ?d1"
  let ?d3 = "?d2\<lparr>d2_written := d2_written ?d2 + (of_nat i * opt_packet_size opt - of_nat i * word_of_int (opt_offset opt))\<rparr>"
  have "d2f_copy (Some (m, 0)) opt k n d = d2f_copy (Some (m, 0)) opt (k + i) n ?d3"
    using n(1) g w i by (subst d2f_copy.simps) (simp add: Let_def)
  moreover have "d2f_advanced d ?d3 p ?data i"
    using rdy payload_count[OF F(2), of i]
    by (simp add: d2f_advanced_def output_ready_def len F(1) write_at_end)
       (simp add: with_sender_def upd_track_def with_world_def)
  ultimately show ?thesis by blast
qed

lemma copy_all:
  assumes "output_ready d p" "wd_mem (d2_world d) m = Some bs" "opt_offset opt = int F" "F \<le> unat (opt_packet_size opt)"
    "k \<le> n" "n * unat (opt_packet_size opt) \<le> length bs"
  shows "\<exists>d'. d2f_copy (Some (m, 0)) opt k n d = Inr (d', True) \<and>
     d2f_advanced d d' p (concat (BufferWriting.packets bs 0 (unat (opt_packet_size opt)) F k (n - k))) (n - k)"
  using assms
proof (induction "n - k" arbitrary: k d rule: less_induct)
  case less
  show ?case
  proof (cases "k = n")
    case True
    then show ?thesis using less.prems(1) by (subst d2f_copy.simps) (simp add: d2f_advanced_def BufferWriting.packets_def)
  next
    case False
    define i where "i = min (n - k) IOV_MAX"
    have k: "k < n" using False less.prems(5) by simp
    have i: "0 < i" "k + i \<le> n" using k by (auto simp: i_def IOV_MAX_def)
    obtain d1 where d1: "d2f_copy (Some (m, 0)) opt k n d = d2f_copy (Some (m, 0)) opt (k + i) n d1"
      "d2f_advanced d d1 p (concat (BufferWriting.packets bs 0 (unat (opt_packet_size opt)) F k i)) i"
      using copy_step[OF less.prems(1-4) k less.prems(6) i_def] by blast
    have r: "output_ready d1 p" "wd_mem (d2_world d1) m = Some bs" using d1(2) less.prems(2) by (simp_all add: d2f_advanced_def)
    have dec: "n - (k + i) < n - k" using i k by simp
    obtain d' where d': "d2f_copy (Some (m, 0)) opt (k + i) n d1 = Inr (d', True)"
      "d2f_advanced d1 d' p (concat (BufferWriting.packets bs 0 (unat (opt_packet_size opt)) F (k + i) (n - (k + i)))) (n - (k + i))"
      using less.hyps[OF dec r less.prems(3,4) i(2) less.prems(6)] by blast
    have "n - k = i + (n - (k + i))" using i by simp
    then show ?thesis
      using d1 d' d2f_advanced_trans[OF d1(2) d'(2)] packets_append[of bs 0 "unat (opt_packet_size opt)" F k i "n - (k + i)"] by auto
  qed
qed


definition copying :: d2fopts_s where
  "copying = \<lparr>d2_sender = sending, d2_missing = 0, d2_written = 0, d2_fd = 3\<rparr>"


text \<open>A recording whose last file is not full: when more packets are recorded than a buffer holds, the turn for any file, the last
  one too, copies a whole buffer, so that more packets are copied than there are.\<close>

theorem last_file_copied_too_far:
  assumes "output_ready d p" "wd_mem (d2_world d) m = Some bs" "opt_offset opt = int F" "F \<le> unat (opt_packet_size opt)"
    and n: "n = unat (opt_buf_num_elems opt)" "n * unat (opt_packet_size opt) \<le> length bs"
    and recorded: "n < recorded" "recorded < 2 ^ 32" and sent: "tr_packets_sent (sn_st (d2_sender d)) = of_nat sent" "sent < recorded" "recorded < sent + n"
  shows "\<exists>d'. d2f_copy (Some (m, 0)) opt 0 (real_num_packets opt (of_nat recorded)) d = Inr (d', True) \<and>
     unat (tr_packets_sent (sn_st (d2_sender d'))) = sent + n \<and> recorded < sent + n"
proof -
  have "unat (ucast (of_nat recorded :: u64) :: u32) = recorded"
    using recorded(2) by (simp add: unsigned_ucast_eq unsigned_of_nat take_bit_nat_eq_self unsigned_take_bit_eq)
  then have r: "real_num_packets opt (of_nat recorded) = n" using n(1) recorded(1) by (simp add: real_num_packets_def)
  obtain d' where d': "d2f_copy (Some (m, 0)) opt 0 n d = Inr (d', True)" "tr_packets_sent (sn_st (d2_sender d')) = of_nat (sent + n)"
    using copy_all[OF assms(1-4) _ n(2), of 0] sent(1) by (auto simp: d2f_advanced_def)
  moreover have "unat (of_nat (sent + n) :: u64) = sent + n" unfolding unat_of_nat using sent recorded n by simp
  ultimately show ?thesis using r sent(3) by metis
qed

end
