(* ===== verification/Spec2Isabelle.thy ===== *)
theory Spec2Isabelle
  imports BufferSizes Datatypes FileIndex Tickets UdpReceive Sending Sockets EventLists Arguments Recordings MultiStream SpliceProtocol ViewReads AioWriter Disk2File
begin

text \<open>
  \<^bold>\<open>vlbi-streamer: a verification library\<close>

  vlbi-streamer records very long baseline interferometry data from the network to many disks at line
  rate, and sends recordings back to the network. A receiver thread fills large buffers with packets, a
  writer thread for each buffer moves it to whichever recording point (a disk) is free, and the file index
  knows which file of which recording lies on which disk. Sending runs the same machinery backwards.

  \<^bold>\<open>Parts and theories\<close>

  \<^item> \<open>Prelude\<close>: machine integers as words, the \<open>outcome\<close> of a C computation that can fault, byte
    buffers, byte order. \<open>Interfaces\<close>: the contracts between components as locales.
  \<^item> \<open>Options\<close> (\<open>src/src/streamer.h\<close>, \<open>streamer.c\<close>): the option record \<open>opt_s\<close>, its flag words and status.
    \<open>BufferSizes\<close>: the buffer-size calculations of \<open>streamer.c\<close>. \<open>Timer\<close> (\<open>timer.c\<close>).
  \<^item> \<open>Datatypes\<close> (\<open>datatypes_common.c/.h\<close>, \<open>datatypes.c\<close>): VDIF, Mark5B, Mark5B over network and UDPMON
    headers; sequence numbers, time differences, filling of missing packets.
  \<^item> \<open>FileIndex\<close> (\<open>active_file_index.c\<close>): the list of recordings and their file tables in a heap, with a
    registry as its specification.
  \<^item> \<open>ResourceTree\<close>, \<open>Tickets\<close> (\<open>resourcetree.c\<close>): the three lists of a branch in a heap, the waiting for
    a free or loaded entity as explicit wake-ups, the ticket protocol of the waiting threads.
  \<^item> \<open>World\<close>: the options, recording points, buffers, memory and POSIX files that the callbacks act on.
    \<open>Writers\<close> (\<open>common_wrt.c\<close>, \<open>defwriter.c\<close>, \<open>writev_writer.c\<close>, \<open>dummywriter.c\<close>, \<open>sendfile_writer.c\<close>),
    \<open>SimpleBuf\<close> (\<open>simplebuffer.c\<close>): the writers and the buffer with its writer thread. \<open>BufferWriting\<close>:
    what they promise.
  \<^item> \<open>SocketStream\<close>, \<open>UdpStream\<close>, \<open>UdpWindow\<close>, \<open>UdpReceive\<close> (\<open>sockethandling.c/.h\<close>, \<open>udp_stream.c\<close>,
    \<open>common_filehandling.c\<close>): the UDP receiver with its resequencing over two buffers, a window
    specification and the refinement of it.
  \<^item> \<open>Sender\<close>, \<open>Sending\<close> (\<open>common_filehandling.c\<close>, \<open>sockethandling.c\<close>, \<open>udp_stream.c\<close>): file tracking,
    loading ahead, pacing and the sending loop. \<open>Sockets\<close> (\<open>sockethandling.c\<close>): the set-up of sockets.
  \<^item> \<open>Config\<close>, \<open>ConfigFiles\<close> (\<open>confighelper.c\<close>, \<open>configcommon.h\<close>): configuration files read, checked
    and written, and the start of a recording from them.
  \<^item> \<open>Server\<close>, \<open>Scheduling\<close>, \<open>EventLists\<close> (\<open>server.c\<close>): the daemon. Its events are entities of a branch, the schedule
    file is a configuration; starting, adding, dropping and finishing events, the turns of the main loop.
  \<^item> \<open>CommandLine\<close>, \<open>Arguments\<close> (\<open>streamer.c\<close>, \<open>server.c\<close>): the option parser and the order in which the daemon puts
    its options together. \<open>Streamer\<close>, \<open>Recordings\<close> (\<open>streamer.c\<close>): recording points, buffers and the thread of a
    recording.
  \<^item> \<open>TcpStream\<close>, \<open>TcpReceive\<close>, \<open>MultiStream\<close> (\<open>tcp_stream.c\<close>): the three TCP receivers and the TCP send commands; the
    receiver of one connection and the one of several, of which each carries every m-th packet.
  \<^item> \<open>SpliceWriter\<close>, \<open>SpliceProtocol\<close> (\<open>splicewriter.c\<close>): the two threads of the splice writer as step functions, and runs of
    them in any order.
  \<^item> \<open>AioWriter\<close> (\<open>aiowriter.c\<close>): the asynchronous writer over the requests in flight. \<open>Disk2File\<close> (\<open>disk2file.c\<close>): the
    copying of a recording to one file.
  \<^item> \<open>VbsFs\<close>, \<open>VbsRead\<close>, \<open>FileView\<close>, \<open>ViewReads\<close> (\<open>src/vbs_fs/vbs_fs.c\<close>): the file system that shows each recording as
    one file; the table hashed by name and the search of the disks, reading through pipes; what the table finds and
    what a read gives.

  \<^bold>\<open>How the state corresponds\<close>

  A struct is a record with the fields that are read or written by the modelled code; pointers are
  addresses into heaps that map to records, so that aliasing is as in C. A function takes the state and
  gives back a fault or the new state with its return value. Where a thread sleeps, what the other
  threads do in the meantime is a list of state changes, one for each wake-up; when the list is used up
  the thread is still asleep. The answers of the network, the clock and the system are arguments: lists
  or functions, over which the theorems quantify. Locks are modelled where their order matters (\<open>Tickets\<close>,
  the head lock in \<open>SimpleBuf\<close>); elsewhere a critical section is one step.

  Numbers keep their width: \<open>unsigned long\<close> is a 64-bit word, \<open>unsigned int\<close> a 32-bit word with wrap-around;
  signed integers are \<open>int\<close> with the overflow written out where it can happen. The build is the default
  one of \<open>configure.ac\<close> on little-endian x86-64: daemon mode, huge pages, libaio, rate limiter,
  asserts on; \<open>UGLY_HACKS_ON_STATS\<close>, \<open>USE_DIFF\<close>, \<open>FORCE_WRITE_TO_FILESIZE\<close> and
  \<open>MADVISE_INSTEAD_OF_O_DIRECT\<close> off.

  \<^bold>\<open>What is proved\<close>

  Packet formats: the decoding of binary coded decimals, circular differences of seconds, the filling of
  gaps. File index: every operation refines the registry, sessions balance, tables stay in bounds.
  Branches: every list operation refines an operation on finite lists; buffers in use are exclusive and
  free buffers go round. Tickets: waiting threads are served in order, and where a wake-up is lost.
  Buffer sizes: alignment, the file size chosen fits, the least adjustment. Receiver: a stream reordered
  within the window loses nothing, every run refines the window specification. Writers: a whole
  buffer reaches the disk, stripped of its headers with the vector writer; the write loop ends.
  Sender: a loaded buffer goes out packet by packet in order, and never faster than the rate. Configuration: a
  recording is opened again with what was written; the check is equivalent to a reading that changes nothing.
  Daemon: its lists stay well formed in every run, its walks end, nothing starts early and what is due runs.
  Options: the arguments are handled in order. Recording thread: the drives and buffers are set up in order and within the
  memory limit, and a recording with a time ends. TCP: the files of a recording are the byte stream of the connection, or the packets of
  several connections in their order. Splice writer: a write that succeeds has stored its buffer, and without failures it returns.
  Asynchronous writer: the order in which requests finish makes no difference. Copying: a buffer is copied whole, in order.
  File system view: what was put into its table is found, a read gives the part of the recording that was asked for, and whole
  packets are shown without their headers.
  Where the code does something else than it means to, the theorem states what it does.

  \<^bold>\<open>Bounds and fuel\<close>

  Loops without an evident measure are partial functions, where not ending is the value \<open>None\<close> and the fault
  \<open>Diverges\<close>; theorems that they end are stated as such. The loops of the sender have fuel for the
  number of packets or files: \<open>send_buffer_in_order\<close> needs one more than the packets of the buffer. The
  file lengths in theorems are below \<open>2 ^ 31\<close> bytes, where an \<open>int\<close> result of a transfer is exact.

  \<^bold>\<open>Not modelled\<close>

  The ring buffer (\<open>ringbuf.c\<close>) is in no source list of the build. The multi-stream TCP sender, the set-up of the TCP socket and the daemon's
  set-up of sockets and file watches before its loop are left out. Alternative front ends (fanout,
  dummy, local socket, sendfile), the operations of \<open>vbs_fs.c\<close> that are commented out, the interactive sequence tools and the stand-alone
  test programs are separate programs or I/O only. Logging, statistics output and thread creation
  have no effect on the modelled state. libconfig is a parameter with its documented behaviour (\<open>cfglib_ok\<close>).
\<close>

end
